(* ===== verification/Prelude.thy ===== *)
theory Prelude
  imports Main "HOL-Library.Word"
begin

unbundle bit_operations_syntax

text \<open>
  The vocabulary every component shares: machine integers, faults of the C++ abstract
  machine as values, byte buffers with a capacity (heap and stack arrays), little-endian
  encodings of integers, and the index arithmetic of power-of-two rings.
\<close>

section \<open>Types\<close>

type_synonym u8 = "8 word"
type_synonym u16 = "16 word"
type_synonym u32 = "32 word"
type_synonym u64 = "64 word"
type_synonym bytes = "u8 list"

text \<open>
  What the C++ leaves undefined is a value of its own: a dereference of a null smart pointer,
  an access outside an array, an overflow of signed arithmetic, the conversion of a float that
  does not fit the integer type, a division by zero. A function that can do any of them returns \<open>fault + 'a\<close>.
\<close>

datatype fault = NullDeref | OutOfBounds | SignedOverflow | BadConversion | DivisionByZero | UseAfterFree

definition fbind :: "fault + 'a \<Rightarrow> ('a \<Rightarrow> fault + 'b) \<Rightarrow> fault + 'b" where
  "fbind r f = (case r of Inl e \<Rightarrow> Inl e | Inr x \<Rightarrow> f x)"

lemma fbind_simps [simp]:
  "fbind (Inl e) f = Inl e"
  "fbind (Inr x) f = f x"
  by (simp_all add: fbind_def)

lemma fbind_Inr_iff: "fbind r f = Inr y \<longleftrightarrow> (\<exists>x. r = Inr x \<and> f x = Inr y)"
  by (cases r) auto

lemma fbind_Inl_iff: "fbind r f = Inl e \<longleftrightarrow> r = Inl e \<or> (\<exists>x. r = Inr x \<and> f x = Inl e)"
  by (cases r) auto

lemma fbind_cong:
  "r = r' \<Longrightarrow> (\<And>x. r' = Inr x \<Longrightarrow> f x = g x) \<Longrightarrow> fbind r f = fbind r' g"
  by (cases r') auto

lemma fbind_InrE:
  assumes "fbind r f = Inr y"
  obtains x where "r = Inr x" and "f x = Inr y"
  using assms by (cases r) auto

text \<open>The collection of facts that unfold a component's small helpers.\<close>

named_theorems model_simps

section \<open>Byte buffers\<close>

text \<open>
  An array of bytes with a fixed size: \<open>std::vector<uint8_t>\<close> after \<open>resize\<close>, or a
  stack array. Reads and writes outside \<open>cap\<close> are faults.
\<close>

record buf =
  cells :: "nat \<Rightarrow> u8"
  cap :: nat

definition buf_read :: "buf \<Rightarrow> nat \<Rightarrow> nat \<Rightarrow> fault + bytes" where
  "buf_read b off n =
     (if off + n \<le> cap b then Inr (map (cells b) [off..<off + n]) else Inl OutOfBounds)"

definition poke :: "(nat \<Rightarrow> u8) \<Rightarrow> nat \<Rightarrow> bytes \<Rightarrow> nat \<Rightarrow> u8" where
  "poke m off bs = (\<lambda>i. if off \<le> i \<and> i < off + length bs then bs ! (i - off) else m i)"

definition buf_write :: "buf \<Rightarrow> nat \<Rightarrow> bytes \<Rightarrow> fault + buf" where
  "buf_write b off bs =
     (if off + length bs \<le> cap b then Inr (b\<lparr>cells := poke (cells b) off bs\<rparr>)
      else Inl OutOfBounds)"

lemma poke_outside: "i < off \<or> off + length bs \<le> i \<Longrightarrow> poke m off bs i = m i"
  by (auto simp: poke_def)

lemma poke_inside: "k < length bs \<Longrightarrow> poke m off bs (off + k) = bs ! k"
  by (simp add: poke_def)

lemma map_poke_same: "map (poke m off bs) [off..<off + length bs] = bs"
  by (rule nth_equalityI) (simp_all add: poke_inside)

lemma map_poke_disjoint:
  "b \<le> off \<or> off + length bs \<le> a \<Longrightarrow> map (poke m off bs) [a..<b] = map m [a..<b]"
  by (auto simp: poke_def)

lemma buf_write_Inr: "buf_write b off bs = Inr b' \<longleftrightarrow>
    off + length bs \<le> cap b \<and> b' = b\<lparr>cells := poke (cells b) off bs\<rparr>"
  by (auto simp: buf_write_def)

text \<open>The same for a short array kept as a list (the \<open>data\<close> of a packet).\<close>

definition vec_read :: "bytes \<Rightarrow> nat \<Rightarrow> nat \<Rightarrow> fault + bytes" where
  "vec_read v off n = (if off + n \<le> length v then Inr (take n (drop off v)) else Inl OutOfBounds)"

definition vec_write :: "bytes \<Rightarrow> nat \<Rightarrow> bytes \<Rightarrow> fault + bytes" where
  "vec_write v off bs =
     (if off + length bs \<le> length v then Inr (take off v @ bs @ drop (off + length bs) v)
      else Inl OutOfBounds)"

lemma vec_write_Inr: "vec_write v off bs = Inr v' \<longleftrightarrow>
    off + length bs \<le> length v \<and> v' = take off v @ bs @ drop (off + length bs) v"
  by (auto simp: vec_write_def)

lemma vec_write_length: "vec_write v off bs = Inr v' \<Longrightarrow> length v' = length v"
  by (auto simp: vec_write_Inr)

lemma vec_read_write: "vec_write v off bs = Inr v' \<Longrightarrow> vec_read v' off (length bs) = Inr bs"
  by (auto simp: vec_write_Inr vec_read_def)

text \<open>A datagram, or a plaintext, overwrites the front of the buffer it is read into.\<close>

definition into_buffer :: "bytes \<Rightarrow> bytes \<Rightarrow> bytes" where
  "into_buffer dg buf = dg @ drop (length dg) buf"

definition vec_grow :: "nat \<Rightarrow> 'a \<Rightarrow> 'a list \<Rightarrow> 'a list" where
  "vec_grow n x v = v @ replicate (n - length v) x"

lemma vec_grow_enough [simp]: "n \<le> length v \<Longrightarrow> vec_grow n x v = v"
  by (simp add: vec_grow_def)

section \<open>Little-endian integers\<close>

fun le_bytes :: "nat \<Rightarrow> nat \<Rightarrow> bytes" where
  "le_bytes 0 n = []"
| "le_bytes (Suc k) n = of_nat (n mod 256) # le_bytes k (n div 256)"

fun le_nat :: "bytes \<Rightarrow> nat" where
  "le_nat [] = 0"
| "le_nat (b # bs) = unat b + 256 * le_nat bs"

lemma length_le_bytes [simp]: "length (le_bytes k n) = k"
  by (induction k arbitrary: n) auto

lemma unat_of_nat_mod_256: "unat (of_nat (n mod 256) :: u8) = n mod 256"
  by (simp add: unat_of_nat)

lemma le_nat_le_bytes: "le_nat (le_bytes k n) = n mod 256 ^ k"
proof (induction k arbitrary: n)
  case 0
  then show ?case by simp
next
  case (Suc k)
  have "le_nat (le_bytes (Suc k) n) = n mod 256 + 256 * (n div 256 mod 256 ^ k)"
    using Suc.IH [of "n div 256"] by (simp add: unat_of_nat_mod_256)
  also have "\<dots> = n mod (256 * 256 ^ k)"
    by (simp add: mod_mult2_eq)
  finally show ?case by simp
qed

lemma le_bytes_le_nat: "le_bytes (length bs) (le_nat bs) = bs"
proof (induction bs)
  case Nil
  then show ?case by simp
next
  case (Cons b bs)
  have small: "unat b < 256" using unsigned_less [of b] by simp
  then have "(unat b + 256 * le_nat bs) div 256 = le_nat bs"
    and "(unat b + 256 * le_nat bs) mod 256 = unat b"
    by simp_all
  with Cons show ?case by simp
qed

lemma le_nat_less: "le_nat bs < 256 ^ length bs"
proof (induction bs)
  case Nil
  then show ?case by simp
next
  case (Cons b bs)
  have "unat b < 256" using unsigned_less [of b] by simp
  with Cons show ?case by simp
qed

text \<open>A field of a packed struct: \<open>n\<close> bytes at offset \<open>off\<close>, read as an unsigned integer.\<close>

definition fld :: "nat \<Rightarrow> nat \<Rightarrow> bytes \<Rightarrow> nat" where
  "fld off n bs = le_nat (take n (drop off bs))"

definition put :: "nat \<Rightarrow> 'a::len word \<Rightarrow> bytes" where
  "put k w = le_bytes k (unat w)"

lemma length_put [simp]: "length (put k w) = k"
  by (simp add: put_def)

lemma le_nat_put: "LENGTH('a) = 8 * k \<Longrightarrow> le_nat (put k (w :: 'a::len word)) = unat w"
  using unsigned_less [of w, where ?'a = nat] by (simp add: put_def le_nat_le_bytes power_mult)

lemma of_nat_le_nat_put [simp]:
  "of_nat (le_nat (put 1 (a :: u8))) = a"
  "of_nat (le_nat (put 2 (b :: u16))) = b"
  "of_nat (le_nat (put 4 (c :: u32))) = c"
  "of_nat (le_nat (put 8 (d :: u64))) = d"
  by (simp_all add: le_nat_put)

lemma put_of_nat_le_nat:
  "length bs = k \<Longrightarrow> LENGTH('a) = 8 * k \<Longrightarrow> put k (of_nat (le_nat bs) :: 'a::len word) = bs"
  using le_nat_less [of bs] le_bytes_le_nat [of bs]
  by (simp add: put_def unat_of_nat power_mult)

section \<open>Rings\<close>

lemma unat_of_nat_small: "n < 2 ^ LENGTH('a) \<Longrightarrow> unat (of_nat n :: 'a::len word) = n"
  by (simp add: unat_of_nat)

lemma unat_of_nat_u64: "n < 18446744073709551616 \<Longrightarrow> unat (of_nat n :: u64) = n"
  by (rule unat_of_nat_small) simp

lemma unat_of_nat_u32: "n < 4294967296 \<Longrightarrow> unat (of_nat n :: u32) = n"
  by (rule unat_of_nat_small) simp

lemma unat_of_nat_u16: "n < 65536 \<Longrightarrow> unat (of_nat n :: u16) = n"
  by (rule unat_of_nat_small) simp


text \<open>
  \<open>FixedRingBuffer\<close> and the queues index an array of \<open>2 ^ k\<close> slots by a counter that
  wraps at its own width; distinct counters less than a ring apart use distinct slots.
\<close>

lemma mod_neq_of_close:
  fixes a b n :: nat
  assumes "a < b" and "b - a < n"
  shows "a mod n \<noteq> b mod n"
proof
  assume "a mod n = b mod n"
  then have "b mod n = a mod n" by simp
  then have "n dvd b - a"
    using assms(1) mod_eq_dvd_iff_nat [of a b n] by simp
  with assms show False
    by (auto dest: dvd_imp_le)
qed

lemma mod_neq_close_sym:
  fixes a b n :: nat
  shows "b < a \<Longrightarrow> a - b < n \<Longrightarrow> a mod n \<noteq> b mod n"
  using mod_neq_of_close [of b a n] by simp

lemma mod_64_mult: "(n::nat) mod (64 * k) = 64 * (n div 64 mod k) + n mod 64"
  by (simp add: mod_mult2_eq)

section \<open>Text\<close>

text \<open>\<open>s.find(t) != std::string::npos\<close>.\<close>

definition contains :: "string \<Rightarrow> string \<Rightarrow> bool" where
  "contains t s = list_ex (\<lambda>n. take (length t) (drop n s) = t) [0..<Suc (length s - length t)]"


text \<open>\<open>std::to_string\<close> of an integer, and the value of a string of digits.\<close>

definition digit :: "nat \<Rightarrow> char" where
  "digit n = char_of (48 + n)"

fun dec_nat :: "nat \<Rightarrow> string" where
  "dec_nat n = (if n < 10 then [digit n] else dec_nat (n div 10) @ [digit (n mod 10)])"

declare dec_nat.simps [simp del]

definition dec_int :: "int \<Rightarrow> string" where
  "dec_int k = (if k < 0 then CHR ''-'' # dec_nat (nat (- k)) else dec_nat (nat k))"

definition is_digit :: "char \<Rightarrow> bool" where
  "is_digit c \<longleftrightarrow> 48 \<le> (of_char c :: nat) \<and> (of_char c :: nat) \<le> 57"

definition dec_value :: "string \<Rightarrow> nat" where
  "dec_value = foldl (\<lambda>a c. 10 * a + (of_char c - 48)) 0"

lemma of_char_digit: "n < 10 \<Longrightarrow> (of_char (digit n) :: nat) = 48 + n"
  by (simp add: digit_def)

lemma dec_value_snoc: "dec_value (cs @ [c]) = 10 * dec_value cs + (of_char c - 48)"
  by (simp add: dec_value_def)

lemma dec_value_dec_nat [simp]: "dec_value (dec_nat n) = n"
proof (induction n rule: dec_nat.induct)
  case (1 n)
  show ?case
  proof (cases "n < 10")
    case True
    then show ?thesis by (subst dec_nat.simps) (simp add: dec_value_def of_char_digit)
  next
    case False
    then show ?thesis using 1 by (subst dec_nat.simps) (simp add: dec_value_snoc of_char_digit)
  qed
qed

lemma dec_nat_digits: "list_all is_digit (dec_nat n)"
proof (induction n rule: dec_nat.induct)
  case (1 n)
  have "is_digit (digit k)" if "k < 10" for k using that by (simp add: is_digit_def of_char_digit)
  then show ?case using 1 by (subst dec_nat.simps) simp
qed

lemma dec_nat_not_Nil [simp]: "dec_nat n \<noteq> []"
  by (subst dec_nat.simps) simp

lemma list_all2_left: "list_all2 P xs ys \<Longrightarrow> x \<in> set xs \<Longrightarrow> \<exists>y \<in> set ys. P x y"
  by (induction rule: list_all2_induct) auto

lemma list_all2_right: "list_all2 P xs ys \<Longrightarrow> y \<in> set ys \<Longrightarrow> \<exists>x \<in> set xs. P x y"
  by (induction rule: list_all2_induct) auto

end
