(* ===== verification/Wire.thy ===== *)
theory Wire
  imports Prelude
begin

text \<open>
  The wire format, \<open>cpp/common/protocol.hpp\<close>. The structs are declared under
  \<open>#pragma pack(push, 1)\<close> and the program moves them with \<open>memcpy\<close> and pointer casts on a
  little-endian machine, so a struct is the concatenation of its fields in declaration order
  (\<open>enc_*\<close>) and a cast reads each field at its offset (\<open>dec_*\<close>). Integers keep their width;
  a signed field is the word with the same bits (read with \<open>sint\<close>), a \<open>float\<close> field its 32
  bits, a \<open>char\<close> or \<open>uint8_t\<close> array a byte list of the array's length.

  The locale \<open>packed\<close> is the contract of such a format; every struct interprets it.
\<close>

section \<open>Packet and input types\<close>

datatype PacketType = PtVideo | PtInput | PtDiscovery | PtHandshake | PtFEC | PtFeedback
  | PtHandshakeResponse | PtHandshakeSecure | PtHandshakeSecureResponse | PtSecure | PtAudio
  | PtTimeSync | PtCandidateDiscovery | PtRelayData | PtRetransmitRequest

primrec pt_code :: "PacketType \<Rightarrow> u8" where
  "pt_code PtVideo = 0x01"
| "pt_code PtInput = 0x02"
| "pt_code PtDiscovery = 0x03"
| "pt_code PtHandshake = 0x04"
| "pt_code PtFEC = 0x05"
| "pt_code PtFeedback = 0x06"
| "pt_code PtHandshakeResponse = 0x07"
| "pt_code PtHandshakeSecure = 0x08"
| "pt_code PtHandshakeSecureResponse = 0x09"
| "pt_code PtSecure = 0x0A"
| "pt_code PtAudio = 0x0B"
| "pt_code PtTimeSync = 0x0C"
| "pt_code PtCandidateDiscovery = 0x0D"
| "pt_code PtRelayData = 0x0E"
| "pt_code PtRetransmitRequest = 0x0F"

datatype InputType = ItKeyboard | ItMouseMove | ItMouseButton | ItMouseScroll | ItGamepad
  | ItGamepadStatus

primrec it_code :: "InputType \<Rightarrow> u8" where
  "it_code ItKeyboard = 0x01"
| "it_code ItMouseMove = 0x02"
| "it_code ItMouseButton = 0x03"
| "it_code ItMouseScroll = 0x04"
| "it_code ItGamepad = 0x05"
| "it_code ItGamepadStatus = 0x06"

definition MAX_UDP_PAYLOAD :: nat where
  "MAX_UDP_PAYLOAD = 1300"

lemma pt_code_eq_iff [simp]: "pt_code a = pt_code b \<longleftrightarrow> a = b"
  by (cases a; cases b) simp_all

lemma it_code_eq_iff [simp]: "it_code a = it_code b \<longleftrightarrow> a = b"
  by (cases a; cases b) simp_all

section \<open>The contract of a packed struct\<close>

locale packed =
  fixes size :: nat
    and enc :: "'r \<Rightarrow> bytes"
    and dec :: "bytes \<Rightarrow> 'r"
    and ok :: "'r \<Rightarrow> bool"
  assumes length_enc: "ok r \<Longrightarrow> length (enc r) = size"
    and dec_enc_append: "ok r \<Longrightarrow> dec (enc r @ rest) = r"
    and enc_dec: "size \<le> length bs \<Longrightarrow> enc (dec bs) = take size bs"
    and ok_dec: "size \<le> length bs \<Longrightarrow> ok (dec bs)"
begin

lemma dec_enc: "ok r \<Longrightarrow> dec (enc r) = r"
  using dec_enc_append [of r "[]"] by simp

lemma payload_after: "ok r \<Longrightarrow> drop size (enc r @ rest) = rest"
  by (simp add: length_enc)

lemma enc_append_inject:
  assumes "ok r" and "ok r'" and "enc r @ p = enc r' @ p'"
  shows "r = r' \<and> p = p'"
  using dec_enc_append [OF assms(1), of p] dec_enc_append [OF assms(2), of p'] assms
    payload_after [OF assms(1), of p] payload_after [OF assms(2), of p']
  by simp

lemma dec_eq_iff:
  assumes "size \<le> length bs" and "size \<le> length bs'"
  shows "dec bs = dec bs' \<longleftrightarrow> take size bs = take size bs'"
proof
  assume "dec bs = dec bs'"
  with enc_dec [OF assms(1)] enc_dec [OF assms(2)] show "take size bs = take size bs'" by simp
next
  assume "take size bs = take size bs'"
  then have "enc (dec bs) = enc (dec bs')" using enc_dec assms by simp
  with dec_enc ok_dec assms show "dec bs = dec bs'" by metis
qed

lemma reassemble: "size \<le> length bs \<Longrightarrow> enc (dec bs) @ drop size bs = bs"
  by (simp add: enc_dec)

end

section \<open>Reading a field back\<close>

lemma fld_here: "length xs = n \<Longrightarrow> fld 0 n (xs @ ys) = le_nat xs"
  by (simp add: fld_def)

lemma fld_here_end: "length xs = n \<Longrightarrow> fld 0 n xs = le_nat xs"
  by (simp add: fld_def)

lemma fld_skip: "length xs \<le> off \<Longrightarrow> fld off n (xs @ ys) = fld (off - length xs) n ys"
  by (simp add: fld_def)

lemma put_fld:
  assumes "off + k \<le> length bs" and "LENGTH('a) = 8 * k"
  shows "put k (of_nat (fld off k bs) :: 'a::len word) = take k (drop off bs)"
  using assms by (simp add: fld_def put_of_nat_le_nat)

lemma put_fld_widths:
  "off + 1 \<le> length bs \<Longrightarrow> put 1 (of_nat (fld off 1 bs) :: u8) = take 1 (drop off bs)"
  "off + 2 \<le> length bs \<Longrightarrow> put 2 (of_nat (fld off 2 bs) :: u16) = take 2 (drop off bs)"
  "off + 4 \<le> length bs \<Longrightarrow> put 4 (of_nat (fld off 4 bs) :: u32) = take 4 (drop off bs)"
  "off + 8 \<le> length bs \<Longrightarrow> put 8 (of_nat (fld off 8 bs) :: u64) = take 8 (drop off bs)"
  by (simp_all add: put_fld)

lemma take_join: "b = a + i \<Longrightarrow> take i (drop a bs) @ take j (drop b bs) = take (i + j) (drop a bs)"
  by (simp add: take_add add.commute)

lemma take_join_more:
  "b = a + i \<Longrightarrow> take i (drop a bs) @ take j (drop b bs) @ zs = take (i + j) (drop a bs) @ zs"
  by (simp add: take_add add.commute)

lemma take_join_0:
  "take i bs @ take j (drop i bs) = take (i + j) bs"
  "take i bs @ take j (drop i bs) @ zs = take (i + j) bs @ zs"
  by (simp_all add: take_add)

lemmas wire_simps = fld_here fld_here_end fld_skip put_fld_widths take_join take_join_more
  take_join_0

section \<open>The structs\<close>

subsection \<open>VideoHeader\<close>

record VideoHeader =
  vh_type :: u8
  vh_frameId :: u32
  vh_fragmentIndex :: u16
  vh_totalFragments :: u16
  vh_packetSequence :: u32
  vh_captureTimestamp :: u64
  vh_encodeStartTimestamp :: u64
  vh_encodeEndTimestamp :: u64
  vh_flags :: u8
  vh_dataSize :: u16

definition enc_VideoHeader :: "VideoHeader \<Rightarrow> bytes" where
  "enc_VideoHeader r =
     put 1 (vh_type r) @ put 4 (vh_frameId r) @
     put 2 (vh_fragmentIndex r) @ put 2 (vh_totalFragments r) @
     put 4 (vh_packetSequence r) @ put 8 (vh_captureTimestamp r) @
     put 8 (vh_encodeStartTimestamp r) @ put 8 (vh_encodeEndTimestamp r) @
     put 1 (vh_flags r) @ put 2 (vh_dataSize r)"

definition dec_VideoHeader :: "bytes \<Rightarrow> VideoHeader" where
  "dec_VideoHeader bs = \<lparr>
     vh_type = of_nat (fld 0 1 bs),
     vh_frameId = of_nat (fld 1 4 bs),
     vh_fragmentIndex = of_nat (fld 5 2 bs),
     vh_totalFragments = of_nat (fld 7 2 bs),
     vh_packetSequence = of_nat (fld 9 4 bs),
     vh_captureTimestamp = of_nat (fld 13 8 bs),
     vh_encodeStartTimestamp = of_nat (fld 21 8 bs),
     vh_encodeEndTimestamp = of_nat (fld 29 8 bs),
     vh_flags = of_nat (fld 37 1 bs),
     vh_dataSize = of_nat (fld 38 2 bs)\<rparr>"

interpretation vh_fmt: packed 40 enc_VideoHeader dec_VideoHeader "(\<lambda>_. True)"
  by unfold_locales (auto simp: enc_VideoHeader_def dec_VideoHeader_def wire_simps simp del: One_nat_def)

subsection \<open>AudioHeader\<close>

record AudioHeader =
  ah_type :: u8
  ah_frameId :: u32
  ah_timestamp :: u64
  ah_dataSize :: u16

definition enc_AudioHeader :: "AudioHeader \<Rightarrow> bytes" where
  "enc_AudioHeader r =
     put 1 (ah_type r) @ put 4 (ah_frameId r) @
     put 8 (ah_timestamp r) @ put 2 (ah_dataSize r)"

definition dec_AudioHeader :: "bytes \<Rightarrow> AudioHeader" where
  "dec_AudioHeader bs = \<lparr>
     ah_type = of_nat (fld 0 1 bs),
     ah_frameId = of_nat (fld 1 4 bs),
     ah_timestamp = of_nat (fld 5 8 bs),
     ah_dataSize = of_nat (fld 13 2 bs)\<rparr>"

interpretation ah_fmt: packed 15 enc_AudioHeader dec_AudioHeader "(\<lambda>_. True)"
  by unfold_locales (auto simp: enc_AudioHeader_def dec_AudioHeader_def wire_simps simp del: One_nat_def)

subsection \<open>FECHeader\<close>

record FECHeader =
  fh_type :: u8
  fh_frameId :: u32
  fh_fragmentStart :: u16
  fh_fragmentCount :: u16
  fh_packetSequence :: u32
  fh_dataSize :: u16

definition enc_FECHeader :: "FECHeader \<Rightarrow> bytes" where
  "enc_FECHeader r =
     put 1 (fh_type r) @ put 4 (fh_frameId r) @
     put 2 (fh_fragmentStart r) @ put 2 (fh_fragmentCount r) @
     put 4 (fh_packetSequence r) @ put 2 (fh_dataSize r)"

definition dec_FECHeader :: "bytes \<Rightarrow> FECHeader" where
  "dec_FECHeader bs = \<lparr>
     fh_type = of_nat (fld 0 1 bs),
     fh_frameId = of_nat (fld 1 4 bs),
     fh_fragmentStart = of_nat (fld 5 2 bs),
     fh_fragmentCount = of_nat (fld 7 2 bs),
     fh_packetSequence = of_nat (fld 9 4 bs),
     fh_dataSize = of_nat (fld 13 2 bs)\<rparr>"

interpretation fh_fmt: packed 15 enc_FECHeader dec_FECHeader "(\<lambda>_. True)"
  by unfold_locales (auto simp: enc_FECHeader_def dec_FECHeader_def wire_simps simp del: One_nat_def)

subsection \<open>FeedbackHeader\<close>

record FeedbackHeader =
  fb_type :: u8
  fb_lastReceivedFrameId :: u32
  fb_lossRate :: u32
  fb_rttMs :: u32
  fb_avgDecodeTimeMs :: u32
  fb_requestKeyframe :: u8
  fb_targetBitrateKbps :: u16
  fb_resolutionScale :: u32

definition enc_FeedbackHeader :: "FeedbackHeader \<Rightarrow> bytes" where
  "enc_FeedbackHeader r =
     put 1 (fb_type r) @ put 4 (fb_lastReceivedFrameId r) @
     put 4 (fb_lossRate r) @ put 4 (fb_rttMs r) @
     put 4 (fb_avgDecodeTimeMs r) @ put 1 (fb_requestKeyframe r) @
     put 2 (fb_targetBitrateKbps r) @ put 4 (fb_resolutionScale r)"

definition dec_FeedbackHeader :: "bytes \<Rightarrow> FeedbackHeader" where
  "dec_FeedbackHeader bs = \<lparr>
     fb_type = of_nat (fld 0 1 bs),
     fb_lastReceivedFrameId = of_nat (fld 1 4 bs),
     fb_lossRate = of_nat (fld 5 4 bs),
     fb_rttMs = of_nat (fld 9 4 bs),
     fb_avgDecodeTimeMs = of_nat (fld 13 4 bs),
     fb_requestKeyframe = of_nat (fld 17 1 bs),
     fb_targetBitrateKbps = of_nat (fld 18 2 bs),
     fb_resolutionScale = of_nat (fld 20 4 bs)\<rparr>"

interpretation fb_fmt: packed 24 enc_FeedbackHeader dec_FeedbackHeader "(\<lambda>_. True)"
  by unfold_locales (auto simp: enc_FeedbackHeader_def dec_FeedbackHeader_def wire_simps simp del: One_nat_def)

subsection \<open>InputHeader\<close>

record InputHeader =
  ih_type :: u8
  ih_inputType :: u8
  ih_timestamp :: u64

definition enc_InputHeader :: "InputHeader \<Rightarrow> bytes" where
  "enc_InputHeader r =
     put 1 (ih_type r) @ put 1 (ih_inputType r) @
     put 8 (ih_timestamp r)"

definition dec_InputHeader :: "bytes \<Rightarrow> InputHeader" where
  "dec_InputHeader bs = \<lparr>
     ih_type = of_nat (fld 0 1 bs),
     ih_inputType = of_nat (fld 1 1 bs),
     ih_timestamp = of_nat (fld 2 8 bs)\<rparr>"

interpretation ih_fmt: packed 10 enc_InputHeader dec_InputHeader "(\<lambda>_. True)"
  by unfold_locales (auto simp: enc_InputHeader_def dec_InputHeader_def wire_simps simp del: One_nat_def)

subsection \<open>TimeSyncPacket\<close>

record TimeSyncPacket =
  ts_type :: u8
  ts_clientSendTimestamp :: u64

definition enc_TimeSyncPacket :: "TimeSyncPacket \<Rightarrow> bytes" where
  "enc_TimeSyncPacket r =
     put 1 (ts_type r) @ put 8 (ts_clientSendTimestamp r)"

definition dec_TimeSyncPacket :: "bytes \<Rightarrow> TimeSyncPacket" where
  "dec_TimeSyncPacket bs = \<lparr>
     ts_type = of_nat (fld 0 1 bs),
     ts_clientSendTimestamp = of_nat (fld 1 8 bs)\<rparr>"

interpretation ts_fmt: packed 9 enc_TimeSyncPacket dec_TimeSyncPacket "(\<lambda>_. True)"
  by unfold_locales (auto simp: enc_TimeSyncPacket_def dec_TimeSyncPacket_def wire_simps simp del: One_nat_def)

subsection \<open>TimeSyncResponsePacket\<close>

record TimeSyncResponsePacket =
  tr_type :: u8
  tr_clientSendTimestamp :: u64
  tr_hostReceiveTimestamp :: u64
  tr_hostSendTimestamp :: u64

definition enc_TimeSyncResponsePacket :: "TimeSyncResponsePacket \<Rightarrow> bytes" where
  "enc_TimeSyncResponsePacket r =
     put 1 (tr_type r) @ put 8 (tr_clientSendTimestamp r) @
     put 8 (tr_hostReceiveTimestamp r) @ put 8 (tr_hostSendTimestamp r)"

definition dec_TimeSyncResponsePacket :: "bytes \<Rightarrow> TimeSyncResponsePacket" where
  "dec_TimeSyncResponsePacket bs = \<lparr>
     tr_type = of_nat (fld 0 1 bs),
     tr_clientSendTimestamp = of_nat (fld 1 8 bs),
     tr_hostReceiveTimestamp = of_nat (fld 9 8 bs),
     tr_hostSendTimestamp = of_nat (fld 17 8 bs)\<rparr>"

interpretation tr_fmt: packed 25 enc_TimeSyncResponsePacket dec_TimeSyncResponsePacket "(\<lambda>_. True)"
  by unfold_locales (auto simp: enc_TimeSyncResponsePacket_def dec_TimeSyncResponsePacket_def wire_simps simp del: One_nat_def)

subsection \<open>KeyboardEvent\<close>

record KeyboardEvent =
  ke_vkCode :: u16
  ke_isPressed :: u8

definition enc_KeyboardEvent :: "KeyboardEvent \<Rightarrow> bytes" where
  "enc_KeyboardEvent r =
     put 2 (ke_vkCode r) @ put 1 (ke_isPressed r)"

definition dec_KeyboardEvent :: "bytes \<Rightarrow> KeyboardEvent" where
  "dec_KeyboardEvent bs = \<lparr>
     ke_vkCode = of_nat (fld 0 2 bs),
     ke_isPressed = of_nat (fld 2 1 bs)\<rparr>"

interpretation ke_fmt: packed 3 enc_KeyboardEvent dec_KeyboardEvent "(\<lambda>_. True)"
  by unfold_locales (auto simp: enc_KeyboardEvent_def dec_KeyboardEvent_def wire_simps simp del: One_nat_def)

subsection \<open>MouseMoveEvent\<close>

record MouseMoveEvent =
  mm_x :: u32
  mm_y :: u32
  mm_screenWidth :: u32
  mm_screenHeight :: u32
  mm_isRelative :: u8

definition enc_MouseMoveEvent :: "MouseMoveEvent \<Rightarrow> bytes" where
  "enc_MouseMoveEvent r =
     put 4 (mm_x r) @ put 4 (mm_y r) @
     put 4 (mm_screenWidth r) @ put 4 (mm_screenHeight r) @
     put 1 (mm_isRelative r)"

definition dec_MouseMoveEvent :: "bytes \<Rightarrow> MouseMoveEvent" where
  "dec_MouseMoveEvent bs = \<lparr>
     mm_x = of_nat (fld 0 4 bs),
     mm_y = of_nat (fld 4 4 bs),
     mm_screenWidth = of_nat (fld 8 4 bs),
     mm_screenHeight = of_nat (fld 12 4 bs),
     mm_isRelative = of_nat (fld 16 1 bs)\<rparr>"

interpretation mm_fmt: packed 17 enc_MouseMoveEvent dec_MouseMoveEvent "(\<lambda>_. True)"
  by unfold_locales (auto simp: enc_MouseMoveEvent_def dec_MouseMoveEvent_def wire_simps simp del: One_nat_def)

subsection \<open>MouseButtonEvent\<close>

record MouseButtonEvent =
  mb_button :: u8
  mb_isPressed :: u8

definition enc_MouseButtonEvent :: "MouseButtonEvent \<Rightarrow> bytes" where
  "enc_MouseButtonEvent r =
     put 1 (mb_button r) @ put 1 (mb_isPressed r)"

definition dec_MouseButtonEvent :: "bytes \<Rightarrow> MouseButtonEvent" where
  "dec_MouseButtonEvent bs = \<lparr>
     mb_button = of_nat (fld 0 1 bs),
     mb_isPressed = of_nat (fld 1 1 bs)\<rparr>"

interpretation mb_fmt: packed 2 enc_MouseButtonEvent dec_MouseButtonEvent "(\<lambda>_. True)"
  by unfold_locales (auto simp: enc_MouseButtonEvent_def dec_MouseButtonEvent_def wire_simps simp del: One_nat_def)

subsection \<open>MouseScrollEvent\<close>

record MouseScrollEvent =
  ms_delta :: u32

definition enc_MouseScrollEvent :: "MouseScrollEvent \<Rightarrow> bytes" where
  "enc_MouseScrollEvent r =
     put 4 (ms_delta r)"

definition dec_MouseScrollEvent :: "bytes \<Rightarrow> MouseScrollEvent" where
  "dec_MouseScrollEvent bs = \<lparr>
     ms_delta = of_nat (fld 0 4 bs)\<rparr>"

interpretation ms_fmt: packed 4 enc_MouseScrollEvent dec_MouseScrollEvent "(\<lambda>_. True)"
  by unfold_locales (auto simp: enc_MouseScrollEvent_def dec_MouseScrollEvent_def wire_simps simp del: One_nat_def)

subsection \<open>GamepadState\<close>

record GamepadState =
  gs_gamepadId :: u8
  gs_buttons :: u16
  gs_leftTrigger :: u8
  gs_rightTrigger :: u8
  gs_thumbLX :: u16
  gs_thumbLY :: u16
  gs_thumbRX :: u16
  gs_thumbRY :: u16

definition enc_GamepadState :: "GamepadState \<Rightarrow> bytes" where
  "enc_GamepadState r =
     put 1 (gs_gamepadId r) @ put 2 (gs_buttons r) @
     put 1 (gs_leftTrigger r) @ put 1 (gs_rightTrigger r) @
     put 2 (gs_thumbLX r) @ put 2 (gs_thumbLY r) @
     put 2 (gs_thumbRX r) @ put 2 (gs_thumbRY r)"

definition dec_GamepadState :: "bytes \<Rightarrow> GamepadState" where
  "dec_GamepadState bs = \<lparr>
     gs_gamepadId = of_nat (fld 0 1 bs),
     gs_buttons = of_nat (fld 1 2 bs),
     gs_leftTrigger = of_nat (fld 3 1 bs),
     gs_rightTrigger = of_nat (fld 4 1 bs),
     gs_thumbLX = of_nat (fld 5 2 bs),
     gs_thumbLY = of_nat (fld 7 2 bs),
     gs_thumbRX = of_nat (fld 9 2 bs),
     gs_thumbRY = of_nat (fld 11 2 bs)\<rparr>"

interpretation gs_fmt: packed 13 enc_GamepadState dec_GamepadState "(\<lambda>_. True)"
  by unfold_locales (auto simp: enc_GamepadState_def dec_GamepadState_def wire_simps simp del: One_nat_def)

subsection \<open>GamepadStatusEvent\<close>

record GamepadStatusEvent =
  ge_gamepadId :: u8
  ge_isConnected :: u8

definition enc_GamepadStatusEvent :: "GamepadStatusEvent \<Rightarrow> bytes" where
  "enc_GamepadStatusEvent r =
     put 1 (ge_gamepadId r) @ put 1 (ge_isConnected r)"

definition dec_GamepadStatusEvent :: "bytes \<Rightarrow> GamepadStatusEvent" where
  "dec_GamepadStatusEvent bs = \<lparr>
     ge_gamepadId = of_nat (fld 0 1 bs),
     ge_isConnected = of_nat (fld 1 1 bs)\<rparr>"

interpretation ge_fmt: packed 2 enc_GamepadStatusEvent dec_GamepadStatusEvent "(\<lambda>_. True)"
  by unfold_locales (auto simp: enc_GamepadStatusEvent_def dec_GamepadStatusEvent_def wire_simps simp del: One_nat_def)

subsection \<open>HandshakeSecurePacket\<close>

record HandshakeSecurePacket =
  hs_type :: u8
  hs_clientPublicKey :: bytes
  hs_username :: bytes

definition enc_HandshakeSecurePacket :: "HandshakeSecurePacket \<Rightarrow> bytes" where
  "enc_HandshakeSecurePacket r =
     put 1 (hs_type r) @ hs_clientPublicKey r @
     hs_username r"

definition dec_HandshakeSecurePacket :: "bytes \<Rightarrow> HandshakeSecurePacket" where
  "dec_HandshakeSecurePacket bs = \<lparr>
     hs_type = of_nat (fld 0 1 bs),
     hs_clientPublicKey = take 32 (drop 1 bs),
     hs_username = take 32 (drop 33 bs)\<rparr>"

interpretation hs_fmt: packed 65 enc_HandshakeSecurePacket dec_HandshakeSecurePacket "(\<lambda>r. length (hs_clientPublicKey r) = 32 \<and> length (hs_username r) = 32)"
  by unfold_locales (auto simp: enc_HandshakeSecurePacket_def dec_HandshakeSecurePacket_def wire_simps simp del: One_nat_def)

subsection \<open>HandshakeSecureResponsePacket\<close>

record HandshakeSecureResponsePacket =
  hr_type :: u8
  hr_hostPublicKey :: bytes
  hr_approved :: u8
  hr_sessionId :: u64

definition enc_HandshakeSecureResponsePacket :: "HandshakeSecureResponsePacket \<Rightarrow> bytes" where
  "enc_HandshakeSecureResponsePacket r =
     put 1 (hr_type r) @ hr_hostPublicKey r @
     put 1 (hr_approved r) @ put 8 (hr_sessionId r)"

definition dec_HandshakeSecureResponsePacket :: "bytes \<Rightarrow> HandshakeSecureResponsePacket" where
  "dec_HandshakeSecureResponsePacket bs = \<lparr>
     hr_type = of_nat (fld 0 1 bs),
     hr_hostPublicKey = take 32 (drop 1 bs),
     hr_approved = of_nat (fld 33 1 bs),
     hr_sessionId = of_nat (fld 34 8 bs)\<rparr>"

interpretation hr_fmt: packed 42 enc_HandshakeSecureResponsePacket dec_HandshakeSecureResponsePacket "(\<lambda>r. length (hr_hostPublicKey r) = 32)"
  by unfold_locales (auto simp: enc_HandshakeSecureResponsePacket_def dec_HandshakeSecureResponsePacket_def wire_simps simp del: One_nat_def)

subsection \<open>SecureHeader\<close>

record SecureHeader =
  sh_type :: u8
  sh_sessionId :: u64
  sh_sequenceNumber :: u64
  sh_encryptedSize :: u16
  sh_authTag :: bytes

definition enc_SecureHeader :: "SecureHeader \<Rightarrow> bytes" where
  "enc_SecureHeader r =
     put 1 (sh_type r) @ put 8 (sh_sessionId r) @
     put 8 (sh_sequenceNumber r) @ put 2 (sh_encryptedSize r) @
     sh_authTag r"

definition dec_SecureHeader :: "bytes \<Rightarrow> SecureHeader" where
  "dec_SecureHeader bs = \<lparr>
     sh_type = of_nat (fld 0 1 bs),
     sh_sessionId = of_nat (fld 1 8 bs),
     sh_sequenceNumber = of_nat (fld 9 8 bs),
     sh_encryptedSize = of_nat (fld 17 2 bs),
     sh_authTag = take 16 (drop 19 bs)\<rparr>"

interpretation sh_fmt: packed 35 enc_SecureHeader dec_SecureHeader "(\<lambda>r. length (sh_authTag r) = 16)"
  by unfold_locales (auto simp: enc_SecureHeader_def dec_SecureHeader_def wire_simps simp del: One_nat_def)

subsection \<open>HandshakePacket\<close>

record HandshakePacket =
  hp_type :: u8
  hp_username :: bytes

definition enc_HandshakePacket :: "HandshakePacket \<Rightarrow> bytes" where
  "enc_HandshakePacket r =
     put 1 (hp_type r) @ hp_username r"

definition dec_HandshakePacket :: "bytes \<Rightarrow> HandshakePacket" where
  "dec_HandshakePacket bs = \<lparr>
     hp_type = of_nat (fld 0 1 bs),
     hp_username = take 32 (drop 1 bs)\<rparr>"

interpretation hp_fmt: packed 33 enc_HandshakePacket dec_HandshakePacket "(\<lambda>r. length (hp_username r) = 32)"
  by unfold_locales (auto simp: enc_HandshakePacket_def dec_HandshakePacket_def wire_simps simp del: One_nat_def)

subsection \<open>HandshakeResponsePacket\<close>

record HandshakeResponsePacket =
  hq_type :: u8
  hq_approved :: u8

definition enc_HandshakeResponsePacket :: "HandshakeResponsePacket \<Rightarrow> bytes" where
  "enc_HandshakeResponsePacket r =
     put 1 (hq_type r) @ put 1 (hq_approved r)"

definition dec_HandshakeResponsePacket :: "bytes \<Rightarrow> HandshakeResponsePacket" where
  "dec_HandshakeResponsePacket bs = \<lparr>
     hq_type = of_nat (fld 0 1 bs),
     hq_approved = of_nat (fld 1 1 bs)\<rparr>"

interpretation hq_fmt: packed 2 enc_HandshakeResponsePacket dec_HandshakeResponsePacket "(\<lambda>_. True)"
  by unfold_locales (auto simp: enc_HandshakeResponsePacket_def dec_HandshakeResponsePacket_def wire_simps simp del: One_nat_def)

subsection \<open>CandidatePacket\<close>

record CandidatePacket =
  cp_type :: u8
  cp_ip :: bytes
  cp_port :: u16
  cp_priority :: u8

definition enc_CandidatePacket :: "CandidatePacket \<Rightarrow> bytes" where
  "enc_CandidatePacket r =
     put 1 (cp_type r) @ cp_ip r @
     put 2 (cp_port r) @ put 1 (cp_priority r)"

definition dec_CandidatePacket :: "bytes \<Rightarrow> CandidatePacket" where
  "dec_CandidatePacket bs = \<lparr>
     cp_type = of_nat (fld 0 1 bs),
     cp_ip = take 64 (drop 1 bs),
     cp_port = of_nat (fld 65 2 bs),
     cp_priority = of_nat (fld 67 1 bs)\<rparr>"

interpretation cp_fmt: packed 68 enc_CandidatePacket dec_CandidatePacket "(\<lambda>r. length (cp_ip r) = 64)"
  by unfold_locales (auto simp: enc_CandidatePacket_def dec_CandidatePacket_def wire_simps simp del: One_nat_def)

subsection \<open>RelayHeader\<close>

record RelayHeader =
  rh_type :: u8
  rh_sessionId :: u64
  rh_targetUUID :: bytes
  rh_dataSize :: u16

definition enc_RelayHeader :: "RelayHeader \<Rightarrow> bytes" where
  "enc_RelayHeader r =
     put 1 (rh_type r) @ put 8 (rh_sessionId r) @
     rh_targetUUID r @ put 2 (rh_dataSize r)"

definition dec_RelayHeader :: "bytes \<Rightarrow> RelayHeader" where
  "dec_RelayHeader bs = \<lparr>
     rh_type = of_nat (fld 0 1 bs),
     rh_sessionId = of_nat (fld 1 8 bs),
     rh_targetUUID = take 16 (drop 9 bs),
     rh_dataSize = of_nat (fld 25 2 bs)\<rparr>"

interpretation rh_fmt: packed 27 enc_RelayHeader dec_RelayHeader "(\<lambda>r. length (rh_targetUUID r) = 16)"
  by unfold_locales (auto simp: enc_RelayHeader_def dec_RelayHeader_def wire_simps simp del: One_nat_def)

subsection \<open>RetransmitRequestPacket\<close>

record RetransmitRequestPacket =
  rr_type :: u8
  rr_frameId :: u32
  rr_fragmentIndex :: u16

definition enc_RetransmitRequestPacket :: "RetransmitRequestPacket \<Rightarrow> bytes" where
  "enc_RetransmitRequestPacket r =
     put 1 (rr_type r) @ put 4 (rr_frameId r) @
     put 2 (rr_fragmentIndex r)"

definition dec_RetransmitRequestPacket :: "bytes \<Rightarrow> RetransmitRequestPacket" where
  "dec_RetransmitRequestPacket bs = \<lparr>
     rr_type = of_nat (fld 0 1 bs),
     rr_frameId = of_nat (fld 1 4 bs),
     rr_fragmentIndex = of_nat (fld 5 2 bs)\<rparr>"

interpretation rr_fmt: packed 7 enc_RetransmitRequestPacket dec_RetransmitRequestPacket "(\<lambda>_. True)"
  by unfold_locales (auto simp: enc_RetransmitRequestPacket_def dec_RetransmitRequestPacket_def wire_simps simp del: One_nat_def)

section \<open>Properties\<close>


text \<open>The secure envelope is a faithful frame: any buffer of at least 35 bytes is the encoding of
  the header read from it followed by the ciphertext, and two envelopes with the same bytes
  have the same session, sequence number, size, tag and ciphertext.\<close>
theorem secure_envelope_framing:
  assumes "35 \<le> length bs" and "length (sh_authTag s) = 16"
  shows "enc_SecureHeader (dec_SecureHeader bs) @ drop 35 bs = bs \<and>
    (bs = enc_SecureHeader s @ c \<longrightarrow> dec_SecureHeader bs = s \<and> drop 35 bs = c)"
  using sh_fmt.reassemble [OF assms(1)] sh_fmt.dec_enc_append [OF assms(2), of c]
    sh_fmt.payload_after [OF assms(2), of c]
  by simp

theorem secure_envelope_framing_witness:
  "enc_SecureHeader (dec_SecureHeader (replicate 36 7)) @ drop 35 (replicate 36 7) = replicate 36 7"
  using secure_envelope_framing [of "replicate 36 7"
      "\<lparr>sh_type = 0, sh_sessionId = 0, sh_sequenceNumber = 0, sh_encryptedSize = 0,
         sh_authTag = replicate 16 0\<rparr>"]
  by simp


end
