(* ===== verification/Queues.thy ===== *)
theory Queues
  imports Prelude "HOL-Library.Sublist"
begin

text \<open>
  The queues between the program's threads: \<open>LockFreeQueue\<close>
  (\<open>cpp/common/lock_free_queue.hpp\<close>) and \<open>SafeQueue\<close> (\<open>cpp/common/safe_queue.hpp\<close>).
  The locale \<open>fifo\<close> is the contract the pipeline relies on; both queues interpret it. The
  second half runs the atomic loads and stores of \<open>push\<close> and \<open>pop\<close> as separate steps of
  threads that interleave, for any number of producers and one consumer.
\<close>

section \<open>The contract\<close>

text \<open>
  \<open>push\<close> says whether it took the item; \<open>pop\<close> returns the oldest item or nothing. \<open>abs\<close> is
  the queue as a list, oldest first.
\<close>

locale fifo =
  fixes inv :: "'q \<Rightarrow> bool"
    and abs :: "'q \<Rightarrow> 'a list"
    and room :: "'q \<Rightarrow> bool"
    and push :: "'a \<Rightarrow> 'q \<Rightarrow> bool \<times> 'q"
    and pop :: "'q \<Rightarrow> 'a option \<times> 'q"
  assumes inv_push: "inv q \<Longrightarrow> inv (snd (push x q))"
    and fst_push: "inv q \<Longrightarrow> fst (push x q) = room q"
    and abs_push: "inv q \<Longrightarrow> abs (snd (push x q)) = (if room q then abs q @ [x] else abs q)"
    and inv_pop: "inv q \<Longrightarrow> inv (snd (pop q))"
    and fst_pop: "inv q \<Longrightarrow> fst (pop q) = (case abs q of [] \<Rightarrow> None | x # _ \<Rightarrow> Some x)"
    and abs_pop: "inv q \<Longrightarrow> abs (snd (pop q)) = tl (abs q)"

text \<open>A run of calls from a queue: what was accepted, what was handed out, and the queue left.\<close>

datatype 'a call = Push 'a | Pop

fun run :: "('a \<Rightarrow> 'q \<Rightarrow> bool \<times> 'q) \<Rightarrow> ('q \<Rightarrow> 'a option \<times> 'q) \<Rightarrow> 'a call list \<Rightarrow> 'q
    \<Rightarrow> 'a list \<times> 'a list \<times> 'q" where
  "run push pop [] q = ([], [], q)"
| "run push pop (Push x # cs) q =
     (let (b, q1) = push x q; (ins, outs, q2) = run push pop cs q1
      in (if b then x # ins else ins, outs, q2))"
| "run push pop (Pop # cs) q =
     (let (r, q1) = pop q; (ins, outs, q2) = run push pop cs q1
      in (ins, case r of None \<Rightarrow> outs | Some x \<Rightarrow> x # outs, q2))"

context fifo
begin

text \<open>Nothing is lost, duplicated or reordered.\<close>

lemma run_fifo:
  "inv q \<Longrightarrow> run push pop cs q = (ins, outs, q') \<Longrightarrow> inv q' \<and> abs q @ ins = outs @ abs q'"
proof (induction cs arbitrary: q ins outs)
  case (Cons c cs)
  show ?case
  proof (cases c)
    case (Push x)
    obtain b q1 where p: "push x q = (b, q1)" by (cases "push x q")
    obtain i o' q2 where r: "run push pop cs q1 = (i, o', q2)" by (cases "run push pop cs q1")
    have "q2 = q'" using Cons.prems(2) p r Push by simp
    moreover have "inv q1" using inv_push [OF Cons.prems(1), of x] p by simp
    moreover have "b = room q" "abs q1 = (if room q then abs q @ [x] else abs q)"
      using fst_push [OF Cons.prems(1), of x] abs_push [OF Cons.prems(1), of x] p by simp_all
    ultimately show ?thesis
      using Cons.IH [of q1 i o'] Cons.prems(2) p r Push by (auto split: if_splits)
  next
    case Pop
    obtain x q1 where p: "pop q = (x, q1)" by (cases "pop q")
    obtain i o' q2 where r: "run push pop cs q1 = (i, o', q2)" by (cases "run push pop cs q1")
    have "q2 = q'" using Cons.prems(2) p r Pop by simp
    moreover have "inv q1" using inv_pop [OF Cons.prems(1)] p by simp
    moreover have "x = (case abs q of [] \<Rightarrow> None | x # _ \<Rightarrow> Some x)" "abs q1 = tl (abs q)"
      using fst_pop [OF Cons.prems(1)] abs_pop [OF Cons.prems(1)] p by simp_all
    ultimately show ?thesis
      using Cons.IH [of q1 i o'] Cons.prems(2) p r Pop by (auto split: list.splits)
  qed
qed simp

end

section \<open>LockFreeQueue\<close>

text \<open>
  \<open>m_head\<close> and \<open>m_tail\<close> are \<open>size_t\<close> counters that run freely and wrap at 64 bits; an index
  is a counter masked by \<open>Capacity - 1\<close>. Moving an item out leaves the moved-from value
  \<open>mv\<close> of its type in the slot (null for the \<open>unique_ptr\<close> items of the pipeline).
\<close>

record 'a lfq =
  m_buffer :: "'a list"
  m_head :: u64
  m_tail :: u64

definition lfq_new :: "nat \<Rightarrow> 'a \<Rightarrow> 'a lfq" where
  "lfq_new capacity dflt = \<lparr>m_buffer = replicate capacity dflt, m_head = 0, m_tail = 0\<rparr>"

definition slot :: "nat \<Rightarrow> u64 \<Rightarrow> nat" where
  "slot capacity i = unat (i AND (of_nat capacity - 1))"

definition lfq_push :: "nat \<Rightarrow> 'a \<Rightarrow> 'a lfq \<Rightarrow> bool \<times> 'a lfq" where
  "lfq_push capacity item q =
     (let tl = m_tail q; hd = m_head q in
      if tl - hd \<ge> of_nat capacity then (False, q)
      else (True, q\<lparr>m_buffer := (m_buffer q)[slot capacity tl := item], m_tail := tl + 1\<rparr>))"

definition lfq_pop :: "nat \<Rightarrow> 'a \<Rightarrow> 'a lfq \<Rightarrow> 'a option \<times> 'a lfq" where
  "lfq_pop capacity mv q =
     (let hd = m_head q; tl = m_tail q in
      if hd = tl then (None, q)
      else (Some (m_buffer q ! slot capacity hd),
            q\<lparr>m_buffer := (m_buffer q)[slot capacity hd := mv], m_head := hd + 1\<rparr>))"

definition lfq_empty :: "'a lfq \<Rightarrow> bool" where
  "lfq_empty q = (m_head q = m_tail q)"

definition lfq_size :: "'a lfq \<Rightarrow> u64" where
  "lfq_size q = m_tail q - m_head q"

text \<open>The invariant, for a capacity \<open>2 ^ k\<close> (the code's \<open>static_assert\<close>), and the list view.\<close>

definition lfq_inv :: "nat \<Rightarrow> 'a lfq \<Rightarrow> bool" where
  "lfq_inv k q \<longleftrightarrow>
     k < 64 \<and> length (m_buffer q) = 2 ^ k \<and> unat (m_tail q - m_head q) \<le> 2 ^ k"

definition lfq_list :: "nat \<Rightarrow> 'a lfq \<Rightarrow> 'a list" where
  "lfq_list k q =
     map (\<lambda>i. m_buffer q ! slot (2 ^ k) (m_head q + of_nat i)) [0..<unat (m_tail q - m_head q)]"

lemma slot_of_nat: "k < 64 \<Longrightarrow> slot (2 ^ k) (of_nat n) = n mod 2 ^ k"
proof -
  assume k: "k < 64"
  have "(of_nat (2 ^ k) - 1 :: u64) = mask k" by (simp add: mask_eq_decr_exp)
  then have "slot (2 ^ k) (of_nat n) = unat (take_bit k (of_nat n :: u64))"
    by (simp add: slot_def take_bit_eq_mask)
  also have "\<dots> = take_bit k (unat (of_nat n :: u64))"
    by (rule unsigned_take_bit_eq)
  also have "\<dots> = take_bit k (take_bit 64 n)"
    by (simp add: unsigned_of_nat)
  also have "\<dots> = n mod 2 ^ k"
    using k by (simp add: take_bit_eq_mod [symmetric] del: take_bit_take_bit) (simp add: take_bit_take_bit min_def)
  finally show ?thesis .
qed

lemma slot_unat: "k < 64 \<Longrightarrow> slot (2 ^ k) w = unat w mod 2 ^ k"
  using slot_of_nat [of k "unat w"] by simp

lemma pow_less_u64: "k < 64 \<Longrightarrow> (2::nat) ^ k < 2 ^ 64"
  by (rule power_strict_increasing) simp_all

lemma unat_of_pow: "k < 64 \<Longrightarrow> unat (of_nat (2 ^ k) :: u64) = 2 ^ k"
  using pow_less_u64 [of k] by (simp add: unat_of_nat_u64 del: of_nat_power power_strict_increasing_iff)

text \<open>
  The relation the proofs use: counters \<open>n\<close> and \<open>n + length xs\<close>, the items of \<open>xs\<close> in the
  slots between them.
\<close>

definition lfq_rep :: "nat \<Rightarrow> 'a lfq \<Rightarrow> nat \<Rightarrow> 'a list \<Rightarrow> bool" where
  "lfq_rep k q n xs \<longleftrightarrow> k < 64 \<and> length (m_buffer q) = 2 ^ k \<and> length xs \<le> 2 ^ k \<and>
     m_head q = of_nat n \<and> m_tail q = of_nat (n + length xs) \<and>
     (\<forall>i < length xs. m_buffer q ! ((n + i) mod 2 ^ k) = xs ! i)"

lemma unat_diff_rep:
  assumes r: "lfq_rep k q n xs"
  shows "unat (m_tail q - m_head q) = length xs"
proof -
  have "m_tail q - m_head q = of_nat (length xs)" using r by (simp add: lfq_rep_def)
  moreover have "length xs < 2 ^ 64"
    using r pow_less_u64 [of k] unfolding lfq_rep_def by (meson le_less_trans)
  ultimately show ?thesis using unat_of_nat_u64 [of "length xs"] by simp
qed

lemma lfq_rep_list: "lfq_rep k q n xs \<Longrightarrow> lfq_list k q = xs"
proof -
  assume r: "lfq_rep k q n xs"
  have "m_buffer q ! slot (2 ^ k) (m_head q + of_nat i) = xs ! i" if "i < length xs" for i
    using r that by (auto simp: lfq_rep_def slot_of_nat simp flip: of_nat_add)
  then show ?thesis
    unfolding lfq_list_def unat_diff_rep [OF r] by (intro nth_equalityI) simp_all
qed

lemma lfq_rep_inv: "lfq_rep k q n xs \<Longrightarrow> lfq_inv k q"
  using unat_diff_rep [of k q n xs] by (simp add: lfq_inv_def lfq_rep_def)

lemma lfq_inv_rep: "lfq_inv k q \<Longrightarrow> lfq_rep k q (unat (m_head q)) (lfq_list k q)"
proof -
  assume i: "lfq_inv k q"
  have "m_tail q = m_head q + (m_tail q - m_head q)" by simp
  also have "\<dots> = of_nat (unat (m_head q) + unat (m_tail q - m_head q))" by simp
  finally have "m_tail q = of_nat (unat (m_head q) + length (lfq_list k q))"
    by (simp add: lfq_list_def)
  moreover have "m_buffer q ! ((unat (m_head q) + j) mod 2 ^ k) = lfq_list k q ! j"
    if "j < length (lfq_list k q)" for j
    using that i slot_of_nat [of k "unat (m_head q) + j"] by (simp add: lfq_list_def lfq_inv_def)
  ultimately show ?thesis
    using i by (auto simp: lfq_rep_def lfq_inv_def) (simp add: lfq_list_def)
qed

lemma lfq_rep_push:
  assumes r: "lfq_rep k q n xs"
  shows "lfq_push (2 ^ k) x q = (if length xs < 2 ^ k
           then (True, q\<lparr>m_buffer := (m_buffer q)[(n + length xs) mod 2 ^ k := x],
                         m_tail := m_tail q + 1\<rparr>)
           else (False, q))"
proof -
  have k: "k < 64" using r by (simp add: lfq_rep_def)
  have "of_nat (2 ^ k) \<le> m_tail q - m_head q \<longleftrightarrow> 2 ^ k \<le> length xs"
    using unat_diff_rep [OF r] unat_of_pow [OF k] by (simp add: word_le_nat_alt)
  moreover have "slot (2 ^ k) (m_tail q) = (n + length xs) mod 2 ^ k"
    using r slot_of_nat [OF k, of "n + length xs"] by (simp add: lfq_rep_def)
  ultimately show ?thesis by (simp add: lfq_push_def Let_def)
qed

lemma lfq_rep_pushed:
  assumes r: "lfq_rep k q n xs" and "length xs < 2 ^ k"
  shows "lfq_rep k (q\<lparr>m_buffer := (m_buffer q)[(n + length xs) mod 2 ^ k := x],
                      m_tail := m_tail q + 1\<rparr>) n (xs @ [x])"
proof -
  have "(n + length xs) mod 2 ^ k \<noteq> (n + i) mod 2 ^ k" if "i < length xs" for i
    by (rule mod_neq_close_sym) (use that assms(2) in simp_all)
  with assms show ?thesis
    by (auto simp: lfq_rep_def nth_append less_Suc_eq)
qed

lemma lfq_rep_pop:
  assumes r: "lfq_rep k q n xs"
  shows "lfq_pop (2 ^ k) mv q = (case xs of [] \<Rightarrow> (None, q) | x # ys \<Rightarrow>
           (Some x, q\<lparr>m_buffer := (m_buffer q)[n mod 2 ^ k := mv], m_head := m_head q + 1\<rparr>))"
proof -
  have k: "k < 64" using r by (simp add: lfq_rep_def)
  have "m_head q = m_tail q \<longleftrightarrow> xs = []"
    using unat_diff_rep [OF r] r by (auto simp: lfq_rep_def)
  moreover have "slot (2 ^ k) (m_head q) = n mod 2 ^ k"
    using r slot_of_nat [OF k, of n] by (simp add: lfq_rep_def)
  moreover have "xs \<noteq> [] \<Longrightarrow> m_buffer q ! (n mod 2 ^ k) = hd xs"
    using r by (force simp: lfq_rep_def hd_conv_nth)
  ultimately show ?thesis by (auto simp: lfq_pop_def Let_def split: list.split)
qed

lemma lfq_rep_popped:
  assumes r: "lfq_rep k q n (x # ys)"
  shows "lfq_rep k (q\<lparr>m_buffer := (m_buffer q)[n mod 2 ^ k := mv], m_head := m_head q + 1\<rparr>)
           (Suc n) ys"
proof -
  have "n mod 2 ^ k \<noteq> (Suc n + i) mod 2 ^ k" if "i < length ys" for i
    using mod_neq_of_close [of n "Suc n + i" "2 ^ k"] that r by (simp add: lfq_rep_def)
  with r show ?thesis
    by (auto simp: lfq_rep_def add.commute)
qed

interpretation lockfree: fifo "lfq_inv k" "lfq_list k" "\<lambda>q. length (lfq_list k q) < 2 ^ k"
    "lfq_push (2 ^ k)" "lfq_pop (2 ^ k) mv"
proof
  fix q :: "'a lfq" and x
  assume i: "lfq_inv k q"
  note r = lfq_inv_rep [OF i]
  note pushed = lfq_rep_pushed [OF r, of x] and popped = lfq_rep_popped [of k q "unat (m_head q)"]
  show "lfq_inv k (snd (lfq_push (2 ^ k) x q))"
    using i lfq_rep_inv [OF pushed] by (simp add: lfq_rep_push [OF r])
  show "fst (lfq_push (2 ^ k) x q) = (length (lfq_list k q) < 2 ^ k)"
    by (simp add: lfq_rep_push [OF r])
  show "lfq_list k (snd (lfq_push (2 ^ k) x q)) =
      (if length (lfq_list k q) < 2 ^ k then lfq_list k q @ [x] else lfq_list k q)"
    using lfq_rep_list [OF pushed] by (simp add: lfq_rep_push [OF r])
  show "lfq_inv k (snd (lfq_pop (2 ^ k) mv q))"
    using i r lfq_rep_inv [OF popped] by (auto simp: lfq_rep_pop [OF r] split: list.split)
  show "fst (lfq_pop (2 ^ k) mv q) = (case lfq_list k q of [] \<Rightarrow> None | x # _ \<Rightarrow> Some x)"
    by (simp add: lfq_rep_pop [OF r] split: list.split)
  show "lfq_list k (snd (lfq_pop (2 ^ k) mv q)) = tl (lfq_list k q)"
    using r lfq_rep_list [OF popped] by (auto simp: lfq_rep_pop [OF r] split: list.split)
qed

section \<open>SafeQueue\<close>

text \<open>
  A \<open>std::queue\<close> under a mutex. \<open>wait_and_pop\<close> blocks on a condition variable until there is
  an item or the queue is stopped: \<open>None\<close> is "still waiting".
\<close>

record 'a safe_queue =
  sq_items :: "'a list"
  sq_stopped :: bool

definition sq_new :: "'a safe_queue" where
  "sq_new = \<lparr>sq_items = [], sq_stopped = False\<rparr>"

definition sq_push :: "'a \<Rightarrow> 'a safe_queue \<Rightarrow> bool \<times> 'a safe_queue" where
  "sq_push x q = (True, q\<lparr>sq_items := sq_items q @ [x]\<rparr>)"

definition sq_pop :: "'a safe_queue \<Rightarrow> 'a option \<times> 'a safe_queue" where
  "sq_pop q = (case sq_items q of [] \<Rightarrow> (None, q)
     | x # xs \<Rightarrow> (Some x, q\<lparr>sq_items := xs\<rparr>))"

definition sq_wait_and_pop :: "'a safe_queue \<Rightarrow> ('a option \<times> 'a safe_queue) option" where
  "sq_wait_and_pop q =
     (if sq_items q = [] \<and> \<not> sq_stopped q then None
      else if sq_stopped q \<and> sq_items q = [] then Some (None, q)
      else Some (Some (hd (sq_items q)), q\<lparr>sq_items := tl (sq_items q)\<rparr>))"

definition sq_stop :: "'a safe_queue \<Rightarrow> 'a safe_queue" where
  "sq_stop q = q\<lparr>sq_stopped := True\<rparr>"

definition sq_size :: "'a safe_queue \<Rightarrow> nat" where
  "sq_size q = length (sq_items q)"

interpretation safe: fifo "\<lambda>_. True" sq_items "\<lambda>_. True" sq_push sq_pop
  by unfold_locales (auto simp: sq_push_def sq_pop_def split: list.splits)

fun sq_drain :: "nat \<Rightarrow> 'a safe_queue \<Rightarrow> 'a option list option" where
  "sq_drain 0 q = Some []"
| "sq_drain (Suc n) q = (case sq_wait_and_pop q of None \<Rightarrow> None
     | Some (r, q') \<Rightarrow> map_option (Cons r) (sq_drain n q'))"

lemma sq_drain_stopped:
  "sq_stopped q \<Longrightarrow> sq_drain n q =
     Some (map Some (take n (sq_items q)) @ replicate (n - sq_size q) None)"
proof (induction n arbitrary: q)
  case (Suc n)
  show ?case
  proof (cases "sq_items q")
    case Nil
    with Suc.IH [of q] Suc.prems show ?thesis by (simp add: sq_wait_and_pop_def sq_size_def)
  next
    case (Cons x xs)
    with Suc.IH [of "q\<lparr>sq_items := xs\<rparr>"] Suc.prems show ?thesis
      by (simp add: sq_wait_and_pop_def sq_size_def)
  qed
qed simp

section \<open>Threads on a LockFreeQueue\<close>

text \<open>
  Each atomic load and store of \<open>push\<close> and \<open>pop\<close>, and the move into or out of a slot, is a
  step of its own; steps of different threads interleave freely. Producers \<open>0, \<dots>, N - 1\<close> are
  at a point of \<open>push\<close>, the consumer at a point of \<open>pop\<close>, each with what it has loaded. The
  history variables \<open>sent\<close> and \<open>recv\<close> log, in order, the items whose \<open>push\<close> returned true
  and the items \<open>pop\<close> handed out. (With one producer the release stores and acquire loads of
  the code make every value below visible as in this interleaving model: each plain access to
  a slot is ordered by the counter that publishes it.)
\<close>

datatype 'a ppc = PIdle | PTail 'a u64 | PHead 'a u64 u64 | PWrote 'a u64

datatype 'a cpc = CIdle | CHead u64 | CTail u64 u64 | CRead u64 'a

record 'a conf =
  cq :: "'a lfq"
  prod :: "nat \<Rightarrow> 'a ppc"
  cons :: "'a cpc"
  sent :: "'a list"
  recv :: "'a list"

definition conf0 :: "nat \<Rightarrow> 'a \<Rightarrow> 'a conf" where
  "conf0 capacity dflt = \<lparr>cq = lfq_new capacity dflt, prod = (\<lambda>_. PIdle), cons = CIdle,
     sent = [], recv = []\<rparr>"

inductive qstep :: "nat \<Rightarrow> nat \<Rightarrow> 'a \<Rightarrow> 'a conf \<Rightarrow> 'a conf \<Rightarrow> bool"
  for N :: nat and capacity :: nat and mv :: 'a where
  push_load_tail: "i < N \<Longrightarrow> prod c i = PIdle \<Longrightarrow>
    qstep N capacity mv c (c\<lparr>prod := (prod c)(i := PTail x (m_tail (cq c)))\<rparr>)"
| push_load_head: "i < N \<Longrightarrow> prod c i = PTail x t \<Longrightarrow>
    qstep N capacity mv c (c\<lparr>prod := (prod c)(i := PHead x t (m_head (cq c)))\<rparr>)"
| push_full: "i < N \<Longrightarrow> prod c i = PHead x t h \<Longrightarrow> t - h \<ge> of_nat capacity \<Longrightarrow>
    qstep N capacity mv c (c\<lparr>prod := (prod c)(i := PIdle)\<rparr>)"
| push_write: "i < N \<Longrightarrow> prod c i = PHead x t h \<Longrightarrow> \<not> t - h \<ge> of_nat capacity \<Longrightarrow>
    qstep N capacity mv c (c\<lparr>prod := (prod c)(i := PWrote x t),
      cq := (cq c)\<lparr>m_buffer := (m_buffer (cq c))[slot capacity t := x]\<rparr>\<rparr>)"
| push_store: "i < N \<Longrightarrow> prod c i = PWrote x t \<Longrightarrow>
    qstep N capacity mv c (c\<lparr>prod := (prod c)(i := PIdle),
      cq := (cq c)\<lparr>m_tail := t + 1\<rparr>, sent := sent c @ [x]\<rparr>)"
| pop_load_head: "cons c = CIdle \<Longrightarrow>
    qstep N capacity mv c (c\<lparr>cons := CHead (m_head (cq c))\<rparr>)"
| pop_load_tail: "cons c = CHead h \<Longrightarrow>
    qstep N capacity mv c (c\<lparr>cons := CTail h (m_tail (cq c))\<rparr>)"
| pop_empty: "cons c = CTail h t \<Longrightarrow> h = t \<Longrightarrow>
    qstep N capacity mv c (c\<lparr>cons := CIdle\<rparr>)"
| pop_read: "cons c = CTail h t \<Longrightarrow> h \<noteq> t \<Longrightarrow>
    qstep N capacity mv c (c\<lparr>cons := CRead h (m_buffer (cq c) ! slot capacity h),
      cq := (cq c)\<lparr>m_buffer := (m_buffer (cq c))[slot capacity h := mv]\<rparr>\<rparr>)"
| pop_store: "cons c = CRead h v \<Longrightarrow>
    qstep N capacity mv c (c\<lparr>cons := CIdle, cq := (cq c)\<lparr>m_head := h + 1\<rparr>,
      recv := recv c @ [v]\<rparr>)"

inductive qreach :: "nat \<Rightarrow> nat \<Rightarrow> 'a \<Rightarrow> 'a conf \<Rightarrow> bool" for N capacity mv where
  start: "qreach N capacity mv (conf0 capacity mv)"
| next_step: "qreach N capacity mv c \<Longrightarrow> qstep N capacity mv c c' \<Longrightarrow> qreach N capacity mv c'"

inductive_cases qstepE: "qstep N capacity mv c c'"

subsection \<open>One producer\<close>

definition producer_ok :: "nat \<Rightarrow> 'a conf \<Rightarrow> bool" where
  "producer_ok k c = (let m = length (recv c); n = length (sent c) in
     case prod c 0 of
       PIdle \<Rightarrow> True
     | PTail x t \<Rightarrow> t = of_nat n
     | PHead x t h \<Rightarrow> t = of_nat n \<and> (\<exists>j \<le> m. h = of_nat j \<and> n \<le> j + 2 ^ k)
     | PWrote x t \<Rightarrow> t = of_nat n \<and> n < m + 2 ^ k \<and> m_buffer (cq c) ! (n mod 2 ^ k) = x)"

definition consumer_ok :: "'a conf \<Rightarrow> bool" where
  "consumer_ok c = (let m = length (recv c); n = length (sent c) in
     case cons c of
       CIdle \<Rightarrow> True
     | CHead h \<Rightarrow> h = of_nat m
     | CTail h t \<Rightarrow> h = of_nat m \<and> (\<exists>j. m \<le> j \<and> j \<le> n \<and> t = of_nat j)
     | CRead h v \<Rightarrow> h = of_nat m \<and> m < n \<and> v = sent c ! m)"

definition reading :: "'a conf \<Rightarrow> bool" where
  "reading c = (case cons c of CRead h v \<Rightarrow> True | _ \<Rightarrow> False)"

definition spsc_inv :: "nat \<Rightarrow> 'a conf \<Rightarrow> bool" where
  "spsc_inv k c = (let m = length (recv c); n = length (sent c); q = cq c in
     k < 64 \<and> length (m_buffer q) = 2 ^ k \<and> m \<le> n \<and> n \<le> m + 2 ^ k \<and>
     m_head q = of_nat m \<and> m_tail q = of_nat n \<and> recv c = take m (sent c) \<and>
     (\<forall>i. m \<le> i \<and> i < n \<longrightarrow> (i = m \<and> reading c) \<or> m_buffer q ! (i mod 2 ^ k) = sent c ! i) \<and>
     producer_ok k c \<and> consumer_ok c)"

lemma spsc_start: "k < 64 \<Longrightarrow> spsc_inv k (conf0 (2 ^ k) mv)"
  by (simp add: spsc_inv_def conf0_def lfq_new_def producer_ok_def consumer_ok_def Let_def)

lemmas spsc_defs = spsc_inv_def producer_ok_def consumer_ok_def reading_def Let_def

lemma full_iff:
  assumes "k < 64" and "j \<le> n" and "n \<le> j + 2 ^ k"
  shows "(of_nat (2 ^ k) :: u64) \<le> of_nat n - of_nat j \<longleftrightarrow> n = j + 2 ^ k"
proof -
  have "n - j < 2 ^ 64" using assms pow_less_u64 [of k] by linarith
  then have "unat (of_nat n - of_nat j :: u64) = n - j"
    using assms(2) unat_of_nat_u64 [of "n - j"] by (simp add: of_nat_diff)
  with assms unat_of_pow [of k] show ?thesis by (simp add: word_le_nat_alt) linarith
qed

lemma spsc_push:
  assumes inv: "spsc_inv k c"
  shows "prod c 0 = PIdle \<Longrightarrow> spsc_inv k (c\<lparr>prod := (prod c)(0 := PTail x (m_tail (cq c)))\<rparr>)"
    and "prod c 0 = PTail x t \<Longrightarrow> spsc_inv k (c\<lparr>prod := (prod c)(0 := PHead x t (m_head (cq c)))\<rparr>)"
    and "spsc_inv k (c\<lparr>prod := (prod c)(0 := PIdle)\<rparr>)"
  using inv by (auto simp: spsc_defs split: cpc.splits)

lemma spsc_write:
  assumes inv: "spsc_inv k c" and p: "prod c 0 = PHead x t h" and free: "\<not> t - h \<ge> of_nat (2 ^ k)"
  shows "spsc_inv k (c\<lparr>prod := (prod c)(0 := PWrote x t),
      cq := (cq c)\<lparr>m_buffer := (m_buffer (cq c))[slot (2 ^ k) t := x]\<rparr>\<rparr>)"
proof -
  let ?m = "length (recv c)" and ?n = "length (sent c)"
  have k: "k < 64" and mn: "?m \<le> ?n" and t: "t = of_nat ?n"
    using inv p by (auto simp: spsc_defs)
  obtain j where j: "j \<le> ?m" "h = of_nat j" "?n \<le> j + 2 ^ k"
    using inv p by (auto simp: spsc_defs)
  have "?n \<noteq> j + 2 ^ k" using free full_iff [OF k, of j ?n] t j mn by simp
  with j have room: "?n < ?m + 2 ^ k" by linarith
  have other: "?n mod 2 ^ k \<noteq> i mod 2 ^ k" if "?m \<le> i" "i < ?n" for i
    using mod_neq_close_sym [of i ?n "2 ^ k"] that room by simp
  show ?thesis
    using inv p room other by (auto simp: spsc_defs t slot_of_nat [OF k] split: cpc.splits)
qed

lemma spsc_store:
  assumes inv: "spsc_inv k c" and p: "prod c 0 = PWrote x t"
  shows "spsc_inv k (c\<lparr>prod := (prod c)(0 := PIdle), cq := (cq c)\<lparr>m_tail := t + 1\<rparr>,
      sent := sent c @ [x]\<rparr>)"
  using inv p
  by (auto simp: spsc_defs nth_append less_Suc_eq add.commute split: cpc.splits)

lemma spsc_pop:
  assumes inv: "spsc_inv k c"
  shows "cons c = CIdle \<Longrightarrow> spsc_inv k (c\<lparr>cons := CHead (m_head (cq c))\<rparr>)"
    and "cons c = CHead h \<Longrightarrow> spsc_inv k (c\<lparr>cons := CTail h (m_tail (cq c))\<rparr>)"
    and "cons c = CTail h t \<Longrightarrow> spsc_inv k (c\<lparr>cons := CIdle\<rparr>)"
  using inv by (auto simp: spsc_defs split: ppc.splits)

lemma spsc_slot:
  "spsc_inv k c \<Longrightarrow> length (recv c) \<le> i \<Longrightarrow> i < length (sent c) \<Longrightarrow>
   \<not> (i = length (recv c) \<and> reading c) \<Longrightarrow> m_buffer (cq c) ! (i mod 2 ^ k) = sent c ! i"
  unfolding spsc_inv_def Let_def by blast

lemma spsc_read:
  assumes inv: "spsc_inv k c" and p: "cons c = CTail h t" and some: "h \<noteq> t"
  shows "spsc_inv k (c\<lparr>cons := CRead h (m_buffer (cq c) ! slot (2 ^ k) h),
      cq := (cq c)\<lparr>m_buffer := (m_buffer (cq c))[slot (2 ^ k) h := mv]\<rparr>\<rparr>)"
    (is "spsc_inv k ?c'")
proof -
  let ?m = "length (recv c)" and ?n = "length (sent c)" and ?b = "m_buffer (cq c)"
  have k: "k < 64" and h: "h = of_nat ?m" and cap: "?n \<le> ?m + 2 ^ k"
    using inv p by (auto simp: spsc_defs)
  have mn: "?m < ?n"
    using inv p some by (auto simp: spsc_defs) (metis le_less_trans le_neq_implies_less)
  have idle: "\<not> reading c" using p by (simp add: reading_def)
  have sl: "slot (2 ^ k) h = ?m mod 2 ^ k" using h slot_of_nat [OF k] by simp
  have here: "?b ! (?m mod 2 ^ k) = sent c ! ?m"
    using spsc_slot [OF inv _ mn] idle by simp
  have other: "?b[?m mod 2 ^ k := mv] ! (i mod 2 ^ k) = ?b ! (i mod 2 ^ k)"
    if "?m < i" "i < ?m + 2 ^ k" for i
    using mod_neq_of_close [of ?m i "2 ^ k"] that by simp
  have "producer_ok k ?c'"
    using inv mn other [of ?n] by (auto simp: spsc_inv_def producer_ok_def Let_def sl split: ppc.split)
  moreover have "consumer_ok ?c'"
    using h mn here by (simp add: consumer_ok_def sl Let_def slot_of_nat [OF k])
  moreover have "i = ?m \<or> ?b[?m mod 2 ^ k := mv] ! (i mod 2 ^ k) = sent c ! i"
    if "?m \<le> i" "i < ?n" for i
    using that other [of i] spsc_slot [OF inv that] idle cap by (cases "i = ?m") auto
  ultimately show ?thesis
    using inv by (auto simp: spsc_inv_def Let_def reading_def sl)
qed

lemma spsc_pop_store:
  assumes inv: "spsc_inv k c" and p: "cons c = CRead h v"
  shows "spsc_inv k (c\<lparr>cons := CIdle, cq := (cq c)\<lparr>m_head := h + 1\<rparr>, recv := recv c @ [v]\<rparr>)"
proof -
  have "m_buffer (cq c) ! (i mod 2 ^ k) = sent c ! i" if "Suc (length (recv c)) \<le> i" "i < length (sent c)" for i
    using spsc_slot [OF inv, of i] that by simp
  with inv p show ?thesis
    by (auto simp: spsc_defs take_Suc_conv_app_nth add.commute split: ppc.splits intro: le_SucI)
qed

lemma spsc_step: "spsc_inv k c \<Longrightarrow> qstep 1 (2 ^ k) mv c c' \<Longrightarrow> spsc_inv k c'"
  by (erule qstepE) (simp_all add: spsc_push spsc_write spsc_store spsc_pop spsc_read spsc_pop_store)

lemma spsc_reach: "k < 64 \<Longrightarrow> qreach 1 (2 ^ k) mv c \<Longrightarrow> spsc_inv k c"
  by (erule qreach.induct) (auto intro: spsc_start spsc_step)

text \<open>C32: FIFO, whatever the calls and wherever the 64-bit counters stand (a wrap included): what a
  \<open>LockFreeQueue\<close> of capacity \<open>2 ^ k\<close> accepted after what it held is what it handed out
  before what it still holds, and it never holds more than its capacity.\<close>
theorem lock_free_queue_fifo:
  assumes "lfq_inv k q" and "run (lfq_push (2 ^ k)) (lfq_pop (2 ^ k) mv) cs q = (ins, outs, q')"
  shows "lfq_list k q @ ins = outs @ lfq_list k q' \<and> length (lfq_list k q') \<le> 2 ^ k"
  using lockfree.run_fifo [OF assms] lfq_inv_rep [of k q'] by (simp add: lfq_rep_def)

definition wrapped_queue :: "nat lfq" where
  "wrapped_queue = \<lparr>m_buffer = [0, 0], m_head = - 1, m_tail = - 1\<rparr>"

theorem lock_free_queue_fifo_witness:
  "run (lfq_push (2 ^ 1)) (lfq_pop (2 ^ 1) 0) [Push 7, Push 8, Push 9, Pop] wrapped_queue =
     ([7, 8], [7], \<lparr>m_buffer = [8, 0], m_head = 0, m_tail = 1\<rparr>) \<and>
   lfq_list 1 wrapped_queue @ [7, 8] = [7] @ lfq_list 1 \<lparr>m_buffer = [8, 0], m_head = 0, m_tail = 1\<rparr>"
proof -
  have i: "lfq_inv 1 wrapped_queue" by (simp add: lfq_inv_def wrapped_queue_def)
  have r: "run (lfq_push (2 ^ 1)) (lfq_pop (2 ^ 1) 0) [Push 7, Push 8, Push 9, Pop] wrapped_queue =
     ([7, 8], [7], \<lparr>m_buffer = [8, 0], m_head = 0, m_tail = 1\<rparr>)"
    by code_simp
  show ?thesis using lock_free_queue_fifo [OF i r] r by simp
qed

text \<open>C8: one producer and one consumer, at any interleaving of their atomic accesses: the items
  received are a prefix of the items whose push succeeded, at most \<open>capacity\<close> are in flight,
  and when both threads are between calls the queue holds exactly the items in flight.\<close>
theorem lock_free_queue_spsc:
  assumes "k < 64" and "qreach 1 (2 ^ k) mv c"
  shows "prefix (recv c) (sent c) \<and> length (sent c) \<le> length (recv c) + 2 ^ k \<and>
    (prod c 0 = PIdle \<and> cons c = CIdle \<longrightarrow> lfq_list k (cq c) = drop (length (recv c)) (sent c))"
proof (intro conjI impI)
  have inv: "spsc_inv k c" by (rule spsc_reach [OF assms])
  then have pre: "recv c = take (length (recv c)) (sent c)" by (simp add: spsc_inv_def Let_def)
  then show "prefix (recv c) (sent c)" by (metis take_is_prefix)
  show "length (sent c) \<le> length (recv c) + 2 ^ k"
    using inv by (simp add: spsc_inv_def Let_def)
  assume "prod c 0 = PIdle \<and> cons c = CIdle"
  then have "\<not> reading c" by (simp add: reading_def)
  then have "m_buffer (cq c) ! ((length (recv c) + i) mod 2 ^ k) = drop (length (recv c)) (sent c) ! i"
    if "i < length (sent c) - length (recv c)" for i
    using spsc_slot [OF inv, of "length (recv c) + i"] that by simp
  then have "lfq_rep k (cq c) (length (recv c)) (drop (length (recv c)) (sent c))"
    using inv by (auto simp: lfq_rep_def spsc_inv_def Let_def)
  then show "lfq_list k (cq c) = drop (length (recv c)) (sent c)"
    by (rule lfq_rep_list)
qed

text \<open>A complete \<open>push\<close> by a thread that is not interrupted.\<close>

lemma uninterrupted_push:
  assumes r: "qreach N capacity mv c" and i: "i < N" "prod c i = PIdle"
    and room: "\<not> m_tail (cq c) - m_head (cq c) \<ge> of_nat capacity"
  shows "qreach N capacity mv (c\<lparr>prod := (prod c)(i := PIdle),
      cq := (cq c)\<lparr>m_buffer := (m_buffer (cq c))[slot capacity (m_tail (cq c)) := x],
        m_tail := m_tail (cq c) + 1\<rparr>, sent := sent c @ [x]\<rparr>)"
proof -
  note s1 = next_step [OF r push_load_tail [where x = x, OF i]]
  note s2 = next_step [OF s1 push_load_head [OF i(1)], of x "m_tail (cq c)"]
  note s3 = next_step [OF s2 push_write [OF i(1)], of x "m_tail (cq c)" "m_head (cq c)"]
  note s4 = next_step [OF s3 push_store [OF i(1)], of x "m_tail (cq c)"]
  show ?thesis using s4 room by simp
qed

theorem lock_free_queue_spsc_witness:
  "\<exists>c. qreach 1 (2 ^ 2) 0 c \<and> sent c = [7::nat] \<and> prefix (recv c) (sent c) \<and>
       lfq_list 2 (cq c) = drop (length (recv c)) (sent c)"
proof -
  let ?c = "conf0 (2 ^ 2) 0\<lparr>prod := (prod (conf0 (2 ^ 2) 0))(0 := PIdle),
      cq := (cq (conf0 (2 ^ 2) 0))\<lparr>m_buffer := (m_buffer (cq (conf0 (2 ^ 2) 0)))
        [slot (2 ^ 2) (m_tail (cq (conf0 (2 ^ 2) (0::nat)))) := 7],
        m_tail := m_tail (cq (conf0 (2 ^ 2) (0::nat))) + 1\<rparr>,
      sent := sent (conf0 (2 ^ 2) 0) @ [7::nat]\<rparr>"
  have r: "qreach 1 (2 ^ 2) 0 ?c"
    by (rule uninterrupted_push [OF start]) (simp_all add: conf0_def lfq_new_def)
  moreover have "sent ?c = [7]" "prod ?c 0 = PIdle" "cons ?c = CIdle" by (simp_all add: conf0_def)
  ultimately show ?thesis using lock_free_queue_spsc [OF _ r] by (intro exI [of _ ?c]) simp
qed

subsection \<open>Two producers\<close>

text \<open>With a second producer the queue is no longer a queue. Two calls of \<open>push\<close> that
  interleave can both return true although only one of the items is in the queue, at every
  capacity the code uses.\<close>
theorem lock_free_queue_two_producers_lose:
  assumes "k < 64"
  shows "\<exists>c. qreach 2 (2 ^ k) mv c \<and> prod c 0 = PIdle \<and> prod c 1 = PIdle \<and> cons c = CIdle \<and>
     sent c = [x, y] \<and> recv c = [] \<and> lfq_list k (cq c) = [y]"
proof -
  let ?c0 = "conf0 (2 ^ k) mv"
  have free: "\<not> (of_nat (2 ^ k) :: u64) \<le> 0 - 0"
    using unat_of_pow [OF assms] by (simp add: word_le_nat_alt del: of_nat_power)
  have sl: "slot (2 ^ k) 0 = 0" using slot_of_nat [OF assms, of 0] by simp
  note a1 = next_step [OF start push_load_tail [of 0 2 ?c0 _ _ x]]
  note b1 = next_step [OF a1 push_load_tail [of 1 2 _ _ _ y]]
  note a2 = next_step [OF b1 push_load_head [of 0 2 _ x 0]]
  note b2 = next_step [OF a2 push_load_head [of 1 2 _ y 0]]
  note a3 = next_step [OF b2 push_write [of 0 2 _ x 0 0]]
  note b3 = next_step [OF a3 push_write [of 1 2 _ y 0 0]]
  note a4 = next_step [OF b3 push_store [of 0 2 _ x 0]]
  note b4 = next_step [OF a4 push_store [of 1 2 _ y 0]]
  show ?thesis
    by (intro exI conjI, rule b4)
       (use free sl in \<open>simp_all add: conf0_def lfq_new_def lfq_list_def fun_upd_def\<close>)
qed

theorem lock_free_queue_two_producers_lose_witness:
  "\<exists>c. qreach 2 (2 ^ 12) (0::nat) c \<and> prod c 0 = PIdle \<and> prod c 1 = PIdle \<and> cons c = CIdle \<and>
     sent c = [7, 8] \<and> recv c = [] \<and> lfq_list 12 (cq c) = [8]"
  by (rule lock_free_queue_two_producers_lose) simp

text \<open>A stopped \<open>SafeQueue\<close> never blocks its reader again: successive \<open>wait_and_pop\<close> calls
  first drain every item it still holds, in order, and then all return false.\<close>
theorem safe_queue_stop_drains:
  "sq_drain n (sq_stop q) = Some (map Some (take n (sq_items q)) @ replicate (n - sq_size q) None)"
  using sq_drain_stopped [of "sq_stop q" n] by (simp add: sq_stop_def sq_size_def)

end
