(* ===== verification/Pools.thy ===== *)
theory Pools
  imports Prelude "HOL-Library.Multiset"
begin

text \<open>
  The storage the pipeline reuses: \<open>PacketPool\<close> (\<open>cpp/common/packet_pool.hpp\<close>) and
  \<open>FixedRingBuffer\<close> (\<open>cpp/common/fixed_ring_buffer.hpp\<close>). The locale \<open>pool\<close> is what the
  users of a pool rely on, the locale \<open>ring\<close> what the users of a ring do.
\<close>

section \<open>PacketPool\<close>

record packet =
  pk_data :: bytes
  pk_size :: nat
  pk_isKeyframe :: bool
  pk_timestamp :: u64
  pk_frameId :: u32

definition packet_new :: "nat \<Rightarrow> packet" where
  "packet_new capacity = \<lparr>pk_data = replicate capacity 0, pk_size = 0, pk_isKeyframe = False,
     pk_timestamp = 0, pk_frameId = 0\<rparr>"

text \<open>\<open>m_pool\<close>, the free packets; \<open>None\<close> is the null \<open>unique_ptr\<close>.\<close>

type_synonym packet_pool = "packet list"

definition pool_new :: "nat \<Rightarrow> nat \<Rightarrow> packet_pool" where
  "pool_new poolSize packetCapacity = map (\<lambda>_. packet_new packetCapacity) [0..<poolSize]"

definition pool_acquire :: "packet_pool \<Rightarrow> packet option \<times> packet_pool" where
  "pool_acquire p = (if p = [] then (None, p) else (Some (last p), butlast p))"

definition pool_release :: "packet option \<Rightarrow> packet_pool \<Rightarrow> packet_pool" where
  "pool_release pkt p = (case pkt of None \<Rightarrow> p | Some x \<Rightarrow> p @ [x])"

subsection \<open>The contract\<close>

locale pool =
  fixes free :: "'p \<Rightarrow> 'x multiset"
    and acquire :: "'p \<Rightarrow> 'x option \<times> 'p"
    and release :: "'x option \<Rightarrow> 'p \<Rightarrow> 'p"
  assumes acquire_None: "acquire p = (None, p') \<Longrightarrow> free p = {#} \<and> free p' = {#}"
    and acquire_Some: "acquire p = (Some x, p') \<Longrightarrow> free p = add_mset x (free p')"
    and release_None: "free (release None p) = free p"
    and release_Some: "free (release (Some x) p) = add_mset x (free p)"

text \<open>
  What the threads do with a pool: take a packet, write into one they hold and give one back,
  or destroy one they hold (a \<open>unique_ptr\<close> going out of scope never returns to the pool).
\<close>

datatype 'x pool_op = Take | Give nat "'x \<Rightarrow> 'x" | Destroy nat

fun pool_run :: "('p \<Rightarrow> 'x option \<times> 'p) \<Rightarrow> ('x option \<Rightarrow> 'p \<Rightarrow> 'p) \<Rightarrow> 'x pool_op list
    \<Rightarrow> 'p \<times> 'x list \<times> nat \<Rightarrow> 'p \<times> 'x list \<times> nat" where
  "pool_run acq rel [] st = st"
| "pool_run acq rel (Take # ops) (p, held, lost) =
     (case acq p of (None, p') \<Rightarrow> pool_run acq rel ops (p', held, lost)
      | (Some x, p') \<Rightarrow> pool_run acq rel ops (p', held @ [x], lost))"
| "pool_run acq rel (Give i f # ops) (p, held, lost) =
     (if i < length held
      then pool_run acq rel ops (rel (Some (f (held ! i))) p, take i held @ drop (Suc i) held, lost)
      else pool_run acq rel ops (p, held, lost))"
| "pool_run acq rel (Destroy i # ops) (p, held, lost) =
     (if i < length held
      then pool_run acq rel ops (p, take i held @ drop (Suc i) held, Suc lost)
      else pool_run acq rel ops (p, held, lost))"

context pool
begin

lemma run_conserves:
  "pool_run acquire release ops (p, held, lost) = (p', held', lost') \<Longrightarrow>
   size (free p') + length held' + lost' = size (free p) + length held + lost"
proof (induction ops arbitrary: p held lost)
  case (Cons op ops)
  show ?case
  proof (cases op)
    case Take
    then show ?thesis
      using Cons.prems Cons.IH acquire_None [of p] acquire_Some [of p]
      by (auto split: prod.splits option.splits)
  next
    case (Give i f)
    then show ?thesis
      using Cons.prems Cons.IH [of "release (Some (f (held ! i))) p"] Cons.IH [of p]
      by (auto simp: release_Some split: if_splits)
  next
    case (Destroy i)
    then show ?thesis
      using Cons.prems Cons.IH [of p] by (auto split: if_splits)
  qed
qed simp

end

lemma mset_butlast: "p \<noteq> [] \<Longrightarrow> mset p = add_mset (last p) (mset (butlast p))"
  by (metis append_butlast_last_id mset_append union_mset_add_mset_right add_mset_add_single
      mset_single_iff_right add.right_neutral mset.simps)

interpretation packets: pool mset pool_acquire pool_release
  by unfold_locales (auto simp: pool_acquire_def pool_release_def mset_butlast split: if_splits)

section \<open>FixedRingBuffer\<close>

text \<open>\<open>Size\<close> slots, indexed by a 32-bit number modulo \<open>Size\<close>.\<close>

type_synonym 'a ring_buffer = "'a list"

definition frb_new :: "nat \<Rightarrow> 'a \<Rightarrow> 'a ring_buffer" where
  "frb_new n dflt = replicate n dflt"

definition frb_insert :: "u32 \<Rightarrow> 'a \<Rightarrow> 'a ring_buffer \<Rightarrow> 'a ring_buffer" where
  "frb_insert i x r = r[unat i mod length r := x]"

definition frb_get :: "'a ring_buffer \<Rightarrow> u32 \<Rightarrow> 'a" where
  "frb_get r i = r ! (unat i mod length r)"

text \<open>Two numbers a ring apart, counted around the 32-bit wrap.\<close>

definition near :: "nat \<Rightarrow> u32 \<Rightarrow> u32 \<Rightarrow> bool" where
  "near n i j \<longleftrightarrow> unat (i - j) < n \<or> unat (j - i) < n"

lemma length_frb_insert [simp]: "length (frb_insert i x r) = length r"
  by (simp add: frb_insert_def)

lemma frb_get_insert:
  "r \<noteq> [] \<Longrightarrow> frb_get (frb_insert i x r) j =
    (if unat i mod length r = unat j mod length r then x else frb_get r j)"
  by (auto simp: frb_get_def frb_insert_def nth_list_update)

lemma mod_word_plus:
  fixes i d :: u32
  assumes "(n::nat) dvd 2 ^ 32"
  shows "unat (i + d) mod n = (unat i + unat d) mod n"
proof -
  have "unat (i + d) = (unat i + unat d) mod 2 ^ 32" by (simp add: unat_word_ariths)
  then show ?thesis using assms by (simp add: mod_mod_cancel)
qed

lemma near_slots:
  assumes n: "n dvd 2 ^ 32" and near: "near n i j" and same: "unat i mod n = unat j mod n"
  shows "i = j"
proof -
  have close: "a = b" if "unat (a - b) < n" "unat a mod n = unat b mod n" for a b :: u32
  proof -
    have "unat a mod n = (unat b + unat (a - b)) mod n"
      using mod_word_plus [OF n, of b "a - b"] by simp
    then have "(unat b + unat (a - b)) mod n = unat b mod n" using that by simp
    then have "unat (a - b) = 0"
      using mod_neq_of_close [of "unat b" "unat b + unat (a - b)" n] that(1) by fastforce
    then show ?thesis by (simp add: unsigned_eq_0_iff)
  qed
  from near same close [of i j] close [of j i] show ?thesis by (auto simp: near_def)
qed

locale ring =
  fixes size :: nat
    and get :: "'r \<Rightarrow> u32 \<Rightarrow> 'a"
    and insert :: "u32 \<Rightarrow> 'a \<Rightarrow> 'r \<Rightarrow> 'r"
    and ok :: "'r \<Rightarrow> bool"
  assumes ok_insert: "ok r \<Longrightarrow> ok (insert i x r)"
    and get_same: "ok r \<Longrightarrow> get (insert i x r) i = x"
    and get_near: "ok r \<Longrightarrow> near size i j \<Longrightarrow> i \<noteq> j \<Longrightarrow> get (insert i x r) j = get r j"
begin

lemma get_after_inserts:
  assumes "ok r" and "\<forall>(i, x) \<in> set ixs. near size i j \<and> i \<noteq> j"
  shows "get (fold (\<lambda>(i, x). insert i x) ixs r) j = get r j"
  using assms by (induction ixs arbitrary: r) (auto simp: ok_insert get_near)

text \<open>An entry survives until a number a full ring away is written.\<close>

lemma get_latest:
  assumes "ok r" and "\<forall>(i, x) \<in> set ixs. near size i j \<and> i \<noteq> j"
  shows "get (fold (\<lambda>(i, x). insert i x) ixs (insert j y r)) j = y"
  using get_after_inserts [OF ok_insert [OF assms(1)] assms(2)] get_same [OF assms(1)] by simp

end

interpretation frb: ring n frb_get frb_insert "\<lambda>r. length r = n \<and> n \<noteq> 0 \<and> n dvd 2 ^ 32"
  by unfold_locales (use near_slots in \<open>auto simp: frb_get_insert\<close>)

section \<open>Properties\<close>

text \<open>A \<open>PacketPool\<close> conserves its packets: at any moment the free ones, the ones threads hold
  and the ones destroyed while held add up to the pool's size, so a pool that answers null has
  every packet held or destroyed, and it never allocates.\<close>
theorem packet_pool_conserves:
  assumes "pool_run pool_acquire pool_release ops (pool_new n c, [], 0) = (p, held, lost)"
  shows "length p + length held + lost = n \<and>
    (fst (pool_acquire p) = None \<longleftrightarrow> length held + lost = n)"
  using packets.run_conserves [OF assms] by (auto simp: pool_new_def pool_acquire_def)

theorem packet_pool_conserves_witness:
  "fst (pool_run pool_acquire pool_release [Take, Take, Give 0 id, Destroy 0, Take, Take]
     (pool_new 2 1, [], 0)) = [] \<and>
   (length ([] :: packet list) + length [packet_new 1] + 1 = 2)"
proof -
  have r: "pool_run pool_acquire pool_release [Take, Take, Give 0 id, Destroy 0, Take, Take]
     (pool_new 2 1, [], 0) = ([], [packet_new 1], 1)"
    by code_simp
  show ?thesis using packet_pool_conserves [OF r] r by simp
qed

text \<open>A \<open>FixedRingBuffer\<close> whose size divides \<open>2 ^ 32\<close> (64, 1024 and 32 in the code) returns the
  value last written at a number as long as only numbers less than a ring away were written
  since, across the wrap of 32-bit frame numbers too.\<close>
theorem fixed_ring_keeps_window:
  assumes "length r = n" and "n \<noteq> 0" and "n dvd 2 ^ 32"
    and "\<forall>(i, x) \<in> set ixs. near n i j \<and> i \<noteq> j"
  shows "frb_get (fold (\<lambda>(i, x). frb_insert i x) ixs (frb_insert j y r)) j = y"
  using frb.get_latest [of r n ixs j y] assms by simp

theorem fixed_ring_keeps_window_witness:
  "frb_get (fold (\<lambda>(i, x). frb_insert i x) [(0, 5), (1, 6)] (frb_insert (- 1) 4 (frb_new 4 (0::nat)))) (- 1) = 4"
  by (rule fixed_ring_keeps_window [where n = 4]) (simp_all add: frb_new_def near_def)

end
