(* ===== verification/Clock.thy ===== *)
theory Clock
  imports Prelude
begin

text \<open>
  \<open>Common::ClockSync\<close> (\<open>cpp/common/clock_sync.hpp\<close>): the NTP-style exchange that gives the
  client the host's clock. The unsigned differences wrap at 64 bits and are reinterpreted as
  signed; the signed sums and differences are checked, since C++ leaves their overflow
  undefined; the division truncates towards zero.
\<close>

section \<open>Signed 64-bit arithmetic\<close>

definition in_i64 :: "int \<Rightarrow> bool" where
  "in_i64 r \<longleftrightarrow> - (2 ^ 63) \<le> r \<and> r < 2 ^ 63"

definition i64 :: "int \<Rightarrow> fault + int" where
  "i64 r = (if in_i64 r then Inr r else Inl SignedOverflow)"

definition tdiv :: "int \<Rightarrow> int \<Rightarrow> int" where
  "tdiv a b = sgn a * sgn b * (\<bar>a\<bar> div \<bar>b\<bar>)"

text \<open>\<open>duration_cast\<close> of nanoseconds.\<close>

definition seconds :: "int \<Rightarrow> int" where
  "seconds d = tdiv d 1000000000"

definition milliseconds :: "int \<Rightarrow> int" where
  "milliseconds d = tdiv d 1000000"

lemma seconds_nonneg: "0 \<le> d \<Longrightarrow> seconds d = d div 1000000000"
  by (auto simp: seconds_def tdiv_def sgn_if)

lemma milliseconds_nonneg: "0 \<le> d \<Longrightarrow> milliseconds d = d div 1000000"
  by (auto simp: milliseconds_def tdiv_def sgn_if)

lemma i64_Inr [simp]: "in_i64 r \<Longrightarrow> i64 r = Inr r"
  by (simp add: i64_def)

lemma sint_of_int_i64: "in_i64 r \<Longrightarrow> sint (of_int r :: u64) = r"
  by (simp add: signed_of_int in_i64_def signed_take_bit_int_eq_self)

lemma tdiv_2: "tdiv a 2 = (if 0 \<le> a then a div 2 else - ((- a) div 2))"
  by (auto simp: tdiv_def sgn_if)

lemma tdiv_2_bounds: "2 * tdiv a 2 \<le> a + 1" "a - 1 \<le> 2 * tdiv a 2"
  unfolding tdiv_2 by (split if_split, presburger)+

lemma half_le: "2 * (x :: int) \<le> n \<Longrightarrow> x \<le> n div 2"
  by simp

section \<open>The code\<close>

record clock =
  m_clockOffset :: int
  m_rtt :: u64
  m_synchronized :: bool

definition clock_new :: clock where
  "clock_new = \<lparr>m_clockOffset = 0, m_rtt = 0, m_synchronized = False\<rparr>"

definition process_response :: "u64 \<Rightarrow> u64 \<Rightarrow> u64 \<Rightarrow> u64 \<Rightarrow> clock \<Rightarrow> fault + clock" where
  "process_response t0 t1 t2 t3 c =
     fbind (i64 (sint (t3 - t0) - sint (t2 - t1))) (\<lambda>rtt.
     fbind (i64 (sint (t1 - t0) + sint (t2 - t3))) (\<lambda>total.
     Inr \<lparr>m_clockOffset = tdiv total 2, m_rtt = of_int (max 0 rtt), m_synchronized = True\<rparr>))"

definition get_host_time :: "u64 \<Rightarrow> clock \<Rightarrow> fault + u64" where
  "get_host_time clientTime c = fbind (i64 (sint clientTime + m_clockOffset c)) (\<lambda>r. Inr (of_int r))"

definition get_client_time :: "u64 \<Rightarrow> clock \<Rightarrow> fault + u64" where
  "get_client_time hostTime c = fbind (i64 (sint hostTime - m_clockOffset c)) (\<lambda>r. Inr (of_int r))"

section \<open>Properties\<close>

text \<open>
  A run of the exchange: the host's clock reads \<open>theta\<close> more than the client's, the request
  takes \<open>d1\<close>, the host \<open>p\<close>, the response \<open>d2\<close> microseconds.
\<close>

definition exchange :: "int \<Rightarrow> int \<Rightarrow> int \<Rightarrow> int \<Rightarrow> int \<Rightarrow> clock \<Rightarrow> fault + clock" where
  "exchange theta d1 p d2 t0 c =
     process_response (of_int t0) (of_int (t0 + d1 + theta)) (of_int (t0 + d1 + p + theta))
       (of_int (t0 + d1 + p + d2)) c"

lemma exchange_result:
  assumes "\<bar>theta\<bar> < 2 ^ 60" and "0 \<le> d1" and "0 \<le> d2" and "0 \<le> p"
    and "d1 + d2 + p < 2 ^ 60"
  shows "exchange theta d1 p d2 t0 c = Inr \<lparr>m_clockOffset = tdiv (2 * theta + d1 - d2) 2,
    m_rtt = of_int (d1 + d2), m_synchronized = True\<rparr>"
proof -
  have "sint (of_int (t0 + d1 + p + d2) - of_int t0 :: u64) = d1 + p + d2"
    using sint_of_int_i64 [of "d1 + p + d2"] assms by (simp add: in_i64_def add.assoc flip: of_int_diff)
  moreover have "sint (of_int (t0 + d1 + p + theta) - of_int (t0 + d1 + theta) :: u64) = p"
    using sint_of_int_i64 [of p] assms by (simp add: in_i64_def flip: of_int_diff)
  moreover have "sint (of_int (t0 + d1 + theta) - of_int t0 :: u64) = d1 + theta"
    using sint_of_int_i64 [of "d1 + theta"] assms by (simp add: in_i64_def abs_less_iff flip: of_int_diff)
  moreover have "sint (of_int (t0 + d1 + p + theta) - of_int (t0 + d1 + p + d2) :: u64) = theta - d2"
    using sint_of_int_i64 [of "theta - d2"] assms by (simp add: in_i64_def abs_less_iff flip: of_int_diff)
  moreover have "i64 (d1 + p + d2 - p) = Inr (d1 + d2)"
    and "i64 (d1 + theta + (theta - d2)) = Inr (2 * theta + d1 - d2)"
    using assms by (simp_all add: i64_def in_i64_def abs_less_iff)
  ultimately show ?thesis
    using assms by (simp add: exchange_def process_response_def)
qed

text \<open>C30: the clock exchange is sound: for a true offset \<open>theta\<close> and one-way delays \<open>d1\<close> and
  \<open>d2\<close>, the round trip time is \<open>d1 + d2\<close> without the host's processing time, the offset is off
  by at most half the round trip time (rounded up), and by nothing when the two delays are equal; no
  arithmetic overflows, and wrapping microsecond counters do not matter.\<close>
theorem clock_sync_error_bound:
  assumes "\<bar>theta\<bar> < 2 ^ 60" and "0 \<le> d1" and "0 \<le> d2" and "0 \<le> p"
    and "d1 + d2 + p < 2 ^ 60"
  shows "\<exists>c'. exchange theta d1 p d2 t0 c = Inr c' \<and> m_synchronized c' \<and>
    uint (m_rtt c') = d1 + d2 \<and> \<bar>m_clockOffset c' - theta\<bar> \<le> (d1 + d2 + 1) div 2 \<and>
    (d1 = d2 \<longrightarrow> m_clockOffset c' = theta)"
proof -
  have "uint (of_int (d1 + d2) :: u64) = d1 + d2"
    using assms by (simp only: unsigned_of_int) (simp add: take_bit_int_eq_self)
  moreover have "\<bar>tdiv (2 * theta + d1 - d2) 2 - theta\<bar> \<le> (d1 + d2 + 1) div 2"
    using half_le [of "tdiv (2 * theta + d1 - d2) 2 - theta" "d1 + d2 + 1"]
      half_le [of "theta - tdiv (2 * theta + d1 - d2) 2" "d1 + d2 + 1"]
      tdiv_2_bounds [of "2 * theta + d1 - d2"] assms(2,3) by linarith
  moreover have "d1 = d2 \<Longrightarrow> tdiv (2 * theta + d1 - d2) 2 = theta"
    unfolding tdiv_2 by auto
  ultimately show ?thesis by (simp add: exchange_result [OF assms])
qed

theorem clock_sync_error_bound_witness:
  "\<exists>c'. exchange (- 5000) 300 20 300 (- 100) clock_new = Inr c' \<and> m_clockOffset c' = - 5000"
  using clock_sync_error_bound [of "- 5000" 300 300 20 "- 100" clock_new] by auto

text \<open>Translating a time to the other clock and back gives the time, whenever the translation does
  not overflow.\<close>
theorem clock_translation_inverse:
  assumes "get_host_time t c = Inr h"
  shows "get_client_time h c = Inr t"
proof -
  have r: "in_i64 (sint t + m_clockOffset c)" "h = of_int (sint t + m_clockOffset c)"
    using assms by (auto simp: get_host_time_def i64_def split: if_splits)
  have "in_i64 (sint t)" using sint_range_size [of t] by (simp add: in_i64_def word_size)
  with r show ?thesis by (simp add: get_client_time_def sint_of_int_i64 del: of_int_add)
qed

theorem clock_translation_inverse_witness:
  "get_client_time 900 (clock_new\<lparr>m_clockOffset := 400\<rparr>) = Inr 500"
  by (rule clock_translation_inverse) (simp add: get_host_time_def clock_new_def i64_def in_i64_def)

end
