(* ===== verification/Crypto.thy ===== *)
theory Crypto
  imports Wire
begin

text \<open>
  \<open>CryptoManager\<close> (\<open>cpp/common/crypto_manager.cpp\<close>) and the secure envelope every
  \<open>session_manager.cpp\<close> sender and receiver builds with it. The program is compiled with
  libsodium or without: libsodium is the parameter \<open>sodium\<close>, the other build is the mock the
  source contains. The locale \<open>aead\<close> is what the session code relies on; both builds give it,
  libsodium under the documented behaviour \<open>lawful_sodium\<close>.
\<close>

section \<open>The two builds\<close>

text \<open>The libsodium functions the program calls; \<open>None\<close> is a non-zero result.\<close>

record sodium =
  sodium_init :: int
  crypto_kx_keypair :: "bytes \<times> bytes"
  crypto_scalarmult :: "bytes \<Rightarrow> bytes \<Rightarrow> bytes option"
  crypto_kx_server_session_keys :: "bytes \<Rightarrow> bytes \<Rightarrow> bytes \<Rightarrow> bool \<times> bytes \<times> bytes"
  crypto_kx_client_session_keys :: "bytes \<Rightarrow> bytes \<Rightarrow> bytes \<Rightarrow> bool \<times> bytes \<times> bytes"
  aead_encrypt_detached :: "bytes \<Rightarrow> bytes \<Rightarrow> bytes \<Rightarrow> bytes \<Rightarrow> (bytes \<times> bytes) option"
  aead_decrypt_detached :: "bytes \<Rightarrow> bytes \<Rightarrow> bytes \<Rightarrow> bytes \<Rightarrow> bytes \<Rightarrow> bytes option"
  randombytes_buf :: "nat \<Rightarrow> bytes"

datatype build = Sodium sodium | NoSodium

record KeyPair =
  publicKey :: bytes
  privateKey :: bytes

datatype crypto_error = InvalidKeySizes | SharedSecretFailed

section \<open>CryptoManager\<close>

fun crypto_initialize :: "build \<Rightarrow> bool" where
  "crypto_initialize (Sodium lib) = (\<not> sodium_init lib < 0)"
| "crypto_initialize NoSodium = True"

fun generate_key_pair :: "build \<Rightarrow> KeyPair" where
  "generate_key_pair (Sodium lib) =
     \<lparr>publicKey = fst (crypto_kx_keypair lib), privateKey = snd (crypto_kx_keypair lib)\<rparr>"
| "generate_key_pair NoSodium = \<lparr>publicKey = replicate 32 0, privateKey = replicate 32 0\<rparr>"

fun compute_shared_secret :: "build \<Rightarrow> bytes \<Rightarrow> bytes \<Rightarrow> crypto_error + bytes" where
  "compute_shared_secret (Sodium lib) priv peer =
     (if length priv \<noteq> 32 \<or> length peer \<noteq> 32 then Inl InvalidKeySizes
      else case crypto_scalarmult lib priv peer of
        None \<Rightarrow> Inl SharedSecretFailed
      | Some s \<Rightarrow> Inr s)"
| "compute_shared_secret NoSodium priv peer = Inr (replicate 32 0)"

text \<open>\<open>std::vector::resize(n, x)\<close>: existing elements stay.\<close>

definition vec_resize :: "nat \<Rightarrow> u8 \<Rightarrow> bytes \<Rightarrow> bytes" where
  "vec_resize n x v = take n v @ replicate (n - length v) x"

text \<open>The result, and the two keys left in the vectors passed for \<open>rxKey\<close> and \<open>txKey\<close>.\<close>

fun derive_session_keys :: "build \<Rightarrow> bytes \<Rightarrow> bytes \<Rightarrow> bytes \<Rightarrow> bytes \<Rightarrow> bytes \<Rightarrow> bool
    \<Rightarrow> bool \<times> bytes \<times> bytes" where
  "derive_session_keys (Sodium lib) pub priv peer rxKey txKey isServer =
     (if isServer then crypto_kx_server_session_keys lib pub priv peer
      else crypto_kx_client_session_keys lib pub priv peer)"
| "derive_session_keys NoSodium pub priv peer rxKey txKey isServer =
     (if isServer then (True, vec_resize 32 0xAA rxKey, vec_resize 32 0x55 txKey)
      else (True, vec_resize 32 0x55 rxKey, vec_resize 32 0xAA txKey))"

definition npub :: "u64 \<Rightarrow> bytes" where
  "npub nonce = put 8 nonce @ replicate 16 0"

definition xor_sum :: "bytes \<Rightarrow> u8" where
  "xor_sum bs = fold (\<lambda>b s. s XOR b) bs 0"

definition mock_tag :: "bytes \<Rightarrow> u64 \<Rightarrow> bytes \<Rightarrow> bytes" where
  "mock_tag bs nonce key =
     [xor_sum bs, ucast (nonce AND 0xFF), if key = [] then 0 else hd key] @ replicate 13 0x55"

fun crypto_encrypt :: "build \<Rightarrow> bytes \<Rightarrow> bytes \<Rightarrow> u64 \<Rightarrow> bytes \<Rightarrow> (bytes \<times> bytes) option" where
  "crypto_encrypt (Sodium lib) plaintext ad nonce key =
     aead_encrypt_detached lib plaintext ad (npub nonce) key"
| "crypto_encrypt NoSodium plaintext ad nonce key = Some (plaintext, mock_tag plaintext nonce key)"

fun crypto_decrypt :: "build \<Rightarrow> bytes \<Rightarrow> bytes \<Rightarrow> bytes \<Rightarrow> u64 \<Rightarrow> bytes \<Rightarrow> bytes option" where
  "crypto_decrypt (Sodium lib) ciphertext tag ad nonce key =
     aead_decrypt_detached lib ciphertext tag ad (npub nonce) key"
| "crypto_decrypt NoSodium ciphertext tag ad nonce key =
     (if tag ! 0 \<noteq> xor_sum ciphertext \<or> tag ! 1 \<noteq> ucast (nonce AND 0xFF) \<or>
         tag ! 2 \<noteq> (if key = [] then 0 else hd key) then None
      else Some ciphertext)"

fun generate_random_bytes :: "build \<Rightarrow> nat \<Rightarrow> bytes" where
  "generate_random_bytes (Sodium lib) len = randombytes_buf lib len"
| "generate_random_bytes NoSodium len = replicate len 0"

section \<open>The secure envelope\<close>

text \<open>
  A sender fills a \<open>SecureHeader\<close> on its stack, encrypts the message with the header's bytes
  from \<open>sessionId\<close> on as associated data, and sends header and ciphertext. The length passed
  for the associated data is \<open>sizeof(SecureHeader) - 16\<close>, that is 19. \<open>stale\<close> is what the
  uninitialised \<open>authTag\<close> held before \<open>Encrypt\<close> wrote it.
\<close>

definition envelope_ad :: "SecureHeader \<Rightarrow> bytes" where
  "envelope_ad sh = take (35 - 16) (drop 1 (enc_SecureHeader sh))"

definition envelope_header :: "bytes \<Rightarrow> u64 \<Rightarrow> u64 \<Rightarrow> nat \<Rightarrow> SecureHeader" where
  "envelope_header tag sid sequence n =
     \<lparr>sh_type = pt_code PtSecure, sh_sessionId = sid, sh_sequenceNumber = sequence,
      sh_encryptedSize = of_nat n, sh_authTag = tag\<rparr>"

definition seal :: "build \<Rightarrow> bytes \<Rightarrow> u64 \<Rightarrow> u64 \<Rightarrow> bytes \<Rightarrow> bytes \<Rightarrow> bytes option" where
  "seal b stale sid sequence key plaintext =
     (case crypto_encrypt b plaintext
             (envelope_ad (envelope_header stale sid sequence (length plaintext))) sequence key of
        None \<Rightarrow> None
      | Some (ct, tag) \<Rightarrow>
          Some (enc_SecureHeader (envelope_header tag sid sequence (length plaintext)) @ ct))"

text \<open>
  A receiver reads the header from its buffer and decrypts \<open>encryptedSize\<close> bytes behind it,
  whatever was received.
\<close>

definition open_envelope :: "build \<Rightarrow> bytes \<Rightarrow> bytes \<Rightarrow> fault + bytes option" where
  "open_envelope b key buf =
     (let sh = dec_SecureHeader buf in
      fbind (vec_read buf 35 (unat (sh_encryptedSize sh))) (\<lambda>ct.
        Inr (crypto_decrypt b ct (sh_authTag sh) (envelope_ad sh) (sh_sequenceNumber sh) key)))"

section \<open>The contract of authenticated encryption\<close>

locale aead =
  fixes good :: "'b \<Rightarrow> bool"
    and encrypt :: "'b \<Rightarrow> bytes \<Rightarrow> bytes \<Rightarrow> u64 \<Rightarrow> bytes \<Rightarrow> (bytes \<times> bytes) option"
    and decrypt :: "'b \<Rightarrow> bytes \<Rightarrow> bytes \<Rightarrow> bytes \<Rightarrow> u64 \<Rightarrow> bytes \<Rightarrow> bytes option"
  assumes lengths: "good b \<Longrightarrow> encrypt b p ad n k = Some (c, t) \<Longrightarrow> length c = length p \<and> length t = 16"
    and decrypt_encrypt: "good b \<Longrightarrow> encrypt b p ad n k = Some (c, t) \<Longrightarrow> decrypt b c t ad n k = Some p"
begin

lemma encrypt_inject:
  assumes "good b" and "encrypt b p ad n k = Some (c, t)" and "encrypt b p' ad n k = Some (c, t)"
  shows "p = p'"
  using decrypt_encrypt [OF assms(1,2)] decrypt_encrypt [OF assms(1,3)] by simp

end

text \<open>libsodium's documented behaviour: detached ciphertexts have the length of the message, tags 16
  bytes, and a message encrypted is decrypted with the same data, nonce and key.\<close>

definition lawful_sodium :: "sodium \<Rightarrow> bool" where
  "lawful_sodium lib \<longleftrightarrow> (\<forall>p ad n k c t. aead_encrypt_detached lib p ad n k = Some (c, t) \<longrightarrow>
     length c = length p \<and> length t = 16 \<and> aead_decrypt_detached lib c t ad n k = Some p)"

definition lawful :: "build \<Rightarrow> bool" where
  "lawful b = (case b of Sodium lib \<Rightarrow> lawful_sodium lib | NoSodium \<Rightarrow> True)"

interpretation crypto: aead lawful crypto_encrypt crypto_decrypt
proof
  fix b p ad n k c t
  assume g: "lawful b" and e: "crypto_encrypt b p ad n k = Some (c, t)"
  show "length c = length p \<and> length t = 16"
    using g e by (cases b) (auto simp: lawful_def lawful_sodium_def mock_tag_def)
  show "crypto_decrypt b c t ad n k = Some p"
    using g e by (cases b) (auto simp: lawful_def lawful_sodium_def mock_tag_def)
qed

section \<open>Opening what was sealed\<close>

lemma envelope_ad_bytes:
  "length tag = 16 \<Longrightarrow> envelope_ad (envelope_header tag sid s n) =
    put 8 sid @ put 8 s @ put 2 (of_nat n :: u16) @ [hd tag]"
  by (cases tag) (simp_all add: envelope_ad_def envelope_header_def enc_SecureHeader_def)

lemma open_sealed_buffer:
  assumes "length tag = 16" and "n < 65536" and "length ct = n"
  shows "open_envelope b key (enc_SecureHeader (envelope_header tag sid s n) @ ct @ rest) =
    Inr (crypto_decrypt b ct tag (envelope_ad (envelope_header tag sid s n)) s key)"
proof -
  let ?sh = "envelope_header tag sid s n"
  have t: "length (sh_authTag ?sh) = 16" using assms(1) by (simp add: envelope_header_def)
  have "dec_SecureHeader (enc_SecureHeader ?sh @ ct @ rest) = ?sh"
    by (rule sh_fmt.dec_enc_append [OF t])
  moreover have "drop 35 (enc_SecureHeader ?sh @ ct @ rest) = ct @ rest"
    by (rule sh_fmt.payload_after [OF t])
  moreover have "length (enc_SecureHeader ?sh @ ct @ rest) = 35 + n + length rest"
    using assms(3) sh_fmt.length_enc [OF t] by simp
  moreover have "unat (sh_encryptedSize ?sh) = n"
    using unat_of_nat_u16 assms(2) by (simp add: envelope_header_def)
  ultimately show ?thesis
    using assms(3) by (simp add: open_envelope_def Let_def vec_read_def) (simp add: envelope_header_def)
qed

text \<open>The associated data of the two sides differ in one byte, the first of the tag.\<close>

lemma envelope_ad_agree:
  "length tag = 16 \<Longrightarrow> length stale = 16 \<Longrightarrow>
   envelope_ad (envelope_header tag sid s n) = envelope_ad (envelope_header stale sid s n) \<longleftrightarrow>
   hd tag = hd stale"
  by (simp add: envelope_ad_bytes)

lemma open_seal:
  assumes "lawful b" and "length plaintext < 65536" and "length stale = 16"
    and "crypto_encrypt b plaintext (envelope_ad (envelope_header stale sid s (length plaintext))) s key
      = Some (ct, tag)"
  shows "open_envelope b key (the (seal b stale sid s key plaintext)) =
    Inr (crypto_decrypt b ct tag (envelope_ad (envelope_header tag sid s (length plaintext))) s key)"
proof -
  have "length ct = length plaintext" "length tag = 16" using crypto.lengths [OF assms(1,4)] by auto
  then show ?thesis
    using open_sealed_buffer [of tag "length plaintext" ct b key sid s "[]"] assms(2,4)
    by (simp add: seal_def)
qed

lemma mock_seal_opens:
  assumes "length plaintext < 65536" and "length stale = 16"
  shows "\<exists>dg. seal NoSodium stale sid s key plaintext = Some dg \<and> length dg = 35 + length plaintext
    \<and> open_envelope NoSodium key dg = Inr (Some plaintext)"
proof -
  let ?tag = "mock_tag plaintext s key"
  let ?ad = "envelope_ad (envelope_header stale sid s (length plaintext))"
  have e: "crypto_encrypt NoSodium plaintext ?ad s key = Some (plaintext, ?tag)" by simp
  have l: "lawful NoSodium" by (simp add: lawful_def)
  have "length ?tag = 16" using crypto.lengths [OF l e] by simp
  then have "length (enc_SecureHeader (envelope_header ?tag sid s (length plaintext))) = 35"
    by (intro sh_fmt.length_enc) (simp add: envelope_header_def)
  moreover have "open_envelope NoSodium key (the (seal NoSodium stale sid s key plaintext)) = Inr (Some plaintext)"
    unfolding open_seal [OF l assms(1,2) e] by (simp add: mock_tag_def)
  ultimately show ?thesis by (simp add: seal_def)
qed

section \<open>Properties\<close>

text \<open>In the build without libsodium a sealed message is opened to itself by whoever holds the
  key, whatever the uninitialised tag held, and the peers derive matching keys: what the host
  sends with is what the client receives with, and the other way round.\<close>
theorem mock_channel_round_trip:
  assumes "length plaintext < 65536" and "length stale = 16"
    and "derive_session_keys NoSodium hpub hpriv cpub [] [] True = (True, hrx, htx)"
    and "derive_session_keys NoSodium cpub cpriv hpub [] [] False = (True, crx, ctx)"
  shows "hrx = ctx \<and> (\<exists>dg. seal NoSodium stale sid s htx plaintext = Some dg \<and>
      length dg = 35 + length plaintext \<and>
      open_envelope NoSodium crx dg = Inr (Some plaintext))"
proof -
  have "htx = crx" "hrx = ctx" using assms(3,4) by auto
  then show ?thesis using mock_seal_opens [OF assms(1,2)] by simp
qed

theorem mock_channel_round_trip_witness:
  "\<exists>dg. seal NoSodium (replicate 16 9) 1 2 (replicate 32 0x55) [5, 6] = Some dg \<and>
     length dg = 37 \<and> open_envelope NoSodium (replicate 32 0x55) dg = Inr (Some [5, 6])"
  using mock_channel_round_trip [of "[5, 6]" "replicate 16 9" "[]" "[]" "[]" "replicate 32 0xAA"
      "replicate 32 0x55" "[]" "replicate 32 0x55" "replicate 32 0xAA" 1 2]
  by (simp add: vec_resize_def)

text \<open>C11: in the build with libsodium the length passed for the associated data is one too many: it
  takes in the first byte of the tag, which the sender has not written yet when it encrypts.
  When decryption rejects data that differ, as authenticated encryption does, a sealed message
  opens only if that uninitialised byte happened to equal the tag's first byte; otherwise the
  receiver drops every message of the session.\<close>
theorem sealed_opens_iff_stale_tag_byte:
  assumes "lawful b" and "length plaintext < 65536" and "length stale = 16"
    and "crypto_encrypt b plaintext (envelope_ad (envelope_header stale sid s (length plaintext))) s key
      = Some (ct, tag)"
    and "\<And>ad. ad \<noteq> envelope_ad (envelope_header stale sid s (length plaintext)) \<Longrightarrow>
      crypto_decrypt b ct tag ad s key = None"
  shows "open_envelope b key (the (seal b stale sid s key plaintext)) =
    Inr (if hd tag = hd stale then Some plaintext else None)"
proof -
  have "length tag = 16" using crypto.lengths [OF assms(1,4)] by simp
  then show ?thesis
    using open_seal [OF assms(1-4)] crypto.decrypt_encrypt [OF assms(1,4)] assms(5)
      envelope_ad_agree [of tag stale sid s "length plaintext"] assms(3)
    by auto
qed

definition sample_ad :: bytes where
  "sample_ad = put 8 (1 :: u64) @ put 8 (2 :: u64) @ put 2 (1 :: u16) @ [0]"

definition sample_sodium :: sodium where
  "sample_sodium = \<lparr>sodium_init = 0, crypto_kx_keypair = ([], []),
     crypto_scalarmult = (\<lambda>_ _. None),
     crypto_kx_server_session_keys = (\<lambda>_ _ _. (False, [], [])),
     crypto_kx_client_session_keys = (\<lambda>_ _ _. (False, [], [])),
     aead_encrypt_detached = (\<lambda>p ad n k. if ad = sample_ad then Some (p, replicate 16 7) else None),
     aead_decrypt_detached = (\<lambda>c t ad n k. if ad = sample_ad then Some c else None),
     randombytes_buf = (\<lambda>n. replicate n 0)\<rparr>"

theorem sealed_opens_iff_stale_tag_byte_witness:
  "open_envelope (Sodium sample_sodium) [] (the (seal (Sodium sample_sodium) (replicate 16 0) 1 2 [] [9])) =
     Inr None"
proof -
  have ad: "envelope_ad (envelope_header (replicate 16 0) 1 2 (length [9 :: u8])) = sample_ad"
    by (simp add: envelope_ad_bytes sample_ad_def)
  have "open_envelope (Sodium sample_sodium) []
      (the (seal (Sodium sample_sodium) (replicate 16 0) 1 2 [] [9])) =
    Inr (if hd (replicate 16 7) = hd (replicate 16 (0 :: u8)) then Some [9] else None)"
    by (rule sealed_opens_iff_stale_tag_byte [where ct = "[9]"])
       (use ad in \<open>simp_all add: sample_sodium_def lawful_def lawful_sodium_def\<close>)
  then show ?thesis by simp
qed

end
