(* ===== verification/Replay.thy ===== *)
theory Replay
  imports Prelude
begin

text \<open>
  Replay protection of the client, \<open>Receiver::ValidateSequence\<close>
  (\<open>cpp/client/receiver.cpp\<close>): the highest sequence number seen and a ring of 1024 bits in
  sixteen 64-bit words, and the specification it refines, a set of accepted numbers.
\<close>

section \<open>The code\<close>

record window =
  m_maxSequenceReceived :: u64
  m_sequenceWindow :: "u64 list"

definition WINDOW_SIZE :: u64 where
  "WINDOW_SIZE = 1024"

definition window_new :: window where
  "window_new = \<lparr>m_maxSequenceReceived = 0,
     m_sequenceWindow = replicate (unat (WINDOW_SIZE div 64)) 0\<rparr>"

definition word_idx :: "u64 \<Rightarrow> nat" where
  "word_idx s = unat ((s div 64) mod (WINDOW_SIZE div 64))"

definition bit_of :: "u64 \<Rightarrow> u64" where
  "bit_of s = push_bit (unat (s mod 64)) 1"

definition clear_seq :: "u64 \<Rightarrow> u64 list \<Rightarrow> u64 list" where
  "clear_seq s ws = ws[word_idx s := ws ! word_idx s AND NOT (bit_of s)]"

text \<open>\<open>for (i = 0; i < diff; ++i)\<close>, the shift of the window.\<close>

definition advance :: "u64 \<Rightarrow> nat \<Rightarrow> u64 list \<Rightarrow> u64 list" where
  "advance mx diff ws = fold (\<lambda>i. clear_seq (mx + of_nat i + 1)) [0..<diff] ws"

definition mark :: "u64 \<Rightarrow> window \<Rightarrow> bool \<times> window" where
  "mark s w =
     (if (m_sequenceWindow w ! word_idx s) AND bit_of s \<noteq> 0 then (False, w)
      else (True, w\<lparr>m_sequenceWindow :=
              (m_sequenceWindow w)[word_idx s := (m_sequenceWindow w ! word_idx s) OR bit_of s]\<rparr>))"

definition validate_sequence :: "u64 \<Rightarrow> window \<Rightarrow> bool \<times> window" where
  "validate_sequence s w =
     (if s > m_maxSequenceReceived w then
        let diff = s - m_maxSequenceReceived w;
            ws = (if diff \<ge> WINDOW_SIZE then replicate (length (m_sequenceWindow w)) 0
                  else advance (m_maxSequenceReceived w) (unat diff) (m_sequenceWindow w))
        in mark s \<lparr>m_maxSequenceReceived = s, m_sequenceWindow = ws\<rparr>
      else if m_maxSequenceReceived w - s \<ge> WINDOW_SIZE then (False, w)
      else mark s w)"

fun validate_all :: "u64 list \<Rightarrow> window \<Rightarrow> bool list \<times> window" where
  "validate_all [] w = ([], w)"
| "validate_all (s # ss) w =
     (let (b, w1) = validate_sequence s w; (bs, w2) = validate_all ss w1 in (b # bs, w2))"

section \<open>The specification\<close>

text \<open>Accept a number that is not too old and was not accepted before.\<close>

definition replay_spec :: "nat \<Rightarrow> nat \<times> nat set \<Rightarrow> bool \<times> nat \<times> nat set" where
  "replay_spec s st = (case st of (mx, A) \<Rightarrow>
     if mx - s < 1024 \<and> s \<notin> A then (True, max mx s, insert s A) else (False, mx, A))"

fun spec_all :: "nat list \<Rightarrow> nat \<times> nat set \<Rightarrow> bool list \<times> nat \<times> nat set" where
  "spec_all [] st = ([], st)"
| "spec_all (s # ss) st =
     (let (b, st1) = replay_spec s st; (bs, st2) = spec_all ss st1 in (b # bs, st2))"

section \<open>The ring of bits\<close>

definition wbit :: "u64 list \<Rightarrow> nat \<Rightarrow> bool" where
  "wbit ws p = bit (ws ! (p div 64)) (p mod 64)"

lemma word_idx_nat: "word_idx s = unat s mod 1024 div 64"
proof -
  have "word_idx s = unat s div 64 mod 16"
    by (simp add: word_idx_def WINDOW_SIZE_def unat_div unat_mod)
  also have "\<dots> = unat s mod 1024 div 64"
    using mod_64_mult [of "unat s" 16] by simp
  finally show ?thesis .
qed

lemma word_idx_less: "word_idx s < 16"
  by (simp add: word_idx_nat)

lemma bit_bit_of: "bit (bit_of s) n \<longleftrightarrow> n = unat s mod 1024 mod 64"
proof -
  have e: "unat s mod 1024 mod 64 = unat s mod 64"
    by (rule mod_mod_cancel) simp
  have "unat s mod 64 < 64" by simp
  then show ?thesis
    unfolding e by (auto simp: bit_of_def bit_exp_iff unat_mod)
qed

lemma and_bit_of_zero: "w AND bit_of s \<noteq> 0 \<longleftrightarrow> bit w (unat s mod 1024 mod 64)"
proof
  assume "w AND bit_of s \<noteq> 0"
  then obtain n where "bit (w AND bit_of s) n" by (auto simp: bit_eq_iff)
  then show "bit w (unat s mod 1024 mod 64)" by (auto simp: bit_and_iff bit_bit_of)
next
  assume "bit w (unat s mod 1024 mod 64)"
  then have "bit (w AND bit_of s) (unat s mod 1024 mod 64)" by (simp add: bit_and_iff bit_bit_of)
  then show "w AND bit_of s \<noteq> 0" by auto
qed

lemma same_position: "p div 64 = q div 64 \<and> p mod 64 = q mod 64 \<longleftrightarrow> p = (q :: nat)"
  by (metis div_mult_mod_eq)

lemma wbit_update:
  assumes "length ws = 16" and "p < 1024"
  shows "wbit (ws[word_idx s := x]) p =
    (if p div 64 = unat s mod 1024 div 64 then bit x (p mod 64) else wbit ws p)"
  using assms word_idx_less [of s] by (auto simp: wbit_def word_idx_nat)

lemma wbit_clear:
  assumes "length ws = 16" and "p < 1024"
  shows "wbit (clear_seq s ws) p \<longleftrightarrow> wbit ws p \<and> p \<noteq> unat s mod 1024"
proof -
  have "p mod 64 < 64" by simp
  then show ?thesis
    using same_position [of p "unat s mod 1024"]
    unfolding clear_seq_def wbit_update [OF assms]
    by (auto simp: bit_and_iff bit_not_iff bit_bit_of wbit_def word_idx_nat)
qed

lemma length_advance [simp]: "length (advance mx d ws) = length ws"
  by (induction d) (simp_all add: advance_def clear_seq_def)

lemma wbit_advance:
  assumes "length ws = 16" and "p < 1024"
  shows "wbit (advance mx d ws) p \<longleftrightarrow> wbit ws p \<and> (\<forall>i<d. p \<noteq> unat (mx + of_nat i + 1) mod 1024)"
proof (induction d)
  case 0
  then show ?case by (simp add: advance_def)
next
  case (Suc d)
  have "advance mx (Suc d) ws = clear_seq (mx + of_nat d + 1) (advance mx d ws)"
    by (simp add: advance_def)
  with Suc assms show ?case by (auto simp: wbit_clear less_Suc_eq)
qed

section \<open>Refinement\<close>

text \<open>A window stands for a set: the bits of the last 1024 numbers are the membership in it.\<close>

definition tracks :: "window \<Rightarrow> nat set \<Rightarrow> bool" where
  "tracks w A \<longleftrightarrow> length (m_sequenceWindow w) = 16 \<and>
     (\<forall>a\<in>A. a \<le> unat (m_maxSequenceReceived w)) \<and>
     (\<forall>n. n \<le> unat (m_maxSequenceReceived w) \<and> unat (m_maxSequenceReceived w) - n < 1024 \<longrightarrow>
        wbit (m_sequenceWindow w) (n mod 1024) = (n \<in> A))"

lemma tracks_new: "tracks window_new {}"
  by (auto simp: tracks_def window_new_def WINDOW_SIZE_def wbit_def nth_replicate
      div_less_iff_less_mult)

lemma mark_tracks:
  assumes t: "tracks w A"
    and s: "unat s \<le> unat (m_maxSequenceReceived w)" "unat (m_maxSequenceReceived w) - unat s < 1024"
  shows "mark s w = (b, w') \<Longrightarrow>
    b = (unat s \<notin> A) \<and> m_maxSequenceReceived w' = m_maxSequenceReceived w \<and>
    tracks w' (if b then insert (unat s) A else A)"
proof -
  assume m: "mark s w = (b, w')"
  let ?ws = "m_sequenceWindow w" and ?mx = "unat (m_maxSequenceReceived w)"
  have len: "length ?ws = 16" using t by (simp add: tracks_def)
  have read: "(?ws ! word_idx s) AND bit_of s \<noteq> 0 \<longleftrightarrow> unat s \<in> A"
    using t s by (auto simp: and_bit_of_zero tracks_def wbit_def word_idx_nat)
  have "wbit (?ws[word_idx s := ?ws ! word_idx s OR bit_of s]) (n mod 1024) = (n \<in> insert (unat s) A)"
    if "n \<le> ?mx" "?mx - n < 1024" for n
  proof -
    have "n - unat s < 1024" "unat s - n < 1024" using s that by linarith+
    then have "n = unat s" if "n mod 1024 = unat s mod 1024"
      using that mod_neq_of_close [of n "unat s" 1024] mod_neq_of_close [of "unat s" n 1024]
      by (cases n "unat s" rule: linorder_cases) auto
    moreover have "wbit ?ws (n mod 1024) = (n \<in> A)" using t that by (simp add: tracks_def)
    ultimately show ?thesis
      using same_position [of "n mod 1024" "unat s mod 1024"]
      by (subst wbit_update [OF len]) (auto simp: bit_or_iff bit_bit_of wbit_def word_idx_nat)
  qed
  with m read t s(1) show ?thesis
    by (auto simp: mark_def tracks_def split: if_splits)
qed

text \<open>Sliding the window forward keeps the set.\<close>

lemma unat_next:
  fixes mx s :: u64
  assumes "i < unat s - unat mx"
  shows "unat (mx + of_nat i + 1) = unat mx + i + 1"
proof -
  have "unat mx + i + 1 < 18446744073709551616"
    using assms unsigned_less [of s, where ?'a = nat] by simp
  then show ?thesis using unat_of_nat_u64 [of "unat mx + i + 1"] by (simp add: add.commute)
qed

lemma advance_tracks:
  assumes t: "tracks w A" and gt: "m_maxSequenceReceived w < s"
    and close: "unat s - unat (m_maxSequenceReceived w) < 1024"
  shows "tracks \<lparr>m_maxSequenceReceived = s, m_sequenceWindow = advance (m_maxSequenceReceived w)
    (unat s - unat (m_maxSequenceReceived w)) (m_sequenceWindow w)\<rparr> A"
proof -
  let ?mx = "unat (m_maxSequenceReceived w)" and ?d = "unat s - unat (m_maxSequenceReceived w)"
  have len: "length (m_sequenceWindow w) = 16" and old: "\<And>a. a \<in> A \<Longrightarrow> a \<le> ?mx"
    using t by (auto simp: tracks_def)
  have mxs: "?mx < unat s" using gt by (simp add: word_less_nat_alt)
  have "wbit (advance (m_maxSequenceReceived w) ?d (m_sequenceWindow w)) (n mod 1024) = (n \<in> A)"
    if n: "n \<le> unat s" "unat s - n < 1024" for n
  proof (cases "n \<le> ?mx")
    case True
    have "n mod 1024 \<noteq> (?mx + i + 1) mod 1024" if "i < ?d" for i
      using n True that by (intro mod_neq_of_close) linarith+
    moreover have "wbit (m_sequenceWindow w) (n mod 1024) = (n \<in> A)"
      using t True n mxs unfolding tracks_def by auto
    ultimately show ?thesis
      using len by (auto simp: wbit_advance unat_next)
  next
    case False
    then have "n mod 1024 = unat (m_maxSequenceReceived w + of_nat (n - ?mx - 1) + 1) mod 1024"
      using n by (subst unat_next [of _ s]) auto
    moreover have "n - ?mx - 1 < ?d" "n \<notin> A" using False n old [of n] by auto
    ultimately show ?thesis using len by (auto simp: wbit_advance)
  qed
  moreover have "a \<le> unat s" if "a \<in> A" for a using old [OF that] mxs by linarith
  ultimately show ?thesis using len by (simp add: tracks_def)
qed

lemma far_tracks:
  assumes t: "tracks w A" and far: "1024 \<le> unat s - unat (m_maxSequenceReceived w)"
  shows "tracks \<lparr>m_maxSequenceReceived = s,
    m_sequenceWindow = replicate (length (m_sequenceWindow w)) 0\<rparr> A"
proof -
  have len: "length (m_sequenceWindow w) = 16"
    and old: "\<And>a. a \<in> A \<Longrightarrow> a \<le> unat (m_maxSequenceReceived w)"
    using t by (auto simp: tracks_def)
  have "n \<notin> A" if "unat s - n < 1024" for n using old [of n] far that by linarith
  moreover have "\<not> wbit (replicate 16 0) (n mod 1024)" for n
    by (simp add: wbit_def nth_replicate div_less_iff_less_mult)
  ultimately show ?thesis
    using len old far by (force simp: tracks_def)
qed

lemma validate_refines:
  assumes t: "tracks w A" and v: "validate_sequence s w = (b, w')"
  shows "\<exists>A'. replay_spec (unat s) (unat (m_maxSequenceReceived w), A) =
    (b, unat (m_maxSequenceReceived w'), A') \<and> tracks w' A'"
proof (cases "m_maxSequenceReceived w < s")
  case True
  let ?mx = "m_maxSequenceReceived w"
  have mxs: "unat ?mx < unat s" using True by (simp add: word_less_nat_alt)
  have fresh: "unat s \<notin> A" using t mxs by (auto simp: tracks_def)
  have d: "unat (s - ?mx) = unat s - unat ?mx" using mxs by (simp add: unat_sub_if')
  obtain w1 where w1: "tracks w1 A" "m_maxSequenceReceived w1 = s" "mark s w1 = (b, w')"
  proof (cases "1024 \<le> unat s - unat ?mx")
    case far: True
    then have "s - ?mx \<ge> WINDOW_SIZE" using d by (simp add: WINDOW_SIZE_def word_le_nat_alt)
    with v True far_tracks [OF t far] that show ?thesis by (simp add: validate_sequence_def Let_def)
  next
    case close: False
    then have "\<not> s - ?mx \<ge> WINDOW_SIZE" using d by (simp add: WINDOW_SIZE_def word_le_nat_alt)
    moreover have "unat s - unat ?mx < 1024" using close by simp
    ultimately show ?thesis
      using v True advance_tracks [OF t True] that d by (simp add: validate_sequence_def Let_def)
  qed
  with mark_tracks [OF w1(1) _ _ w1(3)] fresh mxs show ?thesis
    by (auto simp: replay_spec_def)
next
  case False
  then have le: "unat s \<le> unat (m_maxSequenceReceived w)" by (simp add: word_less_nat_alt)
  then have d: "unat (m_maxSequenceReceived w - s) = unat (m_maxSequenceReceived w) - unat s"
    by (simp add: unat_sub_if')
  have old: "m_maxSequenceReceived w - s \<ge> WINDOW_SIZE \<longleftrightarrow>
      \<not> unat (m_maxSequenceReceived w) - unat s < 1024"
    using d by (simp add: WINDOW_SIZE_def word_le_nat_alt not_less)
  show ?thesis
  proof (cases "unat (m_maxSequenceReceived w) - unat s < 1024")
    case True
    then have "mark s w = (b, w')" using v False old by (simp add: validate_sequence_def)
    from mark_tracks [OF t le True this] True le show ?thesis
      by (auto simp: replay_spec_def)
  next
    case False': False
    then have "b = False" "w' = w" using v False old by (simp_all add: validate_sequence_def)
    with t False' show ?thesis by (simp add: replay_spec_def)
  qed
qed

lemma validate_all_refines:
  "tracks w A \<Longrightarrow> validate_all ss w = (bs, w') \<Longrightarrow>
   \<exists>A'. spec_all (map unat ss) (unat (m_maxSequenceReceived w), A) =
     (bs, unat (m_maxSequenceReceived w'), A') \<and> tracks w' A'"
proof (induction ss arbitrary: w A bs w')
  case (Cons s ss)
  obtain b w1 where v: "validate_sequence s w = (b, w1)" by (cases "validate_sequence s w")
  obtain bs1 w2 where r: "validate_all ss w1 = (bs1, w2)" by (cases "validate_all ss w1")
  from validate_refines [OF Cons.prems(1) v] obtain A1 where
    "replay_spec (unat s) (unat (m_maxSequenceReceived w), A) = (b, unat (m_maxSequenceReceived w1), A1)"
    "tracks w1 A1" by blast
  with Cons.IH [of w1 A1 bs1 w2] Cons.prems(2) v r show ?case by auto
qed simp

section \<open>What the specification promises\<close>

definition accepted :: "'a list \<Rightarrow> bool list \<Rightarrow> 'a list" where
  "accepted ss bs = map fst (filter snd (zip ss bs))"

lemma accepted_Cons [simp]:
  "accepted (s # ss) (b # bs) = (if b then [s] else []) @ accepted ss bs"
  by (simp add: accepted_def)

lemma spec_all_Cons:
  "spec_all (s # ss) (mx, A) = (bs, st') \<longleftrightarrow>
    (\<exists>b mx1 A1 bs1. replay_spec s (mx, A) = (b, mx1, A1) \<and> spec_all ss (mx1, A1) = (bs1, st') \<and>
      bs = b # bs1)"
  by (auto simp: split_beta Let_def) (metis prod.collapse)+

lemma spec_all_distinct:
  "spec_all ss (mx, A) = (bs, st') \<Longrightarrow>
   length bs = length ss \<and> distinct (accepted ss bs) \<and> set (accepted ss bs) \<inter> A = {}"
proof (induction ss arbitrary: mx A bs)
  case Nil
  then show ?case by (simp add: accepted_def)
next
  case (Cons s ss)
  then obtain b mx1 A1 bs1 where 1: "replay_spec s (mx, A) = (b, mx1, A1)"
    "spec_all ss (mx1, A1) = (bs1, st')" "bs = b # bs1"
    unfolding spec_all_Cons by blast
  from Cons.IH [OF 1(2)] 1 show ?case
    by (auto simp: replay_spec_def split: if_splits)
qed

lemma spec_all_reject:
  "spec_all ss (mx, A) = (bs, st') \<Longrightarrow> i < length ss \<Longrightarrow> \<not> bs ! i \<Longrightarrow>
   ss ! i \<in> A \<union> set (accepted (take i ss) (take i bs)) \<or>
   (\<exists>t \<in> insert mx (set (accepted (take i ss) (take i bs))). 1024 \<le> t - ss ! i)"
proof (induction ss arbitrary: mx A bs i)
  case (Cons s ss)
  then obtain b mx1 A1 bs1 where 1: "replay_spec s (mx, A) = (b, mx1, A1)"
    "spec_all ss (mx1, A1) = (bs1, st')" "bs = b # bs1"
    unfolding spec_all_Cons by blast
  show ?case
  proof (cases i)
    case 0
    then show ?thesis using 1 Cons.prems by (auto simp: replay_spec_def not_less split: if_splits)
  next
    case (Suc j)
    then show ?thesis
      using 1 Cons.prems Cons.IH [OF 1(2), of j]
      by (auto simp: replay_spec_def max_def split: if_splits)
  qed
qed simp

lemma accepted_map: "accepted (map f ss) bs = map f (accepted ss bs)"
  by (induction ss bs rule: list_induct2') (simp_all add: accepted_def)

text \<open>C1: replay protection. Whatever sequence numbers arrive, no number is accepted twice; and a
  number is turned away only when it was accepted before, or when a number at least 1024
  above it was.\<close>
theorem replay_window_exact:
  assumes "validate_all ss window_new = (bs, w)"
  shows "length bs = length ss \<and> distinct (accepted ss bs) \<and>
    (\<forall>i < length ss. \<not> bs ! i \<longrightarrow>
       ss ! i \<in> set (accepted (take i ss) (take i bs)) \<or>
       (\<exists>t \<in> set (accepted (take i ss) (take i bs)). 1024 \<le> unat t - unat (ss ! i)))"
proof -
  obtain A where s: "spec_all (map unat ss) (0, {}) = (bs, unat (m_maxSequenceReceived w), A)"
    using validate_all_refines [OF tracks_new assms] by (auto simp: window_new_def)
  have "ss ! i \<in> set (accepted (take i ss) (take i bs)) \<or>
     (\<exists>t \<in> set (accepted (take i ss) (take i bs)). 1024 \<le> unat t - unat (ss ! i))"
    if "i < length ss" "\<not> bs ! i" for i
    using spec_all_reject [OF s, of i] that
    by (auto simp: accepted_map take_map dest: unsigned_word_eqI)
  with spec_all_distinct [OF s] show ?thesis by (auto simp: accepted_map distinct_map)
qed

theorem replay_window_exact_witness:
  "fst (validate_all [5, 3, 5, 2000, 976, 977] window_new) = [True, True, False, True, False, True] \<and>
   distinct (accepted [5, 3, 5, 2000, 976, 977 :: u64] [True, True, False, True, False, True])"
proof -
  obtain bs w where v: "validate_all [5, 3, 5, 2000, 976, 977] window_new = (bs, w)"
    by (cases "validate_all [5, 3, 5, 2000, 976, 977] window_new")
  have "fst (validate_all [5, 3, 5, 2000, 976, 977] window_new) =
      [True, True, False, True, False, True]"
    by code_simp
  with v replay_window_exact [OF v] show ?thesis by simp
qed

text \<open>The bitmap with its word-wise clearing refines the obvious specification, a set of accepted
  numbers with a high-water mark, verdict by verdict.\<close>
theorem replay_window_refines_set:
  "\<exists>mx A. spec_all (map unat ss) (0, {}) = (fst (validate_all ss window_new), mx, A)"
  using validate_all_refines [OF tracks_new, of ss] by (cases "validate_all ss window_new")
    (fastforce simp: window_new_def)

end
