(* ===== verification/Receiver.thy ===== *)
theory Receiver
  imports Wire Pools Replay
begin

text \<open>
  Frame reassembly on the client: \<open>Client::Receiver\<close> (\<open>cpp/client/receiver.hpp\<close>,
  \<open>cpp/client/receiver.cpp\<close>). Frames live in \<open>m_frameStorage\<close>, which only grows; a
  \<open>FrameData*\<close> is an index into it. At any time a frame is owned by the free list
  \<open>m_framePool\<close>, by a slot of the ring of 64 being assembled, or by the caller that popped it.
  \<open>std::mutex\<close> makes each member function atomic, so a function is a state transformer.
\<close>

section \<open>Frames\<close>

record frame_data =
  fd_frameId :: u32
  fd_buffer :: buf
  fd_totalSize :: nat
  fd_fragmentsReceived :: u16
  fd_totalFragments :: u16
  fd_captureTimestamp :: u64
  fd_encodeStartTimestamp :: u64
  fd_encodeEndTimestamp :: u64
  fd_receiveTimestamp :: u64
  fd_isComplete :: bool
  fd_isKeyframe :: bool
  fd_isHEVC :: bool
  fd_fragmentMap :: "bool list"
  fd_fragmentSizes :: "u16 list"

definition frame_bytes :: nat where
  "frame_bytes = 1024 * 1024"

definition frame_reset :: "frame_data \<Rightarrow> frame_data" where
  "frame_reset f = f\<lparr>fd_frameId := 0, fd_totalSize := 0, fd_fragmentsReceived := 0,
     fd_totalFragments := 0, fd_captureTimestamp := 0, fd_encodeStartTimestamp := 0,
     fd_encodeEndTimestamp := 0, fd_receiveTimestamp := 0, fd_isComplete := False,
     fd_isKeyframe := False, fd_isHEVC := False,
     fd_fragmentMap := replicate (length (fd_fragmentMap f)) False,
     fd_fragmentSizes := replicate (length (fd_fragmentSizes f)) 0\<rparr>"

text \<open>A new \<open>FrameData\<close> with its vectors sized, as the constructor and the pool make it.\<close>

definition frame_new :: frame_data where
  "frame_new = \<lparr>fd_frameId = 0, fd_buffer = \<lparr>cells = (\<lambda>_. 0), cap = frame_bytes\<rparr>,
     fd_totalSize = 0, fd_fragmentsReceived = 0, fd_totalFragments = 0, fd_captureTimestamp = 0,
     fd_encodeStartTimestamp = 0, fd_encodeEndTimestamp = 0, fd_receiveTimestamp = 0,
     fd_isComplete = False, fd_isKeyframe = False, fd_isHEVC = False,
     fd_fragmentMap = replicate 1024 False, fd_fragmentSizes = replicate 1024 0\<rparr>"

section \<open>The receiver\<close>

record fec_group =
  g_fecHeader :: FECHeader
  g_fecReceived :: bool
  g_fecPacket :: "packet option"
  g_frameId :: u32

definition fec_group_new :: fec_group where
  "fec_group_new = \<lparr>g_fecHeader = \<lparr>fh_type = 0, fh_frameId = 0, fh_fragmentStart = 0,
     fh_fragmentCount = 0, fh_packetSequence = 0, fh_dataSize = 0\<rparr>,
     g_fecReceived = False, g_fecPacket = None, g_frameId = 0\<rparr>"

record receiver =
  rc_storage :: "frame_data list"
  rc_pool :: "nat list"
  rc_ring :: "nat option ring_buffer"
  rc_fecRing :: "fec_group ring_buffer"
  rc_fecPool :: packet_pool
  rc_lastCompleted :: u32
  rc_next :: u32
  rc_first :: bool
  rc_window :: window

definition receiver_new :: "nat \<Rightarrow> receiver" where
  "receiver_new poolSize = \<lparr>rc_storage = replicate poolSize frame_new, rc_pool = [0..<poolSize],
     rc_ring = frb_new 64 None, rc_fecRing = frb_new 1024 fec_group_new,
     rc_fecPool = pool_new 512 1500, rc_lastCompleted = 0, rc_next = 0, rc_first = False,
     rc_window = window_new\<rparr>"

definition receiver_validate :: "u64 \<Rightarrow> receiver \<Rightarrow> bool \<times> receiver" where
  "receiver_validate s r =
     (let (b, w) = validate_sequence s (rc_window r) in (b, r\<lparr>rc_window := w\<rparr>))"

subsection \<open>The frame pool\<close>

definition get_from_pool :: "receiver \<Rightarrow> nat \<times> receiver" where
  "get_from_pool r =
     (if rc_pool r = [] then (length (rc_storage r), r\<lparr>rc_storage := rc_storage r @ [frame_new]\<rparr>)
      else (last (rc_pool r), r\<lparr>rc_pool := butlast (rc_pool r)\<rparr>))"

definition return_to_pool :: "nat option \<Rightarrow> receiver \<Rightarrow> receiver" where
  "return_to_pool fp r = (case fp of None \<Rightarrow> r
     | Some a \<Rightarrow> if a \<in> set (rc_pool r) then r else r\<lparr>rc_pool := rc_pool r @ [a]\<rparr>)"

definition frame_at :: "receiver \<Rightarrow> nat \<Rightarrow> frame_data" where
  "frame_at r a = rc_storage r ! a"

definition upd_frame :: "nat \<Rightarrow> (frame_data \<Rightarrow> frame_data) \<Rightarrow> receiver \<Rightarrow> receiver" where
  "upd_frame a f r = r\<lparr>rc_storage := (rc_storage r)[a := f (rc_storage r ! a)]\<rparr>"

subsection \<open>Forward error correction\<close>

definition fec_index :: "u32 \<Rightarrow> u16 \<Rightarrow> u32" where
  "fec_index frameId groupStart = frameId * 13 + of_nat (unat groupStart div 5)"

text \<open>The loop that looks for the missing fragment: last missing index and how many.\<close>

fun fec_scan :: "frame_data \<Rightarrow> u16 \<Rightarrow> nat list \<Rightarrow> u16 \<times> u16 \<Rightarrow> u16 \<times> u16" where
  "fec_scan f groupStart [] acc = acc"
| "fec_scan f groupStart (i # is) (missingIndex, missingCount) =
     (let idx = groupStart + of_nat i in
      if idx \<ge> fd_totalFragments f \<or> unat idx \<ge> length (fd_fragmentMap f)
      then (missingIndex, missingCount)
      else if \<not> fd_fragmentMap f ! unat idx then fec_scan f groupStart is (idx, missingCount + 1)
      else fec_scan f groupStart is (missingIndex, missingCount))"

text \<open>\<open>recoveredPayload[k] ^= otherPayload[k]\<close>, byte after byte in the same array.\<close>

definition xor_bytes :: "nat \<Rightarrow> nat \<Rightarrow> nat \<Rightarrow> (nat \<Rightarrow> u8) \<Rightarrow> nat \<Rightarrow> u8" where
  "xor_bytes dst src n m = fold (\<lambda>k m. m(dst + k := m (dst + k) XOR m (src + k))) [0..<n] m"

fun fec_xor :: "frame_data \<Rightarrow> u16 \<Rightarrow> u16 \<Rightarrow> nat \<Rightarrow> nat list \<Rightarrow> buf \<Rightarrow> fault + buf" where
  "fec_xor f groupStart missingIndex dataSize [] b = Inr b"
| "fec_xor f groupStart missingIndex dataSize (i # is) b =
     (let idx = groupStart + of_nat i in
      if idx = missingIndex \<or> idx \<ge> fd_totalFragments f
      then fec_xor f groupStart missingIndex dataSize is b
      else if unat idx \<ge> length (fd_fragmentSizes f) then Inl OutOfBounds
      else let other = unat idx * MAX_UDP_PAYLOAD;
               xorSize = min dataSize (unat (fd_fragmentSizes f ! unat idx));
               dst = unat missingIndex * MAX_UDP_PAYLOAD in
        if xorSize > 0 \<and> (other + xorSize > cap b \<or> dst + xorSize > cap b) then Inl OutOfBounds
        else fec_xor f groupStart missingIndex dataSize is
               (b\<lparr>cells := xor_bytes dst other xorSize (cells b)\<rparr>))"

definition finish_frame :: "u32 \<Rightarrow> nat \<Rightarrow> receiver \<Rightarrow> receiver" where
  "finish_frame frameId a r =
     (if fd_fragmentsReceived (frame_at r a) = fd_totalFragments (frame_at r a)
      then (upd_frame a (\<lambda>f. f\<lparr>fd_isComplete := True\<rparr>) r)
             \<lparr>rc_lastCompleted := max (rc_lastCompleted r) frameId\<rparr>
      else r)"

definition recover_into :: "u32 \<Rightarrow> nat \<Rightarrow> fec_group \<Rightarrow> u16 \<Rightarrow> u16 \<Rightarrow> receiver \<Rightarrow> fault + receiver" where
  "recover_into frameId a g groupStart missingIndex r =
     (let f = frame_at r a; n = unat (fh_dataSize (g_fecHeader g));
          offset = unat missingIndex * MAX_UDP_PAYLOAD in
      if offset + n > cap (fd_buffer f) then Inr r
      else case g_fecPacket g of None \<Rightarrow> Inl NullDeref
      | Some pkt \<Rightarrow>
          fbind (buf_write (fd_buffer f) offset (replicate n 0)) (\<lambda>b0.
          fbind (vec_read (pk_data pkt) 0 n) (\<lambda>bs.
          fbind (buf_write b0 offset bs) (\<lambda>b1.
          fbind (fec_xor f groupStart missingIndex n
                   [0..<unat (fh_fragmentCount (g_fecHeader g))] b1) (\<lambda>b2.
            Inr (finish_frame frameId a (upd_frame a (\<lambda>f. f\<lparr>
              fd_buffer := b2,
              fd_fragmentMap := (fd_fragmentMap f)[unat missingIndex := True],
              fd_fragmentSizes := (fd_fragmentSizes f)[unat missingIndex := fh_dataSize (g_fecHeader g)],
              fd_fragmentsReceived := fd_fragmentsReceived f + 1,
              fd_totalSize := (if int (unat missingIndex) = int (unat (fd_totalFragments f)) - 1
                               then offset + n else fd_totalSize f)\<rparr>) r)))))))"

definition try_recover :: "u32 \<Rightarrow> u16 \<Rightarrow> receiver \<Rightarrow> fault + receiver" where
  "try_recover frameId groupStart r =
     (case frb_get (rc_ring r) frameId of None \<Rightarrow> Inr r
      | Some a \<Rightarrow>
        if fd_frameId (frame_at r a) \<noteq> frameId \<or> fd_isComplete (frame_at r a) then Inr r
        else let g = frb_get (rc_fecRing r) (fec_index frameId groupStart) in
          if \<not> g_fecReceived g \<or> g_frameId g \<noteq> frameId \<or>
             fh_fragmentStart (g_fecHeader g) \<noteq> groupStart then Inr r
          else let (missingIndex, missingCount) =
                 fec_scan (frame_at r a) groupStart
                   [0..<unat (fh_fragmentCount (g_fecHeader g))] (0, 0)
            in if missingCount = 1 then recover_into frameId a g groupStart missingIndex r
               else Inr r)"

definition process_fec :: "FECHeader \<Rightarrow> bytes \<Rightarrow> receiver \<Rightarrow> fault + receiver" where
  "process_fec h payload r =
     (if fh_frameId h < rc_next r then Inr r
      else let i = fec_index (fh_frameId h) (fh_fragmentStart h); g = frb_get (rc_fecRing r) i in
        if \<not> g_fecReceived g \<or> g_frameId g \<noteq> fh_frameId h \<or>
           fh_fragmentStart (g_fecHeader g) \<noteq> fh_fragmentStart h
        then
          (case pool_acquire (pool_release (g_fecPacket g) (rc_fecPool r)) of
             (None, _) \<Rightarrow> Inl NullDeref
           | (Some pkt, rest) \<Rightarrow>
               fbind (vec_read payload 0 (unat (fh_dataSize h))) (\<lambda>bs.
               fbind (vec_write (pk_data pkt) 0 bs) (\<lambda>d.
                 try_recover (fh_frameId h) (fh_fragmentStart h)
                   (r\<lparr>rc_fecPool := rest, rc_fecRing := frb_insert i
                      \<lparr>g_fecHeader = h, g_fecReceived = True,
                       g_fecPacket = Some (pkt\<lparr>pk_data := d, pk_size := unat (fh_dataSize h)\<rparr>),
                       g_frameId = fh_frameId h\<rparr> (rc_fecRing r)\<rparr>))))
        else Inr r)"

subsection \<open>Video fragments\<close>

definition start_frame :: "VideoHeader \<Rightarrow> u64 \<Rightarrow> frame_data \<Rightarrow> frame_data" where
  "start_frame h now f = (frame_reset f)\<lparr>fd_frameId := vh_frameId h,
     fd_totalFragments := vh_totalFragments h, fd_captureTimestamp := vh_captureTimestamp h,
     fd_encodeStartTimestamp := vh_encodeStartTimestamp h,
     fd_encodeEndTimestamp := vh_encodeEndTimestamp h,
     fd_isKeyframe := (vh_flags h AND 0x01 \<noteq> 0), fd_isHEVC := (vh_flags h AND 0x02 \<noteq> 0),
     fd_receiveTimestamp := now,
     fd_fragmentMap := vec_grow (unat (vh_totalFragments h)) False (fd_fragmentMap (frame_reset f)),
     fd_fragmentSizes := (if length (fd_fragmentMap f) < unat (vh_totalFragments h)
       then vec_grow (unat (vh_totalFragments h)) 0 (fd_fragmentSizes (frame_reset f))
       else fd_fragmentSizes (frame_reset f))\<rparr>"

definition frame_for :: "VideoHeader \<Rightarrow> u64 \<Rightarrow> receiver \<Rightarrow> nat \<times> receiver" where
  "frame_for h now r =
     (let fp = frb_get (rc_ring r) (vh_frameId h) in
      case fp of
        Some a \<Rightarrow> if fd_frameId (frame_at r a) = vh_frameId h then (a, r)
          else (let (n, r') = get_from_pool (return_to_pool fp r)
            in (n, (upd_frame n (start_frame h now) r')
                 \<lparr>rc_ring := frb_insert (vh_frameId h) (Some n) (rc_ring r')\<rparr>))
      | None \<Rightarrow> let (n, r') = get_from_pool r
            in (n, (upd_frame n (start_frame h now) r')
                 \<lparr>rc_ring := frb_insert (vh_frameId h) (Some n) (rc_ring r')\<rparr>))"

definition FEC_GROUP_SIZE :: nat where
  "FEC_GROUP_SIZE = 5"

definition group_start :: "u16 \<Rightarrow> u16" where
  "group_start i = of_nat (unat i div FEC_GROUP_SIZE * FEC_GROUP_SIZE)"

definition store_fragment :: "VideoHeader \<Rightarrow> bytes \<Rightarrow> frame_data \<Rightarrow> fault + frame_data" where
  "store_fragment h payload f =
     (let i = unat (vh_fragmentIndex h); n = unat (vh_dataSize h); offset = i * MAX_UDP_PAYLOAD in
      if offset + n \<le> cap (fd_buffer f) then
        fbind (vec_read payload 0 n) (\<lambda>bs.
        fbind (buf_write (fd_buffer f) offset bs) (\<lambda>b.
          Inr (f\<lparr>fd_buffer := b, fd_fragmentMap := (fd_fragmentMap f)[i := True],
            fd_fragmentSizes := (fd_fragmentSizes f)[i := vh_dataSize h],
            fd_fragmentsReceived := fd_fragmentsReceived f + 1,
            fd_totalSize := (if int i = int (unat (vh_totalFragments h)) - 1
                             then offset + n else fd_totalSize f)\<rparr>)))
      else Inr f)"

definition accept_fragment :: "VideoHeader \<Rightarrow> bytes \<Rightarrow> nat \<Rightarrow> receiver \<Rightarrow> fault + receiver" where
  "accept_fragment h payload a r =
     (let f = frame_at r a; i = unat (vh_fragmentIndex h) in
      if vh_fragmentIndex h < fd_totalFragments f then
        if i \<ge> length (fd_fragmentMap f) \<or> i \<ge> length (fd_fragmentSizes f) then Inl OutOfBounds
        else if \<not> fd_fragmentMap f ! i then
          fbind (store_fragment h payload f) (\<lambda>f'.
            try_recover (vh_frameId h) (group_start (vh_fragmentIndex h)) (upd_frame a (\<lambda>_. f') r))
        else Inr r
      else Inr r)"

definition process_packet :: "VideoHeader \<Rightarrow> bytes \<Rightarrow> u64 \<Rightarrow> receiver \<Rightarrow> fault + receiver" where
  "process_packet h payload now r =
     (if \<not> rc_first r \<and> vh_flags h AND 0x01 = 0 then Inr r
      else let r1 = (if rc_first r then r else r\<lparr>rc_next := vh_frameId h, rc_first := True\<rparr>) in
        if vh_frameId h < rc_next r1 then Inr r1
        else if vh_totalFragments h > 1024 \<or> unat (vh_dataSize h) > MAX_UDP_PAYLOAD then Inr r1
        else let (a, r2) = frame_for h now r1
          in fbind (accept_fragment h payload a r2) (\<lambda>r3. Inr (finish_frame (vh_frameId h) a r3)))"

subsection \<open>Reading frames out\<close>

text \<open>The frame stays in the storage; its index is the pointer handed to the caller.\<close>

definition get_next_frame :: "receiver \<Rightarrow> nat option \<times> receiver" where
  "get_next_frame r =
     (case frb_get (rc_ring r) (rc_next r) of None \<Rightarrow> (None, r)
      | Some a \<Rightarrow>
        if fd_frameId (frame_at r a) = rc_next r \<and> fd_isComplete (frame_at r a)
        then (Some a, r\<lparr>rc_ring := frb_insert (rc_next r) None (rc_ring r), rc_next := rc_next r + 1\<rparr>)
        else (None, r))"

definition find_latest_keyframe :: "receiver \<Rightarrow> u32" where
  "find_latest_keyframe r =
     fold (\<lambda>i latest. let fid = rc_next r + of_nat i in
        case frb_get (rc_ring r) fid of None \<Rightarrow> latest
        | Some a \<Rightarrow> if fd_frameId (frame_at r a) = fid \<and> fd_isComplete (frame_at r a) \<and>
                       fd_isKeyframe (frame_at r a) then fid else latest) [0..<64] 0"

definition drop_frame :: "u32 \<Rightarrow> receiver \<Rightarrow> receiver" where
  "drop_frame fid r =
     (case frb_get (rc_ring r) fid of None \<Rightarrow> r
      | Some a \<Rightarrow> if fd_frameId (frame_at r a) = fid
          then (return_to_pool (Some a) r)\<lparr>rc_ring := frb_insert fid None (rc_ring r)\<rparr> else r)"

definition force_advance_to :: "u32 \<Rightarrow> receiver \<Rightarrow> receiver" where
  "force_advance_to frameId r =
     (if frameId \<le> rc_next r then r
      else (fold (\<lambda>i. drop_frame (rc_next r + of_nat i)) [0..<unat (frameId - rc_next r)] r)
             \<lparr>rc_next := frameId\<rparr>)"

record nack =
  nk_frameId :: u32
  nk_fragmentIndex :: u16

definition missing_fragments :: "frame_data \<Rightarrow> nat list" where
  "missing_fragments f = filter (\<lambda>j. \<not> fd_fragmentMap f ! j) [0..<unat (fd_totalFragments f)]"

text \<open>The early return at ten entries leaves the first ten.\<close>

definition get_pending_nacks :: "receiver \<Rightarrow> nack list" where
  "get_pending_nacks r = take 10 (concat (map (\<lambda>i.
     let fid = rc_next r + of_nat i in
     case frb_get (rc_ring r) fid of None \<Rightarrow> []
     | Some a \<Rightarrow> if fd_frameId (frame_at r a) = fid \<and> \<not> fd_isComplete (frame_at r a)
         then map (\<lambda>j. \<lparr>nk_frameId = fid, nk_fragmentIndex = of_nat j\<rparr>) (missing_fragments (frame_at r a))
         else []) [0..<32]))"

section \<open>Invariant\<close>

subsection \<open>One frame\<close>

definition received :: "frame_data \<Rightarrow> nat set" where
  "received f = {i. i < length (fd_fragmentMap f) \<and> fd_fragmentMap f ! i}"

definition frame_wf :: "frame_data \<Rightarrow> bool" where
  "frame_wf f \<longleftrightarrow> cap (fd_buffer f) = frame_bytes \<and>
     length (fd_fragmentMap f) = 1024 \<and> length (fd_fragmentSizes f) = 1024 \<and>
     fd_totalFragments f \<le> 1024 \<and>
     unat (fd_fragmentsReceived f) = card (received f) \<and>
     (fd_isComplete f \<longrightarrow> fd_fragmentsReceived f = fd_totalFragments f) \<and>
     (\<forall>i \<in> received f. i < unat (fd_totalFragments f) \<and>
        i * MAX_UDP_PAYLOAD + unat (fd_fragmentSizes f ! i) \<le> frame_bytes) \<and>
     (\<forall>i < 1024. i \<notin> received f \<longrightarrow> fd_fragmentSizes f ! i = 0)"

lemma finite_received [simp]: "finite (received f)"
  by (simp add: received_def)

lemma received_reset: "received (frame_reset f) = {}"
  by (auto simp: received_def frame_reset_def)

lemma received_new: "received frame_new = {}"
  by (auto simp: received_def frame_new_def)

lemma frame_wf_new: "frame_wf frame_new"
  by (simp add: frame_wf_def received_new) (simp add: frame_new_def)

lemma start_frame_simps [simp]:
  "fd_frameId (start_frame h now f) = vh_frameId h"
  "fd_totalFragments (start_frame h now f) = vh_totalFragments h"
  "fd_fragmentsReceived (start_frame h now f) = 0"
  "fd_isComplete (start_frame h now f) = False"
  "fd_totalSize (start_frame h now f) = 0"
  "fd_buffer (start_frame h now f) = fd_buffer f"
  "fd_isKeyframe (start_frame h now f) = (vh_flags h AND 0x01 \<noteq> 0)"
  by (simp_all add: start_frame_def frame_reset_def)

lemma start_frame_lists:
  assumes "frame_wf f" and "vh_totalFragments h \<le> 1024"
  shows "fd_fragmentMap (start_frame h now f) = replicate 1024 False"
    and "fd_fragmentSizes (start_frame h now f) = replicate 1024 0"
  using assms by (simp_all add: start_frame_def frame_reset_def frame_wf_def word_le_nat_alt)

lemma received_start:
  "frame_wf f \<Longrightarrow> vh_totalFragments h \<le> 1024 \<Longrightarrow> received (start_frame h now f) = {}"
  by (auto simp: received_def start_frame_lists)

lemma frame_wf_start: "frame_wf f \<Longrightarrow> vh_totalFragments h \<le> 1024 \<Longrightarrow> frame_wf (start_frame h now f)"
  by (simp add: frame_wf_def [of "start_frame h now f"] received_start start_frame_lists)
     (simp add: frame_wf_def)

text \<open>Marking one more fragment.\<close>

definition add_fragment :: "nat \<Rightarrow> u16 \<Rightarrow> buf \<Rightarrow> nat \<Rightarrow> frame_data \<Rightarrow> frame_data" where
  "add_fragment i n b t f = f\<lparr>fd_buffer := b, fd_fragmentMap := (fd_fragmentMap f)[i := True],
     fd_fragmentSizes := (fd_fragmentSizes f)[i := n],
     fd_fragmentsReceived := fd_fragmentsReceived f + 1, fd_totalSize := t\<rparr>"

lemma received_add:
  "i < length (fd_fragmentMap f) \<Longrightarrow> received (add_fragment i n b t f) = insert i (received f)"
  by (auto simp: received_def add_fragment_def nth_list_update)

lemma received_bounded: "frame_wf f \<Longrightarrow> received f \<subseteq> {..<unat (fd_totalFragments f)}"
  by (auto simp: frame_wf_def)

lemma card_received_less:
  "frame_wf f \<Longrightarrow> i < unat (fd_totalFragments f) \<Longrightarrow> i \<notin> received f \<Longrightarrow>
   card (received f) < unat (fd_totalFragments f)"
proof -
  assume f: "frame_wf f" and i: "i < unat (fd_totalFragments f)" "i \<notin> received f"
  have "received f \<subset> {..<unat (fd_totalFragments f)}"
    using received_bounded [OF f] i by auto
  then show ?thesis using psubset_card_mono [of "{..<unat (fd_totalFragments f)}"] by simp
qed

lemma frame_wf_add:
  assumes f: "frame_wf f" and i: "i < unat (fd_totalFragments f)" "i \<notin> received f"
    and b: "cap b = frame_bytes" and fits: "i * MAX_UDP_PAYLOAD + unat n \<le> frame_bytes"
  shows "frame_wf (add_fragment i n b t f)"
proof -
  have total: "unat (fd_totalFragments f) \<le> 1024" using f by (simp add: frame_wf_def word_le_nat_alt)
  then have i': "i < 1024" using i by simp
  then have rec: "received (add_fragment i n b t f) = insert i (received f)"
    using f received_add by (simp add: frame_wf_def)
  have less: "card (received f) < unat (fd_totalFragments f)" by (rule card_received_less [OF f i])
  then have nc: "\<not> fd_isComplete f" using f by (auto simp: frame_wf_def)
  have "unat (fd_fragmentsReceived f) < 1024" using f less total by (simp add: frame_wf_def)
  then have "unat (fd_fragmentsReceived f + 1) = Suc (unat (fd_fragmentsReceived f))"
    by (simp add: unat_word_ariths)
  then have "unat (fd_fragmentsReceived f + 1) = card (insert i (received f))"
    using f i by (simp add: frame_wf_def)
  then show ?thesis
    using f i i' b fits nc
    by (auto simp: frame_wf_def [of "add_fragment i n b t f"] rec)
       (auto simp: frame_wf_def add_fragment_def nth_list_update)
qed

subsection \<open>Ownership\<close>

definition opt_mset :: "'a option \<Rightarrow> 'a multiset" where
  "opt_mset x = (case x of None \<Rightarrow> {#} | Some a \<Rightarrow> {#a#})"

definition owned :: "'a option list \<Rightarrow> 'a multiset" where
  "owned xs = sum_list (map opt_mset xs)"

lemma opt_mset_simps [simp]: "opt_mset None = {#}" "opt_mset (Some a) = {#a#}"
  by (simp_all add: opt_mset_def)

lemma owned_update:
  "i < length xs \<Longrightarrow> owned (xs[i := v]) + opt_mset (xs ! i) = owned xs + opt_mset v"
  by (induction xs arbitrary: i) (auto simp: owned_def ac_simps split: nat.split)

lemma owned_replicate_None: "owned (replicate n None) = {#}"
  by (induction n) (simp_all add: owned_def)

lemma in_owned: "a \<in># owned xs \<longleftrightarrow> Some a \<in> set xs"
  by (induction xs) (auto simp: owned_def opt_mset_def split: option.splits)

definition addresses :: "nat \<Rightarrow> nat multiset" where
  "addresses n = mset [0..<n]"

lemma addresses_Suc: "addresses (Suc n) = add_mset n (addresses n)"
  by (simp add: addresses_def atLeast0_lessThan_Suc)

lemma in_addresses [simp]: "a \<in># addresses n \<longleftrightarrow> a < n"
  by (simp add: addresses_def)

lemma count_addresses: "count (addresses n) a \<le> 1"
  by (simp add: addresses_def count_mset_set')

text \<open>
  \<open>out\<close> are the frames callers hold. Every frame has exactly one owner; a frame in a slot
  belongs to that slot.
\<close>

definition fec_ok :: "fec_group \<Rightarrow> bool" where
  "fec_ok g \<longleftrightarrow> (g_fecReceived g \<longrightarrow> (\<exists>pkt. g_fecPacket g = Some pkt \<and>
     unat (fh_dataSize (g_fecHeader g)) \<le> length (pk_data pkt)))"

definition receiver_wf :: "nat multiset \<Rightarrow> receiver \<Rightarrow> bool" where
  "receiver_wf out r \<longleftrightarrow>
     length (rc_ring r) = 64 \<and> length (rc_fecRing r) = 1024 \<and>
     (\<forall>f \<in> set (rc_storage r). frame_wf f) \<and>
     owned (rc_ring r) + mset (rc_pool r) + out = addresses (length (rc_storage r)) \<and>
     (\<forall>i < 64. \<forall>a. rc_ring r ! i = Some a \<longrightarrow> unat (fd_frameId (frame_at r a)) mod 64 = i) \<and>
     (\<forall>g \<in> set (rc_fecRing r). fec_ok g)"

lemma receiver_wf_new: "receiver_wf {#} (receiver_new n)"
  by (auto simp: receiver_wf_def receiver_new_def frb_new_def owned_replicate_None frame_wf_new
      fec_ok_def fec_group_new_def nth_replicate addresses_def simp del: upt_Suc)

lemma owned_in_storage:
  assumes wf: "receiver_wf out r"
    and a: "a \<in># owned (rc_ring r) + mset (rc_pool r) + out"
  shows "a < length (rc_storage r)"
proof -
  have "a \<in># addresses (length (rc_storage r))" using wf a by (simp add: receiver_wf_def)
  then show ?thesis by simp
qed

lemma owner_unique:
  assumes "receiver_wf out r"
  shows "count (owned (rc_ring r) + mset (rc_pool r) + out) a \<le> 1"
  using assms count_addresses [of "length (rc_storage r)" a] unfolding receiver_wf_def by metis

lemma held_not_owned:
  assumes "receiver_wf (add_mset a out) r"
  shows "a \<notin># owned (rc_ring r)" and "a \<notin> set (rc_pool r)"
  using owner_unique [OF assms, of a] by (simp_all add: count_eq_zero_iff)

lemma ring_not_pool:
  assumes "receiver_wf out r" and "a \<in># owned (rc_ring r)"
  shows "a \<notin> set (rc_pool r)"
proof
  assume "a \<in> set (rc_pool r)"
  then have "1 \<le> count (mset (rc_pool r)) a" "1 \<le> count (owned (rc_ring r)) a"
    using assms(2) by (simp_all add: Suc_le_eq)
  with owner_unique [OF assms(1), of a] show False by simp
qed

lemma ring_frame:
  assumes "receiver_wf out r" and "frb_get (rc_ring r) fid = Some a"
  shows "a < length (rc_storage r)" and "frame_wf (frame_at r a)" and "a \<in># owned (rc_ring r)"
    and "unat (fd_frameId (frame_at r a)) mod 64 = unat fid mod 64"
proof -
  have i: "unat fid mod 64 < length (rc_ring r)" "length (rc_ring r) = 64"
    using assms(1) by (simp_all add: receiver_wf_def)
  then have r: "rc_ring r ! (unat fid mod 64) = Some a" using assms(2) by (simp add: frb_get_def)
  then show o: "a \<in># owned (rc_ring r)" using i by (metis in_owned nth_mem)
  then show a: "a < length (rc_storage r)" using owned_in_storage [OF assms(1), of a] by simp
  then show "frame_wf (frame_at r a)"
    using assms(1) by (simp add: receiver_wf_def frame_at_def)
  show "unat (fd_frameId (frame_at r a)) mod 64 = unat fid mod 64"
    using assms(1) r by (simp add: receiver_wf_def)
qed

subsection \<open>The pool operations\<close>

lemma frame_at_upd:
  "a < length (rc_storage r) \<Longrightarrow>
   frame_at (upd_frame a f r) b = (if a = b then f (frame_at r a) else frame_at r b)"
  by (simp add: frame_at_def upd_frame_def)

lemma upd_frame_simps [simp]:
  "rc_pool (upd_frame a f r) = rc_pool r" "rc_ring (upd_frame a f r) = rc_ring r"
  "rc_fecRing (upd_frame a f r) = rc_fecRing r" "rc_fecPool (upd_frame a f r) = rc_fecPool r"
  "rc_next (upd_frame a f r) = rc_next r" "rc_first (upd_frame a f r) = rc_first r"
  "rc_lastCompleted (upd_frame a f r) = rc_lastCompleted r"
  "rc_window (upd_frame a f r) = rc_window r"
  "length (rc_storage (upd_frame a f r)) = length (rc_storage r)"
  by (simp_all add: upd_frame_def)

lemma upd_frame_wf:
  assumes wf: "receiver_wf out r" and a: "a < length (rc_storage r)"
    and f: "frame_wf (f (frame_at r a))"
    and id: "unat (fd_frameId (f (frame_at r a))) mod 64 = unat (fd_frameId (frame_at r a)) mod 64"
  shows "receiver_wf out (upd_frame a f r)"
proof -
  have "\<forall>g \<in> set (rc_storage (upd_frame a f r)). frame_wf g"
    using wf f set_update_subset_insert [of "rc_storage r" a "f (rc_storage r ! a)"]
    by (auto simp: receiver_wf_def upd_frame_def frame_at_def)
  moreover have "unat (fd_frameId (frame_at (upd_frame a f r) b)) mod 64 =
      unat (fd_frameId (frame_at r b)) mod 64" for b
    using a id by (auto simp: frame_at_upd)
  ultimately show ?thesis using wf by (simp add: receiver_wf_def)
qed

lemma get_from_pool_wf:
  assumes wf: "receiver_wf out r" and g: "get_from_pool r = (a, r')"
  shows "receiver_wf (add_mset a out) r'" and "rc_ring r' = rc_ring r"
    and "rc_fecRing r' = rc_fecRing r" and "rc_next r' = rc_next r"
    and "a < length (rc_storage r')" and "length (rc_storage r) \<le> length (rc_storage r')"
    and "\<And>b. b < length (rc_storage r) \<Longrightarrow> frame_at r' b = frame_at r b"
proof -
  show ring: "rc_ring r' = rc_ring r" "rc_fecRing r' = rc_fecRing r" "rc_next r' = rc_next r"
    using g by (auto simp: get_from_pool_def split: if_splits)
  show len: "length (rc_storage r) \<le> length (rc_storage r')"
    and keep: "\<And>b. b < length (rc_storage r) \<Longrightarrow> frame_at r' b = frame_at r b"
    using g by (auto simp: get_from_pool_def frame_at_def nth_append split: if_splits)
  have wf_frames: "\<forall>f \<in> set (rc_storage r'). frame_wf f"
    using wf g by (auto simp: receiver_wf_def get_from_pool_def frame_wf_new split: if_splits)
  have own: "owned (rc_ring r) + mset (rc_pool r') + add_mset a out = addresses (length (rc_storage r'))"
  proof (cases "rc_pool r = []")
    case True
    with wf g show ?thesis by (auto simp: receiver_wf_def get_from_pool_def addresses_Suc)
  next
    case False
    then have "mset (rc_pool r) = add_mset a (mset (rc_pool r'))"
      using g mset_butlast by (auto simp: get_from_pool_def)
    moreover have "rc_storage r' = rc_storage r" using False g by (auto simp: get_from_pool_def)
    ultimately show ?thesis using wf by (simp add: receiver_wf_def)
  qed
  have "b < length (rc_storage r)" if "rc_ring r ! i = Some b" "i < 64" for i b
    using owned_in_storage [OF wf, of b] that wf in_owned [of b "rc_ring r"]
    by (auto simp: receiver_wf_def in_set_conv_nth)
  then show "receiver_wf (add_mset a out) r'"
    using wf wf_frames own ring keep by (simp add: receiver_wf_def)
  have "a \<in># addresses (length (rc_storage r'))" unfolding own [symmetric] by simp
  then show "a < length (rc_storage r')" by simp
qed

lemma return_to_pool_wf:
  assumes wf: "receiver_wf (add_mset a out) r"
  shows "receiver_wf out (return_to_pool (Some a) r)"
    and "return_to_pool (Some a) r = r\<lparr>rc_pool := rc_pool r @ [a]\<rparr>"
proof -
  have "a \<notin> set (rc_pool r)" using held_not_owned(2) [OF wf] .
  then show eq: "return_to_pool (Some a) r = r\<lparr>rc_pool := rc_pool r @ [a]\<rparr>"
    by (simp add: return_to_pool_def)
  show "receiver_wf out (return_to_pool (Some a) r)"
    using wf unfolding eq receiver_wf_def by (simp add: frame_at_def)
qed

lemma set_slot_wf:
  assumes wf: "receiver_wf out r" and i: "unat fid mod 64 = i"
    and new: "\<And>a. v = Some a \<Longrightarrow> unat (fd_frameId (frame_at r a)) mod 64 = i"
    and out: "out' + opt_mset v = out + opt_mset (frb_get (rc_ring r) fid)"
  shows "receiver_wf out' (r\<lparr>rc_ring := frb_insert fid v (rc_ring r)\<rparr>)"
proof -
  have l: "length (rc_ring r) = 64" "i < 64" using wf i by (auto simp: receiver_wf_def)
  have "owned ((rc_ring r)[i := v]) + opt_mset (rc_ring r ! i) = owned (rc_ring r) + opt_mset v"
    using l by (intro owned_update) simp
  then have "owned ((rc_ring r)[i := v]) + out' + opt_mset v + opt_mset (rc_ring r ! i)
      = owned (rc_ring r) + out + opt_mset v + opt_mset (rc_ring r ! i)"
    using out i l by (simp add: frb_get_def ac_simps)
  then have own: "owned ((rc_ring r)[i := v]) + out' = owned (rc_ring r) + out" by simp
  have "unat (fd_frameId (frame_at r a)) mod 64 = j"
    if "j < 64" "(rc_ring r)[i := v] ! j = Some a" for j a
    using that wf new l by (cases "i = j") (auto simp: receiver_wf_def)
  moreover have "owned ((rc_ring r)[i := v]) + mset (rc_pool r) + out' = addresses (length (rc_storage r))"
    using own wf by (simp add: receiver_wf_def ac_simps) (metis add.left_commute)
  ultimately show ?thesis
    using wf l i by (simp add: receiver_wf_def frb_insert_def frame_at_def)
qed

subsection \<open>Fragments\<close>

lemma start_slot_wf:
  assumes wf: "receiver_wf out r" and g: "get_from_pool r = (n, r')"
    and free: "frb_get (rc_ring r) (vh_frameId h) = None" and total: "vh_totalFragments h \<le> 1024"
  shows "receiver_wf out ((upd_frame n (start_frame h now) r')
    \<lparr>rc_ring := frb_insert (vh_frameId h) (Some n) (rc_ring r')\<rparr>)"
proof -
  note gw = get_from_pool_wf [OF wf g]
  have "frame_wf (frame_at r' n)" using gw(1,5) by (simp add: receiver_wf_def frame_at_def)
  then have s: "frame_wf (start_frame h now (frame_at r' n))" by (rule frame_wf_start [OF _ total])
  let ?r = "upd_frame n (start_frame h now) r'"
  have slots: "unat (fd_frameId (frame_at ?r b)) mod 64 = i" if "i < 64" "rc_ring r' ! i = Some b" for i b
  proof -
    have "b \<in># owned (rc_ring r')" using that gw(1) in_owned [of b "rc_ring r'"]
      by (auto simp: receiver_wf_def in_set_conv_nth)
    then have "b \<noteq> n" using held_not_owned(1) [OF gw(1)] by auto
    then show ?thesis using that gw(1,5) by (simp add: frame_at_upd receiver_wf_def)
  qed
  have "\<forall>g \<in> set (rc_storage ?r). frame_wf g"
    using gw(1) s set_update_subset_insert [of "rc_storage r'" n]
    by (fastforce simp: receiver_wf_def upd_frame_def frame_at_def)
  then have "receiver_wf (add_mset n out) ?r"
    using gw(1) slots by (simp add: receiver_wf_def)
  then show ?thesis
    using free gw(2,5)
    by (intro set_slot_wf [of "add_mset n out" ?r _ "unat (vh_frameId h) mod 64", simplified])
       (auto simp: frame_at_upd)
qed

text \<open>
  A slot taken by another frame: that frame goes to the free list and is the one taken from it
  again, so the slot keeps its frame and only the frame's contents restart.
\<close>

lemma replace_frame:
  assumes wf: "receiver_wf out r" and o: "a \<in># owned (rc_ring r)"
  shows "get_from_pool (return_to_pool (Some a) r) = (a, r)"
  using ring_not_pool [OF assms] by (simp add: return_to_pool_def get_from_pool_def)

lemma frb_insert_same: "r \<noteq> [] \<Longrightarrow> frb_get r i = x \<Longrightarrow> frb_insert i x r = r"
  by (auto simp: frb_get_def frb_insert_def)

lemma ring_update_same: "rc_ring r = x \<Longrightarrow> r\<lparr>rc_ring := x\<rparr> = r"
  by auto

lemma frame_for_wf:
  assumes wf: "receiver_wf out r" and total: "vh_totalFragments h \<le> 1024"
    and g: "frame_for h now r = (a, r')"
  shows "receiver_wf out r'" and "frb_get (rc_ring r') (vh_frameId h) = Some a"
    and "fd_frameId (frame_at r' a) = vh_frameId h" and "rc_next r' = rc_next r"
    and "rc_fecRing r' = rc_fecRing r"
proof -
  have "receiver_wf out r' \<and> frb_get (rc_ring r') (vh_frameId h) = Some a \<and>
    fd_frameId (frame_at r' a) = vh_frameId h \<and> rc_next r' = rc_next r \<and> rc_fecRing r' = rc_fecRing r"
  proof (cases "frb_get (rc_ring r) (vh_frameId h)")
    case None
    obtain n r1 where n: "get_from_pool r = (n, r1)" by (cases "get_from_pool r")
    note gw = get_from_pool_wf [OF wf n]
    have l: "length (rc_ring r) = 64" using wf by (simp add: receiver_wf_def)
    then have "rc_ring r \<noteq> []" by auto
    then show ?thesis
      using g None n gw start_slot_wf [OF wf n None total]
      by (auto simp: frame_for_def frb_get_insert frame_at_upd)
         (simp add: frame_at_def upd_frame_def)
  next
    case (Some b)
    note rf = ring_frame [OF wf Some]
    show ?thesis
    proof (cases "fd_frameId (frame_at r b) = vh_frameId h")
      case True
      with g Some wf show ?thesis by (simp add: frame_for_def)
    next
      case False
      have ne: "rc_ring r \<noteq> []" using wf by (auto simp: receiver_wf_def)
      have "a = b" "r' = upd_frame b (start_frame h now) r"
        using g Some False replace_frame [OF wf rf(3)] frb_insert_same [OF ne Some]
          ring_update_same [of "upd_frame b (start_frame h now) r"]
        by (auto simp: frame_for_def)
      moreover have "receiver_wf out (upd_frame b (start_frame h now) r)"
        using rf by (intro upd_frame_wf [OF wf]) (simp_all add: frame_wf_start total)
      ultimately show ?thesis using Some rf(1) by (simp add: frame_at_upd)
    qed
  qed
  then show "receiver_wf out r'" and "frb_get (rc_ring r') (vh_frameId h) = Some a"
    and "fd_frameId (frame_at r' a) = vh_frameId h" and "rc_next r' = rc_next r"
    and "rc_fecRing r' = rc_fecRing r" by auto
qed

lemma finish_frame_wf:
  assumes wf: "receiver_wf out r" and a: "a < length (rc_storage r)"
  shows "receiver_wf out (finish_frame fid a r)"
proof -
  have f: "frame_wf (frame_at r a)" using wf a by (simp add: receiver_wf_def frame_at_def)
  show ?thesis
  proof (cases "fd_fragmentsReceived (frame_at r a) = fd_totalFragments (frame_at r a)")
    case True
    let ?done = "\<lambda>f :: frame_data. f\<lparr>fd_isComplete := True\<rparr>"
    have "received (?done (frame_at r a)) = received (frame_at r a)" by (simp add: received_def)
    then have "frame_wf (?done (frame_at r a))" using f True by (auto simp: frame_wf_def)
    then have "receiver_wf out (upd_frame a ?done r)" by (intro upd_frame_wf [OF wf a]) simp_all
    then show ?thesis using True by (simp add: finish_frame_def receiver_wf_def frame_at_def)
  next
    case False
    with wf show ?thesis by (simp add: finish_frame_def)
  qed
qed

text \<open>The recovery loops stay in range on a well-formed frame.\<close>

lemma fec_scan_missing:
  "fec_scan f gs is (m, c) = (m', c') \<Longrightarrow> (m', c') = (m, c) \<or>
   m' < fd_totalFragments f \<and> unat m' < length (fd_fragmentMap f) \<and> \<not> fd_fragmentMap f ! unat m'"
proof (induction "is" arbitrary: m c)
  case (Cons i "is")
  let ?idx = "gs + of_nat i"
  show ?case
    using Cons.prems Cons.IH [of m c] Cons.IH [of ?idx "c + 1"]
    by (auto simp: Let_def not_le split: if_splits)
qed simp

lemma cap_cells [simp]: "cap (b\<lparr>cells := m\<rparr>) = cap b"
  by simp

lemma fec_xor_in_range:
  assumes f: "frame_wf f" and dst: "unat m * MAX_UDP_PAYLOAD + n \<le> frame_bytes"
  shows "cap b = frame_bytes \<Longrightarrow> \<exists>b'. fec_xor f gs m n is b = Inr b' \<and> cap b' = frame_bytes"
proof (induction "is" arbitrary: b)
  case (Cons i "is")
  let ?idx = "gs + of_nat i"
  show ?case
  proof (cases "?idx = m \<or> ?idx \<ge> fd_totalFragments f")
    case True
    with Cons show ?thesis by (simp add: Let_def)
  next
    case False
    then have u: "unat ?idx < unat (fd_totalFragments f)" by (simp add: not_le word_less_nat_alt)
    then have i': "unat ?idx < 1024" using f by (auto simp: frame_wf_def word_le_nat_alt)
    let ?x = "min n (unat (fd_fragmentSizes f ! unat ?idx))"
    have "0 < ?x \<longrightarrow> unat ?idx * MAX_UDP_PAYLOAD + ?x \<le> cap b"
      using f i' Cons.prems by (cases "unat ?idx \<in> received f") (auto simp: frame_wf_def)
    moreover have "unat m * MAX_UDP_PAYLOAD + ?x \<le> cap b" using dst Cons.prems by simp
    ultimately have "\<not> (0 < ?x \<and> (unat ?idx * MAX_UDP_PAYLOAD + ?x > cap b \<or>
        unat m * MAX_UDP_PAYLOAD + ?x > cap b))" by auto
    moreover have "\<not> unat ?idx \<ge> length (fd_fragmentSizes f)" using f i' by (simp add: frame_wf_def)
    ultimately show ?thesis
      using False Cons.IH [of "b\<lparr>cells := xor_bytes (unat m * MAX_UDP_PAYLOAD)
        (unat ?idx * MAX_UDP_PAYLOAD) ?x (cells b)\<rparr>"] Cons.prems
      by (simp only: fec_xor.simps Let_def if_False) simp
  qed
qed simp

lemma recover_into_wf:
  assumes wf: "receiver_wf out r" and ring: "frb_get (rc_ring r) fid = Some a"
    and g: "fec_ok g" "g_fecReceived g"
    and m: "m < fd_totalFragments (frame_at r a)" "unat m < length (fd_fragmentMap (frame_at r a))"
      "\<not> fd_fragmentMap (frame_at r a) ! unat m"
  shows "\<exists>r'. recover_into fid a g gs m r = Inr r' \<and> receiver_wf out r'"
proof -
  let ?f = "frame_at r a" and ?n = "unat (fh_dataSize (g_fecHeader g))"
  let ?off = "unat m * MAX_UDP_PAYLOAD"
  note rf = ring_frame [OF wf ring]
  have cap: "cap (fd_buffer ?f) = frame_bytes" using rf(2) by (simp add: frame_wf_def)
  show ?thesis
  proof (cases "?off + ?n \<le> frame_bytes")
    case False
    with wf cap show ?thesis by (simp add: recover_into_def Let_def)
  next
    case True
    obtain pkt where pkt: "g_fecPacket g = Some pkt" "?n \<le> length (pk_data pkt)"
      using g by (auto simp: fec_ok_def)
    let ?b = "(fd_buffer ?f)\<lparr>cells := poke (poke (cells (fd_buffer ?f)) ?off (replicate ?n 0)) ?off
      (take ?n (pk_data pkt))\<rparr>"
    obtain b' where b': "fec_xor ?f gs m ?n [0..<unat (fh_fragmentCount (g_fecHeader g))] ?b = Inr b'"
        "cap b' = frame_bytes"
      using fec_xor_in_range [OF rf(2) True, of ?b] cap by auto
    let ?t = "if int (unat m) = int (unat (fd_totalFragments ?f)) - 1 then ?off + ?n else fd_totalSize ?f"
    have "frame_wf (add_fragment (unat m) (fh_dataSize (g_fecHeader g)) b' ?t ?f)"
      using m True b' rf(2) by (intro frame_wf_add) (auto simp: received_def word_less_nat_alt)
    then have "receiver_wf out (upd_frame a (\<lambda>f. add_fragment (unat m) (fh_dataSize (g_fecHeader g)) b'
        (if int (unat m) = int (unat (fd_totalFragments f)) - 1 then ?off + ?n else fd_totalSize f) f) r)"
      by (intro upd_frame_wf [OF wf rf(1)]) (simp_all add: add_fragment_def)
    moreover have "recover_into fid a g gs m r = Inr (finish_frame fid a
        (upd_frame a (\<lambda>f. add_fragment (unat m) (fh_dataSize (g_fecHeader g)) b'
        (if int (unat m) = int (unat (fd_totalFragments f)) - 1 then ?off + ?n else fd_totalSize f) f) r))"
      using True cap pkt b'
      by (simp add: recover_into_def Let_def buf_write_def vec_read_def add_fragment_def)
    ultimately show ?thesis using finish_frame_wf rf(1) by simp
  qed
qed

lemma fec_group_ok:
  assumes "receiver_wf out r"
  shows "fec_ok (frb_get (rc_fecRing r) i)"
proof -
  have "length (rc_fecRing r) = 1024" using assms by (simp add: receiver_wf_def)
  then have "frb_get (rc_fecRing r) i \<in> set (rc_fecRing r)" by (simp add: frb_get_def)
  then show ?thesis using assms by (simp add: receiver_wf_def)
qed

lemma try_recover_wf:
  assumes wf: "receiver_wf out r"
  shows "\<exists>r'. try_recover fid gs r = Inr r' \<and> receiver_wf out r'"
proof (cases "frb_get (rc_ring r) fid")
  case None
  with wf show ?thesis by (simp add: try_recover_def)
next
  case (Some a)
  let ?g = "frb_get (rc_fecRing r) (fec_index fid gs)"
  show ?thesis
  proof (cases "fd_frameId (frame_at r a) \<noteq> fid \<or> fd_isComplete (frame_at r a) \<or> \<not> g_fecReceived ?g \<or>
      g_frameId ?g \<noteq> fid \<or> fh_fragmentStart (g_fecHeader ?g) \<noteq> gs")
    case True
    with Some wf show ?thesis by (auto simp: try_recover_def Let_def)
  next
    case False
    obtain m c where s: "fec_scan (frame_at r a) gs [0..<unat (fh_fragmentCount (g_fecHeader ?g))] (0, 0)
        = (m, c)" by (cases "fec_scan (frame_at r a) gs [0..<unat (fh_fragmentCount (g_fecHeader ?g))] (0, 0)")
    show ?thesis
    proof (cases "c = 1")
      case True
      then have hole: "m < fd_totalFragments (frame_at r a)"
        "unat m < length (fd_fragmentMap (frame_at r a))" "\<not> fd_fragmentMap (frame_at r a) ! unat m"
        using fec_scan_missing [OF s] by auto
      from recover_into_wf [OF wf Some fec_group_ok [OF wf] _ hole] False show ?thesis
        using Some s True by (simp add: try_recover_def Let_def)
    next
      case c: False
      with Some s wf False show ?thesis by (simp add: try_recover_def Let_def)
    qed
  qed
qed

lemma finish_frame_simps [simp]:
  "rc_ring (finish_frame fid a r) = rc_ring r" "rc_next (finish_frame fid a r) = rc_next r"
  "rc_fecRing (finish_frame fid a r) = rc_fecRing r"
  "length (rc_storage (finish_frame fid a r)) = length (rc_storage r)"
  by (simp_all add: finish_frame_def)

lemma recover_into_keeps:
  "recover_into fid a g gs m r = Inr r' \<Longrightarrow> rc_ring r' = rc_ring r \<and> rc_next r' = rc_next r \<and>
   rc_fecRing r' = rc_fecRing r \<and> length (rc_storage r') = length (rc_storage r)"
  by (auto simp: recover_into_def Let_def fbind_Inr_iff split: if_splits option.splits)

lemma try_recover_keeps:
  "try_recover fid gs r = Inr r' \<Longrightarrow> rc_ring r' = rc_ring r \<and> rc_next r' = rc_next r \<and>
   rc_fecRing r' = rc_fecRing r \<and> length (rc_storage r') = length (rc_storage r)"
  by (auto simp: try_recover_def Let_def split: if_splits option.splits prod.splits
      dest: recover_into_keeps)

lemma store_fragment_wf:
  assumes f: "frame_wf f" and i: "vh_fragmentIndex h < fd_totalFragments f"
    and new: "\<not> fd_fragmentMap f ! unat (vh_fragmentIndex h)"
    and p: "unat (vh_dataSize h) \<le> length payload"
  shows "\<exists>f'. store_fragment h payload f = Inr f' \<and> frame_wf f' \<and> fd_frameId f' = fd_frameId f"
proof -
  let ?i = "unat (vh_fragmentIndex h)" and ?n = "unat (vh_dataSize h)"
  have cap: "cap (fd_buffer f) = frame_bytes" using f by (simp add: frame_wf_def)
  have i': "?i < unat (fd_totalFragments f)" using i by (simp add: word_less_nat_alt)
  show ?thesis
  proof (cases "?i * MAX_UDP_PAYLOAD + ?n \<le> frame_bytes")
    case True
    let ?b = "(fd_buffer f)\<lparr>cells := poke (cells (fd_buffer f)) (?i * MAX_UDP_PAYLOAD) (take ?n payload)\<rparr>"
    let ?t = "if int ?i = int (unat (vh_totalFragments h)) - 1 then ?i * MAX_UDP_PAYLOAD + ?n else fd_totalSize f"
    have "store_fragment h payload f = Inr (add_fragment ?i (vh_dataSize h) ?b ?t f)"
      using True cap p by (simp add: store_fragment_def Let_def vec_read_def buf_write_def add_fragment_def)
    moreover have "frame_wf (add_fragment ?i (vh_dataSize h) ?b ?t f)"
      using i' new cap True by (intro frame_wf_add [OF f]) (auto simp: received_def)
    ultimately show ?thesis by (simp add: add_fragment_def)
  next
    case False
    with f cap show ?thesis by (simp add: store_fragment_def Let_def)
  qed
qed

lemma accept_fragment_wf:
  assumes wf: "receiver_wf out r" and a: "a < length (rc_storage r)"
    and p: "unat (vh_dataSize h) \<le> length payload"
  shows "\<exists>r'. accept_fragment h payload a r = Inr r' \<and> receiver_wf out r' \<and> rc_next r' = rc_next r \<and>
    rc_ring r' = rc_ring r \<and> length (rc_storage r') = length (rc_storage r)"
proof -
  let ?f = "frame_at r a" and ?i = "unat (vh_fragmentIndex h)"
  have f: "frame_wf ?f" using wf a by (simp add: receiver_wf_def frame_at_def)
  show ?thesis
  proof (cases "vh_fragmentIndex h < fd_totalFragments ?f \<and> \<not> fd_fragmentMap ?f ! ?i")
    case False
    with wf f show ?thesis
      by (auto simp: accept_fragment_def Let_def frame_wf_def word_le_nat_alt word_less_nat_alt)
  next
    case True
    then have i': "?i < 1024" using f by (auto simp: frame_wf_def word_le_nat_alt word_less_nat_alt)
    obtain f' where f': "store_fragment h payload ?f = Inr f'" "frame_wf f'" "fd_frameId f' = fd_frameId ?f"
      using store_fragment_wf [OF f _ _ p] True by auto
    have wf': "receiver_wf out (upd_frame a (\<lambda>_. f') r)"
      using f' by (intro upd_frame_wf [OF wf a]) simp_all
    obtain r' where r': "try_recover (vh_frameId h) (group_start (vh_fragmentIndex h))
        (upd_frame a (\<lambda>_. f') r) = Inr r'" "receiver_wf out r'"
      using try_recover_wf [OF wf'] by blast
    from try_recover_keeps [OF r'(1)] r' True f f'(1) i' show ?thesis
      by (auto simp: accept_fragment_def Let_def frame_wf_def)
  qed
qed

lemma receiver_wf_next [simp]:
  "receiver_wf out (r\<lparr>rc_next := n\<rparr>) = receiver_wf out r"
  "receiver_wf out (r\<lparr>rc_next := n, rc_first := b\<rparr>) = receiver_wf out r"
  "receiver_wf out (r\<lparr>rc_window := w\<rparr>) = receiver_wf out r"
  by (simp_all add: receiver_wf_def frame_at_def)

lemma process_packet_wf:
  assumes wf: "receiver_wf out r"
    and p: "unat (vh_dataSize h) \<le> MAX_UDP_PAYLOAD \<Longrightarrow> unat (vh_dataSize h) \<le> length payload"
  shows "\<exists>r'. process_packet h payload now r = Inr r' \<and> receiver_wf out r'"
proof -
  let ?r1 = "if rc_first r then r else r\<lparr>rc_next := vh_frameId h, rc_first := True\<rparr>"
  have wf1: "receiver_wf out ?r1" using wf by simp
  show ?thesis
  proof (cases "(\<not> rc_first r \<and> vh_flags h AND 0x01 = 0) \<or> vh_frameId h < rc_next ?r1 \<or>
      vh_totalFragments h > 1024 \<or> unat (vh_dataSize h) > MAX_UDP_PAYLOAD")
    case True
    with wf wf1 show ?thesis by (auto simp: process_packet_def Let_def)
  next
    case False
    obtain a r2 where f: "frame_for h now ?r1 = (a, r2)" by (cases "frame_for h now ?r1")
    have "vh_totalFragments h \<le> 1024" using False by (simp add: not_less)
    note fw = frame_for_wf [OF wf1 this f]
    have a: "a < length (rc_storage r2)" using ring_frame(1) [OF fw(1,2)] .
    obtain r3 where r3: "accept_fragment h payload a r2 = Inr r3" "receiver_wf out r3"
        "length (rc_storage r3) = length (rc_storage r2)"
      using accept_fragment_wf [OF fw(1) a, of h payload] p False by auto
    then have "receiver_wf out (finish_frame (vh_frameId h) a r3)"
      using finish_frame_wf a by simp
    then show ?thesis using False f r3(1) by (auto simp: process_packet_def Let_def)
  qed
qed

lemma get_next_frame_wf:
  assumes wf: "receiver_wf out r" and g: "get_next_frame r = (fp, r')"
  shows "receiver_wf (out + opt_mset fp) r'"
proof (cases "frb_get (rc_ring r) (rc_next r)")
  case None
  with g wf show ?thesis by (auto simp: get_next_frame_def)
next
  case (Some a)
  show ?thesis
  proof (cases "fd_frameId (frame_at r a) = rc_next r \<and> fd_isComplete (frame_at r a)")
    case True
    have "receiver_wf (out + {#a#}) (r\<lparr>rc_ring := frb_insert (rc_next r) None (rc_ring r)\<rparr>)"
      using Some by (intro set_slot_wf [OF wf]) simp_all
    moreover have "fp = Some a" "r' = r\<lparr>rc_ring := frb_insert (rc_next r) None (rc_ring r),
        rc_next := rc_next r + 1\<rparr>"
      using g Some True by (simp_all add: get_next_frame_def)
    ultimately show ?thesis by simp
  next
    case False
    with g Some wf show ?thesis by (auto simp: get_next_frame_def)
  qed
qed

lemma drop_frame_wf:
  assumes wf: "receiver_wf out r"
  shows "receiver_wf out (drop_frame fid r)"
proof (cases "frb_get (rc_ring r) fid")
  case None
  with wf show ?thesis by (simp add: drop_frame_def)
next
  case (Some a)
  let ?r = "r\<lparr>rc_ring := frb_insert fid None (rc_ring r)\<rparr>"
  have w: "receiver_wf (add_mset a out) ?r"
    using Some by (intro set_slot_wf [OF wf]) simp_all
  have "return_to_pool (Some a) ?r = (return_to_pool (Some a) r)\<lparr>rc_ring := frb_insert fid None (rc_ring r)\<rparr>"
    by (simp add: return_to_pool_def)
  then show ?thesis using return_to_pool_wf(1) [OF w] Some wf by (simp add: drop_frame_def)
qed

lemma force_advance_wf:
  assumes wf: "receiver_wf out r"
  shows "receiver_wf out (force_advance_to fid r)"
proof -
  have "receiver_wf out (fold (\<lambda>i. drop_frame (f i)) xs q)" if "receiver_wf out q" for xs q f
    using that by (induction xs arbitrary: q) (simp_all add: drop_frame_wf)
  from this [OF wf, of "\<lambda>i. rc_next r + of_nat i"] wf show ?thesis
    by (simp add: force_advance_to_def)
qed

section \<open>Runs\<close>

text \<open>
  What the client's threads do with the receiver; \<open>OpReturn\<close> is the deleter of a frame the
  caller holds. The state also lists the frames held.
\<close>

datatype rx_op = OpPacket VideoHeader bytes u64 | OpNext | OpReturn nat | OpAdvance u32
  | OpValidate u64

fun rx_step :: "rx_op \<Rightarrow> nat list \<times> receiver \<Rightarrow> fault + (nat list \<times> receiver)" where
  "rx_step (OpPacket h payload now) (out, r) =
     fbind (process_packet h payload now r) (\<lambda>r'. Inr (out, r'))"
| "rx_step OpNext (out, r) =
     (case get_next_frame r of (None, r') \<Rightarrow> Inr (out, r') | (Some a, r') \<Rightarrow> Inr (a # out, r'))"
| "rx_step (OpReturn a) (out, r) =
     (if a \<in> set out then Inr (remove1 a out, return_to_pool (Some a) r) else Inr (out, r))"
| "rx_step (OpAdvance fid) (out, r) = Inr (out, force_advance_to fid r)"
| "rx_step (OpValidate s) (out, r) = Inr (out, snd (receiver_validate s r))"

fun rx_run :: "rx_op list \<Rightarrow> nat list \<times> receiver \<Rightarrow> fault + (nat list \<times> receiver)" where
  "rx_run [] st = Inr st"
| "rx_run (op # ops) st = fbind (rx_step op st) (rx_run ops)"

text \<open>The packet a caller passes carries at least the bytes its header announces.\<close>

fun op_ok :: "rx_op \<Rightarrow> bool" where
  "op_ok (OpPacket h payload now) \<longleftrightarrow>
     (unat (vh_dataSize h) \<le> MAX_UDP_PAYLOAD \<longrightarrow> unat (vh_dataSize h) \<le> length payload)"
| "op_ok _ \<longleftrightarrow> True"

lemma rx_step_wf:
  assumes wf: "receiver_wf (mset out) r" and ok: "op_ok op"
  shows "\<exists>out' r'. rx_step op (out, r) = Inr (out', r') \<and> receiver_wf (mset out') r'"
proof (cases op)
  case (OpPacket h payload now)
  then show ?thesis using process_packet_wf [OF wf, of h payload now] ok by auto
next
  case OpNext
  obtain fp r' where g: "get_next_frame r = (fp, r')" by (cases "get_next_frame r")
  from get_next_frame_wf [OF wf g] show ?thesis using OpNext g by (cases fp) simp_all
next
  case (OpReturn a)
  show ?thesis
  proof (cases "a \<in> set out")
    case True
    then have "receiver_wf (add_mset a (mset (remove1 a out))) r" using wf by simp
    from return_to_pool_wf(1) [OF this] True OpReturn show ?thesis by simp
  next
    case False
    with wf OpReturn show ?thesis by simp
  qed
next
  case (OpAdvance fid)
  then show ?thesis using force_advance_wf [OF wf] by simp
next
  case (OpValidate s)
  then show ?thesis using wf by (simp add: receiver_validate_def split_beta Let_def)
qed

lemma rx_run_wf:
  "receiver_wf (mset out) r \<Longrightarrow> \<forall>op \<in> set ops. op_ok op \<Longrightarrow>
   \<exists>out' r'. rx_run ops (out, r) = Inr (out', r') \<and> receiver_wf (mset out') r'"
proof (induction ops arbitrary: out r)
  case (Cons op ops)
  obtain out1 r1 where 1: "rx_step op (out, r) = Inr (out1, r1)" "receiver_wf (mset out1) r1"
    using rx_step_wf [OF Cons.prems(1), of op] Cons.prems(2) by auto
  from Cons.IH [OF 1(2)] Cons.prems(2) 1(1) show ?case by simp
qed simp

section \<open>Memory safety\<close>

text \<open>C5: memory safety of reassembly. Whatever the fragments (indexes, counts, sizes and frame
  numbers included) and whatever the order in which they are processed, popped, returned and
  skipped, no access is out of range and every frame of the storage has exactly one owner: the
  free list, a slot of the ring or the caller. So no frame is reused while it is being
  assembled or decoded, and none is leaked.\<close>
theorem receiver_memory_safe:
  assumes "\<forall>op \<in> set ops. op_ok op"
  shows "\<exists>out r. rx_run ops ([], receiver_new n) = Inr (out, r) \<and>
    owned (rc_ring r) + mset (rc_pool r) + mset out = mset [0..<length (rc_storage r)] \<and>
    distinct (rc_pool r @ out)"
proof -
  obtain out r where 1: "rx_run ops ([], receiver_new n) = Inr (out, r)" "receiver_wf (mset out) r"
    using rx_run_wf [of "[]" "receiver_new n" ops] receiver_wf_new assms by auto
  have "count (mset (rc_pool r @ out)) a \<le> 1" for a using owner_unique [OF 1(2), of a] by simp
  then have "distinct (rc_pool r @ out)"
    by (metis count_greater_eq_one_iff distinct_count_atmost_1 le_antisym not_in_iff set_mset_mset)
  with 1 show ?thesis by (auto simp: receiver_wf_def addresses_def)
qed

definition sample_header :: VideoHeader where
  "sample_header = \<lparr>vh_type = 1, vh_frameId = 9, vh_fragmentIndex = 0, vh_totalFragments = 1,
     vh_packetSequence = 0, vh_captureTimestamp = 0, vh_encodeStartTimestamp = 0,
     vh_encodeEndTimestamp = 0, vh_flags = 1, vh_dataSize = 2\<rparr>"

theorem receiver_memory_safe_witness:
  "\<exists>out r. rx_run [OpPacket sample_header [5, 6] 0, OpNext, OpAdvance 70, OpReturn 2]
      ([], receiver_new 3) = Inr (out, r) \<and> distinct (rc_pool r @ out)"
  using receiver_memory_safe [of "[OpPacket sample_header [5, 6] 0, OpNext, OpAdvance 70, OpReturn 2]" 3]
  by (auto simp: sample_header_def)

end
