(* ===== verification/Recovery.thy ===== *)
theory Recovery
  imports Reassembly
begin

text \<open>
  How \<open>Client::Receiver\<close> deals with loss: retransmission requests, parity packets, and the jump
  to a later keyframe. Also the two ways a parity packet can break it.
\<close>

section \<open>Retransmission requests\<close>

definition wanted :: "receiver \<Rightarrow> nack \<Rightarrow> bool" where
  "wanted r k \<longleftrightarrow> (\<exists>i a. i < 32 \<and> nk_frameId k = rc_next r + of_nat i \<and>
     frb_get (rc_ring r) (nk_frameId k) = Some a \<and> fd_frameId (frame_at r a) = nk_frameId k \<and>
     \<not> fd_isComplete (frame_at r a) \<and> nk_fragmentIndex k < fd_totalFragments (frame_at r a) \<and>
     unat (nk_fragmentIndex k) \<notin> received (frame_at r a))"

definition all_missing :: "receiver \<Rightarrow> nack list" where
  "all_missing r = concat (map (\<lambda>i. let fid = rc_next r + of_nat i in
     case frb_get (rc_ring r) fid of None \<Rightarrow> []
     | Some a \<Rightarrow> if fd_frameId (frame_at r a) = fid \<and> \<not> fd_isComplete (frame_at r a)
         then map (\<lambda>j. \<lparr>nk_frameId = fid, nk_fragmentIndex = of_nat j\<rparr>) (missing_fragments (frame_at r a))
         else []) [0..<32])"

lemma get_pending_nacks_eq: "get_pending_nacks r = take 10 (all_missing r)"
  by (simp add: get_pending_nacks_def all_missing_def)

lemma missing_iff:
  assumes "frame_wf f"
  shows "k \<in> set (map (\<lambda>j. \<lparr>nk_frameId = fid, nk_fragmentIndex = of_nat j\<rparr>) (missing_fragments f)) \<longleftrightarrow>
    nk_frameId k = fid \<and> nk_fragmentIndex k < fd_totalFragments f \<and>
    unat (nk_fragmentIndex k) \<notin> received f" (is "?l \<longleftrightarrow> ?r")
proof
  have t: "unat (fd_totalFragments f) \<le> 1024" using assms by (simp add: frame_wf_def word_le_nat_alt)
  assume ?l
  then obtain j where j: "j < unat (fd_totalFragments f)" "\<not> fd_fragmentMap f ! j"
    "k = \<lparr>nk_frameId = fid, nk_fragmentIndex = of_nat j\<rparr>" by (auto simp: missing_fragments_def)
  then have "unat (of_nat j :: u16) = j" using t by (intro unat_of_nat_u16) simp
  with j show ?r by (simp add: word_less_nat_alt received_def)
next
  have t: "unat (fd_totalFragments f) \<le> 1024" using assms by (simp add: frame_wf_def word_le_nat_alt)
  assume r: ?r
  let ?j = "unat (nk_fragmentIndex k)"
  have "?j < unat (fd_totalFragments f)" using r by (simp add: word_less_nat_alt)
  moreover have "\<not> fd_fragmentMap f ! ?j"
    using r calculation t assms by (auto simp: received_def frame_wf_def)
  ultimately have "?j \<in> set (missing_fragments f)" by (simp add: missing_fragments_def)
  moreover have "k = \<lparr>nk_frameId = fid, nk_fragmentIndex = of_nat ?j\<rparr>" using r by simp
  ultimately show ?l by (metis (no_types, lifting) image_eqI set_map)
qed

lemma all_missing_wanted:
  assumes wf: "receiver_wf out r"
  shows "k \<in> set (all_missing r) \<longleftrightarrow> wanted r k"
proof -
  let ?row = "\<lambda>fid. case frb_get (rc_ring r) fid of None \<Rightarrow> []
     | Some a \<Rightarrow> if fd_frameId (frame_at r a) = fid \<and> \<not> fd_isComplete (frame_at r a)
         then map (\<lambda>j. \<lparr>nk_frameId = fid, nk_fragmentIndex = of_nat j\<rparr>) (missing_fragments (frame_at r a))
         else []"
  have row: "k \<in> set (?row fid) \<longleftrightarrow> nk_frameId k = fid \<and> (\<exists>a. frb_get (rc_ring r) fid = Some a \<and>
      fd_frameId (frame_at r a) = fid \<and> \<not> fd_isComplete (frame_at r a) \<and>
      nk_fragmentIndex k < fd_totalFragments (frame_at r a) \<and>
      unat (nk_fragmentIndex k) \<notin> received (frame_at r a))" for fid
  proof (cases "frb_get (rc_ring r) fid")
    case (Some a)
    then show ?thesis using missing_iff [OF ring_frame(2) [OF wf Some], of k fid] by auto
  qed simp
  have "k \<in> set (all_missing r) \<longleftrightarrow> (\<exists>i \<in> {0..<32}. k \<in> set (?row (rc_next r + of_nat i)))"
    by (simp add: all_missing_def Let_def)
  then show ?thesis unfolding row wanted_def by auto
qed

text \<open>C27: retransmission requests are exact: at most ten per call, each for a fragment that is missing
  from an incomplete frame among the 32 from the read pointer on; and when fewer than ten are
  sent, every such fragment is requested.\<close>
theorem nacks_exact:
  assumes "receiver_wf out r"
  shows "length (get_pending_nacks r) \<le> 10 \<and> (\<forall>k \<in> set (get_pending_nacks r). wanted r k) \<and>
    (length (get_pending_nacks r) < 10 \<longrightarrow> (\<forall>k. wanted r k \<longrightarrow> k \<in> set (get_pending_nacks r)))"
  using all_missing_wanted [OF assms] set_take_subset [of 10 "all_missing r"]
  by (auto simp: get_pending_nacks_eq)

definition two_fragments :: receiver where
  "two_fragments = (case process_packet (sample_header\<lparr>vh_totalFragments := 2\<rparr>) [5, 6] 0 (receiver_new 1)
     of Inl e \<Rightarrow> receiver_new 1 | Inr r \<Rightarrow> r)"

theorem nacks_exact_witness:
  "length (get_pending_nacks two_fragments) \<le> 10"
proof -
  have "\<exists>r. process_packet (sample_header\<lparr>vh_totalFragments := 2\<rparr>) [5, 6] 0 (receiver_new 1) = Inr r \<and>
      receiver_wf {#} r"
    by (rule process_packet_wf [OF receiver_wf_new]) (simp add: sample_header_def)
  then have "receiver_wf {#} two_fragments" by (auto simp: two_fragments_def)
  from nacks_exact [OF this] show ?thesis by blast
qed

section \<open>Parity\<close>

lemma xor_bytes_result:
  assumes "dst + n \<le> src \<or> src + n \<le> dst"
  shows "xor_bytes dst src n m i =
    (if dst \<le> i \<and> i < dst + n then m i XOR m (src + (i - dst)) else m i)"
  using assms
proof (induction n arbitrary: i)
  case 0
  then show ?case by (auto simp: xor_bytes_def)
next
  case (Suc n)
  have "xor_bytes dst src (Suc n) m = (xor_bytes dst src n m)
      (dst + n := xor_bytes dst src n m (dst + n) XOR xor_bytes dst src n m (src + n))"
    by (simp add: xor_bytes_def)
  moreover have "xor_bytes dst src n m (dst + n) = m (dst + n)"
    "xor_bytes dst src n m (src + n) = m (src + n)" using Suc by auto
  ultimately show ?case using Suc by (auto simp: less_Suc_eq)
qed

definition xor_all :: "(nat \<Rightarrow> u8) \<Rightarrow> nat list \<Rightarrow> u8" where
  "xor_all f xs = foldr (\<lambda>i s. f i XOR s) xs 0"

lemma xor_all_Cons [simp]: "xor_all f [] = 0" "xor_all f (i # xs) = f i XOR xor_all f xs"
  by (simp_all add: xor_all_def)

lemma xor_all_cong: "(\<And>i. i \<in> set xs \<Longrightarrow> f i = g i) \<Longrightarrow> xor_all f xs = xor_all g xs"
  by (induction xs) auto

lemma xor_cancel: "(a :: u8) XOR (a XOR b) = b"
  by (simp add: xor.assoc [symmetric])

lemma xor_all_missing:
  assumes "f' m = 0" and "\<And>i. i \<noteq> m \<Longrightarrow> f' i = f i"
  shows "distinct xs \<Longrightarrow> m \<in> set xs \<Longrightarrow> xor_all f xs XOR xor_all f' xs = f m"
proof (induction xs)
  case (Cons i xs)
  show ?case
  proof (cases "i = m")
    case True
    have "f' j = f j" if "j \<in> set xs" for j
      using that Cons.prems True by (intro assms(2)) auto
    then have "xor_all f' xs = xor_all f xs" by (rule xor_all_cong)
    with True assms(1) show ?thesis by (simp add: xor.assoc)
  next
    case False
    have "(f i XOR xor_all f xs) XOR (f i XOR xor_all f' xs) = xor_all f xs XOR xor_all f' xs"
      by (metis xor.assoc xor.commute xor_cancel)
    with False Cons assms(2) show ?thesis by simp
  qed
qed simp

text \<open>The bytes fragment \<open>i\<close> of a frame adds to the parity, padded with zeros.\<close>

definition part :: "frame_data \<Rightarrow> (nat \<Rightarrow> u8) \<Rightarrow> nat \<Rightarrow> nat \<Rightarrow> nat \<Rightarrow> u8" where
  "part f mem n i k = (if k < min n (unat (fd_fragmentSizes f ! i)) then mem (i * MAX_UDP_PAYLOAD + k) else 0)"

lemma slots_apart:
  assumes "i \<noteq> (j::nat)" and "n \<le> MAX_UDP_PAYLOAD"
  shows "i * MAX_UDP_PAYLOAD + n \<le> j * MAX_UDP_PAYLOAD \<or> j * MAX_UDP_PAYLOAD + n \<le> i * MAX_UDP_PAYLOAD"
proof (cases "i < j")
  case True
  then have "Suc i * MAX_UDP_PAYLOAD \<le> j * MAX_UDP_PAYLOAD" by (intro mult_le_mono1) simp
  with assms show ?thesis by simp
next
  case False
  with assms have "Suc j * MAX_UDP_PAYLOAD \<le> i * MAX_UDP_PAYLOAD" by (intro mult_le_mono1) simp
  with assms show ?thesis by simp
qed

lemma fec_xor_result:
  assumes f: "frame_wf f" and m: "m < 1024" "m * MAX_UDP_PAYLOAD + n \<le> frame_bytes" and n: "n \<le> MAX_UDP_PAYLOAD"
    and total: "g + cnt \<le> unat (fd_totalFragments f)"
  shows "set js \<subseteq> {..<cnt} \<Longrightarrow> cap b = frame_bytes \<Longrightarrow>
    \<exists>b'. fec_xor f (of_nat g) (of_nat m) n js b = Inr b' \<and> cap b' = frame_bytes \<and>
      (\<forall>x. x < m * MAX_UDP_PAYLOAD \<or> m * MAX_UDP_PAYLOAD + n \<le> x \<longrightarrow> cells b' x = cells b x) \<and>
      (\<forall>k < n. cells b' (m * MAX_UDP_PAYLOAD + k) = cells b (m * MAX_UDP_PAYLOAD + k) XOR
         xor_all (\<lambda>j. if g + j = m then 0 else part f (cells b) n (g + j) k) js)"
proof (induction js arbitrary: b)
  case (Cons j js)
  let ?dst = "m * MAX_UDP_PAYLOAD"
  have t: "unat (fd_totalFragments f) \<le> 1024" using f by (simp add: frame_wf_def word_le_nat_alt)
  have j: "g + j < unat (fd_totalFragments f)" using Cons.prems(1) total by auto
  have idx: "unat (of_nat g + of_nat j :: u16) = g + j" "unat (of_nat m :: u16) = m"
    using j t m unat_of_nat_u16 [of "g + j"] unat_of_nat_u16 [of m] by simp_all
  have below: "\<not> (of_nat g + of_nat j :: u16) \<ge> fd_totalFragments f" using j idx by (simp add: word_le_nat_alt)
  have eqm: "(of_nat g + of_nat j :: u16) = of_nat m \<longleftrightarrow> g + j = m" using idx by (metis word_unat_eq_iff)
  show ?case
  proof (cases "g + j = m")
    case True
    then have "fec_xor f (of_nat g) (of_nat m) n (j # js) b = fec_xor f (of_nat g) (of_nat m) n js b"
      using eqm by simp
    with Cons.IH [of b] Cons.prems True show ?thesis by auto
  next
    case False
    let ?x = "min n (unat (fd_fragmentSizes f ! (g + j)))" and ?src = "(g + j) * MAX_UDP_PAYLOAD"
    let ?b1 = "b\<lparr>cells := xor_bytes ?dst ?src ?x (cells b)\<rparr>"
    have len: "\<not> g + j \<ge> length (fd_fragmentSizes f)" using f j t by (simp add: frame_wf_def)
    have "0 < ?x \<longrightarrow> ?src + ?x \<le> cap b"
      using f j t Cons.prems(2) by (cases "g + j \<in> received f") (auto simp: frame_wf_def)
    moreover have "?dst + ?x \<le> cap b" using m Cons.prems(2) by simp
    ultimately have ok: "\<not> (0 < ?x \<and> (?src + ?x > cap b \<or> ?dst + ?x > cap b))" by auto
    have s: "fec_xor f (of_nat g) (of_nat m) n (j # js) b = fec_xor f (of_nat g) (of_nat m) n js ?b1"
      using False eqm below len ok idx by (simp only: fec_xor.simps Let_def if_False simp_thms)
    have apart: "?dst + n \<le> ?src \<or> ?src + n \<le> ?dst" using slots_apart [of m "g + j" n] False n by auto
    then have apart': "?dst + ?x \<le> ?src \<or> ?src + ?x \<le> ?dst" by linarith
    have res: "cells ?b1 x = (if ?dst \<le> x \<and> x < ?dst + ?x then cells b x XOR cells b (?src + (x - ?dst))
        else cells b x)" for x
      using xor_bytes_result [of ?dst ?x ?src "cells b" x, OF apart'] by simp
    obtain b' where b': "fec_xor f (of_nat g) (of_nat m) n js ?b1 = Inr b'" "cap b' = frame_bytes"
      "\<forall>x. x < ?dst \<or> ?dst + n \<le> x \<longrightarrow> cells b' x = cells ?b1 x"
      "\<forall>k < n. cells b' (?dst + k) = cells ?b1 (?dst + k) XOR
         xor_all (\<lambda>j. if g + j = m then 0 else part f (cells ?b1) n (g + j) k) js"
      using Cons.IH [of ?b1] Cons.prems by auto
    have outside: "cells ?b1 x = cells b x" if "x < ?dst \<or> ?dst + n \<le> x" for x
      using that unfolding res by auto
    have same: "part f (cells ?b1) n i k = part f (cells b) n i k" if "i \<noteq> m" "k < n" for i k
    proof -
      have "i * MAX_UDP_PAYLOAD + k < ?dst \<or> ?dst + n \<le> i * MAX_UDP_PAYLOAD + k"
        using slots_apart [of i m n] that n by auto
      then show ?thesis using outside by (simp add: part_def)
    qed
    have "cells b' (?dst + k) = cells b (?dst + k) XOR
        xor_all (\<lambda>j. if g + j = m then 0 else part f (cells b) n (g + j) k) (j # js)" if k: "k < n" for k
    proof -
      have "cells ?b1 (?dst + k) = cells b (?dst + k) XOR part f (cells b) n (g + j) k"
        unfolding res by (simp add: part_def)
      moreover have "xor_all (\<lambda>j. if g + j = m then 0 else part f (cells ?b1) n (g + j) k) js =
          xor_all (\<lambda>j. if g + j = m then 0 else part f (cells b) n (g + j) k) js"
        using same k by (intro xor_all_cong) auto
      ultimately show ?thesis using b'(4) k False by (simp add: xor.assoc)
    qed
    with s b' outside show ?thesis by auto
  qed
qed simp

lemma received_complete: "received (f\<lparr>fd_isComplete := True\<rparr>) = received f"
  by (simp add: received_def)

text \<open>The scan finds the hole.\<close>

lemma fec_scan_result:
  assumes len: "length (fd_fragmentMap f) = 1024" and t: "unat (fd_totalFragments f) \<le> 1024"
    and total: "g + cnt \<le> unat (fd_totalFragments f)"
  shows "set js \<subseteq> {..<cnt} \<Longrightarrow> (\<And>j. j \<in> set js \<Longrightarrow> fd_fragmentMap f ! (g + j) \<longleftrightarrow> g + j \<noteq> m) \<Longrightarrow>
    distinct js \<Longrightarrow> fec_scan f (of_nat g) js (x, c) =
      (if m \<in> (+) g ` set js then (of_nat m, c + 1) else (x, c))"
proof (induction js arbitrary: x c)
  case (Cons j js)
  have j: "g + j < unat (fd_totalFragments f)" using Cons.prems(1) total by auto
  have idx: "unat (of_nat g + of_nat j :: u16) = g + j"
    using j t unat_of_nat_u16 [of "g + j"] by simp
  have below: "\<not> (of_nat g + of_nat j :: u16) \<ge> fd_totalFragments f" using j idx by (simp add: word_le_nat_alt)
  have step: "fec_scan f (of_nat g) (j # js) (x, c) = (if g + j = m
      then fec_scan f (of_nat g) js (of_nat g + of_nat j, c + 1) else fec_scan f (of_nat g) js (x, c))"
    using below idx j t len Cons.prems(2) [of j] by (simp add: Let_def)
  show ?case
  proof (cases "g + j = m")
    case True
    then have "m \<notin> (+) g ` set js" using Cons.prems(3) by auto
    moreover have "(of_nat g + of_nat j :: u16) = of_nat m" using True by auto
    ultimately show ?thesis
      using step True Cons.IH [of "of_nat m" "c + 1"] Cons.prems by auto
  next
    case False
    with step Cons.IH [of x c] Cons.prems show ?thesis by auto
  qed
qed auto

text \<open>
  A parity group of a frame: fragments \<open>g, \<dots>, g + cnt - 1\<close> of \<open>data\<close>, and the exclusive or of
  their bytes padded to \<open>n\<close>, the longest of them.
\<close>

definition padded :: "bytes \<Rightarrow> nat \<Rightarrow> nat \<Rightarrow> u8" where
  "padded data i k = (if k < frag_size (length data) i then fragment data i ! k else 0)"

definition parity :: "bytes \<Rightarrow> nat \<Rightarrow> nat \<Rightarrow> nat \<Rightarrow> bytes" where
  "parity data g cnt n = map (\<lambda>k. xor_all (\<lambda>j. padded data (g + j) k) [0..<cnt]) [0..<n]"

definition has_parity :: "u32 \<Rightarrow> bytes \<Rightarrow> nat \<Rightarrow> nat \<Rightarrow> nat \<Rightarrow> receiver \<Rightarrow> bool" where
  "has_parity fid data g cnt n r \<longleftrightarrow> (let grp = frb_get (rc_fecRing r) (fec_index fid (of_nat g)) in
     g_fecReceived grp \<and> g_frameId grp = fid \<and> fh_fragmentStart (g_fecHeader grp) = of_nat g \<and>
     fh_fragmentCount (g_fecHeader grp) = of_nat cnt \<and> fh_dataSize (g_fecHeader grp) = of_nat n \<and>
     (\<exists>pkt. g_fecPacket grp = Some pkt \<and> n \<le> length (pk_data pkt) \<and>
        take n (pk_data pkt) = parity data g cnt n))"

lemma sizes_of_part:
  assumes "holds_part data F f" and "i \<in> F" and "frag_size (length data) i \<le> n" and "k < n"
  shows "part f (cells (fd_buffer f)) n i k = padded data i k"
proof -
  have "unat (of_nat (frag_size (length data) i) :: u16) = frag_size (length data) i"
    using frag_size_le [of "length data" i] by (intro unat_of_nat_u16) (simp add: MAX_UDP_PAYLOAD_def)
  with assms show ?thesis by (auto simp: part_def padded_def holds_part_def)
qed

text \<open>The scan counts exactly the hole.\<close>

lemma scan_finds_hole:
  assumes "holds_part data F f" and "g + cnt \<le> frag_count (length data)" and "length data \<le> frame_bytes"
    and "g \<le> m" and "m < g + cnt" and "m \<notin> F" and "{g..<g + cnt} - {m} \<subseteq> F"
  shows "fec_scan f (of_nat g) [0..<cnt] (0, 0) = (of_nat m, 1)"
proof -
  have c: "frag_count (length data) \<le> 807" using assms(3) by (rule frag_count_bound)
  have t: "unat (fd_totalFragments f) = frag_count (length data)"
    using assms(1) c by (simp add: holds_part_def unat_of_nat_u16)
  have F: "received f = F" "length (fd_fragmentMap f) = 1024" using assms(1) by (auto simp: holds_part_def frame_wf_def)
  have inF: "fd_fragmentMap f ! (g + j) \<longleftrightarrow> g + j \<noteq> m" if "j \<in> set [0..<cnt]" for j
  proof -
    have "fd_fragmentMap f ! (g + j) \<longleftrightarrow> g + j \<in> F" using F that assms(2) c by (auto simp: received_def)
    then show ?thesis using assms(6,7) that by auto
  qed
  have hit: "m \<in> (+) g ` set [0..<cnt]" using assms(4,5) by (intro image_eqI [of _ _ "m - g"]) auto
  have "set [0..<cnt] \<subseteq> {..<cnt}" by auto
  from fec_scan_result [OF F(2) _ _ this, where m = m] show ?thesis using t c assms(2) inF hit by simp
qed

text \<open>The parity, written over the hole, and the other fragments of the group add up to the missing one.\<close>

lemma xor_rebuilds:
  assumes wf: "receiver_wf out r" and slot: "frb_get (rc_ring r) fid = Some a"
    and part: "holds_part data F (frame_at r a)"
    and group: "g + cnt \<le> frag_count (length data)" "length data \<le> frame_bytes"
    and hole: "g \<le> m" "m < g + cnt" "{g..<g + cnt} - {m} \<subseteq> F"
    and n: "n \<le> MAX_UDP_PAYLOAD" "m * MAX_UDP_PAYLOAD + n \<le> frame_bytes"
      "\<forall>i \<in> {g..<g + cnt}. frag_size (length data) i \<le> n"
  shows "\<exists>b'. fec_xor (frame_at r a) (of_nat g) (of_nat m) n [0..<cnt]
      ((fd_buffer (frame_at r a))\<lparr>cells := poke (poke (cells (fd_buffer (frame_at r a))) (m * MAX_UDP_PAYLOAD) (replicate n 0)) (m * MAX_UDP_PAYLOAD) (parity data g cnt n)\<rparr>) = Inr b'
    \<and> cap b' = frame_bytes \<and> (\<forall>x. x < m * MAX_UDP_PAYLOAD \<or> m * MAX_UDP_PAYLOAD + n \<le> x \<longrightarrow>
        cells b' x = cells (fd_buffer (frame_at r a)) x) \<and> (\<forall>k < n. cells b' (m * MAX_UDP_PAYLOAD + k) = padded data m k)"
proof -
  let ?f = "frame_at r a" and ?off = "m * MAX_UDP_PAYLOAD" and ?mem = "cells (fd_buffer (frame_at r a))"
  let ?b = "(fd_buffer ?f)\<lparr>cells := poke (poke ?mem ?off (replicate n 0)) ?off (parity data g cnt n)\<rparr>"
  have c: "frag_count (length data) \<le> 807" using group(2) by (rule frag_count_bound)
  have m: "m < 1024" using hole group c by simp
  have gt: "g + cnt \<le> unat (fd_totalFragments ?f)" using group(1) part c by (simp add: holds_part_def unat_of_nat_u16)
  have capb: "cap ?b = frame_bytes" using part by (simp add: holds_part_def frame_wf_def)
  have plen: "length (parity data g cnt n) = n" by (simp add: parity_def)
  have sub: "set [0..<cnt] \<subseteq> {..<cnt}" by auto
  obtain b' where b': "fec_xor ?f (of_nat g) (of_nat m) n [0..<cnt] ?b = Inr b'" "cap b' = frame_bytes"
      "\<forall>x. x < ?off \<or> ?off + n \<le> x \<longrightarrow> cells b' x = cells ?b x"
      "\<forall>k < n. cells b' (?off + k) = cells ?b (?off + k) XOR
         xor_all (\<lambda>j. if g + j = m then 0 else part ?f (cells ?b) n (g + j) k) [0..<cnt]"
    using fec_xor_result [OF ring_frame(2) [OF wf slot] m n(2,1) gt sub capb] by blast
  have outside: "cells ?b x = ?mem x" if "x < ?off \<or> ?off + n \<le> x" for x
    using that plen by (simp add: poke_outside)
  have "cells b' (?off + k) = padded data m k" if k: "k < n" for k
  proof -
    have "part ?f (cells ?b) n i k = padded data i k" if i: "i \<in> {g..<g + cnt}" "i \<noteq> m" for i
    proof -
      have "i * MAX_UDP_PAYLOAD + k < ?off \<or> ?off + n \<le> i * MAX_UDP_PAYLOAD + k"
        using slots_apart [of i m n] i k n(1) by auto
      then have "part ?f (cells ?b) n i k = part ?f ?mem n i k" using outside by (simp add: part_def)
      also have "\<dots> = padded data i k"
        using i hole(3) n(3) k by (intro sizes_of_part [OF part]) auto
      finally show ?thesis .
    qed
    then have "xor_all (\<lambda>j. if g + j = m then 0 else part ?f (cells ?b) n (g + j) k) [0..<cnt] =
        xor_all (\<lambda>j. if g + j = m then 0 else padded data (g + j) k) [0..<cnt]"
      by (intro xor_all_cong) auto
    moreover have "cells ?b (?off + k) = xor_all (\<lambda>j. padded data (g + j) k) [0..<cnt]"
      using k plen by (simp add: poke_inside) (simp add: parity_def)
    moreover have "xor_all (\<lambda>j. padded data (g + j) k) [0..<cnt] XOR
        xor_all (\<lambda>j. if g + j = m then 0 else padded data (g + j) k) [0..<cnt] = padded data (g + (m - g)) k"
      using hole by (intro xor_all_missing [of _ "m - g"]) auto
    ultimately show ?thesis using b'(4) k hole(1) by simp
  qed
  then show ?thesis using b'(1-3) outside by (intro exI [of _ b']) simp
qed

text \<open>What \<open>TryRecover\<close> leaves: the missing fragment added with the rebuilt bytes, and the size of the group's
  longest fragment.\<close>

lemma recovery_result:
  assumes wf: "receiver_wf out r" and slot: "frb_get (rc_ring r) fid = Some a"
    and id: "fd_frameId (frame_at r a) = fid" and open': "\<not> fd_isComplete (frame_at r a)"
    and part: "holds_part data F (frame_at r a)" and par: "has_parity fid data g cnt n r"
    and group: "g + cnt \<le> frag_count (length data)" "length data \<le> frame_bytes"
    and hole: "g \<le> m" "m < g + cnt" "m \<notin> F" "{g..<g + cnt} - {m} \<subseteq> F"
    and n: "n \<le> MAX_UDP_PAYLOAD" "m * MAX_UDP_PAYLOAD + n \<le> frame_bytes"
      "\<forall>i \<in> {g..<g + cnt}. frag_size (length data) i \<le> n"
  shows "\<exists>b'. try_recover fid (of_nat g) r = Inr (finish_frame fid a (upd_frame a (\<lambda>_.
        add_fragment m (of_nat n) b' (if m + 1 = frag_count (length data) then m * MAX_UDP_PAYLOAD + n
          else fd_totalSize (frame_at r a)) (frame_at r a)) r))
    \<and> cap b' = frame_bytes \<and> (\<forall>x. x < m * MAX_UDP_PAYLOAD \<or> m * MAX_UDP_PAYLOAD + n \<le> x \<longrightarrow>
        cells b' x = cells (fd_buffer (frame_at r a)) x) \<and> (\<forall>k < n. cells b' (m * MAX_UDP_PAYLOAD + k) = padded data m k)"
proof -
  let ?f = "frame_at r a" and ?grp = "frb_get (rc_fecRing r) (fec_index fid (of_nat g))"
  let ?off = "m * MAX_UDP_PAYLOAD" and ?mem = "cells (fd_buffer (frame_at r a))"
  have F: "received ?f = F" "length (fd_fragmentMap ?f) = 1024" "cap (fd_buffer ?f) = frame_bytes"
    using part by (auto simp: holds_part_def frame_wf_def)
  have small: "m < 1024" "cnt < 65536" "n < 65536"
    using hole group n(1) frag_count_bound [OF group(2)] by (simp_all add: MAX_UDP_PAYLOAD_def)
  obtain pkt where g: "fh_dataSize (g_fecHeader ?grp) = of_nat n"
      "g_fecReceived ?grp" "g_frameId ?grp = fid" "fh_fragmentStart (g_fecHeader ?grp) = of_nat g"
      "unat (fh_fragmentCount (g_fecHeader ?grp)) = cnt" "unat (fh_dataSize (g_fecHeader ?grp)) = n"
      "g_fecPacket ?grp = Some pkt" "n \<le> length (pk_data pkt)" "take n (pk_data pkt) = parity data g cnt n"
    using par small by (auto simp: has_parity_def Let_def unat_of_nat_u16)
  have um: "unat (of_nat m :: u16) = m" using small(1) by (intro unat_of_nat_u16) simp
  obtain b' where b': "cap b' = frame_bytes" "fec_xor ?f (of_nat g) (of_nat m) n [0..<cnt]
        ((fd_buffer ?f)\<lparr>cells := poke (poke ?mem ?off (replicate n 0)) ?off (parity data g cnt n)\<rparr>) = Inr b'"
      "\<forall>x. x < ?off \<or> ?off + n \<le> x \<longrightarrow> cells b' x = ?mem x" "\<forall>k < n. cells b' (?off + k) = padded data m k"
    using xor_rebuilds [OF wf slot part group hole(1,2,4) n] by blast
  have b1: "buf_write (fd_buffer ?f) ?off (replicate n 0) =
      Inr ((fd_buffer ?f)\<lparr>cells := poke ?mem ?off (replicate n 0)\<rparr>)"
    using F(3) n(2) by (simp add: buf_write_def)
  have t: "unat (fd_totalFragments ?f) = frag_count (length data)"
    using part frag_count_bound [OF group(2)] by (simp add: holds_part_def unat_of_nat_u16)
  have last: "int m = int (unat (fd_totalFragments ?f)) - 1 \<longleftrightarrow> m + 1 = frag_count (length data)" unfolding t by linarith
  let ?t = "if m + 1 = frag_count (length data) then ?off + n else fd_totalSize ?f"
  let ?r' = "finish_frame fid a (upd_frame a (\<lambda>_. add_fragment m (of_nat n) b' ?t ?f) r)"
  have "recover_into fid a ?grp (of_nat g) (of_nat m) r = Inr ?r'"
    using b1 b'(2) g um F(3) n(2) last
    by (simp add: recover_into_def Let_def vec_read_def buf_write_def add_fragment_def upd_frame_def
        frame_at_def parity_def)
  then have "try_recover fid (of_nat g) r = Inr ?r'"
    using slot id open' g scan_finds_hole [OF part group hole] by (simp add: try_recover_def Let_def)
  then show ?thesis using b' by blast
qed


definition parity_group :: fec_group where
  "parity_group = \<lparr>g_fecHeader = \<lparr>fh_type = 5, fh_frameId = 9, fh_fragmentStart = 0,
       fh_fragmentCount = 1, fh_packetSequence = 0, fh_dataSize = 2\<rparr>,
     g_fecReceived = True,
     g_fecPacket = Some ((packet_new 2)\<lparr>pk_data := [5, 6], pk_size := 2\<rparr>), g_frameId = 9\<rparr>"

definition parity_only :: receiver where
  "parity_only = (receiver_new 1)\<lparr>rc_storage := [start_frame sample_header 0 frame_new], rc_pool := [],
     rc_ring := frb_insert 9 (Some 0) (frb_new 64 None),
     rc_fecRing := frb_insert (fec_index 9 0) parity_group (frb_new 1024 fec_group_new),
     rc_next := 9, rc_first := True\<rparr>"

lemma parity_only_slot: "frb_get (rc_ring parity_only) 9 = Some 0"
  by (simp add: parity_only_def frb_get_def frb_insert_def frb_new_def)

lemma parity_only_frame: "frame_at parity_only 0 = start_frame sample_header 0 frame_new"
  by (simp add: parity_only_def frame_at_def)

lemma parity_only_wf: "receiver_wf {#} parity_only"
proof -
  have f: "frame_wf (start_frame sample_header 0 frame_new)"
    by (rule frame_wf_start [OF frame_wf_new]) (simp add: sample_header_def)
  have "owned ((replicate 64 None)[9 := Some 0]) + opt_mset (replicate 64 None ! 9) =
      owned (replicate 64 None) + opt_mset (Some 0)" by (rule owned_update) simp
  then have o: "owned ((replicate 64 None)[9 := Some (0::nat)]) = {#0#}"
    by (simp add: owned_replicate_None)
  have g: "\<forall>g \<in> set ((replicate 1024 fec_group_new)[i := parity_group]). fec_ok g" for i
    using set_update_subset_insert [of "replicate 1024 fec_group_new" i parity_group]
    by (auto simp: fec_ok_def fec_group_new_def parity_group_def)
  have n: "(replicate 64 None)[9 := Some 0] ! i = Some a \<Longrightarrow> i < 64 \<Longrightarrow> i = 9 \<and> a = (0::nat)" for i a
    by (cases "i = 9") (auto simp: nth_list_update)
  have slots: "unat (fd_frameId (frame_at parity_only a)) mod 64 = i"
    if "i < 64" "rc_ring parity_only ! i = Some a" for i a
  proof -
    have "i = 9 \<and> a = 0" using that n by (simp add: parity_only_def frb_insert_def frb_new_def)
    then show ?thesis using parity_only_frame by (simp add: sample_header_def)
  qed
  show ?thesis
    unfolding receiver_wf_def
    using f o g slots by (simp add: parity_only_def frb_insert_def frb_new_def addresses_def)
qed


section \<open>The jump to a keyframe\<close>

definition keyframe_at :: "receiver \<Rightarrow> u32 \<Rightarrow> bool" where
  "keyframe_at r fid \<longleftrightarrow> (\<exists>a. frb_get (rc_ring r) fid = Some a \<and> fd_frameId (frame_at r a) = fid \<and>
     fd_isComplete (frame_at r a) \<and> fd_isKeyframe (frame_at r a))"

lemma find_latest_step:
  "(let fid = n + of_nat i in case frb_get (rc_ring r) fid of None \<Rightarrow> latest
      | Some a \<Rightarrow> if fd_frameId (frame_at r a) = fid \<and> fd_isComplete (frame_at r a) \<and>
          fd_isKeyframe (frame_at r a) then fid else latest) =
   (if keyframe_at r (n + of_nat i) then n + of_nat i else latest)"
  by (auto simp: keyframe_at_def Let_def split: option.splits)

lemma find_latest_eq:
  "find_latest_keyframe r =
    fold (\<lambda>i latest. if keyframe_at r (rc_next r + of_nat i) then rc_next r + of_nat i else latest) [0..<64] 0"
  by (simp only: find_latest_keyframe_def find_latest_step)

lemma fold_latest:
  "fold (\<lambda>i latest. if P i then f i else latest) [0..<n] (0 :: u32) =
    (if \<exists>i<n. P i then f (GREATEST i. i < n \<and> P i) else 0)"
proof (induction n)
  case (Suc n)
  show ?case
  proof (cases "P n")
    case True
    then have "(GREATEST i. i < Suc n \<and> P i) = n" by (intro Greatest_equality) auto
    with True show ?thesis by auto
  next
    case False
    then have "(\<lambda>i. i < Suc n \<and> P i) = (\<lambda>i. i < n \<and> P i)" by (auto simp: less_Suc_eq)
    with False Suc show ?thesis by (auto simp: less_Suc_eq)
  qed
qed simp

definition key_offset :: "receiver \<Rightarrow> nat \<Rightarrow> bool" where
  "key_offset r i \<longleftrightarrow> i < 64 \<and> keyframe_at r (rc_next r + of_nat i)"

lemma find_latest_Greatest:
  "find_latest_keyframe r = (if \<exists>i. key_offset r i then rc_next r + of_nat (GREATEST i. key_offset r i) else 0)"
  unfolding find_latest_eq fold_latest key_offset_def by (rule refl)

lemma find_latest_newest:
  assumes "key_offset r i"
  shows "\<exists>j. i \<le> j \<and> key_offset r j \<and> find_latest_keyframe r = rc_next r + of_nat j"
proof -
  have bound: "\<And>i. key_offset r i \<Longrightarrow> i \<le> 64" by (simp add: key_offset_def)
  have "key_offset r (GREATEST i. key_offset r i)" "i \<le> (GREATEST i. key_offset r i)"
    using GreatestI_nat [where P = "key_offset r", OF assms bound]
      Greatest_le_nat [where P = "key_offset r", OF assms bound] by simp_all
  moreover have "find_latest_keyframe r = rc_next r + of_nat (GREATEST i. key_offset r i)"
    unfolding find_latest_Greatest using assms by (metis (full_types))
  ultimately show ?thesis by blast
qed

lemma drop_frame_other:
  assumes wf: "receiver_wf out r" and "unat f mod 64 \<noteq> unat g mod 64"
  shows "frb_get (rc_ring (drop_frame f r)) g = frb_get (rc_ring r) g"
    and "frame_at (drop_frame f r) a = frame_at r a" and "rc_next (drop_frame f r) = rc_next r"
proof -
  have l: "length (rc_ring r) = 64" "rc_ring r \<noteq> []" using wf by (auto simp: receiver_wf_def)
  show "frb_get (rc_ring (drop_frame f r)) g = frb_get (rc_ring r) g"
    using assms(2) l by (auto simp: drop_frame_def frb_get_insert split: option.splits)
  show "frame_at (drop_frame f r) a = frame_at r a" "rc_next (drop_frame f r) = rc_next r"
    by (auto simp: drop_frame_def return_to_pool_def frame_at_def split: option.splits)
qed

lemma drop_frames_other:
  assumes "\<forall>i \<in> set is. unat (n + of_nat i) mod 64 \<noteq> unat g mod 64"
  shows "receiver_wf out r \<Longrightarrow>
    frb_get (rc_ring (fold (\<lambda>i. drop_frame (n + of_nat i)) is r)) g = frb_get (rc_ring r) g \<and>
    frame_at (fold (\<lambda>i. drop_frame (n + of_nat i)) is r) a = frame_at r a"
  using assms
proof (induction "is" arbitrary: r)
  case (Cons i "is")
  have w: "receiver_wf out (drop_frame (n + of_nat i) r)" by (rule drop_frame_wf [OF Cons.prems(1)])
  from Cons.IH [OF w] Cons.prems drop_frame_other [OF Cons.prems(1), of "n + of_nat i" g] show ?case
    by simp
qed simp

text \<open>C21: head-of-line blocking is bounded by the next keyframe. If any complete keyframe waits among
  the 64 frames from the read pointer on, the client's recovery step moves the pointer to the
  newest of them, and that keyframe is the next frame handed to the decoder (for frame numbers
  that do not wrap around zero within the window).\<close>
theorem keyframe_recovery:
  assumes wf: "receiver_wf out r" and key: "i < 64" "keyframe_at r (rc_next r + of_nat i)"
    and nowrap: "unat (rc_next r) + 64 < 2 ^ 32"
  shows "\<exists>j a r'. i \<le> j \<and> j < 64 \<and> find_latest_keyframe r = rc_next r + of_nat j \<and>
    get_next_frame (force_advance_to (find_latest_keyframe r) r) = (Some a, r') \<and>
    fd_isKeyframe (frame_at r' a) \<and> fd_frameId (frame_at r' a) = rc_next r + of_nat j"
proof -
  obtain j where j: "i \<le> j" "j < 64" "find_latest_keyframe r = rc_next r + of_nat j"
    and key': "keyframe_at r (rc_next r + of_nat j)"
    using find_latest_newest [of r i] key by (auto simp: key_offset_def)
  let ?k = "rc_next r + of_nat j"
  have u: "unat (rc_next r + of_nat x) = unat (rc_next r) + x" if "x < 64" for x
  proof -
    have "unat (of_nat (unat (rc_next r) + x) :: u32) = unat (rc_next r) + x"
      using nowrap that by (intro unat_of_nat_u32) simp
    then show ?thesis by simp
  qed
  obtain a where a: "frb_get (rc_ring r) ?k = Some a" "fd_frameId (frame_at r a) = ?k"
    "fd_isComplete (frame_at r a)" "fd_isKeyframe (frame_at r a)"
    using key' by (auto simp: keyframe_at_def)
  let ?r1 = "force_advance_to ?k r"
  have "frb_get (rc_ring ?r1) ?k = Some a \<and> frame_at ?r1 a = frame_at r a \<and> rc_next ?r1 = ?k"
  proof (cases "j = 0")
    case True
    with a show ?thesis by (simp add: force_advance_to_def)
  next
    case False
    have d: "unat (?k - rc_next r) = j" using j(2) unat_of_nat_u32 [of j] by simp
    have gt: "\<not> ?k \<le> rc_next r" using u [OF j(2)] False by (simp add: word_le_nat_alt)
    have "unat (rc_next r + of_nat x) mod 64 \<noteq> unat ?k mod 64" if "x < j" for x
      using u [OF j(2)] u [of x] that j(2) by (simp add: mod_neq_of_close)
    then have "\<forall>x \<in> set [0..<j]. unat (rc_next r + of_nat x) mod 64 \<noteq> unat ?k mod 64" by simp
    from drop_frames_other [OF this wf, of a] a(1) gt d show ?thesis
      by (simp add: force_advance_to_def frame_at_def)
  qed
  then have "get_next_frame ?r1 = (Some a, ?r1\<lparr>rc_ring := frb_insert ?k None (rc_ring ?r1),
      rc_next := ?k + 1\<rparr>)"
    and "frame_at (?r1\<lparr>rc_ring := frb_insert ?k None (rc_ring ?r1), rc_next := ?k + 1\<rparr>) a = frame_at r a"
    using a by (simp_all add: get_next_frame_def) (simp add: frame_at_def)
  with j a show ?thesis by (intro exI [of _ j] exI [of _ a]) auto
qed

definition empty_keyframe :: frame_data where
  "empty_keyframe = (start_frame (sample_header\<lparr>vh_totalFragments := 0\<rparr>) 0 frame_new)\<lparr>fd_isComplete := True\<rparr>"

definition keyframe_waiting :: receiver where
  "keyframe_waiting = parity_only\<lparr>rc_storage := [empty_keyframe], rc_next := 7\<rparr>"

lemma keyframe_waiting_wf: "receiver_wf {#} keyframe_waiting"
proof -
  have "frame_wf (start_frame (sample_header\<lparr>vh_totalFragments := 0\<rparr>) 0 frame_new)"
    by (rule frame_wf_start [OF frame_wf_new]) (simp add: sample_header_def)
  then have f: "frame_wf empty_keyframe"
    unfolding empty_keyframe_def by (simp add: frame_wf_def received_complete sample_header_def)
  have slots: "unat (fd_frameId (frame_at keyframe_waiting a)) mod 64 = i"
    if "i < 64" "rc_ring keyframe_waiting ! i = Some a" for i a
  proof -
    have "i = 9 \<and> a = 0" using that
      by (cases "i = 9") (auto simp: keyframe_waiting_def parity_only_def frb_insert_def frb_new_def)
    then show ?thesis by (simp add: keyframe_waiting_def frame_at_def empty_keyframe_def sample_header_def)
  qed
  show ?thesis
    using f slots parity_only_wf unfolding receiver_wf_def
    by (simp add: keyframe_waiting_def) (simp add: parity_only_def)
qed

theorem keyframe_recovery_witness:
  "\<exists>j a r'. 2 \<le> j \<and> find_latest_keyframe keyframe_waiting = 7 + of_nat j \<and>
     get_next_frame (force_advance_to (find_latest_keyframe keyframe_waiting) keyframe_waiting) = (Some a, r')"
proof -
  have k: "keyframe_at keyframe_waiting (rc_next keyframe_waiting + of_nat 2)"
    using parity_only_slot
    by (simp add: keyframe_at_def keyframe_waiting_def frame_at_def empty_keyframe_def sample_header_def)
  have n: "unat (rc_next keyframe_waiting) + 64 < 2 ^ 32" by (simp add: keyframe_waiting_def)
  have "rc_next keyframe_waiting = 7" by (simp add: keyframe_waiting_def)
  with keyframe_recovery [OF keyframe_waiting_wf _ k n] show ?thesis by auto
qed

section \<open>Parity packets that break the receiver\<close>

text \<open>\<open>ProcessFEC\<close> does not check what the packet pool returns, nor the announced size.\<close>

lemma fec_group_new_simps [simp]:
  "g_fecReceived fec_group_new = False" "g_fecPacket fec_group_new = None"
  by (simp_all add: fec_group_new_def)

lemma process_fec_exhausted:
  assumes "rc_next r \<le> fh_frameId h" and "rc_fecPool r = []"
    and "frb_get (rc_fecRing r) (fec_index (fh_frameId h) (fh_fragmentStart h)) = fec_group_new"
  shows "process_fec h payload r = Inl NullDeref"
  using assms by (simp add: process_fec_def Let_def pool_release_def pool_acquire_def)

text \<open>A stream of well-formed parity packets, one for each of many frames.\<close>

definition parity_header :: "nat \<Rightarrow> FECHeader" where
  "parity_header i = \<lparr>fh_type = 5, fh_frameId = of_nat i, fh_fragmentStart = 0, fh_fragmentCount = 5,
     fh_packetSequence = 0, fh_dataSize = 1\<rparr>"

fun parity_stream :: "nat \<Rightarrow> receiver \<Rightarrow> fault + receiver" where
  "parity_stream 0 r = Inr r"
| "parity_stream (Suc n) r = fbind (parity_stream n r) (process_fec (parity_header n) [0])"

lemma fec_index_distinct:
  assumes "i < 1024" and "j < 1024" and "unat (fec_index (of_nat i) 0) mod 1024 = unat (fec_index (of_nat j) 0) mod 1024"
  shows "i = j"
proof -
  have u: "unat (fec_index (of_nat x) 0) = x * 13" if "x < 1024" for x
  proof -
    have "(of_nat x * 13 :: u32) = of_nat (x * 13)" by simp
    then show ?thesis using that unat_of_nat_u32 [of "x * 13"] by (simp add: fec_index_def)
  qed
  have "i * 13 mod 1024 = j * 13 mod 1024" using assms(3) unfolding u [OF assms(1)] u [OF assms(2)] .
  then have "int (i * 13 mod 1024) = int (j * 13 mod 1024)" by (rule arg_cong)
  then have "int i * 13 mod 1024 = int j * 13 mod 1024" by (simp add: zmod_int)
  then have "(int i * 13 * 709) mod 1024 = (int j * 13 * 709) mod 1024"
    by (metis mod_mult_left_eq)
  moreover have "(x * 13 * 709) mod 1024 = x mod 1024" for x :: int
  proof -
    have "x * 13 * 709 = x + 1024 * (9 * x)" by simp
    then show ?thesis by (metis mod_mult_self2)
  qed
  ultimately have "int i mod 1024 = int j mod 1024" by simp
  with assms show ?thesis by simp
qed

lemma parity_stream_step:
  assumes "n \<le> 512" and "rc_next r0 = 0" and "rc_fecRing r0 = frb_new 1024 fec_group_new"
    and "rc_fecPool r0 = pool_new 512 1500" and "\<forall>i. frb_get (rc_ring r0) i = None"
  shows "\<exists>r. parity_stream n r0 = Inr r \<and> rc_next r = 0 \<and> (\<forall>i. frb_get (rc_ring r) i = None) \<and>
    length (rc_fecPool r) = 512 - n \<and> (\<forall>p \<in> set (rc_fecPool r). length (pk_data p) = 1500) \<and>
    length (rc_fecRing r) = 1024 \<and>
    (\<forall>i < 1024. n \<le> i \<longrightarrow> frb_get (rc_fecRing r) (fec_index (of_nat i) 0) = fec_group_new)"
  using assms(1)
proof (induction n)
  case 0
  then show ?case using assms by (auto simp: pool_new_def packet_new_def frb_new_def frb_get_def)
next
  case (Suc n)
  then obtain r where r: "parity_stream n r0 = Inr r" "rc_next r = 0" "\<forall>i. frb_get (rc_ring r) i = None"
    "length (rc_fecPool r) = 512 - n" "\<forall>p \<in> set (rc_fecPool r). length (pk_data p) = 1500"
    "length (rc_fecRing r) = 1024"
    "\<forall>i < 1024. n \<le> i \<longrightarrow> frb_get (rc_fecRing r) (fec_index (of_nat i) 0) = fec_group_new"
    by auto
  have ne: "rc_fecPool r \<noteq> []" using r(4) Suc.prems by auto
  let ?k = "last (rc_fecPool r)"
  have len: "length (pk_data ?k) = 1500" using r(5) ne by simp
  let ?g = "\<lparr>g_fecHeader = parity_header n, g_fecReceived = True,
     g_fecPacket = Some (?k\<lparr>pk_data := 0 # drop 1 (pk_data ?k), pk_size := 1\<rparr>), g_frameId = of_nat n\<rparr>"
  let ?r' = "r\<lparr>rc_fecPool := butlast (rc_fecPool r),
     rc_fecRing := frb_insert (fec_index (of_nat n) 0) ?g (rc_fecRing r)\<rparr>"
  have "frb_get (rc_fecRing r) (fec_index (of_nat n) 0) = fec_group_new" using r(7) Suc.prems by simp
  then have p: "process_fec (parity_header n) [0] r = Inr ?r'"
    using r(2,3) ne len
    by (simp add: process_fec_def Let_def parity_header_def pool_release_def
        pool_acquire_def vec_read_def vec_write_def try_recover_def)
  have "frb_get (rc_fecRing ?r') (fec_index (of_nat i) 0) = fec_group_new" if "i < 1024" "Suc n \<le> i" for i
  proof -
    have "rc_fecRing r \<noteq> []" using r(6) by auto
    moreover have "unat (fec_index (of_nat n) 0) mod 1024 \<noteq> unat (fec_index (of_nat i) 0) mod 1024"
      using fec_index_distinct [of n i] that by auto
    ultimately show ?thesis using r(6,7) that by (simp add: frb_get_insert)
  qed
  moreover have "\<forall>p \<in> set (butlast (rc_fecPool r)). length (pk_data p) = 1500"
    using r(5) by (auto dest: in_set_butlastD)
  ultimately show ?case using r p Suc.prems by simp
qed

text \<open>Parity packets can crash the receiver. Slots of the ring of 1024 groups keep their packet
  until they are reused, but the pool has 512: the 513th well-formed parity packet of a stream
  gets a null packet, which is dereferenced.\<close>
theorem fec_pool_exhaustion:
  "parity_stream 513 (receiver_new n) = Inl NullDeref"
proof -
  have ring: "\<forall>i. frb_get (rc_ring (receiver_new n)) i = None"
    by (simp add: receiver_new_def frb_new_def frb_get_def)
  obtain r where r: "parity_stream 512 (receiver_new n) = Inr r" "rc_next r = 0"
    "length (rc_fecPool r) = 0"
    "\<forall>i < 1024. 512 \<le> i \<longrightarrow> frb_get (rc_fecRing r) (fec_index (of_nat i) 0) = fec_group_new"
    using parity_stream_step [of 512 "receiver_new n"] ring by (auto simp: receiver_new_def)
  have "frb_get (rc_fecRing r) (fec_index (of_nat 512) 0) = fec_group_new"
    using r(4) [rule_format, of 512] by simp
  then have "process_fec (parity_header 512) [0] r = Inl NullDeref"
    using r(2,3) by (intro process_fec_exhausted) (simp_all add: parity_header_def)
  moreover have "parity_stream 513 (receiver_new n) =
      fbind (parity_stream 512 (receiver_new n)) (process_fec (parity_header 512) [0])"
    using parity_stream.simps(2) [of 512] by simp
  ultimately show ?thesis using r(1) by simp
qed

end
