(* ===== verification/Floats.thy ===== *)
theory Floats
  imports Prelude Complex_Main "HOL-Library.Log_Nat"
begin

text \<open>
  IEEE 754 binary arithmetic as the C++ code uses it: \<open>float\<close> and \<open>double\<close> with rounding to
  nearest, ties to even, gradual underflow, overflow to infinity and NaN. A finite value is the
  rational it stands for; the sign of zero, which no code here observes, is not kept. Each
  operation computes the exact result and rounds it once, so rounding is monotone, which is what
  the proofs about scores and thresholds use.
\<close>

section \<open>Values\<close>

datatype flt = Fin rat | PInf | NInf | NaN

definition pow2 :: "int \<Rightarrow> rat" where
  "pow2 e = (if 0 \<le> e then 2 ^ nat e else 1 / 2 ^ nat (- e))"

lemma pow2_pos [simp]: "0 < pow2 e"
  by (simp add: pow2_def)

lemma pow2_powi: "pow2 e = 2 powi e"
  unfolding pow2_def power_int_def by (auto simp: power_one_over inverse_eq_divide)

lemma pow2_add: "pow2 (a + b) = pow2 a * pow2 b"
  by (simp add: pow2_powi power_int_add)

lemma pow2_strict_mono: "a < b \<Longrightarrow> pow2 a < pow2 b"
  unfolding pow2_powi by (rule power_int_strict_increasing) simp_all

lemma pow2_le_iff [simp]: "pow2 a \<le> pow2 b \<longleftrightarrow> a \<le> b"
  using pow2_strict_mono [of a b] pow2_strict_mono [of b a] by (cases a b rule: linorder_cases) auto

lemma pow2_less_iff [simp]: "pow2 a < pow2 b \<longleftrightarrow> a < b"
  using pow2_strict_mono [of a b] pow2_strict_mono [of b a] by (cases a b rule: linorder_cases) auto

lemma pow2_nat: "pow2 (int n) = 2 ^ n"
  by (simp add: pow2_def)

text \<open>The exponent of a positive rational: \<open>2 ^ e \<le> x < 2 ^ (e + 1)\<close>.\<close>

definition rat_log2 :: "rat \<Rightarrow> int" where
  "rat_log2 x = (let (n, d) = quotient_of x; e = bitlen n - bitlen d in
     if pow2 e \<le> x then e else e - 1)"

lemma bitlen_pow2: "0 < n \<Longrightarrow> pow2 (bitlen n - 1) \<le> of_int n \<and> of_int n < pow2 (bitlen n)"
proof -
  assume n: "0 < n"
  have "2 ^ nat (bitlen n - 1) \<le> n" "n < 2 ^ nat (bitlen n)"
    using bitlen_bounds [OF n] by auto
  then have "(2 :: rat) ^ nat (bitlen n - 1) \<le> of_int n" "of_int n < (2 :: rat) ^ nat (bitlen n)"
    by (metis of_int_le_iff of_int_numeral of_int_power, metis of_int_less_iff of_int_numeral of_int_power)
  moreover have "0 < bitlen n"
  proof (rule ccontr)
    assume "\<not> 0 < bitlen n"
    with \<open>n < 2 ^ nat (bitlen n)\<close> n show False by simp
  qed
  ultimately show ?thesis by (simp add: pow2_def)
qed

lemma rat_log2_bounds:
  assumes "0 < x"
  shows "pow2 (rat_log2 x) \<le> x" and "x < pow2 (rat_log2 x + 1)"
proof -
  obtain n d where q: "quotient_of x = (n, d)" by (cases "quotient_of x")
  have d: "0 < d" and x: "x = of_int n / of_int d" using quotient_of_denom_pos [OF q] quotient_of_div [OF q] by auto
  have n: "0 < n" using assms x d by (simp add: zero_less_divide_iff)
  let ?e = "bitlen n - bitlen d"
  have bn: "pow2 (bitlen n - 1) \<le> of_int n" "of_int n < pow2 (bitlen n)" using bitlen_pow2 [OF n] by auto
  have bd: "pow2 (bitlen d - 1) \<le> of_int d" "of_int d < pow2 (bitlen d)" using bitlen_pow2 [OF d] by auto
  have "of_int n < pow2 (?e + 1) * pow2 (bitlen d - 1)" using bn(2) by (simp flip: pow2_add)
  also have "\<dots> \<le> pow2 (?e + 1) * of_int d" using bd(1) by (simp add: mult_left_mono less_imp_le)
  finally have up: "x < pow2 (?e + 1)" using d x by (simp add: divide_less_eq)
  have "pow2 (?e - 1) * of_int d \<le> pow2 (?e - 1) * pow2 (bitlen d)"
    using bd(2) by (intro mult_left_mono) (simp_all add: less_imp_le)
  also have "\<dots> \<le> of_int n" using bn(1) by (simp flip: pow2_add)
  finally have low: "pow2 (?e - 1) \<le> x" using d x by (simp add: le_divide_eq)
  show "pow2 (rat_log2 x) \<le> x" using low by (simp add: rat_log2_def q Let_def)
  show "x < pow2 (rat_log2 x + 1)" using up by (simp add: rat_log2_def q Let_def)
qed

section \<open>Rounding\<close>

definition round_even :: "rat \<Rightarrow> int" where
  "round_even x = (let f = \<lfloor>x\<rfloor>; d = x - of_int f in
     if d < 1/2 then f else if 1/2 < d then f + 1 else if even f then f else f + 1)"

lemma round_even_mono: "x \<le> y \<Longrightarrow> round_even x \<le> round_even y"
proof -
  assume xy: "x \<le> y"
  have f: "\<lfloor>x\<rfloor> \<le> \<lfloor>y\<rfloor>" using xy by (rule floor_mono)
  show ?thesis
  proof (cases "\<lfloor>x\<rfloor> = \<lfloor>y\<rfloor>")
    case True
    with xy show ?thesis by (simp add: round_even_def Let_def)
  next
    case False
    then have "\<lfloor>x\<rfloor> + 1 \<le> \<lfloor>y\<rfloor>" using f by simp
    moreover have "round_even x \<le> \<lfloor>x\<rfloor> + 1" "\<lfloor>y\<rfloor> \<le> round_even y"
      by (simp_all add: round_even_def Let_def)
    ultimately show ?thesis by linarith
  qed
qed

lemma round_even_int [simp]: "round_even (of_int k) = k"
  by (simp add: round_even_def)

text \<open>A format: precision, least and greatest exponent.\<close>

record format =
  prec :: int
  emin :: int
  emax :: int

definition f32 :: format where
  "f32 = \<lparr>prec = 24, emin = - 126, emax = 127\<rparr>"

definition f64 :: format where
  "f64 = \<lparr>prec = 53, emin = - 1022, emax = 1023\<rparr>"

definition quantum :: "format \<Rightarrow> rat \<Rightarrow> rat" where
  "quantum m x = pow2 (max (rat_log2 x) (emin m) - (prec m - 1))"

definition round_pos :: "format \<Rightarrow> rat \<Rightarrow> rat" where
  "round_pos m x = of_int (round_even (x / quantum m x)) * quantum m x"

definition round_rat :: "format \<Rightarrow> rat \<Rightarrow> rat" where
  "round_rat m x = (if x = 0 then 0 else if 0 < x then round_pos m x else - round_pos m (- x))"

definition rnd :: "format \<Rightarrow> rat \<Rightarrow> flt" where
  "rnd m x = (let y = round_rat m x in
     if pow2 (emax m + 1) \<le> y then PInf else if y \<le> - pow2 (emax m + 1) then NInf else Fin y)"

lemma quantum_pos [simp]: "0 < quantum m x"
  by (simp add: quantum_def)

lemma multiple_above:
  assumes "0 < x" and "c = of_int k * quantum m x" and "x \<le> c"
  shows "round_pos m x \<le> c"
proof -
  have "x / quantum m x \<le> of_int k" using assms(2,3) by (simp add: divide_le_eq)
  then have "round_even (x / quantum m x) \<le> k" using round_even_mono by fastforce
  then show ?thesis using assms(2) by (simp add: round_pos_def less_imp_le mult_right_mono)
qed

lemma multiple_below:
  assumes "c = of_int k * quantum m x" and "c \<le> x"
  shows "c \<le> round_pos m x"
proof -
  have "of_int k \<le> x / quantum m x" using assms by (simp add: le_divide_eq)
  then have "k \<le> round_even (x / quantum m x)" using round_even_mono by fastforce
  then show ?thesis using assms(1) by (simp add: round_pos_def less_imp_le mult_right_mono)
qed

lemma round_pos_nonneg: "0 < x \<Longrightarrow> 0 \<le> round_pos m x"
  using multiple_below [of 0 0 m x] by simp

lemma round_pos_mono:
  assumes p: "1 \<le> prec m" and xy: "0 < x" "x \<le> y"
  shows "round_pos m x \<le> round_pos m y"
proof -
  let ?ex = "max (rat_log2 x) (emin m)" and ?ey = "max (rat_log2 y) (emin m)"
  have y: "0 < y" using xy by simp
  have "pow2 (rat_log2 x) < pow2 (rat_log2 y + 1)"
    using rat_log2_bounds(1) [OF xy(1)] rat_log2_bounds(2) [OF y] xy(2) by linarith
  then have le: "rat_log2 x \<le> rat_log2 y" by simp
  show ?thesis
  proof (cases "?ex = ?ey")
    case True
    then have q: "quantum m x = quantum m y" by (simp add: quantum_def)
    have "x / quantum m y \<le> y / quantum m y" using xy(2) by (simp add: divide_right_mono less_imp_le)
    then have "round_even (x / quantum m y) \<le> round_even (y / quantum m y)" by (rule round_even_mono)
    then show ?thesis by (simp add: round_pos_def q less_imp_le mult_right_mono)
  next
    case False
    then have less: "?ex < ?ey" "rat_log2 x < rat_log2 y" "?ey = rat_log2 y" using le by auto
    let ?c = "pow2 ?ey"
    have "?c = of_int (2 ^ nat (?ey - ?ex + (prec m - 1))) * quantum m x"
      using less p by (simp add: quantum_def pow2_nat [symmetric] flip: pow2_add)
    moreover have "x \<le> ?c"
    proof -
      have "x < pow2 (rat_log2 x + 1)" by (rule rat_log2_bounds(2) [OF xy(1)])
      also have "\<dots> \<le> ?c" using less by simp
      finally show ?thesis by simp
    qed
    ultimately have "round_pos m x \<le> ?c" by (intro multiple_above [OF xy(1)])
    moreover have "?c = of_int (2 ^ nat (prec m - 1)) * quantum m y"
      using p by (simp add: quantum_def pow2_nat [symmetric] flip: pow2_add)
    then have "?c \<le> round_pos m y"
      using rat_log2_bounds(1) [OF y] less(3) by (intro multiple_below [of ?c "2 ^ nat (prec m - 1)"]) simp_all
    ultimately show ?thesis by simp
  qed
qed

lemma round_rat_mono: "1 \<le> prec m \<Longrightarrow> x \<le> y \<Longrightarrow> round_rat m x \<le> round_rat m y"
  using round_pos_mono [of m x y] round_pos_mono [of m "- y" "- x"]
    round_pos_nonneg [of "- x" m] round_pos_nonneg [of y m]
  by (auto simp: round_rat_def)

text \<open>Integers up to \<open>2 ^ prec\<close> are exact.\<close>

lemma round_pos_exact: "x = of_int k * quantum m x \<Longrightarrow> round_pos m x = x"
proof -
  assume e: "x = of_int k * quantum m x"
  then have "x / quantum m x = of_int k" by (metis nonzero_mult_div_cancel_right quantum_pos less_irrefl)
  with e show ?thesis by (simp add: round_pos_def)
qed

lemma round_pos_dyadic:
  assumes p: "1 \<le> prec m" "emin m - (prec m - 1) \<le> k" and n: "0 < n" "n \<le> 2 ^ nat (prec m)"
  shows "round_pos m (of_int n * pow2 k) = of_int n * pow2 k"
proof -
  let ?x = "of_int n * pow2 k" and ?e = "rat_log2 (of_int n * pow2 k)"
  let ?q = "max ?e (emin m) - (prec m - 1)"
  have x: "0 < ?x" using n by simp
  show ?thesis
  proof (cases "?q \<le> k")
    case True
    have "?x = of_int (n * 2 ^ nat (k - ?q)) * quantum m ?x"
      using True by (simp add: quantum_def pow2_nat [symmetric] mult.assoc flip: pow2_add)
    then show ?thesis by (rule round_pos_exact)
  next
    case False
    then have q: "?q = ?e - (prec m - 1)" "prec m + k \<le> ?e" using p by (auto simp: max_def split: if_splits)
    have "(of_int n :: rat) \<le> of_int (2 ^ nat (prec m))" using n by (simp only: of_int_le_iff)
    then have "of_int n \<le> pow2 (prec m)" using p by (simp add: pow2_def)
    then have "?x \<le> pow2 (prec m + k)" by (simp add: pow2_add mult_right_mono less_imp_le)
    also have "\<dots> \<le> pow2 ?e" using q by simp
    finally have eq: "?x = pow2 ?e" using rat_log2_bounds(1) [OF x] by simp
    have "pow2 ?e = of_int (2 ^ nat (prec m - 1)) * quantum m ?x"
      using p unfolding quantum_def q by (simp add: pow2_nat [symmetric] flip: pow2_add)
    then have "?x = of_int (2 ^ nat (prec m - 1)) * quantum m ?x" using eq by simp
    then show ?thesis by (rule round_pos_exact)
  qed
qed

lemma round_rat_dyadic:
  assumes "1 \<le> prec m" "emin m - (prec m - 1) \<le> k" and "\<bar>n\<bar> \<le> 2 ^ nat (prec m)"
  shows "round_rat m (of_int n * pow2 k) = of_int n * pow2 k"
  using round_pos_dyadic [of m k n] round_pos_dyadic [of m k "- n"] assms
    less_not_sym [OF pow2_pos [of k]]
  by (cases n "0 :: int" rule: linorder_cases) (auto simp: round_rat_def mult_less_0_iff zero_less_mult_iff)

lemma round_rat_int:
  assumes "1 \<le> prec m" "emin m \<le> 0" and "\<bar>n\<bar> \<le> 2 ^ nat (prec m)"
  shows "round_rat m (of_int n) = of_int n"
  using round_rat_dyadic [of m 0 n] assms by (simp add: pow2_def)

section \<open>Operations\<close>

fun flt_lt :: "flt \<Rightarrow> flt \<Rightarrow> bool" where
  "flt_lt (Fin x) (Fin y) = (x < y)"
| "flt_lt NaN _ = False"
| "flt_lt _ NaN = False"
| "flt_lt PInf _ = False"
| "flt_lt _ NInf = False"
| "flt_lt NInf _ = True"
| "flt_lt _ PInf = True"

fun flt_neg :: "flt \<Rightarrow> flt" where
  "flt_neg (Fin x) = Fin (- x)"
| "flt_neg PInf = NInf"
| "flt_neg NInf = PInf"
| "flt_neg NaN = NaN"

fun flt_abs :: "flt \<Rightarrow> flt" where
  "flt_abs (Fin x) = Fin \<bar>x\<bar>"
| "flt_abs PInf = PInf"
| "flt_abs NInf = PInf"
| "flt_abs NaN = NaN"

fun fadd :: "format \<Rightarrow> flt \<Rightarrow> flt \<Rightarrow> flt" where
  "fadd m (Fin x) (Fin y) = rnd m (x + y)"
| "fadd m NaN _ = NaN"
| "fadd m _ NaN = NaN"
| "fadd m PInf NInf = NaN"
| "fadd m NInf PInf = NaN"
| "fadd m PInf _ = PInf"
| "fadd m _ PInf = PInf"
| "fadd m NInf _ = NInf"
| "fadd m _ NInf = NInf"

definition fsub :: "format \<Rightarrow> flt \<Rightarrow> flt \<Rightarrow> flt" where
  "fsub m a b = fadd m a (flt_neg b)"

definition inf_of_sign :: "rat \<Rightarrow> flt" where
  "inf_of_sign s = (if s = 0 then NaN else if 0 < s then PInf else NInf)"

fun flt_sign :: "flt \<Rightarrow> rat" where
  "flt_sign (Fin x) = sgn x"
| "flt_sign PInf = 1"
| "flt_sign NInf = - 1"
| "flt_sign NaN = 0"

fun fmul :: "format \<Rightarrow> flt \<Rightarrow> flt \<Rightarrow> flt" where
  "fmul m (Fin x) (Fin y) = rnd m (x * y)"
| "fmul m a b = inf_of_sign (flt_sign a * flt_sign b)"

text \<open>No divisor in the code is a negative zero; a zero divisor gives the sign of the dividend.\<close>

fun fdiv :: "format \<Rightarrow> flt \<Rightarrow> flt \<Rightarrow> flt" where
  "fdiv m (Fin x) (Fin y) = (if y = 0 then inf_of_sign x else rnd m (x / y))"
| "fdiv m NaN _ = NaN"
| "fdiv m _ NaN = NaN"
| "fdiv m (Fin x) _ = Fin 0"
| "fdiv m a (Fin y) = inf_of_sign (flt_sign a * (if y = 0 then 1 else sgn y))"
| "fdiv m _ _ = NaN"

text \<open>\<open>std::max\<close>, \<open>std::min\<close> and \<open>std::clamp\<close> are written with one comparison each, so they
  propagate or drop a NaN by position.\<close>

definition fmax :: "flt \<Rightarrow> flt \<Rightarrow> flt" where
  "fmax a b = (if flt_lt a b then b else a)"

definition fclamp :: "flt \<Rightarrow> flt \<Rightarrow> flt \<Rightarrow> flt" where
  "fclamp v lo hi = (if flt_lt v lo then lo else if flt_lt hi v then hi else v)"

text \<open>Conversions: from an integer (rounded), between the formats, and to \<open>int32_t\<close> by
  truncation, which is undefined out of range.\<close>

definition flt_of_int :: "format \<Rightarrow> int \<Rightarrow> flt" where
  "flt_of_int m k = rnd m (of_int k)"

fun to_f32 :: "flt \<Rightarrow> flt" where
  "to_f32 (Fin x) = rnd f32 x"
| "to_f32 a = a"

definition rat_trunc :: "rat \<Rightarrow> int" where
  "rat_trunc x = (if 0 \<le> x then \<lfloor>x\<rfloor> else - \<lfloor>- x\<rfloor>)"

fun flt_trunc :: "nat \<Rightarrow> flt \<Rightarrow> int option" where
  "flt_trunc w (Fin x) = (let k = rat_trunc x in
     if - (2 ^ (w - 1)) \<le> k \<and> k < 2 ^ (w - 1) then Some k else None)"
| "flt_trunc w _ = None"

abbreviation fc :: "rat \<Rightarrow> flt" where "fc q \<equiv> rnd f32 q"

section \<open>Order and monotone operations\<close>

fun fle :: "flt \<Rightarrow> flt \<Rightarrow> bool" where
  "fle (Fin x) (Fin y) = (x \<le> y)"
| "fle NaN _ = False"
| "fle _ NaN = False"
| "fle NInf _ = True"
| "fle _ PInf = True"
| "fle _ _ = False"

lemma fle_refl [simp]: "fle a a \<longleftrightarrow> a \<noteq> NaN"
  by (cases a) auto

lemma fle_trans: "fle a b \<Longrightarrow> fle b c \<Longrightarrow> fle a c"
  by (cases a; cases b; cases c) auto

lemma fle_antisym: "fle a b \<Longrightarrow> fle b a \<Longrightarrow> a = b"
  by (cases a; cases b) auto

lemma fle_iff_not_lt: "a \<noteq> NaN \<Longrightarrow> b \<noteq> NaN \<Longrightarrow> fle a b \<longleftrightarrow> \<not> flt_lt b a"
  by (cases a; cases b) auto

lemma flt_lt_trans: "flt_lt a b \<Longrightarrow> flt_lt b c \<Longrightarrow> flt_lt a c"
  by (cases a; cases b; cases c) auto

lemma flt_lt_le_trans: "flt_lt a b \<Longrightarrow> fle b c \<Longrightarrow> flt_lt a c"
  by (cases a; cases b; cases c) auto

lemma fle_lt_trans: "fle a b \<Longrightarrow> flt_lt b c \<Longrightarrow> flt_lt a c"
  by (cases a; cases b; cases c) auto

lemma flt_lt_irrefl [simp]: "\<not> flt_lt a a"
  by (cases a) auto

lemma flt_lt_imp_le: "flt_lt a b \<Longrightarrow> fle a b"
  by (cases a; cases b) auto

lemma rnd_not_nan [simp]: "rnd m x \<noteq> NaN" "NaN \<noteq> rnd m x"
  by (simp_all add: rnd_def Let_def)

lemma rnd_mono: "1 \<le> prec m \<Longrightarrow> x \<le> y \<Longrightarrow> fle (rnd m x) (rnd m y)"
  using round_rat_mono [of m x y] pow2_pos [of "emax m + 1"] by (auto simp: rnd_def Let_def)

lemma prec_formats [simp]: "1 \<le> prec f32" "1 \<le> prec f64" "emin f32 \<le> 0" "emin f64 \<le> 0"
  by (simp_all add: f32_def f64_def)

lemma rnd_int:
  assumes "1 \<le> prec m" "emin m \<le> 0" "prec m \<le> emax m" and "\<bar>n\<bar> \<le> 2 ^ nat (prec m)"
  shows "rnd m (of_int n) = Fin (of_int n)"
proof -
  have "(2 :: int) ^ nat (prec m) < 2 ^ nat (emax m + 1)" using assms by simp
  then have "\<bar>n\<bar> < 2 ^ nat (emax m + 1)" using assms(4) by linarith
  then have "\<bar>of_int n\<bar> < (2 :: rat) ^ nat (emax m + 1)"
    by (metis of_int_abs of_int_less_iff of_int_numeral of_int_power)
  then show ?thesis using assms(1-4) \<open>\<bar>n\<bar> < 2 ^ nat (emax m + 1)\<close>
    by (auto simp: rnd_def round_rat_int pow2_def Let_def)
qed

lemma fmax_ge: "a \<noteq> NaN \<Longrightarrow> fle a (fmax a b)"
  by (cases a; cases b) (auto simp: fmax_def)

lemma fmax_not_nan: "a \<noteq> NaN \<Longrightarrow> fmax a b \<noteq> NaN"
  by (cases a; cases b) (auto simp: fmax_def)

lemma fclamp_bounds: "v \<noteq> NaN \<Longrightarrow> fle lo hi \<Longrightarrow> fle lo (fclamp v lo hi) \<and> fle (fclamp v lo hi) hi"
  by (cases v; cases lo; cases hi) (auto simp: fclamp_def)

lemma fadd_mono:
  assumes "1 \<le> prec m" "fle a a'" "fle b b'" "fadd m a b \<noteq> NaN" "fadd m a' b' \<noteq> NaN"
  shows "fle (fadd m a b) (fadd m a' b')"
proof -
  have top: "fle (rnd m x) PInf" "fle NInf (rnd m x)" for x
    by (cases "rnd m x"; simp)+
  show ?thesis using assms rnd_mono [OF assms(1)]
    by (cases a; cases a'; cases b; cases b') (auto simp: top)
qed

lemma fsub_antimono:
  assumes "1 \<le> prec m" "fle b' b" "fsub m a b \<noteq> NaN" "fsub m a b' \<noteq> NaN"
  shows "fle (fsub m a b) (fsub m a b')"
  using assms unfolding fsub_def
  by (intro fadd_mono) (cases a; cases b; cases b'; auto)+

lemma fmul_const_mono:
  assumes "1 \<le> prec m" "0 < k" "fle a b"
  shows "fle (fmul m a (Fin k)) (fmul m b (Fin k))"
proof -
  have top: "fle (rnd m x) PInf" "fle NInf (rnd m x)" for x
    by (cases "rnd m x"; simp)+
  show ?thesis using assms rnd_mono [OF assms(1)]
    by (cases a; cases b) (auto simp: inf_of_sign_def top mult_right_mono)
qed

lemma fdiv_const_mono:
  assumes "1 \<le> prec m" "0 < k" "fle a b"
  shows "fle (fdiv m a (Fin k)) (fdiv m b (Fin k))"
proof -
  have top: "fle (rnd m x) PInf" "fle NInf (rnd m x)" for x
    by (cases "rnd m x"; simp)+
  show ?thesis using assms rnd_mono [OF assms(1)]
    by (cases a; cases b) (auto simp: inf_of_sign_def top divide_right_mono)
qed

lemma fmax_mono: "a \<noteq> NaN \<Longrightarrow> fle b b' \<Longrightarrow> fle (fmax a b) (fmax a b')"
  by (cases a; cases b; cases b') (auto simp: fmax_def)

lemma fclamp_mono:
  "fle v v' \<Longrightarrow> fle lo hi \<Longrightarrow> fle (fclamp v lo hi) (fclamp v' lo hi)"
  by (cases v; cases v'; cases lo; cases hi) (auto simp: fclamp_def)

section \<open>Interval bounds\<close>

text \<open>\<open>fbetween lo hi v\<close>: a finite value between two rationals.\<close>

fun fbetween :: "rat \<Rightarrow> rat \<Rightarrow> flt \<Rightarrow> bool" where
  "fbetween lo hi (Fin x) = (lo \<le> x \<and> x \<le> hi)"
| "fbetween lo hi _ = False"

lemma fbetweenE: "fbetween lo hi v \<Longrightarrow> (\<And>x. v = Fin x \<Longrightarrow> lo \<le> x \<Longrightarrow> x \<le> hi \<Longrightarrow> P) \<Longrightarrow> P"
  by (cases v) auto

lemma fbetween_not_nan: "fbetween lo hi v \<Longrightarrow> v \<noteq> NaN"
  by (cases v) auto

lemma fbetween_weaken: "fbetween lo hi v \<Longrightarrow> lo' \<le> lo \<Longrightarrow> hi \<le> hi' \<Longrightarrow> fbetween lo' hi' v"
  by (cases v) auto

lemma rnd_fbetween:
  assumes "1 \<le> prec m" "rnd m lo = Fin lo" "rnd m hi = Fin hi" "lo \<le> x" "x \<le> hi"
  shows "fbetween lo hi (rnd m x)"
  using rnd_mono [OF assms(1,4)] rnd_mono [OF assms(1,5)] assms(2,3) by (cases "rnd m x") auto

lemma fadd_fbetween:
  assumes "1 \<le> prec m" "rnd m (a + b) = Fin (a + b)" "rnd m (c + d) = Fin (c + d)"
    and "fbetween a c v" "fbetween b d w"
  shows "fbetween (a + b) (c + d) (fadd m v w)"
  using assms by (auto elim!: fbetweenE intro!: rnd_fbetween)

lemma fsub_fbetween:
  assumes "1 \<le> prec m" "rnd m (a - d) = Fin (a - d)" "rnd m (c - b) = Fin (c - b)"
    and "fbetween a c v" "fbetween b d w"
  shows "fbetween (a - d) (c - b) (fsub m v w)"
  using assms by (auto simp: fsub_def elim!: fbetweenE intro!: rnd_fbetween)

lemma fmul_fbetween:
  assumes "1 \<le> prec m" "0 \<le> b" "0 \<le> c" "rnd m (- (b * c)) = Fin (- (b * c))" "rnd m (b * c) = Fin (b * c)"
    and "fbetween (- b) b v" "fbetween (- c) c w"
  shows "fbetween (- (b * c)) (b * c) (fmul m v w)"
proof -
  obtain x y where v: "v = Fin x" "w = Fin y" and bd: "\<bar>x\<bar> \<le> b" "\<bar>y\<bar> \<le> c"
    using assms by (auto elim!: fbetweenE)
  have "\<bar>x * y\<bar> \<le> b * c" unfolding abs_mult using bd assms by (intro mult_mono) simp_all
  with v assms show ?thesis by (auto intro!: rnd_fbetween)
qed

lemma fmul_pos_fbetween:
  assumes "1 \<le> prec m" "0 \<le> b" "0 \<le> c" "rnd m 0 = Fin 0" "rnd m (b * c) = Fin (b * c)"
    and "fbetween 0 b v" "fbetween 0 c w"
  shows "fbetween 0 (b * c) (fmul m v w)"
  using assms by (auto elim!: fbetweenE intro!: rnd_fbetween mult_mono)

lemma rnd_zero [simp]: "rnd m 0 = Fin 0"
  by (simp add: rnd_def round_rat_def) (metis less_irrefl less_le_not_le neg_0_less_iff_less neg_le_0_iff_le not_le pow2_pos)

text \<open>Conversion to \<open>int\<close> with the undefined case as a fault.\<close>

definition to_int32 :: "flt \<Rightarrow> fault + int" where
  "to_int32 v = (case flt_trunc 32 v of None \<Rightarrow> Inl BadConversion | Some k \<Rightarrow> Inr k)"

lemma to_int32_between:
  assumes "fbetween (of_int lo) (of_int hi) v" "0 \<le> lo" "hi < 2 ^ 31"
  obtains k where "to_int32 v = Inr k" "lo \<le> k" "k \<le> hi"
proof -
  obtain x where x: "v = Fin x" "of_int lo \<le> x" "x \<le> of_int hi" using assms(1) by (cases v) auto
  have p: "0 \<le> x" using x(2) assms(2) by (metis of_int_0_le_iff order_trans)
  have f: "lo \<le> \<lfloor>x\<rfloor>" "\<lfloor>x\<rfloor> \<le> hi" using x by (simp_all add: le_floor_iff floor_le_iff)
  have "to_int32 v = Inr \<lfloor>x\<rfloor>" using x p f assms by (simp add: to_int32_def rat_trunc_def Let_def)
  with f that show thesis by blast
qed

text \<open>The 32 bits of a \<open>float\<close>, as they travel in a packet.\<close>

definition f32_of_bits :: "u32 \<Rightarrow> flt" where
  "f32_of_bits w =
     (let e = unat (drop_bit 23 w AND 0xFF); m = unat (w AND 0x7FFFFF); neg = bit w 31 in
      if e = 255 then (if m \<noteq> 0 then NaN else if neg then NInf else PInf)
      else let v = (if e = 0 then of_nat m * pow2 (- 149) else of_nat (2 ^ 23 + m) * pow2 (int e - 150))
        in Fin (if neg then - v else v))"

fun bits_of_f32 :: "flt \<Rightarrow> u32" where
  "bits_of_f32 (Fin x) =
     (if x = 0 then 0
      else let e = max (rat_log2 \<bar>x\<bar>) (- 126); m = nat \<lfloor>\<bar>x\<bar> / pow2 (e - 23)\<rfloor> in
        (if x < 0 then 0x80000000 else 0)
        + (if m < 2 ^ 23 then of_nat m else of_nat (nat (e + 127) * 2 ^ 23 + (m - 2 ^ 23))))"
| "bits_of_f32 PInf = 0x7F800000"
| "bits_of_f32 NInf = 0xFF800000"
| "bits_of_f32 NaN = 0x7FC00000"

end
