(* ===== verification/LatencyPredictor.thy ===== *)
theory LatencyPredictor
  imports Floats
begin

text \<open>
  \<open>AI::LatencyPredictor\<close> (\<open>cpp/ai/latency_predictor.cpp\<close>): bounded histories of round trip,
  jitter and loss, exponentially weighted averages in single precision, and the linear forecast
  the adaptation reads. The arithmetic is the IEEE single arithmetic of the theory Floats, in the
  order of the source's expressions.
\<close>

section \<open>State and operations\<close>

record net_metrics =
  nm_rttMs :: flt
  nm_jitterMs :: flt
  nm_packetLossRate :: flt
  nm_timestamp :: u64

record prediction =
  pr_predictedRttMs :: flt
  pr_predictedJitterMs :: flt
  pr_predictedLossRate :: flt
  pr_confidenceScore :: flt

record latency_predictor =
  lp_historySize :: nat
  lp_rttHistory :: "flt list"
  lp_jitterHistory :: "flt list"
  lp_lossHistory :: "flt list"
  lp_timestampHistory :: "u64 list"
  lp_rttEwma :: flt
  lp_jitterEwma :: flt
  lp_lossEwma :: flt

definition lp_new :: "nat \<Rightarrow> latency_predictor" where
  "lp_new n = \<lparr>lp_historySize = n, lp_rttHistory = [], lp_jitterHistory = [], lp_lossHistory = [],
     lp_timestampHistory = [], lp_rttEwma = Fin 0, lp_jitterEwma = Fin 0, lp_lossEwma = Fin 0\<rparr>"

definition ALPHA_FAST :: flt where "ALPHA_FAST = fc (3 / 10)"
definition ALPHA_SLOW :: flt where "ALPHA_SLOW = fc (1 / 10)"

definition ewma :: "flt \<Rightarrow> flt \<Rightarrow> flt \<Rightarrow> flt" where
  "ewma alpha x old = fadd f32 (fmul f32 alpha x) (fmul f32 (fsub f32 (Fin 1) alpha) old)"

definition record_metrics :: "latency_predictor \<Rightarrow> net_metrics \<Rightarrow> latency_predictor" where
  "record_metrics p m =
     (let rtt = lp_rttHistory p @ [nm_rttMs m]; jit = lp_jitterHistory p @ [nm_jitterMs m];
          loss = lp_lossHistory p @ [nm_packetLossRate m];
          ts = lp_timestampHistory p @ [nm_timestamp m];
          (rtt, jit, loss, ts) = (if lp_historySize p < length rtt
             then (tl rtt, tl jit, tl loss, tl ts) else (rtt, jit, loss, ts));
          p = p\<lparr>lp_rttHistory := rtt, lp_jitterHistory := jit, lp_lossHistory := loss,
                lp_timestampHistory := ts\<rparr>
      in if length rtt = 1
         then p\<lparr>lp_rttEwma := nm_rttMs m, lp_jitterEwma := nm_jitterMs m,
                lp_lossEwma := nm_packetLossRate m\<rparr>
         else p\<lparr>lp_rttEwma := ewma ALPHA_FAST (nm_rttMs m) (lp_rttEwma p),
                lp_jitterEwma := ewma ALPHA_FAST (nm_jitterMs m) (lp_jitterEwma p),
                lp_lossEwma := ewma ALPHA_SLOW (nm_packetLossRate m) (lp_lossEwma p)\<rparr>)"

text \<open>The least-squares slope over the last five samples; the four sums are the loop's locals.\<close>

definition trend_step :: "flt \<times> flt \<times> flt \<times> flt \<Rightarrow> nat \<times> flt \<Rightarrow> flt \<times> flt \<times> flt \<times> flt" where
  "trend_step = (\<lambda>(sumX, sumY, sumXY, sumXX) (i, y). let x = flt_of_int f32 (int i) in
     (fadd f32 sumX x, fadd f32 sumY y, fadd f32 sumXY (fmul f32 x y), fadd f32 sumXX (fmul f32 x x)))"

definition calculate_trend :: "flt list \<Rightarrow> flt" where
  "calculate_trend data = (if length data < 5 then Fin 0 else
     (let (sumX, sumY, sumXY, sumXX) =
            foldl trend_step (Fin 0, Fin 0, Fin 0, Fin 0) (zip [0..<5] (drop (length data - 5) data));
          n = flt_of_int f32 5
      in fdiv f32 (fsub f32 (fmul f32 n sumXY) (fmul f32 sumX sumY))
                  (fsub f32 (fmul f32 n sumXX) (fmul f32 sumX sumX))))"

definition extrapolate :: "flt \<Rightarrow> flt \<Rightarrow> u32 \<Rightarrow> flt" where
  "extrapolate avg trend look =
     fadd f32 avg (fmul f32 trend (fdiv f32 (flt_of_int f32 (uint look)) (Fin 100)))"

definition lp_predict :: "latency_predictor \<Rightarrow> u32 \<Rightarrow> prediction" where
  "lp_predict p look =
     (if lp_rttHistory p = [] then \<lparr>pr_predictedRttMs = Fin 0, pr_predictedJitterMs = Fin 0,
        pr_predictedLossRate = Fin 0, pr_confidenceScore = Fin 0\<rparr>
      else \<lparr>pr_predictedRttMs =
              fmax (Fin 0) (extrapolate (lp_rttEwma p) (calculate_trend (lp_rttHistory p)) look),
            pr_predictedJitterMs =
              fmax (Fin 0) (extrapolate (lp_jitterEwma p) (calculate_trend (lp_jitterHistory p)) look),
            pr_predictedLossRate =
              fclamp (extrapolate (lp_lossEwma p) (calculate_trend (lp_lossHistory p)) look) (Fin 0) (Fin 1),
            pr_confidenceScore =
              fmax (Fin 0) (fsub f32 (Fin 1) (fdiv f32 (flt_of_int f32 (uint look)) (Fin 1000)))\<rparr>)"

definition lp_run :: "nat \<Rightarrow> net_metrics list \<Rightarrow> latency_predictor" where
  "lp_run n ms = foldl record_metrics (lp_new n) ms"

section \<open>The averages and the slope stay in range\<close>

lemma rnd_f32_exact [simp]:
  "rnd f32 1 = Fin 1" "rnd f32 2 = Fin 2" "rnd f32 3 = Fin 3" "rnd f32 4 = Fin 4" "rnd f32 5 = Fin 5"
  "rnd f32 6 = Fin 6" "rnd f32 9 = Fin 9" "rnd f32 10 = Fin 10" "rnd f32 14 = Fin 14" "rnd f32 16 = Fin 16"
  "rnd f32 30 = Fin 30" "rnd f32 50 = Fin 50" "rnd f32 100 = Fin 100" "rnd f32 150 = Fin 150"
  "rnd f32 (- 1) = Fin (- 1)" "rnd f32 (- 50) = Fin (- 50)"
  by code_simp+

lemma loss_ewma_weights:
  assumes "fbetween 0 1 l" "fbetween 0 1 e"
  shows "fbetween 0 1 (ewma ALPHA_SLOW l e)"
proof -
  have sl: "ALPHA_SLOW = Fin (13421773 / 134217728)"
    and rest: "fsub f32 (Fin 1) ALPHA_SLOW = Fin (7549747 / 8388608)"
    unfolding ALPHA_SLOW_def by code_simp+
  obtain x y where l: "l = Fin x" "0 \<le> x" "x \<le> 1" and e: "e = Fin y" "0 \<le> y" "y \<le> 1"
    using assms by (auto elim!: fbetweenE)
  have "rnd f32 (13421773 / 134217728) = Fin (13421773 / 134217728)" by code_simp
  then have a: "fbetween 0 (13421773 / 134217728) (fmul f32 ALPHA_SLOW l)"
    using l unfolding sl by (auto intro!: rnd_fbetween)
  have "rnd f32 (7549747 / 8388608) = Fin (7549747 / 8388608)" by code_simp
  then have b: "fbetween 0 (7549747 / 8388608) (fmul f32 (fsub f32 (Fin 1) ALPHA_SLOW) e)"
    using e unfolding rest by (auto intro!: rnd_fbetween)
  obtain u v where uv: "fmul f32 ALPHA_SLOW l = Fin u" "0 \<le> u" "u \<le> 13421773 / 134217728"
    "fmul f32 (fsub f32 (Fin 1) ALPHA_SLOW) e = Fin v" "0 \<le> v" "v \<le> 7549747 / 8388608"
    using a b by (auto elim!: fbetweenE)
  have "u + v \<le> 1" using uv by simp
  then show ?thesis using uv unfolding ewma_def by (auto intro!: rnd_fbetween)
qed

lemma trend_bounded:
  assumes "list_all (fbetween 0 1) ys"
  shows "fbetween (- 1) 1 (calculate_trend ys)"
proof (cases "length ys < 5")
  case True
  then show ?thesis by (simp add: calculate_trend_def)
next
  case False
  let ?zs = "drop (length ys - 5) ys"
  have "length ?zs = Suc (Suc (Suc (Suc (Suc 0))))" using False by simp
  then obtain a b c d e where zs: "?zs = [a, b, c, d, e]"
    unfolding length_Suc_conv length_0_conv by blast
  have "set ?zs \<subseteq> set ys" by (rule set_drop_subset)
  then have "set [a, b, c, d, e] \<subseteq> set ys" unfolding zs .
  then have y: "fbetween 0 1 a" "fbetween 0 1 b" "fbetween 0 1 c" "fbetween 0 1 d" "fbetween 0 1 e"
    using assms by (simp_all add: list_all_iff)
  let ?add = "fadd f32" and ?mul = "fmul f32"
  let ?sy = "?add (?add (?add (?add (?add (Fin 0) a) b) c) d) e"
  let ?sxy = "?add (?add (?add (?add (?add (Fin 0) (?mul (Fin 0) a)) (?mul (Fin 1) b)) (?mul (Fin 2) c))
    (?mul (Fin 3) d)) (?mul (Fin 4) e)"
  have sums: "foldl trend_step (Fin 0, Fin 0, Fin 0, Fin 0) (zip [0..<5] ?zs) = (Fin 10, ?sy, ?sxy, Fin 30)"
  proof -
    have five: "[0..<5] = [0, 1, 2, 3, 4]" by (simp add: upt_rec)
    show ?thesis unfolding zs five by (simp add: trend_step_def flt_of_int_def Let_def)
  qed
  have scale: "fbetween 0 k (?mul (Fin k) v)" if "fbetween 0 1 v" "0 \<le> k" "rnd f32 k = Fin k" for k v
    using fmul_pos_fbetween [of f32 k 1 "Fin k" v] that by simp
  have add: "fbetween 0 (k + l) (?add v w)"
    if "fbetween 0 k v" "fbetween 0 l w" "rnd f32 (k + l) = Fin (k + l)" for k l v w
    using fadd_fbetween [of f32 0 0 k l v w] that by simp
  have "fbetween 0 (0 + 1 + 1 + 1 + 1 + 1) ?sy" using y by (intro add) simp_all
  then have sy: "fbetween 0 5 ?sy" by simp
  have "fbetween 0 (0 + 0 + 1 + 2 + 3 + 4) ?sxy" using y by (intro add scale) simp_all
  then have sxy: "fbetween 0 10 ?sxy" by simp
  have p: "fbetween 0 50 (?mul (Fin 5) ?sxy)" "fbetween 0 50 (?mul (Fin 10) ?sy)"
    using fmul_pos_fbetween [of f32 5 10 "Fin 5", OF _ _ _ _ _ _ sxy]
      fmul_pos_fbetween [of f32 10 5 "Fin 10", OF _ _ _ _ _ _ sy] by simp_all
  have "fbetween (- 50) 50 (fsub f32 (?mul (Fin 5) ?sxy) (?mul (Fin 10) ?sy))"
    using fsub_fbetween [of f32 0 50 50 0, OF _ _ _ p] by simp
  then obtain x where x: "fsub f32 (?mul (Fin 5) ?sxy) (?mul (Fin 10) ?sy) = Fin x" "- 50 \<le> x" "x \<le> 50"
    by (auto elim!: fbetweenE)
  have den: "fsub f32 (?mul (Fin 5) (Fin 30)) (?mul (Fin 10) (Fin 10)) = Fin 50" by (simp add: fsub_def)
  have "calculate_trend ys = fdiv f32 (Fin x) (Fin 50)"
    using False x den by (simp add: calculate_trend_def sums flt_of_int_def)
  also have "fbetween (- 1) 1 \<dots>" using x by (auto intro!: rnd_fbetween)
  finally show ?thesis .
qed

lemma lookahead_float: "fbetween 0 (2 ^ 32) (flt_of_int f32 (uint (look :: u32)))"
proof -
  have big: "rnd f32 (2 ^ 32) = Fin (2 ^ 32)" by code_simp
  have u: "0 \<le> uint look" "uint look \<le> 2 ^ 32" using uint_lt2p [of look] by (simp_all add: less_imp_le)
  have "(of_int 0 :: rat) \<le> of_int (uint look)" "(of_int (uint look) :: rat) \<le> of_int (2 ^ 32)"
    using u by (simp_all only: of_int_le_iff)
  then show ?thesis using big unfolding flt_of_int_def by (intro rnd_fbetween) simp_all
qed

lemma extrapolate_finite:
  assumes "fbetween 0 1 avg" "fbetween (- 1) 1 tr"
  shows "extrapolate avg tr look \<noteq> NaN"
proof -
  have big: "rnd f32 (2 ^ 32) = Fin (2 ^ 32)" "rnd f32 (- (2 ^ 32)) = Fin (- (2 ^ 32))"
    "rnd f32 (2 ^ 33) = Fin (2 ^ 33)" "rnd f32 (- (2 ^ 33)) = Fin (- (2 ^ 33))" by code_simp+
  obtain x where x: "flt_of_int f32 (uint look) = Fin x" "0 \<le> x" "x \<le> 2 ^ 32"
    using lookahead_float [of look] by (auto elim!: fbetweenE)
  have "fbetween 0 (2 ^ 32) (fdiv f32 (Fin x) (Fin 100))"
    using x big by (auto intro!: rnd_fbetween)
  then have "fbetween (- (2 ^ 32)) (2 ^ 32) (fdiv f32 (flt_of_int f32 (uint look)) (Fin 100))"
    unfolding x(1) by (rule fbetween_weaken) simp_all
  then have "fbetween (- (1 * 2 ^ 32)) (1 * 2 ^ 32) (fmul f32 tr (fdiv f32 (flt_of_int f32 (uint look)) (Fin 100)))"
    using assms(2) big by (intro fmul_fbetween) simp_all
  then obtain z where z: "fmul f32 tr (fdiv f32 (flt_of_int f32 (uint look)) (Fin 100)) = Fin z" by (auto elim!: fbetweenE)
  show ?thesis unfolding extrapolate_def z using assms(1) by (auto elim!: fbetweenE)
qed

lemma confidence_range:
  "fbetween 0 1 (fmax (Fin 0) (fsub f32 (Fin 1) (fdiv f32 (flt_of_int f32 (uint (look :: u32))) (Fin 1000))))"
proof -
  have big: "rnd f32 (2 ^ 32) = Fin (2 ^ 32)" by code_simp
  obtain x where x: "flt_of_int f32 (uint look) = Fin x" "0 \<le> x" "x \<le> 2 ^ 32"
    using lookahead_float [of look] by (auto elim!: fbetweenE)
  have "fbetween 0 (2 ^ 32) (fdiv f32 (Fin x) (Fin 1000))"
    using x big by (auto intro!: rnd_fbetween)
  then obtain y where y: "fdiv f32 (Fin x) (Fin 1000) = Fin y" "0 \<le> y" by (auto elim!: fbetweenE)
  have "fle (rnd f32 (1 - y)) (rnd f32 1)" using y by (intro rnd_mono) simp_all
  then show ?thesis unfolding x y fsub_def by (cases "rnd f32 (1 - y)") (auto simp: fmax_def)
qed

section \<open>Reachable predictors\<close>

definition lp_inv :: "latency_predictor \<Rightarrow> bool" where
  "lp_inv p \<longleftrightarrow> length (lp_rttHistory p) \<le> lp_historySize p
     \<and> length (lp_jitterHistory p) = length (lp_rttHistory p)
     \<and> length (lp_lossHistory p) = length (lp_rttHistory p)
     \<and> length (lp_timestampHistory p) = length (lp_rttHistory p)
     \<and> list_all (fbetween 0 1) (lp_lossHistory p) \<and> fbetween 0 1 (lp_lossEwma p)"

lemma list_all_tl: "list_all P xs \<Longrightarrow> list_all P (tl xs)"
  by (cases xs) auto

lemma record_metrics_inv:
  assumes "lp_inv p" "fbetween 0 1 (nm_packetLossRate m)"
  shows "lp_inv (record_metrics p m)"
  using assms loss_ewma_weights [of "nm_packetLossRate m" "lp_lossEwma p"]
  by (auto simp: lp_inv_def record_metrics_def Let_def intro!: list_all_tl split: if_splits)

lemma lp_run_inv:
  assumes "\<forall>m \<in> set ms. fbetween 0 1 (nm_packetLossRate m)"
  shows "lp_inv (lp_run n ms)" and "lp_historySize (lp_run n ms) = n"
proof -
  have size: "lp_historySize (record_metrics p m) = lp_historySize p" for p m
    by (simp add: record_metrics_def Let_def)
  show "lp_inv (lp_run n ms)" using assms unfolding lp_run_def
    by (induction ms rule: rev_induct) (simp_all add: record_metrics_inv, simp add: lp_inv_def lp_new_def)
  show "lp_historySize (lp_run n ms) = n" unfolding lp_run_def
    by (induction ms rule: rev_induct) (simp_all add: size lp_new_def)
qed

lemma one_percent: "fc (1 / 100) = Fin (5368709 / 536870912)"
  by code_simp

text \<open>Whatever sequence of measurements the predictor has recorded, as long as the recorded
  loss rates are rates, its forecast for any lookahead has a loss rate in [0, 1] that is not NaN,
  non-negative round trip and jitter (even when those measurements were NaN or infinite), and a
  confidence in [0, 1]; the histories never outgrow the configured size and stay aligned.\<close>
theorem latency_forecast_bounded:
  assumes "\<forall>m \<in> set ms. fbetween 0 1 (nm_packetLossRate m)"
  shows "fbetween 0 1 (pr_predictedLossRate (lp_predict (lp_run n ms) look))
    \<and> fle (Fin 0) (pr_predictedRttMs (lp_predict (lp_run n ms) look))
    \<and> fle (Fin 0) (pr_predictedJitterMs (lp_predict (lp_run n ms) look))
    \<and> fbetween 0 1 (pr_confidenceScore (lp_predict (lp_run n ms) look))
    \<and> length (lp_rttHistory (lp_run n ms)) \<le> n
    \<and> length (lp_lossHistory (lp_run n ms)) = length (lp_rttHistory (lp_run n ms))
    \<and> length (lp_jitterHistory (lp_run n ms)) = length (lp_rttHistory (lp_run n ms))"
proof -
  let ?p = "lp_run n ms"
  have inv: "lp_inv ?p" "lp_historySize ?p = n" using lp_run_inv [OF assms] by auto
  then have e: "fbetween 0 1 (lp_lossEwma ?p)" and h: "list_all (fbetween 0 1) (lp_lossHistory ?p)"
    by (simp_all add: lp_inv_def)
  have "extrapolate (lp_lossEwma ?p) (calculate_trend (lp_lossHistory ?p)) look \<noteq> NaN"
    by (rule extrapolate_finite [OF e trend_bounded [OF h]])
  then have "fbetween 0 1 (fclamp (extrapolate (lp_lossEwma ?p) (calculate_trend (lp_lossHistory ?p)) look) (Fin 0) (Fin 1))"
    by (cases "extrapolate (lp_lossEwma ?p) (calculate_trend (lp_lossHistory ?p)) look") (auto simp: fclamp_def)
  moreover have "fbetween 0 1 (fmax (Fin 0) (fsub f32 (Fin 1) (fdiv f32 (flt_of_int f32 (uint look)) (Fin 1000))))"
    by (rule confidence_range)
  ultimately show ?thesis using inv
    by (simp add: lp_predict_def lp_inv_def fmax_ge)
qed

theorem latency_forecast_bounded_witness:
  "fbetween 0 1 (pr_predictedLossRate (lp_predict (lp_run 2
     [\<lparr>nm_rttMs = NaN, nm_jitterMs = Fin 1, nm_packetLossRate = fc (1 / 100), nm_timestamp = 0\<rparr>,
      \<lparr>nm_rttMs = Fin 20, nm_jitterMs = PInf, nm_packetLossRate = Fin 1, nm_timestamp = 100\<rparr>]) 4000000000))"
  using latency_forecast_bounded [of
     "[\<lparr>nm_rttMs = NaN, nm_jitterMs = Fin 1, nm_packetLossRate = Fin (5368709 / 536870912), nm_timestamp = 0\<rparr>,
      \<lparr>nm_rttMs = Fin 20, nm_jitterMs = PInf, nm_packetLossRate = Fin 1, nm_timestamp = 100\<rparr>]" 2 4000000000]
    one_percent by simp

end
