(* ===== verification/StreamEngine.thy ===== *)
theory StreamEngine
  imports LatencyPredictor
begin

text \<open>
  \<open>AI::StreamEngine\<close> (\<open>cpp/ai/stream_engine.cpp\<close>): the adaptation decision taken from the
  stream's state and the forecast, with its cool-down. \<open>int\<close> conversions out of range are the
  fault \<open>BadConversion\<close>; the clock reading is an argument.
\<close>

section \<open>State and operations\<close>

datatype adaptation_action = Maintain | IncreaseBitrate | DecreaseBitrate | IncreaseResolution
  | DecreaseResolution | IncreaseFPS | DecreaseFPS | ForceKeyframe | EmergencyThrottle

record stream_state =
  ss_currentBitrateKbps :: int
  ss_currentWidth :: int
  ss_currentHeight :: int
  ss_currentFPS :: int
  ss_packetLoss :: flt
  ss_rttMs :: flt
  ss_sceneComplexity :: flt

record adaptation_decision =
  ad_action :: adaptation_action
  ad_targetBitrateKbps :: int
  ad_targetWidth :: int
  ad_targetHeight :: int
  ad_targetFPS :: int
  ad_reason :: string

record stream_engine =
  se_lastActionTime :: u64

definition ACTION_COOLDOWN_MS :: u64 where "ACTION_COOLDOWN_MS = 2000"

definition stream_engine_new :: "u64 \<Rightarrow> stream_engine" where
  "stream_engine_new now = \<lparr>se_lastActionTime = now\<rparr>"

definition maintain :: "stream_state \<Rightarrow> adaptation_decision" where
  "maintain s = \<lparr>ad_action = Maintain, ad_targetBitrateKbps = ss_currentBitrateKbps s,
     ad_targetWidth = ss_currentWidth s, ad_targetHeight = ss_currentHeight s,
     ad_targetFPS = ss_currentFPS s, ad_reason = ''''\<rparr>"

definition critical :: "prediction \<Rightarrow> bool" where
  "critical p \<longleftrightarrow> flt_lt (fc (15 / 100)) (pr_predictedLossRate p) \<or> flt_lt (Fin 250) (pr_predictedRttMs p)"

definition congested :: "stream_state \<Rightarrow> prediction \<Rightarrow> bool" where
  "congested s p \<longleftrightarrow> flt_lt (fc (2 / 100)) (pr_predictedLossRate p)
     \<or> flt_lt (fmul f32 (ss_rttMs s) (fc (12 / 10))) (pr_predictedRttMs p)"

definition stable :: "stream_state \<Rightarrow> prediction \<Rightarrow> bool" where
  "stable s p \<longleftrightarrow> flt_lt (pr_predictedLossRate p) (fc (5 / 1000)) \<and> flt_lt (pr_predictedRttMs p) (Fin 50)
     \<and> flt_lt (ss_packetLoss s) (fc (1 / 1000))"

definition scaled :: "int \<Rightarrow> flt \<Rightarrow> fault + int" where
  "scaled b k = to_int32 (fmul f32 (flt_of_int f32 b) k)"

text \<open>The emergency branch, the bitrate branch and the resolution branch, in the order of the
  function body.\<close>

definition emergency :: "stream_state \<Rightarrow> fault + adaptation_decision" where
  "emergency s = fbind (scaled (ss_currentBitrateKbps s) (fc (1 / 2))) (\<lambda>half.
     Inr ((maintain s)\<lparr>ad_action := EmergencyThrottle, ad_targetBitrateKbps := max 500 half,
       ad_targetWidth := 854, ad_targetHeight := 480, ad_targetFPS := 30,
       ad_reason := ''Critical network congestion predicted''\<rparr>))"

definition adjust_bitrate ::
  "stream_engine \<Rightarrow> u64 \<Rightarrow> stream_state \<Rightarrow> prediction \<Rightarrow> fault + (stream_engine \<times> adaptation_decision)" where
  "adjust_bitrate e now s p =
     (let d = maintain s;
          complexityMultiplier = fadd f32 (Fin 1) (fmul f32 (ss_sceneComplexity s) (fc (1 / 2)))
      in fbind (scaled (ad_targetBitrateKbps d) complexityMultiplier) (\<lambda>idealBitrate.
        if congested s p then
          fbind (scaled (ss_currentBitrateKbps s) (fc (80 / 100))) (\<lambda>b.
            Inr (e\<lparr>se_lastActionTime := now\<rparr>,
                 d\<lparr>ad_action := DecreaseBitrate, ad_targetBitrateKbps := b,
                   ad_reason := ''Predicted latency spike or packet loss''\<rparr>))
        else if stable s p then
          (if ss_currentBitrateKbps s < 30000 then
             Inr (e\<lparr>se_lastActionTime := now\<rparr>,
                  d\<lparr>ad_action := IncreaseBitrate, ad_targetBitrateKbps := min 30000 idealBitrate,
                    ad_reason := ''Stable network, motion-aware quality increase''\<rparr>)
           else Inr (e, d))
        else Inr (e, d)))"

definition scale_resolution :: "stream_state \<Rightarrow> adaptation_decision \<Rightarrow> adaptation_decision" where
  "scale_resolution s d =
     (if ad_targetBitrateKbps d < 2500 \<and> 854 < ss_currentWidth s then
        d\<lparr>ad_action := DecreaseResolution, ad_targetWidth := 854, ad_targetHeight := 480, ad_targetFPS := 30\<rparr>
      else if 12000 < ad_targetBitrateKbps d \<and> ss_currentWidth s < 3840 \<and> 1920 \<le> ss_currentWidth s then
        d\<lparr>ad_action := IncreaseResolution, ad_targetWidth := 3840, ad_targetHeight := 2160\<rparr>
      else if 6000 < ad_targetBitrateKbps d \<and> ss_currentWidth s < 1920 then
        d\<lparr>ad_action := IncreaseResolution, ad_targetWidth := 1920, ad_targetHeight := 1080, ad_targetFPS := 60\<rparr>
      else d)"

definition analyze ::
  "stream_engine \<Rightarrow> u64 \<Rightarrow> stream_state \<Rightarrow> prediction \<Rightarrow> fault + (stream_engine \<times> adaptation_decision)" where
  "analyze e now s p =
     (if critical p then fbind (emergency s) (\<lambda>d. Inr (e\<lparr>se_lastActionTime := now\<rparr>, d))
      else if now - se_lastActionTime e < ACTION_COOLDOWN_MS then Inr (e, maintain s)
      else fbind (adjust_bitrate e now s p) (\<lambda>(e, d). Inr (e, scale_resolution s d)))"

section \<open>Scaling a bitrate\<close>

lemma bitrate_exact:
  assumes "0 \<le> b" "b \<le> 2 ^ 24"
  shows "flt_of_int f32 b = Fin (of_int b)"
  unfolding flt_of_int_def using assms by (intro rnd_int) (simp_all add: f32_def)

text \<open>Halving is exact, so the truncation is integer division.\<close>

lemma half_bitrate:
  assumes "0 \<le> b" "b \<le> 2 ^ 24"
  shows "scaled b (fc (1 / 2)) = Inr (b div 2)"
proof -
  have h: "fc (1 / 2) = Fin (1 / 2)" by code_simp
  have e: "(of_int b * (1 / 2) :: rat) = of_int b * pow2 (- 1)" by (simp add: pow2_def)
  have r: "round_rat f32 (of_int b * pow2 (- 1)) = of_int b * pow2 (- 1)"
    using assms by (intro round_rat_dyadic) (simp_all add: f32_def)
  have small: "(of_int b :: rat) \<le> of_int (2 ^ 24)" using assms(2) by (simp only: of_int_le_iff)
  have big: "(2 ^ 24 :: rat) < pow2 (emax f32 + 1)" by (simp add: f32_def pow2_def)
  have "0 \<le> of_int b * pow2 (- 1)" "of_int b * pow2 (- 1) < pow2 (emax f32 + 1)"
    using assms small big by (simp_all add: pow2_def)
  then have "rnd f32 (of_int b * pow2 (- 1)) = Fin (of_int b * pow2 (- 1))"
    using pow2_pos [of "emax f32 + 1"] unfolding rnd_def r Let_def by auto
  moreover have "\<lfloor>(of_int b * pow2 (- 1) :: rat)\<rfloor> = b div 2"
    using floor_divide_of_int_eq [of b 2, where 'a = rat] by (simp add: pow2_def)
  moreover have "b div 2 < 2 ^ 31" "- (2 ^ 31) \<le> b div 2" using assms by auto
  ultimately show ?thesis using assms
    unfolding scaled_def bitrate_exact [OF assms] h
    by (simp add: e to_int32_def rat_trunc_def Let_def pow2_def)
qed

text \<open>Scaling by a factor of at most one never raises the bitrate; by one of at most two it at
  most doubles it.\<close>

lemma scaled_upto:
  assumes "0 \<le> b" "b \<le> 2 ^ 24" "k = Fin q" "0 \<le> q" "q \<le> of_int c" "c = 1 \<or> c = 2"
  obtains r where "scaled b k = Inr r" "0 \<le> r" "r \<le> c * b"
proof -
  have cb: "rnd f32 (of_int (c * b)) = Fin (of_int (c * b))"
    using assms(6)
  proof
    assume c: "c = 1" then show ?thesis using assms by (intro rnd_int) (simp_all add: f32_def)
  next
    assume c: "c = 2"
    have r: "round_rat f32 (of_int b * pow2 1) = of_int b * pow2 1"
      using assms by (intro round_rat_dyadic) (simp_all add: f32_def)
    have small: "(of_int b :: rat) \<le> of_int (2 ^ 24)" using assms(2) by (simp only: of_int_le_iff)
    have big: "(2 ^ 25 :: rat) < pow2 (emax f32 + 1)" by (simp add: f32_def pow2_def)
    have "0 \<le> of_int b * pow2 1" "of_int b * pow2 1 < pow2 (emax f32 + 1)"
      using assms(1) small big by (simp_all add: pow2_def)
    then have "rnd f32 (of_int b * pow2 1) = Fin (of_int b * pow2 1)"
      using pow2_pos [of "emax f32 + 1"] unfolding rnd_def r Let_def by auto
    then show ?thesis by (simp add: c pow2_def mult.commute)
  qed
  have "of_int b * q \<le> of_int b * of_int c" using assms(1,5) by (intro mult_left_mono) simp_all
  then have le: "of_int b * q \<le> of_int (c * b)" by (simp add: mult.commute)
  have "fbetween (of_int 0) (of_int (c * b)) (fmul f32 (flt_of_int f32 b) k)"
    unfolding bitrate_exact [OF assms(1,2)] assms(3) fmul.simps
    using cb assms(1,4) le by (intro rnd_fbetween) simp_all
  moreover have "c * b < 2 ^ 31" using assms(1,2,6) by auto
  ultimately show thesis using that unfolding scaled_def
    by (metis to_int32_between order_refl)
qed

section \<open>What a decision may do\<close>

lemma multiplier:
  assumes "fbetween 0 1 c"
  obtains q where "fadd f32 (Fin 1) (fmul f32 c (fc (1 / 2))) = Fin q" "1 \<le> q" "q \<le> 2"
proof -
  have h: "fc (1 / 2) = Fin (1 / 2)" "rnd f32 (1 / 2) = Fin (1 / 2)" by code_simp+
  obtain x where x: "c = Fin x" "0 \<le> x" "x \<le> 1" using assms by (auto elim!: fbetweenE)
  have "fbetween 0 1 (rnd f32 (x * (1 / 2)))" using x h by (intro rnd_fbetween) simp_all
  then obtain y where y: "rnd f32 (x * (1 / 2)) = Fin y" "0 \<le> y" "y \<le> 1" by (auto elim!: fbetweenE)
  have "fbetween 1 2 (rnd f32 (1 + y))" using y by (intro rnd_fbetween) simp_all
  then show thesis using that x h y by (auto elim!: fbetweenE)
qed

text \<open>When the forecast is critical (loss over 15% or round trip over 250 ms) the engine
  throttles at once, cool-down or not: half the bitrate, rounded down and at least 500 kbit/s,
  854x480 at 30 frames, and the cool-down restarts.\<close>
theorem emergency_overrides_cooldown:
  assumes "critical p" and "0 \<le> ss_currentBitrateKbps s" "ss_currentBitrateKbps s \<le> 2 ^ 24"
  shows "analyze e now s p = Inr (\<lparr>se_lastActionTime = now\<rparr>,
    \<lparr>ad_action = EmergencyThrottle, ad_targetBitrateKbps = max 500 (ss_currentBitrateKbps s div 2),
     ad_targetWidth = 854, ad_targetHeight = 480, ad_targetFPS = 30,
     ad_reason = ''Critical network congestion predicted''\<rparr>)"
  using assms by (cases e) (simp add: analyze_def emergency_def half_bitrate maintain_def)

theorem emergency_overrides_cooldown_witness:
  "analyze \<lparr>se_lastActionTime = 1000\<rparr> 1001
     \<lparr>ss_currentBitrateKbps = 5001, ss_currentWidth = 1920, ss_currentHeight = 1080, ss_currentFPS = 60,
      ss_packetLoss = Fin 0, ss_rttMs = Fin 30, ss_sceneComplexity = Fin 0\<rparr>
     \<lparr>pr_predictedRttMs = Fin 30, pr_predictedJitterMs = Fin 2, pr_predictedLossRate = fc (20 / 100),
      pr_confidenceScore = Fin 1\<rparr>
   = Inr (\<lparr>se_lastActionTime = 1001\<rparr>,
      \<lparr>ad_action = EmergencyThrottle, ad_targetBitrateKbps = 2500, ad_targetWidth = 854,
       ad_targetHeight = 480, ad_targetFPS = 30, ad_reason = ''Critical network congestion predicted''\<rparr>)"
proof -
  have "critical \<lparr>pr_predictedRttMs = Fin 30, pr_predictedJitterMs = Fin 2,
    pr_predictedLossRate = fc (20 / 100), pr_confidenceScore = Fin 1\<rparr>" by code_simp
  from emergency_overrides_cooldown [OF this] show ?thesis by simp
qed

text \<open>Outside an emergency a decision is always reached, nothing changes during the
  two-second cool-down, the bitrate is raised only on a stable network below 30 Mbit/s and then
  to at most 30 Mbit/s and twice the current rate, a congestion forecast never raises it, and it
  never turns negative.\<close>
theorem bitrate_steps_bounded:
  assumes "\<not> critical p" and "0 \<le> ss_currentBitrateKbps s" "ss_currentBitrateKbps s \<le> 2 ^ 24"
    and "fbetween 0 1 (ss_sceneComplexity s)"
  shows "\<exists>e' d. analyze e now s p = Inr (e', d)
    \<and> (now - se_lastActionTime e < ACTION_COOLDOWN_MS \<longrightarrow> e' = e \<and> d = maintain s)
    \<and> (congested s p \<longrightarrow> ad_targetBitrateKbps d \<le> ss_currentBitrateKbps s)
    \<and> (ss_currentBitrateKbps s < ad_targetBitrateKbps d \<longrightarrow> stable s p \<and> \<not> congested s p
         \<and> ad_targetBitrateKbps d \<le> 30000 \<and> ad_targetBitrateKbps d \<le> 2 * ss_currentBitrateKbps s)
    \<and> 0 \<le> ad_targetBitrateKbps d"
proof -
  let ?b = "ss_currentBitrateKbps s"
  obtain q where q: "fadd f32 (Fin 1) (fmul f32 (ss_sceneComplexity s) (fc (1 / 2))) = Fin q" "1 \<le> q" "q \<le> 2"
    by (rule multiplier [OF assms(4)])
  obtain ideal where ideal: "scaled ?b (Fin q) = Inr ideal" "0 \<le> ideal" "ideal \<le> 2 * ?b"
    using scaled_upto [OF assms(2,3) refl, of q 2] q by auto
  have "fc (80 / 100) = Fin (13421773 / 16777216)" by code_simp
  then obtain dec where dec: "scaled ?b (fc (80 / 100)) = Inr dec" "0 \<le> dec" "dec \<le> ?b"
    using scaled_upto [OF assms(2,3), of "fc (80 / 100)" "13421773 / 16777216" 1] by auto
  have res: "ad_targetBitrateKbps (scale_resolution s d) = ad_targetBitrateKbps d" for d
    by (simp add: scale_resolution_def)
  show ?thesis using assms(1,2) ideal dec
    by (auto simp: analyze_def adjust_bitrate_def maintain_def res q Let_def)
qed

theorem bitrate_steps_bounded_witness:
  "\<exists>e' d. analyze \<lparr>se_lastActionTime = 1000\<rparr> 5000
     \<lparr>ss_currentBitrateKbps = 5000, ss_currentWidth = 1920, ss_currentHeight = 1080, ss_currentFPS = 60,
      ss_packetLoss = Fin 0, ss_rttMs = Fin 30, ss_sceneComplexity = Fin (1 / 2)\<rparr>
     \<lparr>pr_predictedRttMs = Fin 30, pr_predictedJitterMs = Fin 2, pr_predictedLossRate = Fin 0,
      pr_confidenceScore = Fin 1\<rparr> = Inr (e', d) \<and> 0 \<le> ad_targetBitrateKbps d"
proof -
  let ?p = "\<lparr>pr_predictedRttMs = Fin 30, pr_predictedJitterMs = Fin 2, pr_predictedLossRate = Fin 0,
      pr_confidenceScore = Fin 1\<rparr>"
  have "\<not> critical ?p" by code_simp
  from bitrate_steps_bounded [OF this, of "\<lparr>ss_currentBitrateKbps = 5000, ss_currentWidth = 1920,
      ss_currentHeight = 1080, ss_currentFPS = 60, ss_packetLoss = Fin 0, ss_rttMs = Fin 30,
      ss_sceneComplexity = Fin (1 / 2)\<rparr>" "\<lparr>se_lastActionTime = 1000\<rparr>" 5000]
  show ?thesis by simp blast
qed

text \<open>The resolution step overwrites the bitrate step's action: a forecast of congestion on a
  20 Mbit/s stream at 1920x1080 is answered with an increase to 3840x2160.\<close>

lemma congestion_can_raise_resolution:
  "analyze \<lparr>se_lastActionTime = 1000\<rparr> 5000
     \<lparr>ss_currentBitrateKbps = 20000, ss_currentWidth = 1920, ss_currentHeight = 1080, ss_currentFPS = 60,
      ss_packetLoss = Fin 0, ss_rttMs = Fin 30, ss_sceneComplexity = Fin 0\<rparr>
     \<lparr>pr_predictedRttMs = Fin 100, pr_predictedJitterMs = Fin 2, pr_predictedLossRate = fc (5 / 100),
      pr_confidenceScore = Fin 1\<rparr>
   = Inr (\<lparr>se_lastActionTime = 5000\<rparr>, \<lparr>ad_action = IncreaseResolution, ad_targetBitrateKbps = 16000,
       ad_targetWidth = 3840, ad_targetHeight = 2160, ad_targetFPS = 60,
       ad_reason = ''Predicted latency spike or packet loss''\<rparr>)"
  by code_simp

end
