(* ===== verification/IntelligentRouter.thy ===== *)
theory IntelligentRouter
  imports Floats
begin

text \<open>
  \<open>AI::IntelligentRouter\<close> (\<open>cpp/ai/intelligent_router.cpp\<close>): the score of a route, the
  ranking of the candidates and the choice of the best one. \<open>std::sort\<close> is an insertion sort
  with the source's comparator; the order it leaves among equal scores is not used.
\<close>

section \<open>State and operations\<close>

record route_candidate =
  rc_id :: string
  rc_ip :: string
  rc_port :: u16
  rc_measuredLatencyMs :: flt
  rc_packetLoss :: flt
  rc_regionalLoad :: int
  rc_stabilityTrend :: flt

record route_score =
  rs_id :: string
  rs_score :: flt

definition no_route :: route_candidate where
  "no_route = \<lparr>rc_id = [], rc_ip = [], rc_port = 0, rc_measuredLatencyMs = Fin 0, rc_packetLoss = Fin 0,
     rc_regionalLoad = 0, rc_stabilityTrend = Fin 0\<rparr>"

definition LATENCY_WEIGHT :: flt where "LATENCY_WEIGHT = fc (5 / 10)"
definition LOSS_WEIGHT :: flt where "LOSS_WEIGHT = fc (3 / 10)"
definition STABILITY_WEIGHT :: flt where "STABILITY_WEIGHT = fc (1 / 10)"
definition TREND_WEIGHT :: flt where "TREND_WEIGHT = fc (1 / 10)"

definition lat_score :: "route_candidate \<Rightarrow> flt" where
  "lat_score c = fmax (Fin 0) (fsub f32 (Fin 1) (fdiv f32 (rc_measuredLatencyMs c) (Fin 250)))"

definition loss_score :: "route_candidate \<Rightarrow> flt" where
  "loss_score c = fmax (Fin 0) (fsub f32 (Fin 1) (fdiv f32 (rc_packetLoss c) (fc (15 / 100))))"

definition stability_score :: "route_candidate \<Rightarrow> flt" where
  "stability_score c = fsub f32 (Fin 1) (fdiv f32 (flt_of_int f32 (rc_regionalLoad c)) (Fin 100))"

definition trend_score :: "route_candidate \<Rightarrow> flt" where
  "trend_score c = fclamp (fadd f32 (fc (1 / 2)) (fmul f32 (rc_stabilityTrend c) (fc (1 / 2)))) (Fin 0) (Fin 1)"

definition calculate_score :: "route_candidate \<Rightarrow> flt" where
  "calculate_score c =
     fadd f32 (fadd f32 (fadd f32 (fmul f32 (lat_score c) LATENCY_WEIGHT) (fmul f32 (loss_score c) LOSS_WEIGHT))
       (fmul f32 (stability_score c) STABILITY_WEIGHT)) (fmul f32 (trend_score c) TREND_WEIGHT)"

fun insert_score :: "route_score \<Rightarrow> route_score list \<Rightarrow> route_score list" where
  "insert_score v [] = [v]"
| "insert_score v (x # xs) =
     (if flt_lt (rs_score x) (rs_score v) then v # x # xs else x # insert_score v xs)"

definition rank_routes :: "route_candidate list \<Rightarrow> route_score list" where
  "rank_routes cs = foldl (\<lambda>acc c. insert_score \<lparr>rs_id = rc_id c, rs_score = calculate_score c\<rparr> acc) [] cs"

definition select_best_route :: "route_candidate list \<Rightarrow> route_candidate" where
  "select_best_route cs =
     (if cs = [] then no_route
      else let bestId = rs_id (hd (rank_routes cs)) in
        case List.find (\<lambda>c. rc_id c = bestId) cs of Some c \<Rightarrow> c | None \<Rightarrow> hd cs)"

definition should_switch_route :: "route_candidate \<Rightarrow> route_candidate \<Rightarrow> flt \<Rightarrow> bool" where
  "should_switch_route current better threshold =
     flt_lt (fadd f32 (calculate_score current) threshold) (calculate_score better)"

section \<open>The score\<close>

definition measured :: "route_candidate \<Rightarrow> bool" where
  "measured c \<longleftrightarrow> rc_measuredLatencyMs c \<noteq> NaN \<and> rc_packetLoss c \<noteq> NaN \<and> rc_stabilityTrend c \<noteq> NaN
     \<and> - (2 ^ 31) \<le> rc_regionalLoad c \<and> rc_regionalLoad c \<le> 2 ^ 31"

text \<open>\<open>c\<close> is at least as good as \<open>d\<close> on every measure.\<close>

definition dominates :: "route_candidate \<Rightarrow> route_candidate \<Rightarrow> bool" where
  "dominates c d \<longleftrightarrow> fle (rc_measuredLatencyMs c) (rc_measuredLatencyMs d)
     \<and> fle (rc_packetLoss c) (rc_packetLoss d) \<and> rc_regionalLoad c \<le> rc_regionalLoad d
     \<and> fle (rc_stabilityTrend d) (rc_stabilityTrend c)"

lemma constants:
  "fc (1 / 2) = Fin (1 / 2)" "fc (15 / 100) = Fin (5033165 / 33554432)" "LATENCY_WEIGHT = Fin (1 / 2)"
  "LOSS_WEIGHT = Fin (10066330 / 33554432)" "STABILITY_WEIGHT = Fin (13421773 / 134217728)"
  "TREND_WEIGHT = Fin (13421773 / 134217728)"
  unfolding LATENCY_WEIGHT_def LOSS_WEIGHT_def STABILITY_WEIGHT_def TREND_WEIGHT_def by code_simp+

lemma fsub_one: "x \<noteq> NaN \<Longrightarrow> fsub f32 (Fin 1) x \<noteq> NaN"
  by (cases x) (simp_all add: fsub_def)

lemma fdiv_const_not_nan: "x \<noteq> NaN \<Longrightarrow> k \<noteq> 0 \<Longrightarrow> fdiv m x (Fin k) \<noteq> NaN"
  by (cases x) (auto simp: inf_of_sign_def sgn_if)

lemma one_minus_antimono:
  assumes "fle a b" "0 < k"
  shows "fle (fsub f32 (Fin 1) (fdiv f32 b (Fin k))) (fsub f32 (Fin 1) (fdiv f32 a (Fin k)))"
proof -
  have n: "a \<noteq> NaN" "b \<noteq> NaN" using assms(1) by (cases a; cases b; simp)+
  show ?thesis
    using n assms by (intro fsub_antimono fdiv_const_mono fsub_one fdiv_const_not_nan) simp_all
qed

lemma fmul_const_nonneg:
  assumes "fle (Fin 0) v" "0 < k"
  shows "fle (Fin 0) (fmul f32 v (Fin k))"
  using fmul_const_mono [OF _ assms(2,1), of f32] by simp

lemma fadd_nonneg_not_nan: "fle (Fin 0) v \<Longrightarrow> fle (Fin 0) w \<Longrightarrow> fadd f32 v w \<noteq> NaN"
  by (cases v; cases w) auto

lemma fadd_fin_not_nan: "v \<noteq> NaN \<Longrightarrow> w = Fin x \<Longrightarrow> fadd f32 v w \<noteq> NaN"
  by (cases v) auto

lemma stability_finite:
  assumes "measured c"
  obtains x where "fmul f32 (stability_score c) STABILITY_WEIGHT = Fin x"
proof -
  have big: "rnd f32 (2 ^ 31) = Fin (2 ^ 31)" "rnd f32 (- (2 ^ 31)) = Fin (- (2 ^ 31))"
    "rnd f32 (2 ^ 32) = Fin (2 ^ 32)" "rnd f32 (- (2 ^ 32)) = Fin (- (2 ^ 32))" by code_simp+
  let ?l = "rc_regionalLoad c"
  have "(of_int (- (2 ^ 31)) :: rat) \<le> of_int ?l" "(of_int ?l :: rat) \<le> of_int (2 ^ 31)"
    using assms unfolding measured_def by (simp_all only: of_int_le_iff)
  then have "fbetween (- (2 ^ 31)) (2 ^ 31) (flt_of_int f32 ?l)"
    unfolding flt_of_int_def using big by (intro rnd_fbetween) simp_all
  then obtain x where x: "flt_of_int f32 ?l = Fin x" "- (2 ^ 31) \<le> x" "x \<le> 2 ^ 31" by (auto elim!: fbetweenE)
  have "fbetween (- (2 ^ 31)) (2 ^ 31) (rnd f32 (x / 100))" using x big by (intro rnd_fbetween) simp_all
  then obtain y where y: "rnd f32 (x / 100) = Fin y" "- (2 ^ 31) \<le> y" "y \<le> 2 ^ 31" by (auto elim!: fbetweenE)
  have "fbetween (- (2 ^ 32)) (2 ^ 32) (rnd f32 (1 - y))" using y big by (intro rnd_fbetween) simp_all
  then obtain z where z: "rnd f32 (1 - y) = Fin z" "- (2 ^ 32) \<le> z" "z \<le> 2 ^ 32" by (auto elim!: fbetweenE)
  have "fbetween (- (2 ^ 32)) (2 ^ 32) (rnd f32 (z * (13421773 / 134217728)))"
    using z big by (intro rnd_fbetween) simp_all
  then show thesis using that x y z
    by (auto simp: stability_score_def fsub_def constants elim!: fbetweenE)
qed

lemma trend_raw:
  "measured c \<Longrightarrow> fadd f32 (Fin (1 / 2)) (fmul f32 (rc_stabilityTrend c) (Fin (1 / 2))) \<noteq> NaN"
  by (cases "rc_stabilityTrend c"; cases "fmul f32 (rc_stabilityTrend c) (Fin (1 / 2))")
    (auto simp: measured_def inf_of_sign_def)

lemma trend_range: "measured c \<Longrightarrow> fbetween 0 1 (trend_score c)"
proof -
  assume "measured c"
  then show ?thesis using trend_raw [of c] unfolding trend_score_def constants
    by (cases "fadd f32 (Fin (1 / 2)) (fmul f32 (rc_stabilityTrend c) (Fin (1 / 2)))") (auto simp: fclamp_def)
qed

lemma trend_finite:
  assumes "measured c"
  obtains x where "fmul f32 (trend_score c) TREND_WEIGHT = Fin x"
proof -
  have "rnd f32 1 = Fin 1" by code_simp
  moreover obtain y where "trend_score c = Fin y" "0 \<le> y" "y \<le> 1"
    using trend_range [OF assms] by (auto elim!: fbetweenE)
  ultimately have "fbetween 0 1 (fmul f32 (trend_score c) TREND_WEIGHT)"
    by (auto simp: constants intro!: rnd_fbetween)
  then show thesis using that by (auto elim!: fbetweenE)
qed

lemma quality_nonneg:
  "fle (Fin 0) (fmul f32 (lat_score c) LATENCY_WEIGHT)" "fle (Fin 0) (fmul f32 (loss_score c) LOSS_WEIGHT)"
  unfolding constants by (rule fmul_const_nonneg; simp add: lat_score_def loss_score_def fmax_ge)+

lemma score_not_nan: "measured c \<Longrightarrow> calculate_score c \<noteq> NaN"
proof -
  assume m: "measured c"
  obtain x y where "fmul f32 (stability_score c) STABILITY_WEIGHT = Fin x"
    "fmul f32 (trend_score c) TREND_WEIGHT = Fin y"
    using stability_finite [OF m] trend_finite [OF m] by metis
  then show ?thesis unfolding calculate_score_def
    by (intro fadd_fin_not_nan fadd_nonneg_not_nan quality_nonneg)
qed

text \<open>The score rewards quality: a route that is no slower, loses no more, is in a region no
  more loaded and has a trend no worse never scores below the other, whatever the rounding.\<close>
theorem better_route_scores_no_less:
  assumes "measured c" "measured d" "dominates c d"
  shows "fle (calculate_score d) (calculate_score c)"
proof -
  have dom: "fle (rc_measuredLatencyMs c) (rc_measuredLatencyMs d)" "fle (rc_packetLoss c) (rc_packetLoss d)"
    "rc_regionalLoad c \<le> rc_regionalLoad d" "fle (rc_stabilityTrend d) (rc_stabilityTrend c)"
    using assms(3) by (simp_all add: dominates_def)
  have lat: "fle (fmul f32 (lat_score d) LATENCY_WEIGHT) (fmul f32 (lat_score c) LATENCY_WEIGHT)"
    unfolding constants lat_score_def using dom
    by (intro fmul_const_mono fmax_mono one_minus_antimono) simp_all
  have loss: "fle (fmul f32 (loss_score d) LOSS_WEIGHT) (fmul f32 (loss_score c) LOSS_WEIGHT)"
    unfolding constants loss_score_def using dom
    by (intro fmul_const_mono fmax_mono one_minus_antimono) simp_all
  have "fle (flt_of_int f32 (rc_regionalLoad c)) (flt_of_int f32 (rc_regionalLoad d))"
    using dom(3) unfolding flt_of_int_def by (intro rnd_mono) simp_all
  then have stab: "fle (fmul f32 (stability_score d) STABILITY_WEIGHT) (fmul f32 (stability_score c) STABILITY_WEIGHT)"
    unfolding constants stability_score_def by (intro fmul_const_mono one_minus_antimono) simp_all
  have trend: "fle (fmul f32 (trend_score d) TREND_WEIGHT) (fmul f32 (trend_score c) TREND_WEIGHT)"
    unfolding constants trend_score_def using dom(4) trend_raw assms
    by (intro fmul_const_mono fclamp_mono fadd_mono) simp_all
  obtain sc sd tc td where fin: "fmul f32 (stability_score c) STABILITY_WEIGHT = Fin sc"
    "fmul f32 (stability_score d) STABILITY_WEIGHT = Fin sd" "fmul f32 (trend_score c) TREND_WEIGHT = Fin tc"
    "fmul f32 (trend_score d) TREND_WEIGHT = Fin td"
    using stability_finite [OF assms(1)] stability_finite [OF assms(2)] trend_finite [OF assms(1)]
      trend_finite [OF assms(2)] by metis
  show ?thesis unfolding calculate_score_def
    by (intro fadd_mono prec_formats lat loss stab trend fadd_nonneg_not_nan quality_nonneg
        fadd_fin_not_nan [OF _ fin(1)] fadd_fin_not_nan [OF _ fin(2)] fadd_fin_not_nan [OF _ fin(3)]
        fadd_fin_not_nan [OF _ fin(4)])
qed

section \<open>The ranking\<close>

lemma set_insert_score [simp]: "set (insert_score v xs) = insert v (set xs)"
  by (induction xs) auto

lemma insert_score_sorted:
  assumes "sorted_wrt (\<lambda>a b. fle (rs_score b) (rs_score a)) xs" "\<forall>x \<in> set xs. rs_score x \<noteq> NaN" "rs_score v \<noteq> NaN"
  shows "sorted_wrt (\<lambda>a b. fle (rs_score b) (rs_score a)) (insert_score v xs)"
  using assms
proof (induction xs)
  case (Cons x xs)
  show ?case
  proof (cases "flt_lt (rs_score x) (rs_score v)")
    case True
    then have "fle (rs_score y) (rs_score v)" if "y \<in> set (x # xs)" for y
      using that Cons.prems(1) fle_trans flt_lt_imp_le by auto
    then show ?thesis using True Cons.prems by simp
  next
    case False
    then have "fle (rs_score v) (rs_score x)" using Cons.prems by (simp add: fle_iff_not_lt)
    then show ?thesis using False Cons by auto
  qed
qed simp

lemma rank_routes_set:
  "set (rank_routes cs) = (\<lambda>c. \<lparr>rs_id = rc_id c, rs_score = calculate_score c\<rparr>) ` set cs"
  unfolding rank_routes_def by (induction cs rule: rev_induct) auto

lemma rank_routes_sorted:
  assumes "\<forall>c \<in> set cs. measured c"
  shows "sorted_wrt (\<lambda>a b. fle (rs_score b) (rs_score a)) (rank_routes cs)"
  using assms
proof (induction cs rule: rev_induct)
  case (snoc c cs)
  have "\<forall>x \<in> set (rank_routes cs). rs_score x \<noteq> NaN"
    unfolding rank_routes_set using snoc.prems score_not_nan by auto
  then show ?case using snoc score_not_nan by (simp add: rank_routes_def insert_score_sorted)
qed (simp add: rank_routes_def)

text \<open>With measured candidates of distinct ids, the chosen route is one of them and no
  candidate scores higher; so no candidate that dominates it has a different score, and the
  ranking lists the candidates by descending score.\<close>
theorem best_route_wins:
  assumes "cs \<noteq> []" "\<forall>c \<in> set cs. measured c" "distinct (map rc_id cs)"
  shows "select_best_route cs \<in> set cs
    \<and> list_all (\<lambda>c. fle (calculate_score c) (calculate_score (select_best_route cs))) cs
    \<and> sorted_wrt (\<lambda>a b. fle (rs_score b) (rs_score a)) (rank_routes cs)"
proof -
  let ?s = "\<lambda>c. \<lparr>rs_id = rc_id c, rs_score = calculate_score c\<rparr>"
  have srt: "sorted_wrt (\<lambda>a b. fle (rs_score b) (rs_score a)) (rank_routes cs)"
    by (rule rank_routes_sorted [OF assms(2)])
  obtain r rs where r: "rank_routes cs = r # rs"
    using rank_routes_set [of cs] assms(1) by (cases "rank_routes cs") auto
  have "r \<in> set (rank_routes cs)" by (simp add: r)
  then have "r \<in> ?s ` set cs" unfolding rank_routes_set .
  then obtain b where b: "b \<in> set cs" "r = ?s b" by auto
  have "List.find (\<lambda>c. rc_id c = rc_id b) cs = Some b"
  proof (cases "List.find (\<lambda>c. rc_id c = rc_id b) cs")
    case None then show ?thesis using b by (auto simp: find_None_iff)
  next
    case (Some x)
    then have "x \<in> set cs" "rc_id x = rc_id b" by (auto simp: find_Some_iff)
    then have "x = b" using assms(3) b(1) by (auto simp: distinct_map dest: inj_onD)
    with Some show ?thesis by simp
  qed
  then have sel: "select_best_route cs = b" using assms(1) by (simp add: select_best_route_def r b(2))
  have "fle (calculate_score c) (calculate_score b)" if "c \<in> set cs" for c
  proof -
    have "?s c = r \<or> ?s c \<in> set rs" using that rank_routes_set [of cs] by (auto simp: r)
    then show ?thesis using srt score_not_nan assms(2) that b(2) by (auto simp: r)
  qed
  then show ?thesis using sel b(1) srt by (simp add: list_all_iff)
qed

section \<open>Concrete candidates\<close>

definition region_1 :: route_candidate where
  "region_1 = \<lparr>rc_id = ''region-1'', rc_ip = ''1.1.1.1'', rc_port = 5005, rc_measuredLatencyMs = Fin 50,
     rc_packetLoss = Fin 0, rc_regionalLoad = 10, rc_stabilityTrend = Fin 0\<rparr>"

definition region_2 :: route_candidate where
  "region_2 = \<lparr>rc_id = ''region-2'', rc_ip = ''2.2.2.2'', rc_port = 5005, rc_measuredLatencyMs = Fin 20,
     rc_packetLoss = Fin 0, rc_regionalLoad = 5, rc_stabilityTrend = Fin (3 / 4)\<rparr>"

lemma regions_measured: "measured region_1" "measured region_2" "dominates region_2 region_1"
  by (simp_all add: measured_def dominates_def region_1_def region_2_def)

theorem better_route_scores_no_less_witness: "fle (calculate_score region_1) (calculate_score region_2)"
  by (rule better_route_scores_no_less [OF regions_measured(2,1,3)])

theorem best_route_wins_witness:
  "select_best_route [region_1, region_2] \<in> {region_1, region_2}
    \<and> fle (calculate_score region_2) (calculate_score (select_best_route [region_1, region_2]))"
proof -
  have "distinct (map rc_id [region_1, region_2])" by (simp add: region_1_def region_2_def)
  then show ?thesis using best_route_wins [of "[region_1, region_2]"] regions_measured by simp
qed

end
