(* ===== verification/CloudOptimizer.thy ===== *)
theory CloudOptimizer
  imports Floats
begin

text \<open>
  \<open>AI::CloudOptimizer\<close> (\<open>cpp/ai/cloud_optimizer.cpp\<close>): the scaling signal of a region, with
  the history of its last ten averages, and the packing of sessions onto nodes.
\<close>

section \<open>State and operations\<close>

record node_stats =
  ns_nodeId :: string
  ns_gpuUsage :: flt
  ns_vramUsage :: flt
  ns_activeSessions :: int
  ns_maxSessions :: int
  ns_regionId :: u32

record scaling_signal =
  sg_scaleUp :: bool
  sg_recommendedNodes :: int
  sg_reason :: string

type_synonym regional_history = "u32 \<Rightarrow> flt list"

definition SCALE_UP_THRESHOLD :: flt where "SCALE_UP_THRESHOLD = fc (75 / 100)"

definition average_gpu :: "node_stats list \<Rightarrow> flt" where
  "average_gpu nodes = fdiv f32 (foldl (\<lambda>t n. fadd f32 t (ns_gpuUsage n)) (Fin 0) nodes)
     (flt_of_int f32 (int (length nodes)))"

definition analyze_regional_load ::
  "regional_history \<Rightarrow> u32 \<Rightarrow> node_stats list \<Rightarrow> fault + (regional_history \<times> scaling_signal)" where
  "analyze_regional_load h region nodes =
     (if nodes = [] then Inr (h, \<lparr>sg_scaleUp = True, sg_recommendedNodes = 1,
        sg_reason = ''No nodes active in region''\<rparr>)
      else let avg = average_gpu nodes; xs = h region @ [avg];
               h' = h(region := (if 10 < length xs then tl xs else xs))
        in if flt_lt SCALE_UP_THRESHOLD avg then
             fbind (to_int32 (fmul f32 (flt_of_int f32 (int (length nodes))) (fc (2 / 10)))) (\<lambda>g.
             fbind (to_int32 (fmul f32 avg (Fin 100))) (\<lambda>pct.
               Inr (h', \<lparr>sg_scaleUp = True, sg_recommendedNodes = g + 1,
                 sg_reason = ''Average GPU load ('' @ dec_int pct @ ''%) exceeds threshold''\<rparr>)))
           else Inr (h', \<lparr>sg_scaleUp = False, sg_recommendedNodes = 0, sg_reason = ''Load stable''\<rparr>))"

definition node_fits :: "int \<Rightarrow> node_stats \<Rightarrow> bool" where
  "node_fits required n \<longleftrightarrow>
     fle (flt_of_int f32 required) (fmul f32 (fsub f32 (Fin 1) (ns_vramUsage n)) (Fin 8192))
     \<and> ns_activeSessions n < ns_maxSessions n"

definition pack_step :: "int \<Rightarrow> string \<times> flt \<Rightarrow> node_stats \<Rightarrow> string \<times> flt" where
  "pack_step required = (\<lambda>(best, highest) n.
     if node_fits required n \<and> flt_lt highest (ns_gpuUsage n) then (ns_nodeId n, ns_gpuUsage n)
     else (best, highest))"

definition fallback_step :: "string \<times> flt \<Rightarrow> node_stats \<Rightarrow> string \<times> flt" where
  "fallback_step = (\<lambda>(best, lowest) n.
     if flt_lt (ns_gpuUsage n) lowest then (ns_nodeId n, ns_gpuUsage n) else (best, lowest))"

definition select_optimal_node :: "node_stats list \<Rightarrow> int \<Rightarrow> string" where
  "select_optimal_node nodes required =
     (let (best, _) = foldl (pack_step required) ([], Fin (- 1)) nodes in
      if best = [] then fst (foldl fallback_step ([], Fin 2) nodes) else best)"

definition packing_efficiency :: "node_stats list \<Rightarrow> flt" where
  "packing_efficiency nodes =
     (if nodes = [] then Fin 1
      else fdiv f32 (foldl (\<lambda>t n. fadd f32 t (flt_of_int f32 (ns_activeSessions n))) (Fin 0) nodes)
                    (foldl (\<lambda>t n. fadd f32 t (flt_of_int f32 (ns_maxSessions n))) (Fin 0) nodes))"

section \<open>Packing\<close>

text \<open>A loop that keeps the id and key of the first element that beats the key seen so far finds
  an extremal element; the two loops of the function are instances.\<close>

lemma champion:
  assumes tr: "\<And>a b c. lt a b \<Longrightarrow> lt b c \<Longrightarrow> lt a c"
    and step: "\<And>best key n. st (best, key) n = (if ok n \<and> lt key (ns_gpuUsage n)
      then (ns_nodeId n, ns_gpuUsage n) else (best, key))"
    and irr: "\<And>a. \<not> lt a a" and start: "\<forall>n \<in> set nodes. ok n \<longrightarrow> lt k0 (ns_gpuUsage n)"
  shows "if \<exists>n \<in> set nodes. ok n
    then \<exists>n \<in> set nodes. ok n \<and> foldl st ([], k0) nodes = (ns_nodeId n, ns_gpuUsage n)
      \<and> (\<forall>m \<in> set nodes. ok m \<longrightarrow> \<not> lt (ns_gpuUsage n) (ns_gpuUsage m))
    else foldl st ([], k0) nodes = ([], k0)"
  using start
proof (induction nodes rule: rev_induct)
  case (snoc x nodes)
  show ?case
  proof (cases "\<exists>n \<in> set nodes. ok n")
    case True
    with snoc obtain n where n: "n \<in> set nodes" "ok n" "foldl st ([], k0) nodes = (ns_nodeId n, ns_gpuUsage n)"
      "\<forall>m \<in> set nodes. ok m \<longrightarrow> \<not> lt (ns_gpuUsage n) (ns_gpuUsage m)" by auto
    show ?thesis
    proof (cases "ok x \<and> lt (ns_gpuUsage n) (ns_gpuUsage x)")
      case True
      then have "\<not> lt (ns_gpuUsage x) (ns_gpuUsage m)" if "m \<in> set nodes" "ok m" for m
        using n(4) tr irr that by metis
      then show ?thesis using True n irr by (auto simp: step intro!: bexI [of _ x])
    next
      case False
      then show ?thesis using n by (auto simp: step intro!: bexI [of _ n])
    qed
  next
    case False
    then have e: "foldl st ([], k0) nodes = ([], k0)" using snoc by auto
    show ?thesis
    proof (cases "ok x")
      case True
      then show ?thesis using False e snoc.prems irr by (auto simp: step intro!: bexI [of _ x])
    next
      case False2: False
      then show ?thesis using False e by (auto simp: step)
    qed
  qed
qed simp

definition load_known :: "node_stats \<Rightarrow> bool" where
  "load_known n \<longleftrightarrow> fbetween 0 1 (ns_gpuUsage n) \<and> ns_nodeId n \<noteq> []"

text \<open>A session is packed onto the busiest node that still has the memory and a free slot;
  when no node has, onto the least loaded one; with no node at all the empty id comes back.\<close>
theorem packs_busiest_fitting_node:
  assumes "list_all load_known nodes"
  shows "if \<exists>n \<in> set nodes. node_fits required n
    then \<exists>n \<in> set nodes. node_fits required n \<and> select_optimal_node nodes required = ns_nodeId n
      \<and> (\<forall>m \<in> set nodes. node_fits required m \<longrightarrow> fle (ns_gpuUsage m) (ns_gpuUsage n))
    else if nodes = [] then select_optimal_node nodes required = []
    else \<exists>n \<in> set nodes. select_optimal_node nodes required = ns_nodeId n
      \<and> (\<forall>m \<in> set nodes. fle (ns_gpuUsage n) (ns_gpuUsage m))"
proof -
  have known: "\<exists>x. ns_gpuUsage n = Fin x \<and> 0 \<le> x \<and> x \<le> 1" "ns_nodeId n \<noteq> []" if "n \<in> set nodes" for n
    using assms that by (auto simp: list_all_iff load_known_def elim!: fbetweenE)
  have pack: "pack_step required (best, key) n = (if node_fits required n \<and> flt_lt key (ns_gpuUsage n)
    then (ns_nodeId n, ns_gpuUsage n) else (best, key))" for best key n
    by (simp add: pack_step_def)
  have fall: "fallback_step (best, key) n = (if True \<and> flt_lt (ns_gpuUsage n) key
    then (ns_nodeId n, ns_gpuUsage n) else (best, key))" for best key n
    by (simp add: fallback_step_def)
  have low: "flt_lt (Fin (- 1)) (ns_gpuUsage n)" "flt_lt (ns_gpuUsage n) (Fin 2)" "ns_gpuUsage n \<noteq> NaN"
    if "n \<in> set nodes" for n
    using known [OF that] by auto
  have A: "if \<exists>n \<in> set nodes. node_fits required n
    then \<exists>n \<in> set nodes. node_fits required n
      \<and> foldl (pack_step required) ([], Fin (- 1)) nodes = (ns_nodeId n, ns_gpuUsage n)
      \<and> (\<forall>m \<in> set nodes. node_fits required m \<longrightarrow> \<not> flt_lt (ns_gpuUsage n) (ns_gpuUsage m))
    else foldl (pack_step required) ([], Fin (- 1)) nodes = ([], Fin (- 1))"
    using low(1) by (intro champion) (auto simp: pack intro: flt_lt_trans)
  have B: "if \<exists>n \<in> set nodes. True
    then \<exists>n \<in> set nodes. True \<and> foldl fallback_step ([], Fin 2) nodes = (ns_nodeId n, ns_gpuUsage n)
      \<and> (\<forall>m \<in> set nodes. True \<longrightarrow> \<not> flt_lt (ns_gpuUsage m) (ns_gpuUsage n))
    else foldl fallback_step ([], Fin 2) nodes = ([], Fin 2)"
    using low(2) by (intro champion [where lt = "\<lambda>a b. flt_lt b a" and ok = "\<lambda>_. True"])
      (auto simp: fall intro: flt_lt_trans)
  show ?thesis
  proof (cases "\<exists>n \<in> set nodes. node_fits required n")
    case True
    then obtain n where n: "n \<in> set nodes" "node_fits required n"
      "foldl (pack_step required) ([], Fin (- 1)) nodes = (ns_nodeId n, ns_gpuUsage n)"
      "\<forall>m \<in> set nodes. node_fits required m \<longrightarrow> \<not> flt_lt (ns_gpuUsage n) (ns_gpuUsage m)"
      using A by auto
    then show ?thesis using True known(2) [OF n(1)] low(3)
      by (auto simp: select_optimal_node_def fle_iff_not_lt intro!: bexI [of _ n])
  next
    case False
    then have none: "foldl (pack_step required) ([], Fin (- 1)) nodes = ([], Fin (- 1))" using A by auto
    show ?thesis
    proof (cases "nodes = []")
      case True
      then show ?thesis by (simp add: select_optimal_node_def)
    next
      case nonempty: False
      then obtain n where n: "n \<in> set nodes"
        "foldl fallback_step ([], Fin 2) nodes = (ns_nodeId n, ns_gpuUsage n)"
        "\<forall>m \<in> set nodes. \<not> flt_lt (ns_gpuUsage m) (ns_gpuUsage n)"
        using B by (auto simp: ex_in_conv)
      then show ?thesis using False nonempty none low(3)
        by (auto simp: select_optimal_node_def fle_iff_not_lt intro!: bexI [of _ n])
    qed
  qed
qed

definition three_nodes :: "node_stats list" where
  "three_nodes =
     [\<lparr>ns_nodeId = ''node-1'', ns_gpuUsage = Fin (15 / 16), ns_vramUsage = Fin (1 / 2), ns_activeSessions = 10,
       ns_maxSessions = 10, ns_regionId = 1\<rparr>,
      \<lparr>ns_nodeId = ''node-2'', ns_gpuUsage = Fin (7 / 8), ns_vramUsage = Fin (1 / 4), ns_activeSessions = 4,
       ns_maxSessions = 10, ns_regionId = 1\<rparr>,
      \<lparr>ns_nodeId = ''node-3'', ns_gpuUsage = Fin (3 / 4), ns_vramUsage = Fin (1 / 2), ns_activeSessions = 8,
       ns_maxSessions = 10, ns_regionId = 1\<rparr>]"

text \<open>The full node-1 is passed over for node-2, the busiest one with a free slot.\<close>
theorem packs_busiest_fitting_node_witness: "select_optimal_node three_nodes 500 = ''node-2''"
proof -
  have k: "list_all load_known three_nodes" by (simp add: three_nodes_def load_known_def)
  have fits: "map (node_fits 500) three_nodes = [False, True, True]" by code_simp
  from packs_busiest_fitting_node [OF k, of 500] fits show ?thesis
    by (auto simp: three_nodes_def)
qed

end
