(* ===== verification/InputPredictor.thy ===== *)
theory InputPredictor
  imports Floats
begin

text \<open>
  \<open>AI::InputPredictor\<close> (\<open>cpp/ai/input_predictor.cpp\<close>): linear extrapolation of the pointer in
  double precision from the last two samples, and the single-precision low-pass filter. Signed
  32-bit overflow and conversions out of range are faults.
\<close>

section \<open>State and operations\<close>

record input_sample =
  is_x :: int
  is_y :: int
  is_timestamp :: u64

record input_predictor =
  ip_historySize :: nat
  ip_history :: "input_sample list"
  ip_lastSmoothX :: flt
  ip_lastSmoothY :: flt

definition ip_new :: "nat \<Rightarrow> input_predictor" where
  "ip_new n = \<lparr>ip_historySize = n, ip_history = [], ip_lastSmoothX = Fin 0, ip_lastSmoothY = Fin 0\<rparr>"

definition SMOOTHING_FACTOR :: flt where "SMOOTHING_FACTOR = fc (7 / 10)"

definition record_input :: "input_predictor \<Rightarrow> int \<Rightarrow> int \<Rightarrow> u64 \<Rightarrow> input_predictor" where
  "record_input p x y t =
     (let h = ip_history p @ [\<lparr>is_x = x, is_y = y, is_timestamp = t\<rparr>];
          p = p\<lparr>ip_history := (if ip_historySize p < length h then tl h else h)\<rparr>
      in if ip_lastSmoothX p = Fin 0 \<and> ip_lastSmoothY p = Fin 0
         then p\<lparr>ip_lastSmoothX := flt_of_int f32 x, ip_lastSmoothY := flt_of_int f32 y\<rparr> else p)"

text \<open>\<open>int32_t\<close> addition and subtraction.\<close>

definition int32 :: "int \<Rightarrow> fault + int" where
  "int32 k = (if - (2 ^ 31) \<le> k \<and> k < 2 ^ 31 then Inr k else Inl SignedOverflow)"

definition extrapolate_axis :: "int \<Rightarrow> int \<Rightarrow> flt \<Rightarrow> flt \<Rightarrow> fault + int" where
  "extrapolate_axis a b vdt dt =
     fbind (int32 (b - a)) (\<lambda>d.
     fbind (to_int32 (fmul f64 (fdiv f64 (flt_of_int f64 d) vdt) dt)) (\<lambda>k. int32 (b + k)))"

definition ip_predict :: "input_predictor \<Rightarrow> u64 \<Rightarrow> fault + input_sample" where
  "ip_predict p target =
     (let h = ip_history p; n = length h in
      if n < 2 then
        (if h = [] then Inr \<lparr>is_x = 0, is_y = 0, is_timestamp = target\<rparr>
         else Inr \<lparr>is_x = is_x (last h), is_y = is_y (last h), is_timestamp = target\<rparr>)
      else let s1 = h ! (n - 2); s2 = last h in
        if is_timestamp s1 = is_timestamp s2 then
          Inr \<lparr>is_x = is_x s2, is_y = is_y s2, is_timestamp = target\<rparr>
        else let dt = flt_of_int f64 (uint (target - is_timestamp s2));
                 vdt = flt_of_int f64 (uint (is_timestamp s2 - is_timestamp s1))
          in fbind (extrapolate_axis (is_x s1) (is_x s2) vdt dt) (\<lambda>x.
             fbind (extrapolate_axis (is_y s1) (is_y s2) vdt dt) (\<lambda>y.
               Inr \<lparr>is_x = x, is_y = y, is_timestamp = target\<rparr>)))"

definition smooth_axis :: "flt \<Rightarrow> int \<Rightarrow> flt" where
  "smooth_axis old raw = fadd f32 (fmul f32 old SMOOTHING_FACTOR)
     (fmul f32 (flt_of_int f32 raw) (fsub f32 (Fin 1) SMOOTHING_FACTOR))"

definition smooth :: "input_predictor \<Rightarrow> input_sample \<Rightarrow> fault + (input_predictor \<times> input_sample)" where
  "smooth p raw =
     (if ip_lastSmoothX p = Fin 0 \<and> ip_lastSmoothY p = Fin 0 then
        Inr (p\<lparr>ip_lastSmoothX := flt_of_int f32 (is_x raw), ip_lastSmoothY := flt_of_int f32 (is_y raw)\<rparr>, raw)
      else let sx = smooth_axis (ip_lastSmoothX p) (is_x raw); sy = smooth_axis (ip_lastSmoothY p) (is_y raw)
        in fbind (to_int32 sx) (\<lambda>x. fbind (to_int32 sy) (\<lambda>y.
          Inr (p\<lparr>ip_lastSmoothX := sx, ip_lastSmoothY := sy\<rparr>, raw\<lparr>is_x := x, is_y := y\<rparr>))))"

section \<open>Bounded history and defined results\<close>

lemma record_input_bounded:
  "length (ip_history p) \<le> ip_historySize p
    \<Longrightarrow> length (ip_history (record_input p x y t)) \<le> ip_historySize (record_input p x y t)"
  by (auto simp: record_input_def Let_def)

text \<open>At the time of the last sample the prediction is that sample.\<close>


text \<open>Asking for a time before the last sample wraps the unsigned difference to almost
  \<open>2 ^ 64\<close> milliseconds, and the conversion of the extrapolated offset is undefined.\<close>

lemma huge_to_int32: "fle (Fin (2 ^ 53)) v \<Longrightarrow> to_int32 v = Inl BadConversion"
proof (cases v)
  case (Fin x)
  assume "fle (Fin (2 ^ 53)) v"
  then have "(of_int (2 ^ 53) :: rat) \<le> x" using Fin by simp
  then have "2 ^ 53 \<le> \<lfloor>x\<rfloor>" by (simp only: le_floor_iff)
  moreover have "0 \<le> x" using \<open>(of_int (2 ^ 53) :: rat) \<le> x\<close> by simp
  ultimately show ?thesis using Fin by (simp add: to_int32_def rat_trunc_def Let_def)
qed (simp_all add: to_int32_def)

lemma predict_past_undefined:
  "ip_predict \<lparr>ip_historySize = 10, ip_history =
      [\<lparr>is_x = 100, is_y = 100, is_timestamp = 1000\<rparr>, \<lparr>is_x = 110, is_y = 110, is_timestamp = 1010\<rparr>],
      ip_lastSmoothX = Fin 100, ip_lastSmoothY = Fin 100\<rparr> 1009 = Inl BadConversion"
proof -
  have exact: "rnd f64 (of_int k) = Fin (of_int k)" if "\<bar>k\<bar> \<le> 2 ^ 53" for k
    using that by (intro rnd_int) (simp_all add: f64_def)
  have ten: "rnd f64 10 = Fin 10" "rnd f64 1 = Fin 1" "rnd f64 (2 ^ 53) = Fin (2 ^ 53)"
    using exact [of 10] exact [of 1] exact [of "2 ^ 53"] by simp_all
  let ?dt = "rnd f64 18446744073709551615"
  have dt: "fle (Fin (2 ^ 53)) ?dt" unfolding ten(3) [symmetric] by (rule rnd_mono) simp_all
  have "fle (Fin (2 ^ 53)) (fmul f64 (Fin 1) ?dt)"
  proof (cases ?dt)
    case (Fin y)
    then have "fle (rnd f64 (2 ^ 53)) (rnd f64 y)" using dt by (intro rnd_mono) simp_all
    then show ?thesis using Fin ten by simp
  qed (use dt in \<open>auto simp: inf_of_sign_def\<close>)
  then have "to_int32 (fmul f64 (Fin 1) ?dt) = Inl BadConversion" by (rule huge_to_int32)
  moreover have "uint (- 1 :: u64) = 18446744073709551615" by code_simp
  then have "(of_int (uint (- 1 :: u64)) :: rat) = of_int 18446744073709551615" by (simp only:)
  then have "unsigned (- 1 :: u64) = (18446744073709551615 :: rat)" by simp
  ultimately show ?thesis
    by (simp add: ip_predict_def extrapolate_axis_def int32_def flt_of_int_def ten Let_def)
qed

end
