(* ===== verification/JitterBuffer.thy ===== *)
theory JitterBuffer
  imports Pools Clock Floats
begin

text \<open>
  \<open>Client::JitterBuffer\<close> (\<open>cpp/client/jitter_buffer.cpp\<close>): 32 slots of complete frames between
  reassembly and the decoder, with the adaptive delay, the overflow loop and the reset. A
  \<open>FramePtr\<close> is the address of its frame with the two fields the buffer reads; destroying one
  gives the frame back to the receiver's pool, so each operation lists the addresses it
  released. Clock readings (nanoseconds of the steady clock) are arguments.
\<close>

section \<open>State and operations\<close>

record jframe =
  jf_addr :: nat
  jf_frameId :: u32
  jf_captureTimestamp :: u64

record entry_info =
  ei_frameId :: u32
  ei_pushTime :: int
  ei_occupied :: bool

record jitter_buffer =
  jb_ring :: "jframe option ring_buffer"
  jb_info :: "entry_info ring_buffer"
  jb_nextPopFrameId :: u32
  jb_initialized :: bool
  jb_count :: nat
  jb_maxFrames :: nat
  jb_avgJitterMs :: flt
  jb_lastPushTime :: int
  jb_hasLastPushTime :: bool

definition jb_new :: "nat \<Rightarrow> jitter_buffer" where
  "jb_new maxFrames = \<lparr>jb_ring = frb_new 32 None,
     jb_info = frb_new 32 \<lparr>ei_frameId = 0, ei_pushTime = 0, ei_occupied = False\<rparr>,
     jb_nextPopFrameId = 0, jb_initialized = False, jb_count = 0, jb_maxFrames = maxFrames,
     jb_avgJitterMs = Fin 5, jb_lastPushTime = 0, jb_hasLastPushTime = False\<rparr>"

definition released :: "jframe option \<Rightarrow> nat list" where
  "released p = (case p of None \<Rightarrow> [] | Some f \<Rightarrow> [jf_addr f])"

text \<open>\<open>duration_cast<microseconds>(d).count() / 1000.0\<close>.\<close>

definition millis :: "int \<Rightarrow> flt" where
  "millis d = fdiv f64 (flt_of_int f64 (tdiv d 1000)) (Fin 1000)"

definition update_jitter :: "int \<Rightarrow> jitter_buffer \<Rightarrow> jitter_buffer" where
  "update_jitter now jb =
     (let jb = (if jb_hasLastPushTime jb then
          jb\<lparr>jb_avgJitterMs :=
            fadd f64 (fmul f64 (jb_avgJitterMs jb) (rnd f64 (9 / 10)))
              (fmul f64 (flt_abs (fsub f64 (millis (now - jb_lastPushTime jb)) (rnd f64 (1667 / 100))))
                (rnd f64 (1 / 10)))\<rparr> else jb)
      in jb\<lparr>jb_lastPushTime := now, jb_hasLastPushTime := True\<rparr>)"

definition oldest_entry :: "jitter_buffer \<Rightarrow> u32 \<times> bool" where
  "oldest_entry jb = foldl (\<lambda>(oldestId, found) i.
       let inf = frb_get (jb_info jb) (jb_nextPopFrameId jb + of_nat i) in
       if ei_occupied inf \<and> ei_frameId inf < oldestId then (ei_frameId inf, True)
       else (oldestId, found)) (0xffffffff, False) [0..<32]"

definition vacate :: "u32 \<Rightarrow> jitter_buffer \<Rightarrow> jitter_buffer" where
  "vacate i jb = jb\<lparr>jb_ring := frb_insert i None (jb_ring jb),
     jb_info := frb_insert i ((frb_get (jb_info jb) i)\<lparr>ei_occupied := False\<rparr>) (jb_info jb)\<rparr>"

definition drop_oldest :: "u32 \<Rightarrow> jitter_buffer \<Rightarrow> jitter_buffer" where
  "drop_oldest i jb =
     (let jb = (vacate i jb)\<lparr>jb_count := jb_count jb - 1\<rparr> in
      if i = jb_nextPopFrameId jb then jb\<lparr>jb_nextPopFrameId := jb_nextPopFrameId jb + 1\<rparr> else jb)"

text \<open>The overflow loop: it stops below the safety margin of 4, or when no occupied entry is
  found; every round takes one from \<open>m_count\<close>.\<close>

function overflow_loop :: "jitter_buffer \<Rightarrow> nat list \<Rightarrow> jitter_buffer \<times> nat list" where
  "overflow_loop jb out =
     (if length (jb_ring jb) - 4 < jb_count jb then
        (let (oldestId, found) = oldest_entry jb in
         if found then overflow_loop (drop_oldest oldestId jb) (out @ released (frb_get (jb_ring jb) oldestId))
         else (jb, out))
      else (jb, out))"
  by pat_completeness auto

termination
  by (relation "measure (\<lambda>(jb, _). jb_count jb)") (auto simp: drop_oldest_def vacate_def Let_def)

declare overflow_loop.simps [simp del]

definition store_frame :: "int \<Rightarrow> jframe \<Rightarrow> jitter_buffer \<Rightarrow> jitter_buffer" where
  "store_frame pushTime f jb =
     jb\<lparr>jb_ring := frb_insert (jf_frameId f) (Some f) (jb_ring jb),
        jb_info := frb_insert (jf_frameId f)
          \<lparr>ei_frameId = jf_frameId f, ei_pushTime = pushTime, ei_occupied = True\<rparr> (jb_info jb),
        jb_count := jb_count jb + 1\<rparr>"

definition push_frame :: "int \<Rightarrow> int \<Rightarrow> jframe option \<Rightarrow> jitter_buffer \<Rightarrow> jitter_buffer \<times> nat list" where
  "push_frame now pushTime frame jb = (case frame of None \<Rightarrow> (jb, []) | Some f \<Rightarrow>
     (let jb = (if jb_initialized jb then jb
                else jb\<lparr>jb_nextPopFrameId := jf_frameId f, jb_initialized := True\<rparr>) in
      if jf_frameId f < jb_nextPopFrameId jb then (jb, [jf_addr f])
      else let jb = update_jitter now jb; existing = frb_get (jb_ring jb) (jf_frameId f) in
        if (case existing of None \<Rightarrow> False | Some e \<Rightarrow> jf_frameId e = jf_frameId f) then (jb, [jf_addr f])
        else overflow_loop (store_frame pushTime f jb) (released existing)))"

definition take_next :: "jitter_buffer \<Rightarrow> jframe option \<times> jitter_buffer" where
  "take_next jb =
     (let fid = jb_nextPopFrameId jb in
      (frb_get (jb_ring jb) fid,
       (vacate fid jb)\<lparr>jb_count := jb_count jb - 1, jb_nextPopFrameId := fid + 1\<rparr>))"

definition pop_frame :: "int \<Rightarrow> u64 \<Rightarrow> jitter_buffer \<Rightarrow> fault + (jframe option \<times> jitter_buffer)" where
  "pop_frame now currentSyncTimeUs jb =
     (let fid = jb_nextPopFrameId jb; info = frb_get (jb_info jb) fid in
      if ei_occupied info \<and> ei_frameId info = fid then
        if 0 < currentSyncTimeUs then
          (case frb_get (jb_ring jb) fid of None \<Rightarrow> Inl NullDeref
           | Some f \<Rightarrow> if currentSyncTimeUs + 5000 < jf_captureTimestamp f then Inr (None, jb)
                       else Inr (take_next jb))
        else let targetDelayMs = fclamp (fmul f64 (jb_avgJitterMs jb) (rnd f64 (11 / 10))) (Fin 1) (Fin 20);
                 elapsed = millis (now - ei_pushTime info)
          in if flt_lt elapsed targetDelayMs \<and> jb_count jb < jb_maxFrames jb then Inr (None, jb)
             else Inr (take_next jb)
      else Inr (None, jb))"

definition jb_reset :: "u32 \<Rightarrow> jitter_buffer \<Rightarrow> jitter_buffer \<times> nat list" where
  "jb_reset nextExpectedId jb =
     (let (jb, out) = foldl (\<lambda>(b, out) i. let fid = jb_nextPopFrameId b + of_nat i in
            (vacate fid b, out @ released (frb_get (jb_ring b) fid))) (jb, []) [0..<32]
      in (jb\<lparr>jb_nextPopFrameId := nextExpectedId, jb_count := 0, jb_initialized := True\<rparr>, out))"

section \<open>Slots and their owners\<close>

definition slot_ok :: "nat \<Rightarrow> jframe option \<Rightarrow> entry_info \<Rightarrow> bool" where
  "slot_ok k p e \<longleftrightarrow> (if ei_occupied e
     then \<exists>f. p = Some f \<and> jf_frameId f = ei_frameId e \<and> unat (ei_frameId e) mod 32 = k else p = None)"

definition occupied_slots :: "jitter_buffer \<Rightarrow> nat set" where
  "occupied_slots jb = {k. k < 32 \<and> ei_occupied (jb_info jb ! k)}"

definition jb_wf :: "jitter_buffer \<Rightarrow> bool" where
  "jb_wf jb \<longleftrightarrow> length (jb_ring jb) = 32 \<and> length (jb_info jb) = 32
     \<and> (\<forall>k < 32. slot_ok k (jb_ring jb ! k) (jb_info jb ! k)) \<and> card (occupied_slots jb) \<le> jb_count jb"

definition held :: "jitter_buffer \<Rightarrow> nat multiset" where
  "held jb = sum_list (map (\<lambda>p. mset (released p)) (jb_ring jb))"

lemma jb_fields [simp]:
  "jb_wf (jb\<lparr>jb_nextPopFrameId := x\<rparr>) = jb_wf jb" "held (jb\<lparr>jb_nextPopFrameId := x\<rparr>) = held jb"
  "held (jb\<lparr>jb_count := c\<rparr>) = held jb" "held (jb\<lparr>jb_initialized := i\<rparr>) = held jb"
  "jb_wf (jb\<lparr>jb_initialized := i\<rparr>) = jb_wf jb"
  by (simp_all add: jb_wf_def held_def occupied_slots_def)

lemma vacate_next [simp]: "jb_nextPopFrameId (vacate i jb) = jb_nextPopFrameId jb"
  by (simp add: vacate_def)

lemma finite_occupied [simp]: "finite (occupied_slots jb)"
  by (simp add: occupied_slots_def)

lemma jb_new_wf: "jb_wf (jb_new n)" "held (jb_new n) = {#}"
proof -
  have "sum_list (replicate m {#}) = ({#} :: nat multiset)" for m by (induction m) simp_all
  then show "held (jb_new n) = {#}" by (simp add: jb_new_def frb_new_def held_def released_def)
qed (simp add: jb_wf_def jb_new_def frb_new_def slot_ok_def occupied_slots_def)

lemma sum_list_mset_update:
  fixes g :: "'a \<Rightarrow> 'b multiset"
  shows "k < length xs \<Longrightarrow>
    sum_list (map g (xs[k := x])) + g (xs ! k) = sum_list (map g xs) + g x"
proof (induction xs arbitrary: k)
  case (Cons a xs)
  show ?case
  proof (cases k)
    case 0
    then show ?thesis by (simp add: ac_simps)
  next
    case (Suc n)
    then show ?thesis using Cons by (simp add: add.assoc)
  qed
qed simp

lemma vacate_wf:
  assumes "jb_wf jb"
  shows "jb_wf (vacate i jb)" and "occupied_slots (vacate i jb) = occupied_slots jb - {unat i mod 32}"
    and "held (vacate i jb) + mset (released (frb_get (jb_ring jb) i)) = held jb"
proof -
  have len: "length (jb_ring jb) = 32" "length (jb_info jb) = 32" using assms by (simp_all add: jb_wf_def)
  show occ: "occupied_slots (vacate i jb) = occupied_slots jb - {unat i mod 32}"
    by (auto simp: occupied_slots_def vacate_def frb_insert_def frb_get_def len nth_list_update)
  have "card (occupied_slots (vacate i jb)) \<le> card (occupied_slots jb)"
    unfolding occ by (rule card_mono) auto
  then show "jb_wf (vacate i jb)"
    using assms by (auto simp: jb_wf_def vacate_def slot_ok_def frb_insert_def nth_list_update)
  show "held (vacate i jb) + mset (released (frb_get (jb_ring jb) i)) = held jb"
    using sum_list_mset_update [of "unat i mod 32" "jb_ring jb" "\<lambda>p. mset (released p)" None] len
    by (simp add: held_def vacate_def frb_insert_def frb_get_def released_def)
qed

lemma occupied_frame:
  assumes "jb_wf jb" "ei_occupied (frb_get (jb_info jb) i)"
  obtains f where "frb_get (jb_ring jb) i = Some f" "jf_frameId f = ei_frameId (frb_get (jb_info jb) i)"
    "unat (ei_frameId (frb_get (jb_info jb) i)) mod 32 = unat i mod 32"
proof -
  have "slot_ok (unat i mod 32) (frb_get (jb_ring jb) i) (frb_get (jb_info jb) i)"
    using assms(1) by (simp add: jb_wf_def frb_get_def)
  then show thesis using that assms(2) by (auto simp: slot_ok_def)
qed

lemma oldest_entry_found:
  assumes "oldest_entry jb = (old, True)"
  obtains i where "ei_occupied (frb_get (jb_info jb) i)" "ei_frameId (frb_get (jb_info jb) i) = old"
proof -
  have "snd (foldl (\<lambda>(oldestId, found) i.
      let inf = frb_get (jb_info jb) (jb_nextPopFrameId jb + of_nat i) in
      if ei_occupied inf \<and> ei_frameId inf < oldestId then (ei_frameId inf, True)
      else (oldestId, found)) (0xffffffff, False) is) \<longrightarrow>
    (\<exists>i. ei_occupied (frb_get (jb_info jb) i) \<and> ei_frameId (frb_get (jb_info jb) i)
      = fst (foldl (\<lambda>(oldestId, found) i.
      let inf = frb_get (jb_info jb) (jb_nextPopFrameId jb + of_nat i) in
      if ei_occupied inf \<and> ei_frameId inf < oldestId then (ei_frameId inf, True)
      else (oldestId, found)) (0xffffffff, False) is))" for "is"
    by (induction "is" rule: rev_induct) (auto simp: Let_def split: prod.splits if_splits)
  from this [of "[0..<32]"] show thesis using assms that by (auto simp: oldest_entry_def)
qed

text \<open>Giving up the slot of an occupied entry takes one from both sides of the count.\<close>

lemma release_slot_wf:
  assumes "jb_wf jb" "unat i mod 32 \<in> occupied_slots jb"
  shows "jb_wf ((vacate i jb)\<lparr>jb_count := jb_count jb - 1\<rparr>)"
proof -
  have "card (occupied_slots jb - {unat i mod 32}) = card (occupied_slots jb) - 1"
    using assms(2) by (simp add: card_Diff_singleton)
  then have "card (occupied_slots (vacate i jb)) \<le> jb_count jb - 1"
    using vacate_wf(2) [OF assms(1), of i] assms(1) by (auto simp: jb_wf_def)
  then show ?thesis using vacate_wf(1) [OF assms(1), of i]
    by (simp add: jb_wf_def occupied_slots_def)
qed

lemma store_frame_wf:
  assumes "jb_wf jb"
  shows "jb_wf (store_frame t f jb)"
    and "held (store_frame t f jb) + mset (released (frb_get (jb_ring jb) (jf_frameId f)))
      = add_mset (jf_addr f) (held jb)"
proof -
  have len: "length (jb_ring jb) = 32" "length (jb_info jb) = 32" using assms by (simp_all add: jb_wf_def)
  have "occupied_slots (store_frame t f jb) = insert (unat (jf_frameId f) mod 32) (occupied_slots jb)"
    by (auto simp: occupied_slots_def store_frame_def frb_insert_def len nth_list_update)
  then have "card (occupied_slots (store_frame t f jb)) \<le> Suc (card (occupied_slots jb))"
    by (simp add: card_insert_le_m1 card_insert_if)
  then show "jb_wf (store_frame t f jb)"
    using assms by (auto simp: jb_wf_def store_frame_def slot_ok_def frb_insert_def nth_list_update)
  show "held (store_frame t f jb) + mset (released (frb_get (jb_ring jb) (jf_frameId f)))
      = add_mset (jf_addr f) (held jb)"
    using sum_list_mset_update [of "unat (jf_frameId f) mod 32" "jb_ring jb" "\<lambda>p. mset (released p)" "Some f"] len
    by (simp add: held_def store_frame_def frb_insert_def frb_get_def released_def [of "Some f"])
qed

section \<open>The operations keep the owners\<close>

definition keeps :: "nat multiset \<Rightarrow> jitter_buffer \<Rightarrow> jitter_buffer \<times> nat list \<Rightarrow> bool" where
  "keeps new jb r \<longleftrightarrow> jb_wf (fst r) \<and> held (fst r) + mset (snd r) = held jb + new"

lemma drop_oldest_wf:
  assumes "jb_wf jb" "oldest_entry jb = (old, True)"
  shows "jb_wf (drop_oldest old jb)" and "held (drop_oldest old jb) + mset (released (frb_get (jb_ring jb) old)) = held jb"
proof -
  obtain i where i: "ei_occupied (frb_get (jb_info jb) i)" "ei_frameId (frb_get (jb_info jb) i) = old"
    using oldest_entry_found [OF assms(2)] .
  then have "unat old mod 32 = unat i mod 32" using occupied_frame [OF assms(1) i(1)] by metis
  then have "unat old mod 32 \<in> occupied_slots jb"
    using i(1) assms(1) by (simp add: occupied_slots_def frb_get_def jb_wf_def)
  from release_slot_wf [OF assms(1) this] show "jb_wf (drop_oldest old jb)"
    by (auto simp: drop_oldest_def Let_def)
  show "held (drop_oldest old jb) + mset (released (frb_get (jb_ring jb) old)) = held jb"
    using vacate_wf(3) [OF assms(1), of old] by (auto simp: drop_oldest_def Let_def)
qed

lemma overflow_loop_keeps:
  "jb_wf jb \<Longrightarrow> jb_wf (fst (overflow_loop jb out))
    \<and> held (fst (overflow_loop jb out)) + mset (snd (overflow_loop jb out)) = held jb + mset out"
proof (induction jb out rule: overflow_loop.induct)
  case (1 jb out)
  obtain old found where o: "oldest_entry jb = (old, found)" by (cases "oldest_entry jb")
  show ?case
  proof (cases "length (jb_ring jb) - 4 < jb_count jb \<and> found")
    case True
    then have o: "oldest_entry jb = (old, True)" using o by simp
    have run: "overflow_loop jb out = overflow_loop (drop_oldest old jb) (out @ released (frb_get (jb_ring jb) old))"
      using True by (subst overflow_loop.simps) (simp add: o)
    note d = drop_oldest_wf [OF 1(2) o]
    show ?thesis unfolding run using 1(1) [OF _ o [symmetric] refl TrueI d(1)] True d(2) [symmetric]
      by (simp add: ac_simps)
  next
    case False
    then have "overflow_loop jb out = (jb, out)" by (subst overflow_loop.simps) (auto simp: o)
    then show ?thesis using 1(2) by simp
  qed
qed

lemma update_jitter_wf [simp]: "jb_wf (update_jitter now jb) = jb_wf jb" "held (update_jitter now jb) = held jb"
  "jb_ring (update_jitter now jb) = jb_ring jb" "jb_nextPopFrameId (update_jitter now jb) = jb_nextPopFrameId jb"
  by (simp_all add: update_jitter_def jb_wf_def held_def occupied_slots_def Let_def)

lemma push_frame_keeps:
  assumes "jb_wf jb"
  shows "keeps (mset (released fr)) jb (push_frame t1 t2 fr jb)"
proof (cases fr)
  case None
  then show ?thesis using assms by (simp add: push_frame_def keeps_def released_def)
next
  case (Some f)
  define b where "b = (if jb_initialized jb then jb
    else jb\<lparr>jb_nextPopFrameId := jf_frameId f, jb_initialized := True\<rparr>)"
  have b: "jb_wf b" "held b = held jb" using assms by (auto simp: b_def jb_wf_def held_def occupied_slots_def)
  let ?u = "update_jitter t1 b"
  let ?ex = "frb_get (jb_ring ?u) (jf_frameId f)"
  have st: "jb_wf (store_frame t2 f ?u)"
    "held (store_frame t2 f ?u) + mset (released ?ex) = add_mset (jf_addr f) (held jb)"
    using store_frame_wf [of ?u t2 f] b by simp_all
  from overflow_loop_keeps [OF st(1), of "released ?ex"] st(2)
  have ov: "keeps (mset (released fr)) jb (overflow_loop (store_frame t2 f ?u) (released ?ex))"
    by (simp add: keeps_def Some released_def [of "Some f"])
  have same: "keeps (mset (released fr)) jb (b, [jf_addr f])" "keeps (mset (released fr)) jb (?u, [jf_addr f])"
    using b by (simp_all add: keeps_def Some released_def)
  have "push_frame t1 t2 fr jb = (if jf_frameId f < jb_nextPopFrameId b then (b, [jf_addr f])
      else if (case ?ex of None \<Rightarrow> False | Some e \<Rightarrow> jf_frameId e = jf_frameId f) then (?u, [jf_addr f])
      else overflow_loop (store_frame t2 f ?u) (released ?ex))"
    by (simp add: push_frame_def Some b_def Let_def)
  then show ?thesis using ov same by simp
qed

lemma take_next_keeps:
  assumes "jb_wf jb" "ei_occupied (frb_get (jb_info jb) (jb_nextPopFrameId jb))"
    "ei_frameId (frb_get (jb_info jb) (jb_nextPopFrameId jb)) = jb_nextPopFrameId jb"
  obtains f where "take_next jb = (Some f, snd (take_next jb))" "jf_frameId f = jb_nextPopFrameId jb"
    "jb_wf (snd (take_next jb))" "add_mset (jf_addr f) (held (snd (take_next jb))) = held jb"
    "jb_nextPopFrameId (snd (take_next jb)) = jb_nextPopFrameId jb + 1"
proof -
  let ?n = "jb_nextPopFrameId jb"
  obtain f where f: "frb_get (jb_ring jb) ?n = Some f" "jf_frameId f = ?n"
    using occupied_frame [OF assms(1,2)] assms(3) by metis
  have "unat ?n mod 32 \<in> occupied_slots jb"
    using assms by (simp add: occupied_slots_def frb_get_def jb_wf_def)
  then have wf: "jb_wf (snd (take_next jb))" using release_slot_wf [OF assms(1), of ?n]
    by (simp add: take_next_def Let_def)
  have "add_mset (jf_addr f) (held (snd (take_next jb))) = held jb"
    using vacate_wf(3) [OF assms(1), of ?n] f by (simp add: take_next_def released_def Let_def)
  with f wf that show thesis by (simp add: take_next_def Let_def)
qed

text \<open>What a pop can do.\<close>

lemma pop_frame_cases:
  assumes "jb_wf jb"
  obtains "pop_frame t sync jb = Inr (None, jb)"
  | f jb' where "pop_frame t sync jb = Inr (Some f, jb')" "jf_frameId f = jb_nextPopFrameId jb" "jb_wf jb'"
    "add_mset (jf_addr f) (held jb') = held jb" "jb_nextPopFrameId jb' = jb_nextPopFrameId jb + 1"
    "take_next jb = (Some f, jb')"
proof -
  let ?n = "jb_nextPopFrameId jb"
  show thesis
  proof (cases "ei_occupied (frb_get (jb_info jb) ?n) \<and> ei_frameId (frb_get (jb_info jb) ?n) = ?n")
    case True
    then obtain f where f: "take_next jb = (Some f, snd (take_next jb))" "jf_frameId f = ?n"
      "jb_wf (snd (take_next jb))" "add_mset (jf_addr f) (held (snd (take_next jb))) = held jb"
      "jb_nextPopFrameId (snd (take_next jb)) = ?n + 1"
      using take_next_keeps [OF assms] by blast
    then have "frb_get (jb_ring jb) ?n = Some f" by (simp add: take_next_def Let_def)
    then have "pop_frame t sync jb = Inr (None, jb) \<or> pop_frame t sync jb = Inr (Some f, snd (take_next jb))"
      using True f(1) by (auto simp: pop_frame_def Let_def)
    with f that show thesis by metis
  next
    case False
    then show thesis using that(1) by (auto simp: pop_frame_def Let_def)
  qed
qed

text \<open>However much the arrivals vary, a frame whose turn it is leaves after 20 ms.\<close>

lemma millis_at_least_20: "20000000 \<le> d \<Longrightarrow> fle (Fin 20) (millis d)"
proof -
  assume d: "20000000 \<le> d"
  then have "20000 \<le> tdiv d 1000" by (simp add: tdiv_def)
  then have "fle (flt_of_int f64 20000) (flt_of_int f64 (tdiv d 1000))"
    unfolding flt_of_int_def by (intro rnd_mono) simp_all
  then have "fle (fdiv f64 (flt_of_int f64 20000) (Fin 1000)) (millis d)"
    unfolding millis_def by (intro fdiv_const_mono) simp_all
  moreover have "flt_of_int f64 20000 = Fin 20000"
    using rnd_int [of f64 20000] by (simp add: flt_of_int_def f64_def)
  moreover have "rnd f64 20 = Fin 20" using rnd_int [of f64 20] by (simp add: f64_def)
  ultimately show ?thesis by simp
qed

lemma clamped_below: "fle (Fin 20) a \<Longrightarrow> \<not> flt_lt a (fclamp x (Fin 1) (Fin 20))"
  by (cases a; cases x) (auto simp: fclamp_def)

lemma waiting_frame_leaves:
  assumes "ei_occupied (frb_get (jb_info jb) (jb_nextPopFrameId jb))"
    and "ei_frameId (frb_get (jb_info jb) (jb_nextPopFrameId jb)) = jb_nextPopFrameId jb"
    and "20000000 \<le> now - ei_pushTime (frb_get (jb_info jb) (jb_nextPopFrameId jb))"
  shows "pop_frame now 0 jb = Inr (take_next jb)"
  using assms clamped_below [OF millis_at_least_20 [OF assms(3)]] by (simp add: pop_frame_def Let_def)

lemma mod_complement: "k < 32 \<Longrightarrow> (u + (k + 32 - u mod 32) mod 32) mod 32 = (k :: nat)"
proof -
  assume k: "k < 32"
  have "(u + (k + 32 - u mod 32) mod 32) mod 32 = (u mod 32 + (k + 32 - u mod 32)) mod 32"
    by (metis mod_add_left_eq mod_add_right_eq)
  also have "u mod 32 + (k + 32 - u mod 32) = k + 32" using mod_less_divisor [of 32 u] by linarith
  finally show ?thesis using k by simp
qed

lemma all_slots_visited: "k < 32 \<Longrightarrow> \<exists>i < 32. unat ((n :: u32) + of_nat i) mod 32 = k"
proof -
  assume k: "k < 32"
  let ?i = "(k + 32 - unat n mod 32) mod 32"
  have "?i < 32" by simp
  then have "unat (of_nat ?i :: u32) = ?i" by (intro unat_of_nat_u32) simp
  then have "unat (n + of_nat ?i) mod 32 = (unat n + ?i) mod 32"
    using mod_word_plus [of 32 n "of_nat ?i"] by simp
  then have "unat (n + of_nat ?i) mod 32 = k" unfolding mod_complement [OF k] .
  with \<open>?i < 32\<close> show ?thesis by blast
qed

lemma jb_reset_keeps:
  assumes "jb_wf jb"
  shows "keeps {#} jb (jb_reset nx jb)"
proof -
  let ?step = "\<lambda>(b, out) i. let fid = jb_nextPopFrameId b + of_nat i in
    (vacate fid b, out @ released (frb_get (jb_ring b) fid))"
  have fold: "jb_wf (fst (foldl ?step (jb, []) is)) \<and>
      held (fst (foldl ?step (jb, []) is)) + mset (snd (foldl ?step (jb, []) is)) = held jb \<and>
      jb_nextPopFrameId (fst (foldl ?step (jb, []) is)) = jb_nextPopFrameId jb \<and>
      occupied_slots (fst (foldl ?step (jb, []) is))
        = occupied_slots jb - (\<lambda>i. unat (jb_nextPopFrameId jb + of_nat i) mod 32) ` set is" for "is"
  proof (induction "is" rule: rev_induct)
    case (snoc i "is")
    obtain b out where b: "foldl ?step (jb, []) is = (b, out)" by (cases "foldl ?step (jb, []) is")
    have wf: "jb_wf b" "jb_nextPopFrameId b = jb_nextPopFrameId jb" using snoc b by simp_all
    have "held (vacate fid b) + (mset out + mset (released (frb_get (jb_ring b) fid))) = held b + mset out" for fid
    proof -
      have "held (vacate fid b) + (mset out + mset (released (frb_get (jb_ring b) fid)))
        = (held (vacate fid b) + mset (released (frb_get (jb_ring b) fid))) + mset out" by (simp add: ac_simps)
      then show ?thesis unfolding vacate_wf(3) [OF wf(1)] .
    qed
    moreover have eq: "held b + mset out = held jb" using snoc b by simp
    ultimately have "held (vacate fid b) + (mset out + mset (released (frb_get (jb_ring b) fid))) = held jb" for fid
      by simp
    then show ?case using snoc b wf vacate_wf(1,2) [OF wf(1)] by (auto simp: Let_def)
  qed (use assms in simp)
  obtain b out where b: "foldl ?step (jb, []) [0..<32] = (b, out)" by (cases "foldl ?step (jb, []) [0..<32]")
  have "occupied_slots b = {}"
    using fold [of "[0..<32]"] b all_slots_visited [of _ "jb_nextPopFrameId jb"]
    by (fastforce simp: occupied_slots_def)
  moreover have "jb_wf b" using fold [of "[0..<32]"] b by simp
  ultimately have "jb_wf (b\<lparr>jb_nextPopFrameId := nx, jb_count := 0\<rparr>)"
    by (simp add: jb_wf_def occupied_slots_def)
  then show ?thesis using fold [of "[0..<32]"] b by (simp add: keeps_def jb_reset_def)
qed

section \<open>Any use of the buffer\<close>

datatype jb_op = Push int int "jframe option" | Pop int u64 | Flush u32

definition jb_step :: "jb_op \<Rightarrow> jitter_buffer \<Rightarrow> fault + (jframe option \<times> jitter_buffer \<times> nat list)" where
  "jb_step op jb = (case op of
     Push t1 t2 f \<Rightarrow> (let (jb, out) = push_frame t1 t2 f jb in Inr (None, jb, out))
   | Pop t sync \<Rightarrow> fbind (pop_frame t sync jb) (\<lambda>(f, jb). Inr (f, jb, []))
   | Flush nx \<Rightarrow> (let (jb, out) = jb_reset nx jb in Inr (None, jb, out)))"

fun jb_run :: "jb_op list \<Rightarrow> jitter_buffer \<Rightarrow> fault + (jitter_buffer \<times> jframe list \<times> nat list)" where
  "jb_run [] jb = Inr (jb, [], [])"
| "jb_run (op # ops) jb = fbind (jb_step op jb) (\<lambda>(f, jb, out).
     fbind (jb_run ops jb) (\<lambda>(jb, fs, outs). Inr (jb, (case f of None \<Rightarrow> fs | Some f \<Rightarrow> f # fs), out @ outs)))"

fun pushed :: "jb_op list \<Rightarrow> nat multiset" where
  "pushed [] = {#}"
| "pushed (Push _ _ f # ops) = mset (released f) + pushed ops"
| "pushed (_ # ops) = pushed ops"

lemma jb_step_keeps:
  assumes "jb_wf jb"
  obtains f jb' out where "jb_step op jb = Inr (f, jb', out)" "jb_wf jb'"
    "held jb' + mset out + mset (released f) = held jb + pushed [op]"
proof (cases op)
  case (Push t1 t2 g)
  then show thesis using push_frame_keeps [OF assms, of g t1 t2] that
    by (cases "push_frame t1 t2 g jb") (simp add: jb_step_def keeps_def released_def [of None])
next
  case (Pop t sync)
  then show thesis using that assms
    by (cases rule: pop_frame_cases [OF assms, of t sync]) (simp_all add: jb_step_def released_def ac_simps)
next
  case (Flush nx)
  then show thesis using jb_reset_keeps [OF assms, of nx] that
    by (cases "jb_reset nx jb") (simp add: jb_step_def keeps_def released_def)
qed

lemma jb_run_keeps:
  "jb_wf jb \<Longrightarrow> \<exists>jb' fs outs. jb_run ops jb = Inr (jb', fs, outs) \<and> jb_wf jb'
    \<and> held jb' + mset outs + mset (map jf_addr fs) = held jb + pushed ops"
proof (induction ops arbitrary: jb)
  case (Cons op ops)
  obtain f b out where st: "jb_step op jb = Inr (f, b, out)" "jb_wf b"
    "held b + mset out + mset (released f) = held jb + pushed [op]"
    using jb_step_keeps [OF Cons.prems] .
  obtain jb' fs outs where r: "jb_run ops b = Inr (jb', fs, outs)" "jb_wf jb'"
    "held jb' + mset outs + mset (map jf_addr fs) = held b + pushed ops"
    using Cons.IH [OF st(2)] by blast
  have p: "pushed (op # ops) = pushed [op] + pushed ops" by (cases op) simp_all
  have "mset (map jf_addr (case f of None \<Rightarrow> fs | Some f \<Rightarrow> f # fs)) = mset (released f) + mset (map jf_addr fs)"
    by (simp add: released_def split: option.split)
  then have "held jb' + mset (out @ outs) + mset (map jf_addr (case f of None \<Rightarrow> fs | Some f \<Rightarrow> f # fs))
      = (held jb' + mset outs + mset (map jf_addr fs)) + mset out + mset (released f)"
    by (simp add: ac_simps)
  also have "\<dots> = (held b + mset out + mset (released f)) + pushed ops" unfolding r(3) by (simp add: ac_simps)
  also have "\<dots> = held jb + pushed (op # ops)" unfolding st(3) p by (simp add: ac_simps)
  finally show ?case using st r by simp
qed simp

text \<open>C23: whatever is pushed, popped or flushed in whatever order and at whatever times, even
  frames whose numbers collide in a slot, the jitter buffer never dereferences an empty slot and
  no frame is lost or returned to the pool twice: the frames pushed are exactly those popped,
  those released and those still buffered.\<close>
theorem jitter_buffer_conserves_frames:
  "\<exists>jb fs outs. jb_run ops (jb_new n) = Inr (jb, fs, outs)
    \<and> mset (map jf_addr fs) + mset outs + held jb = pushed ops \<and> length (jb_ring jb) = 32"
  using jb_run_keeps [OF jb_new_wf(1) [of n], of ops] by (auto simp: jb_new_wf jb_wf_def ac_simps)

section \<open>Order\<close>

text \<open>Frame numbers stay below the last one, which is never pushed: the ring holds no other.\<close>

definition numbered_slot :: "jframe option \<Rightarrow> bool" where
  "numbered_slot p \<longleftrightarrow> (case p of None \<Rightarrow> True | Some f \<Rightarrow> jf_frameId f < - 1)"

definition below_max :: "jitter_buffer \<Rightarrow> bool" where
  "below_max jb \<longleftrightarrow> list_all numbered_slot (jb_ring jb)
     \<and> (jb_initialized jb \<or> jb_nextPopFrameId jb = 0 \<and> list_all (\<lambda>p. p = None) (jb_ring jb))"

fun numbered :: "jb_op \<Rightarrow> bool" where
  "numbered (Push _ _ (Some f)) = (jf_frameId f < - 1)"
| "numbered (Flush _) = False"
| "numbered _ = True"

lemma numbered_slot_simps [simp]: "numbered_slot None" "numbered_slot (Some f) \<longleftrightarrow> jf_frameId f < - 1"
  by (simp_all add: numbered_slot_def)

lemma below_max_update:
  "below_max jb \<Longrightarrow> numbered_slot p \<Longrightarrow> list_all numbered_slot (frb_insert i p (jb_ring jb))"
  using set_update_subset_insert [of "jb_ring jb" "unat i mod length (jb_ring jb)" p]
  by (auto simp: below_max_def frb_insert_def list_all_iff)

lemma empty_update:
  "list_all (\<lambda>p. p = None) (jb_ring jb) \<Longrightarrow> list_all (\<lambda>p. p = None) (frb_insert i None (jb_ring jb))"
  using set_update_subset_insert [of "jb_ring jb" "unat i mod length (jb_ring jb)" None]
  by (auto simp: frb_insert_def list_all_iff)

lemma below_max_frame:
  assumes "below_max jb" "jb_wf jb" "frb_get (jb_ring jb) i = Some f"
  shows "jf_frameId f < - 1" and "jb_initialized jb"
proof -
  have "frb_get (jb_ring jb) i \<in> set (jb_ring jb)" using assms(2) by (simp add: frb_get_def jb_wf_def)
  then show "jf_frameId f < - 1" "jb_initialized jb"
    using assms(1,3) by (auto simp: below_max_def list_all_iff)
qed

lemma next_up: "(n :: u32) < - 1 \<Longrightarrow> n < n + 1"
proof -
  assume "n < - 1"
  then have "1 + n \<noteq> 0" by (metis add.commute add_eq_0_iff less_irrefl minus_minus)
  then have "unat (1 + n) = Suc (unat n)" by (rule unatSuc)
  then show ?thesis by (simp add: word_less_nat_alt add.commute)
qed

lemma overflow_loop_order:
  "jb_wf jb \<Longrightarrow> below_max jb \<Longrightarrow> jb_initialized jb \<Longrightarrow>
    below_max (fst (overflow_loop jb out)) \<and> jb_nextPopFrameId jb \<le> jb_nextPopFrameId (fst (overflow_loop jb out))"
proof (induction jb out rule: overflow_loop.induct)
  case (1 jb out)
  obtain old found where o: "oldest_entry jb = (old, found)" by (cases "oldest_entry jb")
  show ?case
  proof (cases "length (jb_ring jb) - 4 < jb_count jb \<and> found")
    case True
    then have o: "oldest_entry jb = (old, True)" using o by simp
    obtain i where i: "ei_occupied (frb_get (jb_info jb) i)" "ei_frameId (frb_get (jb_info jb) i) = old"
      using oldest_entry_found [OF o] .
    obtain f where "frb_get (jb_ring jb) i = Some f" "jf_frameId f = old"
      using occupied_frame [OF 1(2) i(1)] i(2) by metis
    then have "old < - 1" using below_max_frame(1) [OF 1(3,2)] by blast
    then have up: "jb_nextPopFrameId jb \<le> jb_nextPopFrameId (drop_oldest old jb)"
      using next_up by (auto simp: drop_oldest_def Let_def less_imp_le)
    have bm: "below_max (drop_oldest old jb)" "jb_initialized (drop_oldest old jb)"
      using below_max_update [OF 1(3), of None old] 1(4)
      by (auto simp: below_max_def drop_oldest_def vacate_def Let_def)
    have run: "overflow_loop jb out = overflow_loop (drop_oldest old jb) (out @ released (frb_get (jb_ring jb) old))"
      using True by (subst overflow_loop.simps) (simp add: o)
    show ?thesis unfolding run
      using 1(1) [OF _ o [symmetric] refl TrueI drop_oldest_wf(1) [OF 1(2) o] bm] True up by auto
  next
    case False
    then have "overflow_loop jb out = (jb, out)" by (subst overflow_loop.simps) (auto simp: o)
    then show ?thesis using 1(3) by simp
  qed
qed

lemma push_frame_order:
  assumes "jb_wf jb" "below_max jb" "numbered (Push t1 t2 fr)"
  shows "below_max (fst (push_frame t1 t2 fr jb))
    \<and> jb_nextPopFrameId jb \<le> jb_nextPopFrameId (fst (push_frame t1 t2 fr jb))"
proof (cases fr)
  case None
  then show ?thesis using assms by (simp add: push_frame_def)
next
  case (Some f)
  define b where "b = (if jb_initialized jb then jb
    else jb\<lparr>jb_nextPopFrameId := jf_frameId f, jb_initialized := True\<rparr>)"
  have b: "jb_wf b" "below_max b" "jb_initialized b" "jb_nextPopFrameId jb \<le> jb_nextPopFrameId b"
    using assms by (auto simp: b_def below_max_def)
  let ?u = "update_jitter t1 b"
  have u: "jb_wf ?u" "below_max ?u" "jb_initialized ?u" "jb_nextPopFrameId ?u = jb_nextPopFrameId b"
    using b by (simp, simp add: below_max_def update_jitter_def Let_def, simp_all add: update_jitter_def Let_def)
  let ?s = "store_frame t2 f ?u"
  have "jf_frameId f < - 1" using assms(3) Some by simp
  then have s: "below_max ?s" "jb_initialized ?s" "jb_nextPopFrameId ?s = jb_nextPopFrameId b"
    using below_max_update [OF u(2), of "Some f"] u by (auto simp: below_max_def store_frame_def)
  note ov = overflow_loop_order [OF store_frame_wf(1) [OF u(1)] s(1,2)]
  show ?thesis unfolding push_frame_def Some
    using ov b u s by (auto simp: Let_def b_def [symmetric] intro: order_trans [OF b(4)] split: option.splits)
qed

lemma jb_run_order:
  assumes "jb_wf jb" "below_max jb" "list_all numbered ops" "jb_run ops jb = Inr (jb', fs, outs)"
  shows "sorted_wrt (\<lambda>f g. jf_frameId f < jf_frameId g) fs \<and> list_all (\<lambda>f. jb_nextPopFrameId jb \<le> jf_frameId f) fs"
  using assms
proof (induction ops arbitrary: jb fs outs)
  case (Cons op ops)
  obtain f b out where st: "jb_step op jb = Inr (f, b, out)" "jb_wf b"
    using jb_step_keeps [OF Cons.prems(1), of op] by metis
  obtain gs outs' where r: "jb_run ops b = Inr (jb', gs, outs')" "fs = (case f of None \<Rightarrow> gs | Some f \<Rightarrow> f # gs)"
    using Cons.prems(4) st by (auto simp: fbind_Inr_iff)
  have "below_max b \<and> jb_nextPopFrameId jb \<le> jb_nextPopFrameId b
    \<and> (\<forall>x. f = Some x \<longrightarrow> jf_frameId x = jb_nextPopFrameId jb \<and> jb_nextPopFrameId jb < jb_nextPopFrameId b)"
  proof (cases op)
    case (Push t1 t2 g)
    then show ?thesis using push_frame_order [OF Cons.prems(1,2), of t1 t2 g] Cons.prems(3) st(1)
      by (auto simp: jb_step_def split: prod.splits)
  next
    case (Pop t sync)
    show ?thesis
    proof (cases rule: pop_frame_cases [OF Cons.prems(1), of t sync])
      case 1
      then show ?thesis using st(1) Pop Cons.prems(2) by (auto simp: jb_step_def)
    next
      case (2 x jb2)
      then have e: "f = Some x" "b = jb2" using st(1) Pop by (auto simp: jb_step_def)
      have "frb_get (jb_ring jb) (jb_nextPopFrameId jb) = Some x" using 2(6) by (simp add: take_next_def Let_def)
      then have top: "jb_nextPopFrameId jb < - 1" "jb_initialized jb"
        using below_max_frame [OF Cons.prems(2,1)] 2(2) by metis+
      then have "jb_nextPopFrameId jb < jb_nextPopFrameId b" using 2(5) e next_up by simp
      moreover have "below_max b" using below_max_update [OF Cons.prems(2), of None] 2(6) e top(2)
        by (auto simp: below_max_def take_next_def vacate_def Let_def)
      ultimately show ?thesis using e 2(2) by auto
    qed
  next
    case (Flush nx)
    then show ?thesis using Cons.prems(3) by simp
  qed
  moreover from this have "sorted_wrt (\<lambda>f g. jf_frameId f < jf_frameId g) gs \<and> list_all (\<lambda>f. jb_nextPopFrameId b \<le> jf_frameId f) gs"
    using Cons.IH [OF st(2) _ _ r(1)] Cons.prems(3) by simp
  ultimately show ?case using r(2) by (auto simp: list_all_iff split: option.splits)
qed simp



text \<open>A push into a slot that another frame occupies replaces that frame but counts it again:
  \<open>m_count\<close> grows while the number of occupied slots does not.\<close>

lemma slot_collision_counts_twice:
  assumes "jb_wf jb" "jb_initialized jb" "jb_nextPopFrameId jb \<le> jf_frameId f" "jb_count jb < 28"
    "frb_get (jb_ring jb) (jf_frameId f) = Some e" "jf_frameId e \<noteq> jf_frameId f"
  shows "jb_count (fst (push_frame t1 t2 (Some f) jb)) = jb_count jb + 1"
    and "occupied_slots (fst (push_frame t1 t2 (Some f) jb)) = occupied_slots jb"
proof -
  let ?s = "store_frame t2 f (update_jitter t1 jb)"
  have len: "length (jb_ring jb) = 32" "length (jb_info jb) = 32" using assms(1) by (simp_all add: jb_wf_def)
  have u: "jb_count (update_jitter t1 jb) = jb_count jb" "jb_info (update_jitter t1 jb) = jb_info jb"
    by (simp_all add: update_jitter_def Let_def)
  have c: "jb_count ?s = jb_count jb + 1" "length (jb_ring ?s) = 32" using len u by (simp_all add: store_frame_def)
  have "overflow_loop ?s out = (?s, out)" for out
    using assms(4) c by (subst overflow_loop.simps) simp
  then have p: "fst (push_frame t1 t2 (Some f) jb) = ?s"
    using assms by (simp add: push_frame_def Let_def)
  show "jb_count (fst (push_frame t1 t2 (Some f) jb)) = jb_count jb + 1" unfolding p by (rule c)
  let ?k = "unat (jf_frameId f) mod 32"
  have "slot_ok ?k (Some e) (jb_info jb ! ?k)"
    using assms(1,5) by (auto simp: jb_wf_def frb_get_def dest: spec [of _ ?k])
  then have "?k \<in> occupied_slots jb" by (simp add: slot_ok_def occupied_slots_def split: if_splits)
  then show "occupied_slots (fst (push_frame t1 t2 (Some f) jb)) = occupied_slots jb"
    unfolding p by (auto simp: occupied_slots_def store_frame_def frb_insert_def len u nth_list_update)
qed

end
