(* ===== verification/Encoder.thy ===== *)
theory Encoder
  imports Pools
begin

text \<open>
  \<open>Host::FFmpegHardwareEncoder\<close> (\<open>cpp/host/encoder_hw.cpp\<close>) as built with FFmpeg on Windows: the
  choice of codec and options, the upload paths and the drain loop. FFmpeg and Direct3D are a
  parameter: the record \<open>ffmpeg\<close> answers the lookups and says which calls succeed, and
  \<open>encode_env\<close> holds what the calls of one \<open>EncodeFrame\<close> return. Pixels are not modelled.
\<close>

section \<open>FFmpeg's answers\<close>

datatype codec_id = H264 | HEVC | OtherCodec
datatype pix_fmt = YUV420P | NV12 | D3D11 | OtherFormat

record codec =
  co_name :: string
  co_id :: codec_id

record codec_ctx =
  cc_codec :: codec
  cc_width :: int
  cc_height :: int
  cc_fps :: int
  cc_pix_fmt :: pix_fmt
  cc_bit_rate :: int
  cc_rc_max_rate :: int
  cc_rc_buffer_size :: int
  cc_gop_size :: int
  cc_max_b_frames :: int
  cc_options :: "(string \<times> string) list"
  cc_hw_device_ctx :: bool
  cc_hw_frames_ctx :: bool

record ffmpeg =
  ff_find :: "string \<Rightarrow> codec option"
  ff_find_h264 :: "codec option"
  ff_alloc :: "codec \<Rightarrow> codec_ctx option"
  ff_pix_fmts :: "codec \<Rightarrow> pix_fmt list"
  ff_hwdevice_alloc :: bool
  ff_hwdevice_init :: bool
  ff_hwframe_init :: bool
  ff_open :: "codec_ctx \<Rightarrow> bool"

section \<open>The encoder\<close>

record encoder_hw =
  he_width :: int
  he_height :: int
  he_fps :: int
  he_bitrate :: int
  he_initialized :: bool
  he_forceKeyframe :: bool
  he_codecCtx :: "codec_ctx option"
  he_hwDeviceCtx :: bool
  he_frame :: bool
  he_pkt :: bool
  he_frameCounter :: int
  he_d3d11Device :: bool
  he_d3d11Context :: bool
  he_stagingTex :: bool
  he_swsCtx :: bool
  he_swFrame :: bool

definition encoder_new :: encoder_hw where
  "encoder_new = \<lparr>he_width = 0, he_height = 0, he_fps = 0, he_bitrate = 0, he_initialized = False,
     he_forceKeyframe = False, he_codecCtx = None, he_hwDeviceCtx = False, he_frame = False, he_pkt = False,
     he_frameCounter = 0, he_d3d11Device = False, he_d3d11Context = False, he_stagingTex = False,
     he_swsCtx = False, he_swFrame = False\<rparr>"

definition encoder_shutdown :: "encoder_hw \<Rightarrow> encoder_hw" where
  "encoder_shutdown e = e\<lparr>he_initialized := False, he_codecCtx := None, he_hwDeviceCtx := False,
     he_frame := False, he_pkt := False, he_swsCtx := False, he_swFrame := False, he_stagingTex := False,
     he_d3d11Context := False, he_d3d11Device := False\<rparr>"

subsection \<open>Initialize\<close>

definition software_name :: "string \<Rightarrow> bool" where
  "software_name n \<longleftrightarrow> n \<in> {''libx264'', ''h264'', ''libx265'', ''hevc''}
     \<or> (contains ''264'' n \<or> contains ''265'' n \<or> contains ''hevc'' n) \<and> \<not> contains ''nvenc'' n
       \<and> \<not> contains ''amf'' n \<and> \<not> contains ''qsv'' n \<and> \<not> contains ''vaapi'' n"

fun first_codec :: "(string \<Rightarrow> codec option) \<Rightarrow> string list \<Rightarrow> codec option" where
  "first_codec f [] = None"
| "first_codec f (n # ns) = (case f n of None \<Rightarrow> first_codec f ns | Some c \<Rightarrow> Some c)"

definition choose_codec :: "ffmpeg \<Rightarrow> string \<Rightarrow> bool \<Rightarrow> codec option \<times> bool" where
  "choose_codec ff codecName softwareFallback =
     (let codec = (if codecName \<noteq> [] then ff_find ff codecName else None);
          isSoftware = (case codec of None \<Rightarrow> False | Some c \<Rightarrow> software_name (co_name c));
          codec = (if codec = None \<and> \<not> softwareFallback then first_codec (ff_find ff)
              [''hevc_nvenc'', ''h264_nvenc'', ''hevc_amf'', ''h264_amf'', ''hevc_qsv'', ''h264_qsv'']
            else codec)
      in case codec of Some c \<Rightarrow> (Some c, isSoftware)
       | None \<Rightarrow> (case ff_find ff ''libx264'' of Some c \<Rightarrow> (Some c, True) | None \<Rightarrow> (ff_find_h264 ff, True)))"

definition preset_index :: "int \<Rightarrow> nat" where
  "preset_index p = nat (max 0 (min 2 p))"

definition codec_options :: "codec \<Rightarrow> bool \<Rightarrow> int \<Rightarrow> (string \<times> string) list" where
  "codec_options c isSoftware preset =
     (let k = preset_index preset; n = co_name c in
      (if isSoftware then
         [(''preset'', [''ultrafast'', ''superfast'', ''veryfast''] ! k), (''tune'', ''zerolatency'')]
         @ (if co_id c = H264 then [(''x264-params'', ''repeat-headers=1:annexb=1'')]
            else if co_id c = HEVC then [(''x265-params'', ''repeat-headers=1:annexb=1'')] else [])
       else if contains ''nvenc'' n then
         [(''preset'', [''p1'', ''p4'', ''p7''] ! k), (''tune'', ''ull''), (''repeat_config'', ''1''), (''forced-idr'', ''1'')]
       else if contains ''qsv'' n then
         [(''preset'', [''veryfast'', ''medium'', ''veryslow''] ! k), (''tune'', ''zerolatency''),
          (''repeat_headers'', ''1''), (''idr_interval'', ''1''), (''extra_hw_frames'', ''2''), (''async_depth'', ''1'')]
       else
         [(''preset'', [''speed'', ''balanced'', ''quality''] ! k), (''tune'', ''zerolatency''),
          (''header_insertion_mode'', ''1''), (''query_timeout'', ''1000'')])
      @ [(''rc'', ''cbr'')])"

definition new_ctx :: "codec_ctx \<Rightarrow> codec \<Rightarrow> bool \<Rightarrow> int \<Rightarrow> int \<Rightarrow> int \<Rightarrow> int \<Rightarrow> int \<Rightarrow> codec_ctx" where
  "new_ctx x c isSoftware w h fps bitrateKbps preset =
     x\<lparr>cc_codec := c, cc_width := w, cc_height := h, cc_fps := fps,
      cc_pix_fmt := (if isSoftware then YUV420P else NV12), cc_bit_rate := bitrateKbps * 1000,
      cc_gop_size := 60, cc_max_b_frames := 0,
      cc_options := cc_options x @ codec_options c isSoftware preset\<rparr>"

definition attach_d3d11 :: "ffmpeg \<Rightarrow> bool \<Rightarrow> bool \<Rightarrow> codec_ctx \<Rightarrow> codec_ctx \<times> bool" where
  "attach_d3d11 ff device isSoftware x =
     (if device \<and> \<not> isSoftware \<and> D3D11 \<in> set (ff_pix_fmts ff (cc_codec x)) then
        (let x = x\<lparr>cc_pix_fmt := D3D11\<rparr> in
         if ff_hwdevice_alloc ff \<and> ff_hwdevice_init ff then
           (x\<lparr>cc_hw_device_ctx := True, cc_hw_frames_ctx := ff_hwframe_init ff\<rparr>, True)
         else (x, False))
      else (x, False))"

definition try_initialize ::
  "ffmpeg \<Rightarrow> int \<Rightarrow> int \<Rightarrow> int \<Rightarrow> int \<Rightarrow> bool \<Rightarrow> int \<Rightarrow> string \<Rightarrow> encoder_hw \<Rightarrow> bool \<times> encoder_hw" where
  "try_initialize ff w h fps bitrateKbps device preset codecName e =
     (case choose_codec ff codecName False of
        (None, _) \<Rightarrow> (False, e)
      | (Some c, isSoftware) \<Rightarrow>
          (case ff_alloc ff c of None \<Rightarrow> (False, e)
           | Some x0 \<Rightarrow>
               let (x, dev) = attach_d3d11 ff device isSoftware (new_ctx x0 c isSoftware w h fps bitrateKbps preset);
                   e = e\<lparr>he_codecCtx := Some x, he_hwDeviceCtx := dev\<rparr>
               in if \<not> ff_open ff x then (False, encoder_shutdown e)
                  else (True, e\<lparr>he_swFrame := True\<rparr>)))"

definition encoder_initialize ::
  "ffmpeg \<Rightarrow> int \<Rightarrow> int \<Rightarrow> int \<Rightarrow> int \<Rightarrow> bool \<Rightarrow> int \<Rightarrow> string \<Rightarrow> encoder_hw \<Rightarrow> bool \<times> encoder_hw" where
  "encoder_initialize ff w h fps bitrateKbps device preset codecName e =
     (let e = (encoder_shutdown e)\<lparr>he_width := w, he_height := h, he_fps := fps, he_bitrate := bitrateKbps\<rparr>;
          e = (if device then e\<lparr>he_d3d11Device := True, he_d3d11Context := True\<rparr> else e);
          (ok, e) = try_initialize ff w h fps bitrateKbps device preset codecName e
      in if ok then (True, e\<lparr>he_pkt := True, he_frame := True, he_initialized := True\<rparr>) else (False, e))"

subsection \<open>EncodeFrame\<close>

text \<open>What one call sees: the texture, the results of the Direct3D calls, of the scaler, of
  \<open>avcodec_send_frame\<close>, and the answers of \<open>avcodec_receive_packet\<close> up to the first that is not a
  packet (an empty rest stands for \<open>EAGAIN\<close>).\<close>

datatype receive = Received bytes bool | Again | Failed

record encode_env =
  ee_descWidth :: int
  ee_descHeight :: int
  ee_descNV12 :: bool
  ee_createStaging :: bool
  ee_deviceLost :: bool
  ee_map :: bool
  ee_swsInit :: bool
  ee_sendOk :: bool
  ee_receive :: "receive list"

record encoded_packet =
  ep_packet :: packet
  ep_isKeyframe :: bool
  ep_isHEVC :: bool
  ep_captureTimestamp :: u64
  ep_encodeStartTimestamp :: u64
  ep_encodeEndTimestamp :: u64

definition software_path :: "encode_env \<Rightarrow> encoder_hw \<Rightarrow> fault + (bool \<times> encoder_hw)" where
  "software_path env e =
     (if \<not> he_swFrame e then Inr (False, e)
      else if \<not> he_stagingTex e \<and> \<not> he_d3d11Device e then Inl NullDeref
      else let e = (if he_stagingTex e then e else e\<lparr>he_stagingTex := ee_createStaging env\<rparr>) in
        if \<not> (he_stagingTex e \<and> he_d3d11Context e) then Inr (False, e)
        else if he_d3d11Device e \<and> ee_deviceLost env then Inr (False, e)
        else if \<not> ee_map env then Inr (False, e)
        else Inr (True, if he_swsCtx e then e else e\<lparr>he_swsCtx := ee_swsInit env\<rparr>))"

definition upload :: "encode_env \<Rightarrow> codec_ctx \<Rightarrow> encoder_hw \<Rightarrow> fault + (bool \<times> encoder_hw)" where
  "upload env x e =
     (if cc_hw_frames_ctx x \<and> ee_descWidth env = he_width e \<and> ee_descHeight env = he_height e \<and> ee_descNV12 env
      then Inr (True, e) else software_path env e)"

fun drain :: "receive list \<Rightarrow> bytes \<Rightarrow> bool \<Rightarrow> (bytes \<times> bool) option" where
  "drain (Received bs key # rs) acc k = drain rs (acc @ bs) (k \<or> key)"
| "drain (Failed # rs) acc k = None"
| "drain (Again # rs) acc k = Some (acc, k)"
| "drain [] acc k = Some (acc, k)"

definition emit_packet :: "bytes \<Rightarrow> bool \<Rightarrow> packet_pool \<Rightarrow> encoded_packet list \<times> packet_pool" where
  "emit_packet frameData isKeyframe pl =
     (if frameData = [] then ([], pl)
      else case pool_acquire pl of
          (None, pl) \<Rightarrow> ([], pl)
        | (Some p, pl) \<Rightarrow>
            if length frameData \<le> length (pk_data p) then
              ([\<lparr>ep_packet = p\<lparr>pk_data := frameData @ drop (length frameData) (pk_data p), pk_size := length frameData\<rparr>,
                 ep_isKeyframe = isKeyframe, ep_isHEVC = False, ep_captureTimestamp = 0,
                 ep_encodeStartTimestamp = 0, ep_encodeEndTimestamp = 0\<rparr>], pl)
            else ([], pool_release (Some p) pl))"

text \<open>The result: success, the packets appended to \<open>outPackets\<close>, whether the frame sent carried
  the key flag, the encoder and the pool.\<close>

record encode_result =
  er_ok :: bool
  er_packets :: "encoded_packet list"
  er_keySent :: bool
  er_encoder :: encoder_hw
  er_pool :: packet_pool

definition encoder_encode :: "encode_env \<Rightarrow> bool \<Rightarrow> encoder_hw \<Rightarrow> packet_pool \<Rightarrow> fault + encode_result" where
  "encoder_encode env texture e pl =
     (let fail = (\<lambda>e key. Inr \<lparr>er_ok = False, er_packets = [], er_keySent = key, er_encoder = e, er_pool = pl\<rparr>) in
      case he_codecCtx e of None \<Rightarrow> fail e False
      | Some x \<Rightarrow>
        if \<not> texture then fail e False
        else fbind (upload env x e) (\<lambda>(ok, e).
          if \<not> ok then fail e False
          else let key = he_forceKeyframe e;
                   e = e\<lparr>he_frameCounter := he_frameCounter e + 1, he_forceKeyframe := False\<rparr>
            in if \<not> ee_sendOk env then fail e key
               else case drain (ee_receive env) [] False of None \<Rightarrow> fail e key
                 | Some (frameData, isKeyframe) \<Rightarrow>
                     let (out, pl) = emit_packet frameData isKeyframe pl in
                     Inr \<lparr>er_ok = True, er_packets = out, er_keySent = key, er_encoder = e, er_pool = pl\<rparr>))"

subsection \<open>The other operations\<close>

definition encoder_set_bitrate :: "int \<Rightarrow> encoder_hw \<Rightarrow> fault + encoder_hw" where
  "encoder_set_bitrate b e = (case he_codecCtx e of None \<Rightarrow> Inr e | Some x \<Rightarrow>
     if he_bitrate e = b then Inr e
     else if he_fps e = 0 then Inl DivisionByZero
     else Inr (e\<lparr>he_bitrate := b, he_codecCtx := Some (x\<lparr>cc_bit_rate := b * 1000, cc_rc_max_rate := b * 1000,
       cc_rc_buffer_size := (let q = \<bar>b * 1000\<bar> div \<bar>he_fps e\<bar> in if (b < 0) = (he_fps e < 0) then q else - q)\<rparr>)\<rparr>))"

definition encoder_force_keyframe :: "encoder_hw \<Rightarrow> encoder_hw" where
  "encoder_force_keyframe e = e\<lparr>he_forceKeyframe := True\<rparr>"

definition encoder_is_hevc :: "encoder_hw \<Rightarrow> bool" where
  "encoder_is_hevc e = (case he_codecCtx e of None \<Rightarrow> False | Some x \<Rightarrow> co_id (cc_codec x) = HEVC)"

fun nal_types :: "bool \<Rightarrow> bytes \<Rightarrow> nat list" where
  "nal_types hevc (a # b # c # d # rest) =
     (let n = (if a = 0 \<and> b = 0 \<and> c = 0 \<and> d = 1 then 4 else if a = 0 \<and> b = 0 \<and> c = 1 then 3 else 0 :: nat);
          t = (\<lambda>x :: u8. unat (if hevc then drop_bit 1 x AND 0x3F else x AND 0x1F))
      in if n = 4 then (case rest of [] \<Rightarrow> nal_types hevc (b # c # d # rest)
           | x # rest' \<Rightarrow> t x # nal_types hevc rest')
         else if n = 3 then t d # nal_types hevc rest
         else nal_types hevc (b # c # d # rest))"
| "nal_types hevc _ = []"

section \<open>What a call produces\<close>

definition packet_bytes :: "encoded_packet \<Rightarrow> bytes" where
  "packet_bytes ep = take (pk_size (ep_packet ep)) (pk_data (ep_packet ep))"

fun is_received :: "receive \<Rightarrow> bool" where
  "is_received (Received _ _) = True"
| "is_received _ = False"

definition received_bytes :: "receive list \<Rightarrow> bytes" where
  "received_bytes rs = concat (map (\<lambda>r. case r of Received bs _ \<Rightarrow> bs | _ \<Rightarrow> []) (takeWhile is_received rs))"

definition key_received :: "receive list \<Rightarrow> bool" where
  "key_received rs \<longleftrightarrow> (\<exists>bs. Received bs True \<in> set (takeWhile is_received rs))"

lemma drain_result: "drain rs acc k = Some (out, key) \<Longrightarrow>
    out = acc @ received_bytes rs \<and> key = (k \<or> key_received rs)"
  by (induction rs acc k rule: drain.induct) (auto simp: received_bytes_def key_received_def)

lemma emit_packet_result:
  assumes "emit_packet bs key pl = (ps, pl')"
  shows "length pl' + length ps = length pl"
    and "ps = [] \<or> (\<exists>p. ps = [p] \<and> packet_bytes p = bs \<and> ep_isKeyframe p = key)"
  using assms
  by (auto simp: emit_packet_def pool_acquire_def pool_release_def packet_bytes_def split: if_splits)


definition sample_codec :: codec where
  "sample_codec = \<lparr>co_name = ''libx264'', co_id = H264\<rparr>"

definition sample_ffmpeg :: ffmpeg where
  "sample_ffmpeg = \<lparr>ff_find = (\<lambda>n. if n = ''libx264'' then Some sample_codec else None),
     ff_find_h264 = Some sample_codec,
     ff_alloc = (\<lambda>c. Some \<lparr>cc_codec = c, cc_width = 0, cc_height = 0, cc_fps = 0, cc_pix_fmt = OtherFormat,
       cc_bit_rate = 0, cc_rc_max_rate = 0, cc_rc_buffer_size = 0, cc_gop_size = 12, cc_max_b_frames = 0,
       cc_options = [], cc_hw_device_ctx = False, cc_hw_frames_ctx = False\<rparr>), ff_pix_fmts = (\<lambda>_. [YUV420P, NV12]),
     ff_hwdevice_alloc = False, ff_hwdevice_init = False, ff_hwframe_init = False, ff_open = (\<lambda>_. True)\<rparr>"

definition sample_env :: encode_env where
  "sample_env = \<lparr>ee_descWidth = 1920, ee_descHeight = 1080, ee_descNV12 = False, ee_createStaging = True,
     ee_deviceLost = False, ee_map = True, ee_swsInit = True, ee_sendOk = True,
     ee_receive = [Received [0, 0, 1, 0x65] True, Received [1, 2] False, Again]\<rparr>"


end
