(* ===== verification/EncoderManager.thy ===== *)
theory EncoderManager
  imports Encoder StreamEngine
begin

text \<open>
  \<open>Host::EncoderManager\<close> (\<open>cpp/host/encoder_manager.cpp\<close>): the streaming state machine, the
  preflight that locks a codec, the quality tiers and the adaptation loop over
  \<open>FFmpegHardwareEncoder\<close> (theory Encoder) and \<open>AI::StreamEngine\<close> (theory StreamEngine). Every
  member function runs under \<open>m_encoderMutex\<close>, so it is a state transformer.
\<close>

section \<open>State\<close>

datatype streaming_state = IDLE | PREFLIGHT_VALIDATION | READY | STARTING | STREAMING | DEGRADED
  | RECOVERING | EMERGENCY_FALLBACK | SHUTDOWN

datatype quality_tier = TierA_HighPerformance | TierB_Balanced | TierC_LowEnd | TierD_Recovery

record quality_profile =
  qp_width :: int
  qp_height :: int
  qp_bitrateKbps :: int
  qp_preset :: int
  qp_name :: string

datatype encoder_backend = NVENC | AMF | QSV | Software | NoBackend

record encoder_capability =
  ec_backend :: encoder_backend
  ec_codecName :: string
  ec_available :: bool

record encoder_manager =
  em_capabilities :: "encoder_capability list"
  em_encoder :: "encoder_hw option"
  em_state :: streaming_state
  em_currentTier :: quality_tier
  em_currentBackend :: encoder_backend
  em_backendIndex :: nat
  em_sessionLocked :: bool
  em_lockedCodecName :: string
  em_baseWidth :: int
  em_baseHeight :: int
  em_fps :: int
  em_d3d11Device :: bool
  em_lastFrameDropRate :: flt
  em_lastAvgEncodeTimeMs :: flt
  em_lastAdjustmentTime :: u64
  em_lastEncodedSize :: nat
  em_streamEngine :: stream_engine

definition em_new :: "u64 \<Rightarrow> encoder_manager" where
  "em_new now = \<lparr>em_capabilities = [], em_encoder = None, em_state = IDLE,
     em_currentTier = TierA_HighPerformance, em_currentBackend = NoBackend, em_backendIndex = 0,
     em_sessionLocked = False, em_lockedCodecName = [], em_baseWidth = 1920, em_baseHeight = 1080,
     em_fps = 60, em_d3d11Device = False, em_lastFrameDropRate = Fin 0, em_lastAvgEncodeTimeMs = Fin 0,
     em_lastAdjustmentTime = 0, em_lastEncodedSize = 0, em_streamEngine = stream_engine_new now\<rparr>"

section \<open>The state machine\<close>

fun valid_transition :: "streaming_state \<Rightarrow> streaming_state \<Rightarrow> bool" where
  "valid_transition IDLE s = (s = STARTING)"
| "valid_transition STARTING s = (s = PREFLIGHT_VALIDATION \<or> s = SHUTDOWN)"
| "valid_transition PREFLIGHT_VALIDATION s = (s = READY \<or> s = SHUTDOWN)"
| "valid_transition READY s = (s = STREAMING \<or> s = SHUTDOWN)"
| "valid_transition STREAMING s = (s = DEGRADED \<or> s = RECOVERING \<or> s = EMERGENCY_FALLBACK \<or> s = SHUTDOWN)"
| "valid_transition DEGRADED s = (s = STREAMING \<or> s = RECOVERING \<or> s = EMERGENCY_FALLBACK \<or> s = SHUTDOWN)"
| "valid_transition RECOVERING s = (s = STREAMING \<or> s = EMERGENCY_FALLBACK \<or> s = SHUTDOWN)"
| "valid_transition EMERGENCY_FALLBACK s = (s = STREAMING \<or> s = SHUTDOWN)"
| "valid_transition SHUTDOWN s = (s = IDLE)"

definition set_state :: "streaming_state \<Rightarrow> encoder_manager \<Rightarrow> encoder_manager" where
  "set_state s m = (if em_state m = s then m else if valid_transition (em_state m) s then m\<lparr>em_state := s\<rparr> else m)"

section \<open>Codecs and tiers\<close>

definition check_codec :: "ffmpeg \<Rightarrow> string \<Rightarrow> bool" where
  "check_codec ff name = (case ff_find ff name of None \<Rightarrow> False | Some c \<Rightarrow>
     (case ff_alloc ff c of None \<Rightarrow> False | Some x \<Rightarrow>
        let want = (if name = ''libx264'' then YUV420P else NV12); fmts = ff_pix_fmts ff c;
            fmt = (if want \<notin> set fmts \<and> fmts \<noteq> [] then hd fmts else want)
        in ff_open ff (x\<lparr>cc_width := 1280, cc_height := 720, cc_fps := 60, cc_pix_fmt := fmt\<rparr>)))"

definition hardware_codecs :: "(string \<times> encoder_backend) list" where
  "hardware_codecs = [(''hevc_nvenc'', NVENC), (''h264_nvenc'', NVENC), (''hevc_qsv'', QSV),
     (''h264_qsv'', QSV), (''hevc_amf'', AMF), (''h264_amf'', AMF)]"

definition detect_capabilities :: "ffmpeg \<Rightarrow> bool \<Rightarrow> encoder_manager \<Rightarrow> encoder_manager" where
  "detect_capabilities ff useHardware m =
     (let sw = \<lparr>ec_backend = Software, ec_codecName = ''libx264'', ec_available = True\<rparr>;
          hw = (if useHardware then
             map (\<lambda>(n, b). \<lparr>ec_backend = b, ec_codecName = n, ec_available = True\<rparr>)
               (filter (\<lambda>(n, b). check_codec ff n) hardware_codecs) else []);
          caps = hw @ (if check_codec ff ''libx264'' then [sw] else [])
      in m\<lparr>em_capabilities := (if caps = [] then [sw] else caps)\<rparr>)"

fun profile_for_tier :: "encoder_manager \<Rightarrow> quality_tier \<Rightarrow> quality_profile" where
  "profile_for_tier m TierA_HighPerformance = \<lparr>qp_width = em_baseWidth m, qp_height = em_baseHeight m,
     qp_bitrateKbps = 15000, qp_preset = 2, qp_name = ''High Performance (Tier A)''\<rparr>"
| "profile_for_tier m TierB_Balanced = \<lparr>qp_width = em_baseWidth m, qp_height = em_baseHeight m,
     qp_bitrateKbps = 8000, qp_preset = 1, qp_name = ''Balanced (Tier B)''\<rparr>"
| "profile_for_tier m TierC_LowEnd = \<lparr>qp_width = 1280, qp_height = 720,
     qp_bitrateKbps = 4000, qp_preset = 0, qp_name = ''Low-End (Tier C)''\<rparr>"
| "profile_for_tier m TierD_Recovery = \<lparr>qp_width = 854, qp_height = 480,
     qp_bitrateKbps = 1500, qp_preset = 0, qp_name = ''Recovery Mode (Tier D)''\<rparr>"

definition current_bitrate :: "encoder_manager \<Rightarrow> int" where
  "current_bitrate m = qp_bitrateKbps (profile_for_tier m (em_currentTier m))"

fun preflight :: "ffmpeg \<Rightarrow> int \<Rightarrow> int \<Rightarrow> int \<Rightarrow> bool \<Rightarrow> nat \<Rightarrow> encoder_capability list
    \<Rightarrow> encoder_capability list \<times> (nat \<times> string) option" where
  "preflight ff w h fps device i [] = ([], None)"
| "preflight ff w h fps device i (c # cs) =
     (if \<not> ec_available c then (let (cs, r) = preflight ff w h fps device (Suc i) cs in (c # cs, r))
      else if fst (encoder_initialize ff w h fps 5000 device 0 (ec_codecName c) encoder_new)
           then (c # cs, Some (i, ec_codecName c))
      else (let (cs, r) = preflight ff w h fps device (Suc i) cs in (c\<lparr>ec_available := False\<rparr> # cs, r)))"

definition preflight_validation :: "ffmpeg \<Rightarrow> int \<Rightarrow> int \<Rightarrow> int \<Rightarrow> bool \<Rightarrow> encoder_manager \<Rightarrow> bool \<times> encoder_manager" where
  "preflight_validation ff w h fps device m =
     (let (caps, r) = preflight ff w h fps device 0 (em_capabilities m); m = m\<lparr>em_capabilities := caps\<rparr> in
      case r of None \<Rightarrow> (False, m)
      | Some (i, name) \<Rightarrow> (True, m\<lparr>em_backendIndex := i, em_lockedCodecName := name\<rparr>))"

section \<open>Opening the encoder\<close>

definition open_with :: "ffmpeg \<Rightarrow> string \<Rightarrow> encoder_hw \<Rightarrow> encoder_manager \<Rightarrow> bool \<times> encoder_manager" where
  "open_with ff name e m =
     (let p = profile_for_tier m (em_currentTier m);
          (ok, e) = encoder_initialize ff (qp_width p) (qp_height p) (em_fps m) (qp_bitrateKbps p)
                      (em_d3d11Device m) (qp_preset p) name e
      in if ok then (True, m\<lparr>em_encoder := Some (encoder_force_keyframe e)\<rparr>)
         else (False, m\<lparr>em_encoder := Some e\<rparr>))"

definition encoder_or_new :: "encoder_manager \<Rightarrow> encoder_hw" where
  "encoder_or_new m = (case em_encoder m of None \<Rightarrow> encoder_new | Some e \<Rightarrow> e)"

definition emergency_fallback :: "ffmpeg \<Rightarrow> encoder_manager \<Rightarrow> bool \<times> encoder_manager" where
  "emergency_fallback ff m =
     (let m = (set_state EMERGENCY_FALLBACK m)\<lparr>em_lockedCodecName := ''libx264'', em_currentBackend := Software\<rparr>
      in open_with ff ''libx264'' (encoder_or_new m) m)"

definition select_and_init :: "ffmpeg \<Rightarrow> encoder_manager \<Rightarrow> bool \<times> encoder_manager" where
  "select_and_init ff m =
     (if em_sessionLocked m then
        (let (ok, m) = open_with ff (em_lockedCodecName m) (encoder_or_new m) m in
         if ok then (True, m) else emergency_fallback ff m)
      else if length (em_capabilities m) \<le> em_backendIndex m then (False, m)
      else let i = em_backendIndex m; cap = em_capabilities m ! i;
               (ok, m) = open_with ff (ec_codecName cap) encoder_new (m\<lparr>em_currentBackend := ec_backend cap\<rparr>)
        in if ok then (True, m)
           else emergency_fallback ff (m\<lparr>em_capabilities := (em_capabilities m)[i := cap\<lparr>ec_available := False\<rparr>]\<rparr>))"

definition em_initialize :: "ffmpeg \<Rightarrow> int \<Rightarrow> int \<Rightarrow> int \<Rightarrow> bool \<Rightarrow> bool \<Rightarrow> encoder_manager \<Rightarrow> bool \<times> encoder_manager" where
  "em_initialize ff w h fps device useHardware m =
     (let m = (set_state STARTING m)\<lparr>em_baseWidth := w, em_baseHeight := h, em_fps := fps, em_d3d11Device := device,
            em_currentTier := TierA_HighPerformance, em_backendIndex := 0, em_sessionLocked := False\<rparr>;
          m = set_state PREFLIGHT_VALIDATION (detect_capabilities ff useHardware m);
          (ok, m) = preflight_validation ff w h fps device m
      in if \<not> ok then (False, set_state SHUTDOWN m)
         else let m = set_state READY (m\<lparr>em_sessionLocked := True\<rparr>); (ok, m) = select_and_init ff m
           in if ok then (True, set_state STREAMING m) else (False, set_state SHUTDOWN m))"

section \<open>Encoding and adaptation\<close>

definition request_keyframe :: "encoder_manager \<Rightarrow> encoder_manager" where
  "request_keyframe m = m\<lparr>em_encoder := map_option encoder_force_keyframe (em_encoder m)\<rparr>"

definition encoder_ready :: "encoder_manager \<Rightarrow> bool" where
  "encoder_ready m \<longleftrightarrow> (case em_encoder m of None \<Rightarrow> False | Some e \<Rightarrow> he_initialized e)"

definition encode_ready ::
  "ffmpeg \<Rightarrow> encode_env \<Rightarrow> bool \<Rightarrow> encoder_manager \<Rightarrow> packet_pool
    \<Rightarrow> fault + (bool \<times> encoded_packet list \<times> encoder_manager \<times> packet_pool)" where
  "encode_ready ff env texture m pl =
     fbind (encoder_encode env texture (encoder_or_new m) pl) (\<lambda>r.
       let m = m\<lparr>em_encoder := Some (er_encoder r)\<rparr> in
       if \<not> er_ok r then (let (ok, m) = emergency_fallback ff m in Inr (ok, er_packets r, m, er_pool r))
       else Inr (True, er_packets r,
         m\<lparr>em_lastEncodedSize := sum_list (map (\<lambda>p. pk_size (ep_packet p)) (er_packets r))\<rparr>, er_pool r))"

definition em_encode_frame ::
  "ffmpeg \<Rightarrow> encode_env \<Rightarrow> bool \<Rightarrow> encoder_manager \<Rightarrow> packet_pool
    \<Rightarrow> fault + (bool \<times> encoded_packet list \<times> encoder_manager \<times> packet_pool)" where
  "em_encode_frame ff env texture m pl =
     (if encoder_ready m then encode_ready ff env texture m pl
      else if em_sessionLocked m then
        (let (ok, m) = select_and_init ff m in
         if ok then encode_ready ff env texture m pl else Inr (False, [], m, pl))
      else Inr (False, [], m, pl))"

definition em_set_bitrate :: "int \<Rightarrow> encoder_manager \<Rightarrow> fault + encoder_manager" where
  "em_set_bitrate b m = (case em_encoder m of None \<Rightarrow> Inr m
     | Some e \<Rightarrow> fbind (encoder_set_bitrate b e) (\<lambda>e. Inr (m\<lparr>em_encoder := Some e\<rparr>)))"

fun improved :: "quality_tier \<Rightarrow> quality_tier" where
  "improved TierB_Balanced = TierA_HighPerformance"
| "improved TierC_LowEnd = TierB_Balanced"
| "improved TierD_Recovery = TierC_LowEnd"
| "improved TierA_HighPerformance = TierA_HighPerformance"

fun lowered :: "quality_tier \<Rightarrow> quality_tier" where
  "lowered TierA_HighPerformance = TierB_Balanced"
| "lowered TierB_Balanced = TierC_LowEnd"
| "lowered TierC_LowEnd = TierD_Recovery"
| "lowered TierD_Recovery = TierD_Recovery"

definition adjust_tier :: "ffmpeg \<Rightarrow> bool \<Rightarrow> encoder_manager \<Rightarrow> fault + encoder_manager" where
  "adjust_tier ff improve m =
     (let old = em_currentTier m; tier = (if improve then improved old else lowered old);
          m = m\<lparr>em_currentTier := tier\<rparr>
      in if tier = old then Inr m
         else let p = profile_for_tier m old; q = profile_for_tier m tier in
           if em_encoder m \<noteq> None \<and> qp_width p = qp_width q \<and> qp_height p = qp_height q
           then em_set_bitrate (qp_bitrateKbps q) m
           else Inr (snd (select_and_init ff m)))"

definition scene_complexity :: "encoder_manager \<Rightarrow> flt" where
  "scene_complexity m =
     (let bitsPerFrame = fdiv f32 (fmul f32 (flt_of_int f32 (current_bitrate m)) (Fin 1000)) (flt_of_int f32 (em_fps m));
          budget = fdiv f32 bitsPerFrame (Fin 8)
      in fclamp (fdiv f32 (flt_of_int f32 (int (em_lastEncodedSize m))) (fmul f32 budget (fc (15 / 10))))
           (fc (1 / 10)) (Fin 1))"

definition ai_state :: "encoder_manager \<Rightarrow> flt \<Rightarrow> stream_state" where
  "ai_state m frameDropRate = \<lparr>ss_currentBitrateKbps = current_bitrate m, ss_currentWidth = em_baseWidth m,
     ss_currentHeight = em_baseHeight m, ss_currentFPS = em_fps m, ss_packetLoss = frameDropRate,
     ss_rttMs = Fin 0, ss_sceneComplexity = scene_complexity m\<rparr>"

definition apply_decision :: "adaptation_decision \<Rightarrow> encoder_manager \<Rightarrow> fault + encoder_manager" where
  "apply_decision d m =
     (if ad_action d = EmergencyThrottle \<or> ad_action d = DecreaseBitrate \<or> ad_action d = IncreaseBitrate
      then em_set_bitrate (ad_targetBitrateKbps d) m else Inr m)"

definition needs_downgrade :: "encoder_manager \<Rightarrow> flt \<Rightarrow> bool" where
  "needs_downgrade m decodeTime =
     (let budget = fdiv f32 (Fin 1000) (flt_of_int f32 (em_fps m)); limit = fmul f32 budget (fc (8 / 10)) in
      flt_lt (fc (10 / 100)) (em_lastFrameDropRate m) \<or> flt_lt limit (em_lastAvgEncodeTimeMs m)
      \<or> flt_lt (Fin 0) decodeTime \<and> flt_lt limit decodeTime)"

definition downgrade :: "ffmpeg \<Rightarrow> u64 \<Rightarrow> flt \<Rightarrow> encoder_manager \<Rightarrow> fault + encoder_manager" where
  "downgrade ff now decodeTime m =
     (if now - em_lastAdjustmentTime m < 5000 then Inr m
      else if needs_downgrade m decodeTime then
        (let m = (if em_currentTier m \<noteq> TierD_Recovery then set_state DEGRADED m else m) in
         fbind (adjust_tier ff False m) (\<lambda>m. Inr (m\<lparr>em_lastAdjustmentTime := now\<rparr>)))
      else Inr m)"

definition update_metrics ::
  "ffmpeg \<Rightarrow> u64 \<Rightarrow> u64 \<Rightarrow> flt \<Rightarrow> flt \<Rightarrow> flt \<Rightarrow> int \<Rightarrow> prediction option \<Rightarrow> encoder_manager \<Rightarrow> fault + encoder_manager" where
  "update_metrics ff now1 now2 dropRate enc decodeTime target ai m =
     fbind (if 0 < target then em_set_bitrate target m else Inr m) (\<lambda>m.
       let m = (if fle (Fin 0) dropRate then m\<lparr>em_lastFrameDropRate := dropRate\<rparr> else m);
           m = (if fle (Fin 0) enc then m\<lparr>em_lastAvgEncodeTimeMs := enc\<rparr> else m);
           pred = (case ai of Some p \<Rightarrow> p | None \<Rightarrow> \<lparr>pr_predictedRttMs = Fin 0, pr_predictedJitterMs = Fin 0,
             pr_predictedLossRate = dropRate, pr_confidenceScore = Fin 1\<rparr>)
       in fbind (analyze (em_streamEngine m) now1 (ai_state m dropRate) pred) (\<lambda>(e, d).
          fbind (apply_decision d (m\<lparr>em_streamEngine := e\<rparr>)) (\<lambda>m. downgrade ff now2 decodeTime m)))"

definition em_shutdown :: "encoder_manager \<Rightarrow> encoder_manager" where
  "em_shutdown m = (set_state SHUTDOWN m)\<lparr>em_encoder := None\<rparr>"

definition em_is_hevc :: "encoder_manager \<Rightarrow> bool" where
  "em_is_hevc m = (case em_encoder m of Some e \<Rightarrow> encoder_is_hevc e
     | None \<Rightarrow> contains ''hevc'' (em_lockedCodecName m) \<or> contains ''265'' (em_lockedCodecName m))"

section \<open>Reachable states\<close>

datatype em_op = Initialize int int int bool bool
  | EncodeFrame encode_env bool packet_pool
  | UpdateMetrics u64 u64 flt flt flt int "prediction option"
  | RequestKeyframe | ShutDown

definition em_step :: "ffmpeg \<Rightarrow> em_op \<Rightarrow> encoder_manager \<Rightarrow> fault + encoder_manager" where
  "em_step ff op m = (case op of
     Initialize w h fps device useHardware \<Rightarrow> Inr (snd (em_initialize ff w h fps device useHardware m))
   | EncodeFrame env texture pl \<Rightarrow> fbind (em_encode_frame ff env texture m pl) (\<lambda>(ok, out, m, pl). Inr m)
   | UpdateMetrics now1 now2 dropRate enc dec target ai \<Rightarrow> update_metrics ff now1 now2 dropRate enc dec target ai m
   | RequestKeyframe \<Rightarrow> Inr (request_keyframe m)
   | ShutDown \<Rightarrow> Inr (em_shutdown m))"

fun em_run :: "ffmpeg \<Rightarrow> em_op list \<Rightarrow> encoder_manager \<Rightarrow> fault + encoder_manager" where
  "em_run ff [] m = Inr m"
| "em_run ff (op # ops) m = fbind (em_step ff op m) (em_run ff ops)"

text \<open>The states a caller can observe between two operations.\<close>

definition observable :: "streaming_state \<Rightarrow> bool" where
  "observable s \<longleftrightarrow> s \<in> {IDLE, STREAMING, DEGRADED, EMERGENCY_FALLBACK, SHUTDOWN}"

text \<open>Between two observable states: nothing, or a fallback, from where it is valid.\<close>

definition may_fall_back :: "encoder_manager \<Rightarrow> encoder_manager \<Rightarrow> bool" where
  "may_fall_back m m' \<longleftrightarrow> (em_state m' = em_state m \<or> em_state m' = em_state (set_state EMERGENCY_FALLBACK m))
     \<and> em_currentTier m' = em_currentTier m \<and> em_sessionLocked m' = em_sessionLocked m"

lemma set_state_fields [simp]: "em_currentTier (set_state s m) = em_currentTier m"
  "em_sessionLocked (set_state s m) = em_sessionLocked m" "em_encoder (set_state s m) = em_encoder m"
  "em_capabilities (set_state s m) = em_capabilities m" "em_lockedCodecName (set_state s m) = em_lockedCodecName m"
  "em_baseWidth (set_state s m) = em_baseWidth m" "em_baseHeight (set_state s m) = em_baseHeight m"
  "em_fps (set_state s m) = em_fps m" "em_d3d11Device (set_state s m) = em_d3d11Device m"
  by (simp_all add: set_state_def)

lemma open_with_fields [simp]: "em_state (snd (open_with ff n e m)) = em_state m"
  "em_currentTier (snd (open_with ff n e m)) = em_currentTier m"
  "em_sessionLocked (snd (open_with ff n e m)) = em_sessionLocked m"
  "em_capabilities (snd (open_with ff n e m)) = em_capabilities m"
  "em_lockedCodecName (snd (open_with ff n e m)) = em_lockedCodecName m"
  "em_baseWidth (snd (open_with ff n e m)) = em_baseWidth m"
  by (simp_all add: open_with_def Let_def split: prod.split)

lemma set_state_cong: "em_state m = em_state n \<Longrightarrow> em_state (set_state s m) = em_state (set_state s n)"
  by (simp add: set_state_def)

lemma emergency_fallback_may: "may_fall_back m (snd (emergency_fallback ff m))"
  by (simp add: may_fall_back_def emergency_fallback_def Let_def)

lemma may_fall_back_trans: "may_fall_back a b \<Longrightarrow> may_fall_back b c \<Longrightarrow> may_fall_back a c"
  by (auto simp: may_fall_back_def set_state_def split: if_splits)

lemma may_fall_back_open: "may_fall_back m (snd (open_with ff n e m))"
  by (simp add: may_fall_back_def)

lemma may_fall_back_same: "em_state m' = em_state m \<Longrightarrow> em_currentTier m' = em_currentTier m \<Longrightarrow>
    em_sessionLocked m' = em_sessionLocked m \<Longrightarrow> may_fall_back m m'"
  by (simp add: may_fall_back_def)

lemma select_and_init_may: "may_fall_back m (snd (select_and_init ff m))"
proof -
  have o: "may_fall_back m x" if "open_with ff n e m = (ok, x)" for n e ok x
    using may_fall_back_open [of m ff n e] that by simp
  have o2: "may_fall_back m (x\<lparr>em_capabilities := c\<rparr>)" if "open_with ff n e (m\<lparr>em_currentBackend := b\<rparr>) = (ok, x)" for n e ok x b c
    using open_with_fields [of ff n e "m\<lparr>em_currentBackend := b\<rparr>"] that by (simp add: may_fall_back_def)
  have o3: "may_fall_back m x" if "open_with ff n e (m\<lparr>em_currentBackend := b\<rparr>) = (ok, x)" for n e ok x b
    using open_with_fields [of ff n e "m\<lparr>em_currentBackend := b\<rparr>"] that by (simp add: may_fall_back_def)
  show ?thesis
    by (auto simp: select_and_init_def Let_def split: prod.split dest: o o3
      intro: may_fall_back_same may_fall_back_trans [OF o emergency_fallback_may] may_fall_back_trans [OF o2 emergency_fallback_may])
qed

lemma encode_ready_may:
  assumes "encode_ready ff env t m pl = Inr (ok, out, m', pl')"
  shows "may_fall_back m m'"
proof -
  have same: "may_fall_back m (m\<lparr>em_encoder := e\<rparr>)" for e by (simp add: may_fall_back_def)
  have fb: "may_fall_back m x" if "emergency_fallback ff (m\<lparr>em_encoder := e\<rparr>) = (b, x)" for e b x
    using may_fall_back_trans [OF same emergency_fallback_may [of "m\<lparr>em_encoder := e\<rparr>" ff]] that by simp
  show ?thesis using assms
    by (auto simp: encode_ready_def fbind_Inr_iff Let_def split: if_splits prod.splits dest: fb)
       (simp_all add: may_fall_back_def)
qed

lemma em_encode_frame_may:
  assumes "em_encode_frame ff env t m pl = Inr (ok, out, m', pl')"
  shows "may_fall_back m m'"
proof -
  have sel: "may_fall_back m x" if "select_and_init ff m = (b, x)" for b x
    using select_and_init_may [of m ff] that by simp
  show ?thesis using assms
    by (auto simp: em_encode_frame_def split: if_splits prod.splits
      dest: encode_ready_may sel intro: may_fall_back_same may_fall_back_trans [OF sel encode_ready_may])
qed

fun tier_rank :: "quality_tier \<Rightarrow> nat" where
  "tier_rank TierA_HighPerformance = 0" | "tier_rank TierB_Balanced = 1"
| "tier_rank TierC_LowEnd = 2" | "tier_rank TierD_Recovery = 3"

text \<open>What every operation but \<open>Initialize\<close> respects.\<close>

definition drifts :: "encoder_manager \<Rightarrow> encoder_manager \<Rightarrow> bool" where
  "drifts m m' \<longleftrightarrow> (em_state m = SHUTDOWN \<longrightarrow> em_state m' = SHUTDOWN)
     \<and> (observable (em_state m) \<longrightarrow> observable (em_state m'))
     \<and> tier_rank (em_currentTier m) \<le> tier_rank (em_currentTier m')"

lemma drifts_refl [simp]: "drifts m m"
  by (simp add: drifts_def)

lemma drifts_trans: "drifts a b \<Longrightarrow> drifts b c \<Longrightarrow> drifts a c"
  by (auto simp: drifts_def)

lemma may_fall_back_drifts: "may_fall_back m m' \<Longrightarrow> drifts m m'"
  by (cases "em_state m") (auto simp: drifts_def may_fall_back_def set_state_def observable_def)

lemma drifts_same: "em_state m' = em_state m \<Longrightarrow> em_currentTier m' = em_currentTier m \<Longrightarrow> drifts m m'"
  by (simp add: drifts_def)

lemma em_set_bitrate_fields:
  "em_set_bitrate b m = Inr m' \<Longrightarrow> em_state m' = em_state m \<and> em_currentTier m' = em_currentTier m"
  by (auto simp: em_set_bitrate_def fbind_Inr_iff split: option.splits)

lemma set_degraded_drifts: "drifts m (set_state DEGRADED m)"
  by (cases "em_state m") (auto simp: drifts_def set_state_def observable_def)

lemma tier_lowered: "tier_rank t \<le> tier_rank (lowered t)"
  by (cases t) simp_all

lemma adjust_tier_drifts:
  assumes "adjust_tier ff False m = Inr m'"
  shows "drifts m m'"
proof -
  let ?n = "m\<lparr>em_currentTier := lowered (em_currentTier m)\<rparr>"
  have n: "drifts m ?n" by (simp add: drifts_def tier_lowered)
  have "drifts ?n m'" using assms em_set_bitrate_fields [of _ ?n m'] select_and_init_may [of ?n ff]
    by (auto simp: adjust_tier_def Let_def intro: drifts_same may_fall_back_drifts split: if_splits)
  with n show ?thesis by (rule drifts_trans)
qed

lemma downgrade_drifts:
  assumes "downgrade ff now d m = Inr m'"
  shows "drifts m m'"
proof -
  have adj: "drifts m (x\<lparr>em_lastAdjustmentTime := now\<rparr>)" if "adjust_tier ff False n = Inr x" "drifts m n" for n x
    using drifts_trans [OF that(2) adjust_tier_drifts [OF that(1)]] by (simp add: drifts_def)
  show ?thesis using assms set_degraded_drifts [of m]
    by (auto simp: downgrade_def fbind_Inr_iff Let_def intro: adj split: if_splits)
qed

lemma update_metrics_drifts:
  assumes "update_metrics ff n1 n2 r enc dec target ai m = Inr m'"
  shows "drifts m m'"
proof -
  obtain a where a: "(if 0 < target then em_set_bitrate target m else Inr m) = Inr a"
    "update_metrics ff n1 n2 r enc dec 0 ai a = Inr m'"
    using assms by (auto simp: update_metrics_def fbind_Inr_iff split: if_splits)
  have "drifts m a" using a(1) em_set_bitrate_fields [of target m a] by (auto intro: drifts_same split: if_splits)
  moreover have "drifts a m'"
  proof -
    obtain e d b where b: "apply_decision d (((if fle (Fin 0) enc then (if fle (Fin 0) r then a\<lparr>em_lastFrameDropRate := r\<rparr> else a)\<lparr>em_lastAvgEncodeTimeMs := enc\<rparr>
        else (if fle (Fin 0) r then a\<lparr>em_lastFrameDropRate := r\<rparr> else a)))\<lparr>em_streamEngine := e\<rparr>) = Inr b"
      "downgrade ff n2 dec b = Inr m'"
      using a(2) by (auto simp: update_metrics_def fbind_Inr_iff Let_def split: prod.splits)
    have "drifts a b" using b(1) em_set_bitrate_fields
      by (intro drifts_same) (auto simp: apply_decision_def split: if_splits)
    then show ?thesis using downgrade_drifts [OF b(2)] by (rule drifts_trans)
  qed
  ultimately show ?thesis by (rule drifts_trans)
qed

fun is_initialize :: "em_op \<Rightarrow> bool" where
  "is_initialize (Initialize _ _ _ _ _) = True"
| "is_initialize _ = False"

lemma em_step_drifts:
  assumes "em_step ff op m = Inr m'" "\<not> is_initialize op"
  shows "drifts m m'"
proof (cases op)
  case ShutDown
  then show ?thesis using assms by (cases "em_state m")
    (auto simp: em_step_def em_shutdown_def set_state_def drifts_def observable_def)
qed (use assms em_encode_frame_may update_metrics_drifts may_fall_back_drifts in
  \<open>auto simp: em_step_def request_keyframe_def fbind_Inr_iff intro: drifts_same\<close>)

lemma preflight_validation_fields [simp]:
  "em_state (snd (preflight_validation ff w h fps d m)) = em_state m"
  by (simp add: preflight_validation_def Let_def split: prod.split option.split)

text \<open>\<open>Initialize\<close>: from an observable state, ready at STREAMING or down at SHUTDOWN, except that
  a manager once shut down stays there.\<close>

lemma em_initialize_state:
  assumes "observable (em_state m)"
  shows "em_state (snd (em_initialize ff w h fps d hw m)) =
    (if em_state m = SHUTDOWN \<or> \<not> fst (em_initialize ff w h fps d hw m) then SHUTDOWN else STREAMING)"
proof -
  define a where "a = (set_state STARTING m)\<lparr>em_baseWidth := w, em_baseHeight := h, em_fps := fps, em_d3d11Device := d,
            em_currentTier := TierA_HighPerformance, em_backendIndex := 0, em_sessionLocked := False\<rparr>"
  define b where "b = set_state PREFLIGHT_VALIDATION (detect_capabilities ff hw a)"
  obtain ok c where c: "preflight_validation ff w h fps d b = (ok, c)" by (cases "preflight_validation ff w h fps d b")
  have sb: "em_state b = (if em_state m = IDLE then PREFLIGHT_VALIDATION else em_state m)"
    using assms by (auto simp: b_def a_def set_state_def detect_capabilities_def Let_def observable_def)
  have sc: "em_state c = em_state b" using preflight_validation_fields [of ff w h fps d b] c by simp
  define e where "e = set_state READY (c\<lparr>em_sessionLocked := True\<rparr>)"
  obtain ok2 f where f: "select_and_init ff e = (ok2, f)" by (cases "select_and_init ff e")
  have init: "em_initialize ff w h fps d hw m = (if \<not> ok then (False, set_state SHUTDOWN c)
      else if ok2 then (True, set_state STREAMING f) else (False, set_state SHUTDOWN f))"
    by (simp add: em_initialize_def Let_def a_def [symmetric] b_def [symmetric] c e_def [symmetric] f split: prod.split)
  have "may_fall_back e f" using select_and_init_may [of e ff] f by simp
  then show ?thesis unfolding init using assms sb sc
    by (cases "em_state m") (auto simp: e_def may_fall_back_def set_state_def observable_def)
qed

lemma em_step_observable:
  "observable (em_state m) \<Longrightarrow> em_step ff op m = Inr m' \<Longrightarrow>
    observable (em_state m') \<and> (em_state m = SHUTDOWN \<longrightarrow> em_state m' = SHUTDOWN)"
proof (cases "is_initialize op")
  case True
  assume o: "observable (em_state m)" and s: "em_step ff op m = Inr m'"
  then obtain w h fps d hw where "m' = snd (em_initialize ff w h fps d hw m)"
    using True by (cases op) (auto simp: em_step_def)
  then show ?thesis using em_initialize_state [OF o, of ff w h fps d hw] by (auto simp: observable_def)
qed (use em_step_drifts drifts_def in blast)

lemma em_run_observable:
  "observable (em_state m) \<Longrightarrow> em_run ff ops m = Inr m' \<Longrightarrow>
    observable (em_state m') \<and> (em_state m = SHUTDOWN \<longrightarrow> em_state m' = SHUTDOWN)"
  by (induction ops arbitrary: m) (auto simp: fbind_Inr_iff dest: em_step_observable)

lemma em_run_drifts: "em_run ff ops m = Inr m' \<Longrightarrow> list_all (\<lambda>op. \<not> is_initialize op) ops \<Longrightarrow> drifts m m'"
  by (induction ops arbitrary: m) (auto simp: fbind_Inr_iff intro: drifts_trans em_step_drifts)


definition start_1080p :: em_op where
  "start_1080p = Initialize 1920 1080 60 True True"


section \<open>Initialisation\<close>

lemma encoder_initialize_ok:
  assumes "encoder_initialize ff w h fps b d p n e = (True, e')"
  shows "he_initialized e' \<and> he_width e' = w \<and> he_height e' = h \<and> he_fps e' = fps \<and> he_bitrate e' = b
    \<and> (\<exists>x. he_codecCtx e' = Some x \<and> cc_width x = w \<and> cc_height x = h \<and> cc_bit_rate x = b * 1000)"
  using assms
  by (auto simp: encoder_initialize_def try_initialize_def attach_d3d11_def new_ctx_def encoder_shutdown_def Let_def
      split: prod.splits option.splits if_splits)

lemma open_with_ok:
  assumes "open_with ff n e m = (True, m')"
  obtains e' where "em_encoder m' = Some e'" "he_initialized e'" "he_forceKeyframe e'"
    "he_width e' = qp_width (profile_for_tier m (em_currentTier m))"
    "he_bitrate e' = qp_bitrateKbps (profile_for_tier m (em_currentTier m))"
proof -
  let ?p = "profile_for_tier m (em_currentTier m)"
  obtain ok e2 where i: "encoder_initialize ff (qp_width ?p) (qp_height ?p) (em_fps m) (qp_bitrateKbps ?p)
      (em_d3d11Device m) (qp_preset ?p) n e = (ok, e2)"
    by (cases "encoder_initialize ff (qp_width ?p) (qp_height ?p) (em_fps m) (qp_bitrateKbps ?p)
      (em_d3d11Device m) (qp_preset ?p) n e")
  then have "ok" "m' = m\<lparr>em_encoder := Some (encoder_force_keyframe e2)\<rparr>"
    using assms by (auto simp: open_with_def Let_def split: if_splits)
  with that i encoder_initialize_ok show thesis by (simp add: encoder_force_keyframe_def)
qed

lemma open_with_tier_A:
  assumes "open_with ff n e m = (True, m')" "em_currentTier m = TierA_HighPerformance"
  shows "\<exists>e'. em_encoder m' = Some e' \<and> he_initialized e' \<and> he_forceKeyframe e' \<and> he_width e' = em_baseWidth m
    \<and> he_bitrate e' = 15000"
  by (rule open_with_ok [OF assms(1)]) (simp add: assms(2))

lemma preflight_chosen: "preflight ff w h fps d i cs = (cs', Some (j, n)) \<Longrightarrow>
    \<exists>c \<in> set cs. ec_available c \<and> ec_codecName c = n \<and> fst (encoder_initialize ff w h fps 5000 d 0 n encoder_new)"
  by (induction cs arbitrary: i cs') (auto split: if_splits prod.splits)

text \<open>A successful initialisation locks a codec that passed the preflight on this machine, or
  libx264 when that one would not open again; the encoder is open at the best tier's size and
  bitrate with a keyframe pending, and the state is STREAMING unless the manager had been shut
  down. A failed one ends in SHUTDOWN.\<close>
theorem initialize_locks_codec:
  assumes "observable (em_state m)" "em_initialize ff w h fps d hw m = (ok, m')"
  shows "(ok \<longrightarrow> em_sessionLocked m' \<and> em_currentTier m' = TierA_HighPerformance
      \<and> (\<exists>e. em_encoder m' = Some e \<and> he_initialized e \<and> he_forceKeyframe e \<and> he_width e = w \<and> he_bitrate e = 15000)
      \<and> (em_lockedCodecName m' = ''libx264''
         \<or> fst (encoder_initialize ff w h fps 5000 d 0 (em_lockedCodecName m') encoder_new))
      \<and> em_state m' = (if em_state m = SHUTDOWN then SHUTDOWN else STREAMING))
    \<and> (\<not> ok \<longrightarrow> em_state m' = SHUTDOWN)"
proof -
  define a where "a = (set_state STARTING m)\<lparr>em_baseWidth := w, em_baseHeight := h, em_fps := fps, em_d3d11Device := d,
            em_currentTier := TierA_HighPerformance, em_backendIndex := 0, em_sessionLocked := False\<rparr>"
  define b where "b = set_state PREFLIGHT_VALIDATION (detect_capabilities ff hw a)"
  obtain ok1 c where c: "preflight_validation ff w h fps d b = (ok1, c)" by (cases "preflight_validation ff w h fps d b")
  define e where "e = set_state READY (c\<lparr>em_sessionLocked := True\<rparr>)"
  obtain ok2 f where f: "select_and_init ff e = (ok2, f)" by (cases "select_and_init ff e")
  have init: "em_initialize ff w h fps d hw m = (if \<not> ok1 then (False, set_state SHUTDOWN c)
      else if ok2 then (True, set_state STREAMING f) else (False, set_state SHUTDOWN f))"
    by (simp add: em_initialize_def Let_def a_def [symmetric] b_def [symmetric] c e_def [symmetric] f split: prod.split)
  have st: "em_state m' = (if em_state m = SHUTDOWN \<or> \<not> ok then SHUTDOWN else STREAMING)"
    using em_initialize_state [OF assms(1), of ff w h fps d hw] assms(2) by simp
  show ?thesis
  proof (cases ok)
    case False
    then show ?thesis using st by simp
  next
    case True
    then have ok12: "ok1" "ok2" and m': "m' = set_state STREAMING f" using assms(2) init by (auto split: if_splits)
    have b_tier: "em_currentTier b = TierA_HighPerformance" "em_baseWidth b = w"
      by (simp_all add: b_def a_def detect_capabilities_def Let_def)
    have e_tier: "em_currentTier e = TierA_HighPerformance" "em_baseWidth e = w" "em_sessionLocked e"
      and locked: "fst (encoder_initialize ff w h fps 5000 d 0 (em_lockedCodecName e) encoder_new)"
      using c ok12 b_tier preflight_chosen [of ff w h fps d 0 "em_capabilities b"]
      by (auto simp: e_def preflight_validation_def Let_def split: prod.splits option.splits)
    obtain okx x where x: "open_with ff (em_lockedCodecName e) (encoder_or_new e) e = (okx, x)"
      by (cases "open_with ff (em_lockedCodecName e) (encoder_or_new e) e")
    have xf: "em_currentTier x = TierA_HighPerformance" "em_sessionLocked x" "em_lockedCodecName x = em_lockedCodecName e"
      "em_baseWidth x = w"
      using open_with_fields [of ff "em_lockedCodecName e" "encoder_or_new e" e] x e_tier by simp_all
    show ?thesis
    proof (cases okx)
      case True
      then have fx: "f = x" using f x e_tier by (simp add: select_and_init_def)
      have "open_with ff (em_lockedCodecName e) (encoder_or_new e) e = (True, x)" using x True by simp
      from open_with_tier_A [OF this e_tier(1)] e_tier(2) show ?thesis using st fx xf locked by (simp add: m')
    next
      case False
      then have "emergency_fallback ff x = (True, f)" using f x e_tier ok12 by (simp add: select_and_init_def)
      then obtain y where y: "open_with ff ''libx264'' (encoder_or_new y) y = (True, f)"
        "em_currentTier y = TierA_HighPerformance" "em_baseWidth y = w" "em_sessionLocked y" "em_lockedCodecName y = ''libx264''"
        using xf by (auto simp: emergency_fallback_def Let_def)
      from open_with_tier_A [OF y(1,2)] y(3) show ?thesis using st y(4,5) y(1,2) open_with_fields [of ff "''libx264''" "encoder_or_new y" y] by (simp add: m')
    qed
  qed
qed

theorem initialize_locks_codec_witness:
  "\<exists>m'. em_initialize sample_ffmpeg 1920 1080 60 True True (em_new 0) = (True, m')
     \<and> em_state m' = STREAMING \<and> em_sessionLocked m'"
proof -
  have "fst (em_initialize sample_ffmpeg 1920 1080 60 True True (em_new 0))" by code_simp
  then obtain m' where r: "em_initialize sample_ffmpeg 1920 1080 60 True True (em_new 0) = (True, m')"
    by (metis prod.collapse)
  have o: "observable (em_state (em_new 0))" "em_state (em_new 0) \<noteq> SHUTDOWN" by (simp_all add: em_new_def observable_def)
  show ?thesis using initialize_locks_codec [OF o(1) r] r o(2) by auto
qed

section \<open>Consequences the code does not intend\<close>

text \<open>The adaptation compares the forecast with a round trip of zero: any positive forecast is
  congestion.\<close>

lemma any_rtt_is_congestion:
  "flt_lt (Fin 0) (pr_predictedRttMs p) \<Longrightarrow> congested (ai_state m r) p"
proof -
  have "fmul f32 (Fin 0) (fc (12 / 10)) = Fin 0" by code_simp
  then show "flt_lt (Fin 0) (pr_predictedRttMs p) \<Longrightarrow> ?thesis" by (simp add: congested_def ai_state_def)
qed

text \<open>\<open>Shutdown\<close> leaves the session locked, so the next \<open>EncodeFrame\<close> opens a new encoder while
  the state stays SHUTDOWN.\<close>

lemma encode_after_shutdown_reopens:
  "case em_run sample_ffmpeg [start_1080p, ShutDown, EncodeFrame sample_env True (pool_new 2 10)] (em_new 0) of
     Inl _ \<Rightarrow> False | Inr m \<Rightarrow> em_state m = SHUTDOWN \<and> encoder_ready m"
  by code_simp

end
