(* ===== verification/InputInjector.thy ===== *)
theory InputInjector
  imports Wire Floats
begin

text \<open>
  \<open>Host::InputInjector\<close> (\<open>cpp/host/input_injector.cpp\<close>), the Windows build with ViGEm: the
  \<open>INPUT\<close> structures passed to \<open>SendInput\<close> and the table of virtual controllers. Whether a
  ViGEm call succeeds is an argument; a \<open>PVIGEM_TARGET\<close> is the number of its allocation.
\<close>

section \<open>What reaches the operating system\<close>

datatype host_input = KeyInput u16 u32 | MouseInput int int u32 u32
  | PlugIn nat | Unplug nat | PadReport nat GamepadState

definition KEYEVENTF_KEYUP :: u32 where "KEYEVENTF_KEYUP = 2"
definition KEYEVENTF_EXTENDEDKEY :: u32 where "KEYEVENTF_EXTENDEDKEY = 1"
definition MOUSEEVENTF_MOVE :: u32 where "MOUSEEVENTF_MOVE = 1"
definition MOUSEEVENTF_ABSOLUTE :: u32 where "MOUSEEVENTF_ABSOLUTE = 0x8000"
definition MOUSEEVENTF_WHEEL :: u32 where "MOUSEEVENTF_WHEEL = 0x800"

record injector =
  inj_vigem :: bool
  inj_targets :: "string \<times> u8 \<Rightarrow> nat option"
  inj_allocated :: nat

definition injector_new :: "bool \<Rightarrow> injector" where
  "injector_new bus = \<lparr>inj_vigem = bus, inj_targets = (\<lambda>_. None), inj_allocated = 0\<rparr>"

definition inject_keyboard :: "KeyboardEvent \<Rightarrow> host_input" where
  "inject_keyboard ev = KeyInput (ke_vkCode ev)
     ((if ke_isPressed ev \<noteq> 0 then 0 else KEYEVENTF_KEYUP)
      OR (if 255 < ke_vkCode ev then KEYEVENTF_EXTENDEDKEY else 0))"

definition inject_mouse_scroll :: "MouseScrollEvent \<Rightarrow> host_input" where
  "inject_mouse_scroll ev = MouseInput 0 0 MOUSEEVENTF_WHEEL (ms_delta ev)"

definition screen_axis :: "u32 \<Rightarrow> u32 \<Rightarrow> fault + int" where
  "screen_axis x extent = to_int32 (fdiv f64 (fmul f64 (flt_of_int f64 (sint x)) (Fin 65535))
     (flt_of_int f64 (uint (max 1 extent))))"

definition inject_mouse_move :: "MouseMoveEvent \<Rightarrow> fault + host_input" where
  "inject_mouse_move ev =
     (if mm_isRelative ev \<noteq> 0 then Inr (MouseInput (sint (mm_x ev)) (sint (mm_y ev)) MOUSEEVENTF_MOVE 0)
      else fbind (screen_axis (mm_x ev) (mm_screenWidth ev)) (\<lambda>dx.
           fbind (screen_axis (mm_y ev) (mm_screenHeight ev)) (\<lambda>dy.
             Inr (MouseInput dx dy (MOUSEEVENTF_ABSOLUTE OR MOUSEEVENTF_MOVE) 0))))"

definition inject_mouse_button :: "MouseButtonEvent \<Rightarrow> host_input" where
  "inject_mouse_button ev =
     (let dn = mb_isPressed ev \<noteq> 0; b = mb_button ev in
      if b = 1 then MouseInput 0 0 (if dn then 0x02 else 0x04) 0
      else if b = 2 then MouseInput 0 0 (if dn then 0x08 else 0x10) 0
      else if b = 3 then MouseInput 0 0 (if dn then 0x20 else 0x40) 0
      else if b = 4 then MouseInput 0 0 (if dn then 0x80 else 0x100) 1
      else if b = 5 then MouseInput 0 0 (if dn then 0x80 else 0x100) 2
      else MouseInput 0 0 0 0)"

definition handle_gamepad_status ::
  "bool \<Rightarrow> string \<Rightarrow> GamepadStatusEvent \<Rightarrow> injector \<Rightarrow> host_input list \<times> injector" where
  "handle_gamepad_status addOk clientIp ev j =
     (if \<not> inj_vigem j then ([], j)
      else let key = (clientIp, ge_gamepadId ev) in
        if ge_isConnected ev \<noteq> 0 then
          (case inj_targets j key of Some _ \<Rightarrow> ([], j)
           | None \<Rightarrow> let t = inj_allocated j; j = j\<lparr>inj_allocated := t + 1\<rparr> in
               if addOk then ([PlugIn t], j\<lparr>inj_targets := (inj_targets j)(key \<mapsto> t)\<rparr>) else ([], j))
        else (case inj_targets j key of None \<Rightarrow> ([], j)
           | Some t \<Rightarrow> ([Unplug t], j\<lparr>inj_targets := (inj_targets j)(key := None)\<rparr>)))"

definition inject_gamepad :: "string \<Rightarrow> GamepadState \<Rightarrow> injector \<Rightarrow> host_input list" where
  "inject_gamepad clientIp ev j =
     (if \<not> inj_vigem j then []
      else case inj_targets j (clientIp, gs_gamepadId ev) of None \<Rightarrow> [] | Some t \<Rightarrow> [PadReport t ev])"

definition injector_delete :: "(string \<times> u8) list \<Rightarrow> injector \<Rightarrow> host_input list" where
  "injector_delete keys j = (if inj_vigem j
     then map Unplug (List.map_filter (inj_targets j) keys) else [])"

section \<open>Controllers are never shared\<close>

definition pads_ok :: "injector \<Rightarrow> bool" where
  "pads_ok j \<longleftrightarrow> (\<forall>k l t. inj_targets j k = Some t \<longrightarrow> t < inj_allocated j \<and> (inj_targets j l = Some t \<longrightarrow> k = l))"

lemma pads_ok_new: "pads_ok (injector_new c)"
  by (simp add: pads_ok_def injector_new_def)

lemma pads_ok_status: "pads_ok j \<Longrightarrow> pads_ok (snd (handle_gamepad_status ok ip ev j))"
  unfolding pads_ok_def handle_gamepad_status_def
  by (auto simp: Let_def less_Suc_eq split: option.splits if_splits) (metis less_irrefl)+

section \<open>Absolute coordinates\<close>

lemma f64_exact: "\<bar>k\<bar> \<le> 2 ^ 53 \<Longrightarrow> rnd f64 (of_int k) = Fin (of_int k)"
  by (intro rnd_int) (simp_all add: f64_def)

lemma screen_axis_in_range:
  assumes "0 \<le> sint x" "sint x \<le> uint extent" "0 < extent"
  obtains k where "screen_axis x extent = Inr k" "0 \<le> k" "k \<le> 65535"
proof -
  let ?x = "sint x" and ?w = "uint extent"
  have "1 \<le> extent" using inc_le [OF assms(3)] by simp
  then have m: "max 1 extent = extent" by (rule max_absorb2)
  have x31: "?x < 2 ^ 31" using sint_lt [of x] by simp
  have w: "0 < ?w" "?w < 2 ^ 32" using assms uint_lt2p [of extent] by (auto simp: word_less_def)
  have fx: "flt_of_int f64 ?x = Fin (of_int ?x)" unfolding flt_of_int_def
    using assms(1) x31 by (intro f64_exact) simp
  have fw: "flt_of_int f64 ?w = Fin (of_int ?w)" unfolding flt_of_int_def
    using w by (intro f64_exact) simp
  have "rnd f64 (of_int (?x * 65535)) = Fin (of_int (?x * 65535))"
    using assms(1) x31 by (intro f64_exact) simp
  then have p: "fmul f64 (Fin (of_int ?x)) (Fin 65535) = Fin (of_int ?x * 65535)" by simp
  have wr: "(0 :: rat) < of_int ?w" using w by (simp only: of_int_0_less_iff)
  have "(of_int ?x :: rat) \<le> of_int ?w" using assms(2) by (simp only: of_int_le_iff)
  then have q: "of_int ?x * 65535 / of_int ?w \<le> (65535 :: rat)"
    using wr by (simp add: divide_le_eq mult.commute mult_left_mono)
  have "(0 :: rat) \<le> of_int ?x" using assms(1) by (simp only: of_int_0_le_iff)
  then have q0: "(0 :: rat) \<le> of_int ?x * 65535 / of_int ?w" using wr by simp
  have "rnd f64 65535 = Fin 65535" using f64_exact [of 65535] by simp
  then have "fbetween (of_int 0) (of_int 65535) (fdiv f64 (Fin (of_int ?x * 65535)) (Fin (of_int ?w)))"
    using q q0 wr by (auto intro!: rnd_fbetween)
  then obtain k where "to_int32 (fdiv f64 (Fin (of_int ?x * 65535)) (Fin (of_int ?w))) = Inr k" "0 \<le> k" "k \<le> 65535"
    by (rule to_int32_between) simp_all
  then show thesis using that [of k] unfolding screen_axis_def m fx fw p by simp
qed

text \<open>An absolute mouse position on the client's screen is injected at coordinates between 0
  and 65535, the range Windows expects, for every screen size, with no overflow.\<close>
theorem absolute_mouse_in_range:
  assumes "mm_isRelative ev = 0" "0 < mm_screenWidth ev" "0 < mm_screenHeight ev"
    and "0 \<le> sint (mm_x ev)" "sint (mm_x ev) \<le> uint (mm_screenWidth ev)"
    and "0 \<le> sint (mm_y ev)" "sint (mm_y ev) \<le> uint (mm_screenHeight ev)"
  shows "\<exists>dx dy. inject_mouse_move ev = Inr (MouseInput dx dy (MOUSEEVENTF_ABSOLUTE OR MOUSEEVENTF_MOVE) 0)
    \<and> 0 \<le> dx \<and> dx \<le> 65535 \<and> 0 \<le> dy \<and> dy \<le> 65535"
proof -
  obtain dx where "screen_axis (mm_x ev) (mm_screenWidth ev) = Inr dx" "0 \<le> dx" "dx \<le> 65535"
    by (rule screen_axis_in_range [OF assms(4,5,2)])
  moreover obtain dy where "screen_axis (mm_y ev) (mm_screenHeight ev) = Inr dy" "0 \<le> dy" "dy \<le> 65535"
    by (rule screen_axis_in_range [OF assms(6,7,3)])
  ultimately show ?thesis using assms(1) by (simp add: inject_mouse_move_def)
qed

theorem absolute_mouse_in_range_witness:
  "\<exists>dx dy. inject_mouse_move \<lparr>mm_x = 960, mm_y = 1080, mm_screenWidth = 1920,
      mm_screenHeight = 1080, mm_isRelative = 0\<rparr>
     = Inr (MouseInput dx dy (MOUSEEVENTF_ABSOLUTE OR MOUSEEVENTF_MOVE) 0)
    \<and> 0 \<le> dx \<and> dx \<le> 65535 \<and> 0 \<le> dy \<and> dy \<le> 65535"
  using absolute_mouse_in_range [of "\<lparr>mm_x = 960, mm_y = 1080, mm_screenWidth = 1920,
      mm_screenHeight = 1080, mm_isRelative = 0\<rparr>"] by (simp add: word_less_nat_alt)

text \<open>Outside the screen the conversion to \<open>LONG\<close> can overflow: a client that claims a screen one
  pixel wide reaches it with any position above 32768.\<close>

lemma absolute_mouse_overflow: "screen_axis 40000 1 = Inl BadConversion"
proof -
  have e: "rnd f64 40000 = Fin 40000" "rnd f64 2621400000 = Fin 2621400000" "rnd f64 1 = Fin 1"
    using f64_exact [of 40000] f64_exact [of 2621400000] f64_exact [of 1] by simp_all
  then show ?thesis
    by (simp add: screen_axis_def flt_of_int_def to_int32_def rat_trunc_def Let_def)
qed

end
