(* ===== verification/HostSession.thy ===== *)
theory HostSession
  imports EncoderManager InputInjector Reassembly Crypto Queues Clock
begin

text \<open>
  The host side of a session, \<open>SessionManager::runHost\<close> (\<open>cpp/common/session_manager.cpp\<close>): the
  table of clients, the packetizer, the sender and the receiver with its handshake, control
  messages and replay check. One iteration of a thread's loop, one datagram and one handshake
  thread are a step each; the steps of the threads interleave, as the mutexes of
  \<open>HostContext\<close> and \<open>ClientState\<close> allow. Clock readings, random bytes and the results of
  Direct3D, FFmpeg, ViGEm and the sockets are arguments. Logging is left out.
\<close>

section \<open>State\<close>

record outgoing =
  og_packet :: "packet option"
  og_ip :: string
  og_port :: u16

record cached_packet =
  cp_data :: bytes
  cp_frameId :: u32
  cp_fragmentIndex :: u16
  cp_occupied :: bool

record client_state =
  cs_ip :: string
  cs_port :: u16
  cs_encoder :: encoder_manager
  cs_encodeQueue :: "encoded_packet list lfq"
  cs_frameId :: u32
  cs_audioFrameId :: u32
  cs_txKey :: bytes
  cs_rxKey :: bytes
  cs_clientPublicKey :: bytes
  cs_sessionId :: u64
  cs_sendSequenceNumber :: u64
  cs_lastActivity :: int
  cs_packetCache :: "cached_packet ring_buffer"

text \<open>A handshake thread: running, past the answer to the client, or ended; and its \<open>finished\<close> flag.\<close>

datatype init_phase = Running | Answered | Ended

record init_thread =
  it_ip :: string
  it_port :: u16
  it_clientPublicKey :: bytes
  it_phase :: init_phase
  it_finished :: bool

record host =
  h_running :: bool
  h_injector :: injector
  h_clients :: "client_state list"
  h_initializing :: "(string \<times> u16) list"
  h_initThreads :: "init_thread list"
  h_sendQueue :: "outgoing lfq"
  h_packetPool :: packet_pool
  h_udpPool :: packet_pool
  h_globalPacketSequence :: u32
  h_capturedWidth :: int
  h_capturedHeight :: int
  h_lastSeqs :: "u64 \<Rightarrow> u64"
  h_predictor :: latency_predictor

definition no_outgoing :: outgoing where
  "no_outgoing = \<lparr>og_packet = None, og_ip = [], og_port = 0\<rparr>"

definition host_new :: "bool \<Rightarrow> host" where
  "host_new bus = \<lparr>h_running = True, h_injector = injector_new bus, h_clients = [], h_initializing = [],
     h_initThreads = [], h_sendQueue = lfq_new 4096 no_outgoing, h_packetPool = pool_new 200 (1024 * 1024),
     h_udpPool = pool_new 1000 1500, h_globalPacketSequence = 0, h_capturedWidth = 1920,
     h_capturedHeight = 1080, h_lastSeqs = (\<lambda>_. 0), h_predictor = lp_new 100\<rparr>"

definition no_cached :: cached_packet where
  "no_cached = \<lparr>cp_data = [], cp_frameId = 0, cp_fragmentIndex = 0, cp_occupied = False\<rparr>"

section \<open>The capture thread\<close>

text \<open>Clients silent for more than thirty seconds are erased.\<close>

definition timed_out :: "int \<Rightarrow> client_state \<Rightarrow> bool" where
  "timed_out now c \<longleftrightarrow> 30 < seconds (now - cs_lastActivity c)"

definition timeout_sweep :: "int \<Rightarrow> host \<Rightarrow> host" where
  "timeout_sweep now h = h\<lparr>h_clients := filter (\<lambda>c. \<not> timed_out now c) (h_clients h)\<rparr>"

definition even_dimension :: "int \<Rightarrow> int" where
  "even_dimension k = k AND NOT 1"

definition capture_resolution :: "int \<Rightarrow> int \<Rightarrow> flt \<Rightarrow> host \<Rightarrow> fault + host" where
  "capture_resolution w h resolutionScale ctx =
     (if flt_lt (Fin 0) resolutionScale \<and> flt_lt resolutionScale (Fin 1) then
        fbind (to_int32 (fmul f32 (flt_of_int f32 w) resolutionScale)) (\<lambda>w.
        fbind (to_int32 (fmul f32 (flt_of_int f32 h) resolutionScale)) (\<lambda>h.
          Inr (ctx\<lparr>h_capturedWidth := even_dimension w, h_capturedHeight := even_dimension h\<rparr>)))
      else Inr (ctx\<lparr>h_capturedWidth := w, h_capturedHeight := h\<rparr>))"

definition stamp :: "bool \<Rightarrow> u64 \<Rightarrow> u64 \<Rightarrow> u64 \<Rightarrow> encoded_packet \<Rightarrow> encoded_packet" where
  "stamp hevc captureEnd encodeStart encodeEnd p =
     p\<lparr>ep_captureTimestamp := captureEnd, ep_encodeStartTimestamp := encodeStart,
       ep_encodeEndTimestamp := encodeEnd, ep_isHEVC := hevc \<or> ep_isHEVC p\<rparr>"

text \<open>One client in the encode loop: its packets are queued, or given back when the queue is full.\<close>

definition encode_client ::
  "ffmpeg \<Rightarrow> encode_env \<Rightarrow> u64 \<Rightarrow> u64 \<Rightarrow> u64 \<Rightarrow> client_state \<Rightarrow> packet_pool \<Rightarrow> fault + (client_state \<times> packet_pool)" where
  "encode_client ff env captureEnd encodeStart encodeEnd c pl =
     fbind (em_encode_frame ff env True (cs_encoder c) pl) (\<lambda>(ok, packets, em, pl).
       let c = c\<lparr>cs_encoder := em\<rparr> in
       if \<not> ok then Inr (c, pl)
       else let packets = map (stamp (em_is_hevc em) captureEnd encodeStart encodeEnd) packets;
                (queued, q) = lfq_push 4 packets (cs_encodeQueue c)
         in if queued then Inr (c\<lparr>cs_encodeQueue := q\<rparr>, pl)
            else Inr (c, foldl (\<lambda>pl p. pool_release (Some (ep_packet p)) pl) pl packets))"

fun encode_clients ::
  "ffmpeg \<Rightarrow> u64 \<Rightarrow> (encode_env \<times> u64 \<times> u64) list \<Rightarrow> client_state list \<Rightarrow> packet_pool
    \<Rightarrow> fault + (client_state list \<times> packet_pool)" where
  "encode_clients ff captureEnd ((env, t1, t2) # envs) (c # cs) pl =
     fbind (encode_client ff env captureEnd t1 t2 c pl) (\<lambda>(c, pl).
     fbind (encode_clients ff captureEnd envs cs pl) (\<lambda>(cs, pl). Inr (c # cs, pl)))"
| "encode_clients ff captureEnd _ cs pl = Inr (cs, pl)"

text \<open>The outcome of \<open>AcquireFrame\<close>: a texture, with what the encoders see of it; a time-out; or a
  lost device, re-opened or not.\<close>

datatype acquired = Texture u64 "(encode_env \<times> u64 \<times> u64) list" | WaitTimeout | Lost bool

definition reopen_client :: "ffmpeg \<Rightarrow> int \<Rightarrow> bool \<Rightarrow> bool \<Rightarrow> host \<Rightarrow> client_state \<Rightarrow> client_state" where
  "reopen_client ff fps device useHardware h c =
     c\<lparr>cs_encoder := request_keyframe (snd (em_initialize ff (h_capturedWidth h) (h_capturedHeight h) fps device
        useHardware (cs_encoder c)))\<rparr>"

definition capture_step :: "ffmpeg \<Rightarrow> int \<Rightarrow> bool \<Rightarrow> bool \<Rightarrow> int \<Rightarrow> acquired \<Rightarrow> host \<Rightarrow> fault + host" where
  "capture_step ff fps device useHardware now acq h =
     (let h = timeout_sweep now h in
      case acq of
        Texture captureEnd envs \<Rightarrow>
          fbind (encode_clients ff captureEnd envs (h_clients h) (h_packetPool h)) (\<lambda>(cs, pl).
            Inr (h\<lparr>h_clients := cs, h_packetPool := pl\<rparr>))
      | WaitTimeout \<Rightarrow> Inr h
      | Lost reopened \<Rightarrow>
          if h_running h \<and> reopened
          then Inr (h\<lparr>h_clients := map (reopen_client ff fps device useHardware h) (h_clients h)\<rparr>) else Inr h)"

section \<open>The packetizer thread\<close>

definition video_header :: "u32 \<Rightarrow> nat \<Rightarrow> u16 \<Rightarrow> u32 \<Rightarrow> encoded_packet \<Rightarrow> VideoHeader" where
  "video_header fid i totalFrags pktSeq p =
     \<lparr>vh_type = pt_code PtVideo, vh_frameId = fid, vh_fragmentIndex = of_nat i, vh_totalFragments = totalFrags,
      vh_packetSequence = pktSeq, vh_captureTimestamp = ep_captureTimestamp p,
      vh_encodeStartTimestamp = ep_encodeStartTimestamp p, vh_encodeEndTimestamp = ep_encodeEndTimestamp p,
      vh_flags = (if ep_isKeyframe p then 1 else 0) OR (if ep_isHEVC p then 2 else 0),
      vh_dataSize = of_nat (frag_size (pk_size (ep_packet p)) i)\<rparr>"

text \<open>Header and payload written into a pool packet.\<close>

definition fill_fragment :: "VideoHeader \<Rightarrow> nat \<Rightarrow> packet \<Rightarrow> packet \<Rightarrow> fault + packet" where
  "fill_fragment vh i frame u =
     fbind (vec_write (pk_data u) 0 (enc_VideoHeader vh)) (\<lambda>d.
     fbind (vec_read (pk_data frame) (i * MAX_UDP_PAYLOAD) (unat (vh_dataSize vh))) (\<lambda>payload.
     fbind (vec_write d 40 payload) (\<lambda>d. Inr (u\<lparr>pk_data := d\<rparr>))))"

definition cache_index :: "u32 \<Rightarrow> u16 \<Rightarrow> u32" where
  "cache_index fid frag = push_bit 6 fid XOR ucast frag"

text \<open>The retransmission cache: it copies from \<open>securePkt\<close>.\<close>

definition cache_fragment :: "VideoHeader \<Rightarrow> packet option \<Rightarrow> client_state \<Rightarrow> fault + client_state" where
  "cache_fragment vh securePkt c = (case securePkt of None \<Rightarrow> Inl NullDeref | Some s \<Rightarrow>
     Inr (c\<lparr>cs_packetCache := frb_insert (cache_index (vh_frameId vh) (vh_fragmentIndex vh))
       \<lparr>cp_data = take (pk_size s) (pk_data s), cp_frameId = vh_frameId vh,
        cp_fragmentIndex = vh_fragmentIndex vh, cp_occupied = True\<rparr> (cs_packetCache c)\<rparr>))"

text \<open>\<open>push({std::move(p), ...})\<close>: the temporary owns the packet, so a full queue destroys it.\<close>

definition enqueue_packet :: "packet option \<Rightarrow> client_state \<Rightarrow> host \<Rightarrow> host" where
  "enqueue_packet p c h =
     h\<lparr>h_sendQueue := snd (lfq_push 4096 \<lparr>og_packet = p, og_ip = cs_ip c, og_port = cs_port c\<rparr> (h_sendQueue h))\<rparr>"

definition give_back :: "packet \<Rightarrow> host \<Rightarrow> host" where
  "give_back p h = h\<lparr>h_udpPool := pool_release (Some p) (h_udpPool h)\<rparr>"

definition take_udp :: "host \<Rightarrow> packet option \<times> host" where
  "take_udp h = (let (p, pl) = pool_acquire (h_udpPool h) in (p, h\<lparr>h_udpPool := pl\<rparr>))"

text \<open>One fragment; the flag says whether the loop goes on. After the encryption \<open>udpPkt\<close> takes
  the place of \<open>securePkt\<close>, which is null from then on.\<close>

definition packetize_fragment ::
  "build \<Rightarrow> bytes \<Rightarrow> encoded_packet \<Rightarrow> u32 \<Rightarrow> u16 \<Rightarrow> nat \<Rightarrow> client_state \<Rightarrow> host
    \<Rightarrow> fault + (bool \<times> client_state \<times> host)" where
  "packetize_fragment b stale frame fid totalFrags i c h =
     (case take_udp h of (None, h) \<Rightarrow> Inr (False, c, h)
      | (Some u, h) \<Rightarrow>
        (let vh = video_header fid i totalFrags (h_globalPacketSequence h) frame;
             h = h\<lparr>h_globalPacketSequence := h_globalPacketSequence h + 1\<rparr>;
             n = 40 + unat (vh_dataSize vh)
         in fbind (fill_fragment vh i (ep_packet frame) u) (\<lambda>u.
            case take_udp h of (None, h) \<Rightarrow> Inr (False, c, give_back u h)
            | (Some s, h) \<Rightarrow>
              (let sequence = cs_sendSequenceNumber c;
                   c = c\<lparr>cs_sendSequenceNumber := cs_sendSequenceNumber c + 1\<rparr> in
               case seal b stale (cs_sessionId c) sequence (cs_txKey c) (take n (pk_data u)) of
                 None \<Rightarrow> Inr (False, c, give_back u (give_back s h))
               | Some env \<Rightarrow>
                   fbind (vec_write (pk_data s) 0 env) (\<lambda>d.
                     let udpPkt = Some (s\<lparr>pk_data := d, pk_size := 35 + n\<rparr>); securePkt = None;
                         h = give_back u h
                     in fbind (cache_fragment vh securePkt c) (\<lambda>c.
                          Inr (True, c, enqueue_packet udpPkt c h)))))))"

fun packetize_frame ::
  "build \<Rightarrow> bytes \<Rightarrow> encoded_packet \<Rightarrow> u32 \<Rightarrow> u16 \<Rightarrow> nat list \<Rightarrow> client_state \<Rightarrow> host \<Rightarrow> fault + (client_state \<times> host)" where
  "packetize_frame b stale frame fid totalFrags [] c h = Inr (c, h)"
| "packetize_frame b stale frame fid totalFrags (i # is) c h =
     fbind (packetize_fragment b stale frame fid totalFrags i c h) (\<lambda>(more, c, h).
       if more then packetize_frame b stale frame fid totalFrags is c h else Inr (c, h))"

fun packetize_frames ::
  "build \<Rightarrow> bytes \<Rightarrow> encoded_packet list \<Rightarrow> u32 \<Rightarrow> client_state \<Rightarrow> host \<Rightarrow> fault + (client_state \<times> host)" where
  "packetize_frames b stale [] fid c h = Inr (c, h)"
| "packetize_frames b stale (p # ps) fid c h =
     (let totalFrags = of_nat (frag_count (pk_size (ep_packet p))) :: u16 in
      fbind (packetize_frame b stale p fid totalFrags [0..<unat totalFrags] c h) (\<lambda>(c, h).
        packetize_frames b stale ps fid c
          (h\<lparr>h_packetPool := pool_release (Some (ep_packet p)) (h_packetPool h)\<rparr>)))"

definition packetize_client :: "build \<Rightarrow> bytes \<Rightarrow> client_state \<Rightarrow> host \<Rightarrow> fault + (client_state \<times> host)" where
  "packetize_client b stale c h =
     (case lfq_pop 4 [] (cs_encodeQueue c) of (None, q) \<Rightarrow> Inr (c, h)
      | (Some frames, q) \<Rightarrow>
          fbind (packetize_frames b stale frames (cs_frameId c) (c\<lparr>cs_encodeQueue := q\<rparr>) h) (\<lambda>(c, h).
            Inr (c\<lparr>cs_frameId := cs_frameId c + 1\<rparr>, h)))"

text \<open>One round of the thread: the clients listed at its start, in order.\<close>

fun packetizer_round :: "build \<Rightarrow> bytes \<Rightarrow> nat list \<Rightarrow> host \<Rightarrow> fault + host" where
  "packetizer_round b stale [] h = Inr h"
| "packetizer_round b stale (k # ks) h =
     (if length (h_clients h) \<le> k then packetizer_round b stale ks h
      else fbind (packetize_client b stale (h_clients h ! k) h) (\<lambda>(c, h).
        packetizer_round b stale ks (h\<lparr>h_clients := (h_clients h)[k := c]\<rparr>)))"

section \<open>The sender thread\<close>

fun pop_batch :: "nat \<Rightarrow> outgoing lfq \<Rightarrow> outgoing list \<times> outgoing lfq" where
  "pop_batch 0 q = ([], q)"
| "pop_batch (Suc n) q = (case lfq_pop 4096 no_outgoing q of (None, q) \<Rightarrow> ([], q)
     | (Some o1, q) \<Rightarrow> (let (os, q) = pop_batch n q in (o1 # os, q)))"

text \<open>Up to 64 packets are sent and returned to the pool; dereferencing a missing one is a fault.\<close>

definition sender_step :: "host \<Rightarrow> fault + ((bytes \<times> string \<times> u16) list \<times> host)" where
  "sender_step h =
     (let (ops, q) = pop_batch 64 (h_sendQueue h); h = h\<lparr>h_sendQueue := q\<rparr> in
      if \<exists>x \<in> set ops. og_packet x = None then Inl NullDeref
      else let ps = List.map_filter og_packet ops in
        Inr (map (\<lambda>x. (take (pk_size (the (og_packet x))) (pk_data (the (og_packet x))), og_ip x, og_port x)) ops,
             h\<lparr>h_udpPool := foldl (\<lambda>pl p. pool_release (Some p) pl) (h_udpPool h) ps\<rparr>))"

section \<open>The audio callback\<close>

text \<open>What the capture device's callback does with a packet of the Opus encoder (\<open>None\<close>: it gave none).\<close>

definition audio_step ::
  "build \<Rightarrow> bytes \<Rightarrow> u64 \<Rightarrow> bytes option \<Rightarrow> client_state \<Rightarrow> host \<Rightarrow> fault + (client_state \<times> host)" where
  "audio_step b stale now encoded c h =
     (case encoded of None \<Rightarrow> Inr (c, h) | Some opus \<Rightarrow>
      if \<not> h_running h then Inr (c, h)
      else (case take_udp h of (None, h) \<Rightarrow> Inr (c, h)
      | (Some u, h) \<Rightarrow>
        (let ah = \<lparr>ah_type = pt_code PtAudio, ah_frameId = cs_audioFrameId c, ah_timestamp = now,
               ah_dataSize = of_nat (length opus)\<rparr>;
             c = c\<lparr>cs_audioFrameId := cs_audioFrameId c + 1\<rparr>;
             n = 15 + unat (ah_dataSize ah)
         in fbind (vec_write (pk_data u) 0 (enc_AudioHeader ah)) (\<lambda>d.
            fbind (vec_write d 15 opus) (\<lambda>d.
              let u = u\<lparr>pk_data := d\<rparr> in
              case take_udp h of (None, h) \<Rightarrow> Inr (c, give_back u h)
              | (Some s, h) \<Rightarrow>
                (let sequence = cs_sendSequenceNumber c;
                     c = c\<lparr>cs_sendSequenceNumber := sequence + 1\<rparr> in
                 case seal b stale (cs_sessionId c) sequence (cs_txKey c) (take n d) of
                   None \<Rightarrow> Inr (c, give_back u (give_back s h))
                 | Some env \<Rightarrow> fbind (vec_write (pk_data s) 0 env) (\<lambda>d.
                     Inr (c, give_back u (enqueue_packet (Some (s\<lparr>pk_data := d, pk_size := 35 + n\<rparr>)) c h)))))))))"

section \<open>What the packetizer writes\<close>

lemma written_fragment:
  assumes "length (pk_data u) = 1500" and "pk_size (ep_packet p) \<le> length (pk_data (ep_packet p))"
    and "i < frag_count (pk_size (ep_packet p))"
  shows "\<exists>u'. fill_fragment (video_header fid i (of_nat (frag_count (pk_size (ep_packet p)))) pktSeq p) i (ep_packet p) u = Inr u'
    \<and> length (pk_data u') = 1500
    \<and> is_fragment fid (take (pk_size (ep_packet p)) (pk_data (ep_packet p))) i
        (dec_VideoHeader (pk_data u')) (drop 40 (pk_data u'))"
proof -
  let ?f = "ep_packet p" and ?vh = "video_header fid i (of_nat (frag_count (pk_size (ep_packet p)))) pktSeq p"
  let ?n = "frag_size (pk_size ?f) i" and ?data = "take (pk_size ?f) (pk_data ?f)"
  let ?p = "take ?n (drop (i * MAX_UDP_PAYLOAD) (pk_data ?f))"
  have n: "?n \<le> 1300" by (simp add: frag_size_def MAX_UDP_PAYLOAD_def)
  have e: "i * MAX_UDP_PAYLOAD + ?n \<le> pk_size ?f" using frag_end [OF assms(3)] .
  have d: "unat (vh_dataSize ?vh) = ?n" using n by (simp add: video_header_def unat_of_nat_u16)
  have l: "length (enc_VideoHeader ?vh) = 40" by (rule vh_fmt.length_enc) simp
  have lp: "length ?p = ?n" using e assms(2) by simp
  let ?d = "enc_VideoHeader ?vh @ ?p @ drop (40 + ?n) (pk_data u)"
  have "fill_fragment ?vh i ?f u = Inr (u\<lparr>pk_data := ?d\<rparr>)"
    using l lp n e assms(1,2) d by (simp add: fill_fragment_def vec_write_def vec_read_def add.commute)
  moreover have "?p = fragment ?data i"
    using e assms(2) by (simp add: fragment_def drop_take min_def)
  moreover have "drop 40 ?d = ?p @ drop (40 + ?n) (pk_data u)" using l by simp
  moreover have "dec_VideoHeader ?d = ?vh" by (rule vh_fmt.dec_enc_append) simp
  ultimately show ?thesis
    using assms l lp n by (simp add: is_fragment_def video_header_def)
qed

lemma take_udp_queue: "take_udp h = (p, h') \<Longrightarrow> h_sendQueue h' = h_sendQueue h"
  by (auto simp: take_udp_def split: prod.splits)

lemma packetize_fragment_queue:
  "packetize_fragment b stale frame fid totalFrags i c h = Inr (go, c', h') \<Longrightarrow>
   \<not> go \<and> h_sendQueue h' = h_sendQueue h"
  unfolding packetize_fragment_def cache_fragment_def
  by (auto simp: Let_def give_back_def elim!: fbind_InrE dest!: take_udp_queue
      split: prod.split_asm option.split_asm)

lemma packetize_frame_queue:
  "packetize_frame b stale frame fid totalFrags is c h = Inr (c', h') \<Longrightarrow> h_sendQueue h' = h_sendQueue h"
  by (cases "is") (auto simp: fbind_Inr_iff dest!: packetize_fragment_queue split: if_splits)

lemma packetize_frames_queue:
  "packetize_frames b stale ps fid c h = Inr (c', h') \<Longrightarrow> h_sendQueue h' = h_sendQueue h"
  by (induction b stale ps fid c h arbitrary: c' h' rule: packetize_frames.induct)
    (auto simp: fbind_Inr_iff Let_def dest!: packetize_frame_queue)

lemma packetize_client_queue:
  "packetize_client b stale c h = Inr (c', h') \<Longrightarrow> h_sendQueue h' = h_sendQueue h"
  by (auto simp: packetize_client_def fbind_Inr_iff dest!: packetize_frames_queue split: prod.splits option.splits)

text \<open>A round of the packetizer that does not crash has queued nothing: after a successful
  encryption the packet moves out of the pointer that the retransmission cache then reads.\<close>
theorem packetizer_sends_no_video:
  assumes "packetizer_round b stale ks h = Inr h'"
  shows "h_sendQueue h' = h_sendQueue h"
  using assms
proof (induction b stale ks h rule: packetizer_round.induct)
  case (2 b stale k ks h)
  then show ?case by (auto simp: fbind_Inr_iff dest!: packetize_client_queue split: if_splits)
qed simp

text \<open>C15: and it does crash: the first fragment that is encrypted, as every fragment is without
  libsodium, dereferences null, when the pool still has two packets.\<close>
theorem first_video_fragment_crashes:
  assumes "h_udpPool h = pl @ [s, u]" and "length (pk_data u) = 1500" and "length (pk_data s) = 1500"
    and "pk_size (ep_packet p) \<le> length (pk_data (ep_packet p))" and "i < frag_count (pk_size (ep_packet p))"
  shows "packetize_fragment NoSodium stale p fid (of_nat (frag_count (pk_size (ep_packet p)))) i c h = Inl NullDeref"
proof -
  let ?vh = "video_header fid i (of_nat (frag_count (pk_size (ep_packet p)))) (h_globalPacketSequence h) p"
  let ?n = "40 + unat (vh_dataSize ?vh)"
  have n: "unat (vh_dataSize ?vh) \<le> 1300"
    using frag_size_le [of "pk_size (ep_packet p)" i] by (simp add: video_header_def unat_of_nat_u16 MAX_UDP_PAYLOAD_def)
  obtain u' where u: "fill_fragment ?vh i (ep_packet p) u = Inr u'" "length (pk_data u') = 1500"
    using written_fragment [OF assms(2,4,5)] by blast
  have "\<exists>env. seal NoSodium stale (cs_sessionId c) (cs_sendSequenceNumber c) (cs_txKey c) (take ?n (pk_data u')) = Some env
      \<and> length env = 35 + ?n"
    using u(2) n by (auto simp: seal_def sh_fmt.length_enc envelope_header_def mock_tag_def)
  then show ?thesis
    using assms(1,3) u n
    by (auto simp: packetize_fragment_def take_udp_def pool_acquire_def Let_def vec_write_def cache_fragment_def butlast_append)
qed

section \<open>What the audio callback sends\<close>

text \<open>Without libsodium a packet of the Opus encoder that fits a pool packet is queued for the client
  as a sealed message which the client's key opens to the audio header and exactly that packet; the
  callback keeps one pool packet, the queued one, and uses one frame and one sequence number.\<close>
theorem audio_packet_is_sealed:
  assumes "h_running h" and "h_udpPool h = pl @ [s, u]" and "length (pk_data u) = 1500" and "length (pk_data s) = 1500"
    and "length opus \<le> 1400" and "length stale = 16"
  shows "\<exists>c' h' p. audio_step NoSodium stale now (Some opus) c h = Inr (c', h')
    \<and> h_sendQueue h' = snd (lfq_push 4096 \<lparr>og_packet = Some p, og_ip = cs_ip c, og_port = cs_port c\<rparr> (h_sendQueue h))
    \<and> open_envelope NoSodium (cs_txKey c) (take (pk_size p) (pk_data p)) = Inr (Some (enc_AudioHeader
        \<lparr>ah_type = pt_code PtAudio, ah_frameId = cs_audioFrameId c, ah_timestamp = now,
         ah_dataSize = of_nat (length opus)\<rparr> @ opus))
    \<and> length (h_udpPool h') = length pl + 1
    \<and> cs_audioFrameId c' = cs_audioFrameId c + 1 \<and> cs_sendSequenceNumber c' = cs_sendSequenceNumber c + 1"
proof -
  let ?ah = "\<lparr>ah_type = pt_code PtAudio, ah_frameId = cs_audioFrameId c, ah_timestamp = now,
     ah_dataSize = of_nat (length opus)\<rparr>" and ?n = "15 + length opus"
  let ?m = "enc_AudioHeader ?ah @ opus"
  have l: "length (enc_AudioHeader ?ah) = 15" by (rule ah_fmt.length_enc) simp
  have n: "unat (ah_dataSize ?ah) = length opus" using assms(5) by (simp add: unat_of_nat_u16)
  let ?d = "?m @ drop ?n (pk_data u)"
  have writes: "vec_write (pk_data u) 0 (enc_AudioHeader ?ah) = Inr (enc_AudioHeader ?ah @ drop 15 (pk_data u))"
    "vec_write (enc_AudioHeader ?ah @ drop 15 (pk_data u)) 15 opus = Inr ?d"
    using l assms(3,5) by (simp_all add: vec_write_def add.commute)
  have plain: "take ?n ?d = ?m" using l by simp
  have m: "length ?m < 65536" using l assms(5) by simp
  obtain env where env: "seal NoSodium stale (cs_sessionId c) (cs_sendSequenceNumber c) (cs_txKey c) ?m = Some env"
    "length env = 35 + ?n" "open_envelope NoSodium (cs_txKey c) env = Inr (Some ?m)"
    using mock_seal_opens [OF m assms(6), of "cs_sessionId c" "cs_sendSequenceNumber c" "cs_txKey c"] l by auto
  let ?s = "s\<lparr>pk_data := env @ drop (35 + ?n) (pk_data s), pk_size := 35 + ?n\<rparr>"
  have w: "vec_write (pk_data s) 0 env = Inr (env @ drop (35 + ?n) (pk_data s))"
    using env(2) assms(4,5) by (simp add: vec_write_def)
  have "\<exists>c' h'. audio_step NoSodium stale now (Some opus) c h = Inr (c', h')
    \<and> h_sendQueue h' = snd (lfq_push 4096 \<lparr>og_packet = Some ?s, og_ip = cs_ip c, og_port = cs_port c\<rparr> (h_sendQueue h))
    \<and> length (h_udpPool h') = length pl + 1
    \<and> cs_audioFrameId c' = cs_audioFrameId c + 1 \<and> cs_sendSequenceNumber c' = cs_sendSequenceNumber c + 1"
    using assms(1,2) env w n writes plain
    by (simp add: audio_step_def take_udp_def pool_acquire_def butlast_append Let_def enqueue_packet_def give_back_def
        pool_release_def del: take_append)
  moreover have "take (pk_size ?s) (pk_data ?s) = env" using env(2) by simp
  ultimately show ?thesis using env(3) by (metis (no_types, lifting))
qed

section \<open>A session to evaluate\<close>

definition sample_client :: client_state where
  "sample_client = \<lparr>cs_ip = ''10.0.0.2'', cs_port = 5006, cs_encoder = em_new 0,
     cs_encodeQueue = lfq_new 4 [], cs_frameId = 0, cs_audioFrameId = 0, cs_txKey = [1], cs_rxKey = [2],
     cs_clientPublicKey = [], cs_sessionId = 7, cs_sendSequenceNumber = 0, cs_lastActivity = 0,
     cs_packetCache = []\<rparr>"

definition sample_host :: host where
  "sample_host = \<lparr>h_running = True, h_injector = injector_new True, h_clients = [sample_client],
     h_initializing = [], h_initThreads = [], h_sendQueue = lfq_new 16 no_outgoing, h_packetPool = [],
     h_udpPool = [], h_globalPacketSequence = 0, h_capturedWidth = 1920, h_capturedHeight = 1080,
     h_lastSeqs = (\<lambda>_. 0), h_predictor = lp_new 100\<rparr>"

definition sample_frame :: encoded_packet where
  "sample_frame = \<lparr>ep_packet = (packet_new 3)\<lparr>pk_size := 3\<rparr>, ep_isKeyframe = True, ep_isHEVC = False,
     ep_captureTimestamp = 0, ep_encodeStartTimestamp = 0, ep_encodeEndTimestamp = 0\<rparr>"

definition sample_streaming :: host where
  "sample_streaming = sample_host\<lparr>h_clients := [sample_client\<lparr>cs_encodeQueue :=
     snd (lfq_push 4 [sample_frame] (lfq_new 4 []))\<rparr>]\<rparr>"

theorem packetizer_sends_no_video_witness:
  "\<exists>h. packetizer_round NoSodium [] [0] sample_streaming = Inr h \<and> h_sendQueue h = h_sendQueue sample_streaming"
proof -
  have "case packetizer_round NoSodium [] [0] sample_streaming of Inr h \<Rightarrow> True | _ \<Rightarrow> False" by code_simp
  then obtain h where h: "packetizer_round NoSodium [] [0] sample_streaming = Inr h" by (auto split: sum.split_asm)
  from packetizer_sends_no_video [OF h] h show ?thesis by simp
qed

theorem first_video_fragment_crashes_witness:
  "packetize_fragment NoSodium (replicate 16 0) sample_frame 1 1 0 sample_client
     (sample_host\<lparr>h_udpPool := [packet_new 1500, packet_new 1500]\<rparr>) = Inl NullDeref"
proof -
  have "frag_count (pk_size (ep_packet sample_frame)) = 1"
    by (simp add: sample_frame_def frag_count_def MAX_UDP_PAYLOAD_def)
  then show ?thesis
    using first_video_fragment_crashes [where pl = "[]" and h = "sample_host\<lparr>h_udpPool := [packet_new 1500, packet_new 1500]\<rparr>"
        and s = "packet_new 1500" and u = "packet_new 1500" and p = sample_frame and i = 0 and stale = "replicate 16 0"
        and fid = 1 and c = sample_client]
    by (simp add: packet_new_def sample_frame_def)
qed

theorem audio_packet_is_sealed_witness:
  "\<exists>c h. audio_step NoSodium (replicate 16 0) 5 (Some [1, 2, 3]) sample_client
      (sample_host\<lparr>h_udpPool := [packet_new 1500, packet_new 1500]\<rparr>) = Inr (c, h)
    \<and> length (h_udpPool h) = 1 \<and> cs_audioFrameId c = 1"
  using audio_packet_is_sealed [where pl = "[]" and h = "sample_host\<lparr>h_udpPool := [packet_new 1500, packet_new 1500]\<rparr>"
      and s = "packet_new 1500" and u = "packet_new 1500" and stale = "replicate 16 0" and opus = "[1, 2, 3]"
      and c = sample_client and now = 5]
  by (auto simp: packet_new_def sample_host_def sample_client_def)

end
