(* ===== verification/HostReceiver.thy ===== *)
theory HostReceiver
  imports HostSession
begin

text \<open>
  The receiver thread of \<open>SessionManager::runHost\<close> (\<open>cpp/common/session_manager.cpp\<close>): the loop
  over a datagram, candidate reflection, relay unwrapping, admission of handshakes, and what the
  host does with an authenticated message. The loop is a function with fuel: one case of it never
  ends. What the thread reads but has not written (the rest of its stack buffers) is an argument.
\<close>

section \<open>Effects and inputs of a step\<close>

datatype parsec_error = SUCCESS | NETWORK_BIND_FAILED | HARDWARE_INIT_FAILED | HANDSHAKE_TIMEOUT
  | HANDSHAKE_REJECTED | CONNECTION_LOST | UNEXPECTED_ERROR | DECODER_INIT_FAILED
  | ENCODER_INIT_FAILED | RENDERER_INIT_FAILED | QSV_INIT_FAILED | D3D11_DEVICE_LOST

datatype host_effect = SendTo bytes string u16 | Injected host_input | ReportError parsec_error string

record receive_env =
  re_now :: int
  re_metricsTime :: u64
  re_engineNow :: u64
  re_tierNow :: u64
  re_wallTime :: u64
  re_padAdded :: bool
  re_staleTag :: bytes
  re_staleReply :: HandshakeSecureResponsePacket
  re_staleDecrypted :: bytes

definition find_client :: "(client_state \<Rightarrow> bool) \<Rightarrow> client_state list \<Rightarrow> nat option" where
  "find_client P cs = find (\<lambda>k. P (cs ! k)) [0..<length cs]"

section \<open>Messages outside a session\<close>

text \<open>A C string read from the buffer: up to the first zero, wherever it is.\<close>

definition c_string :: "bytes \<Rightarrow> nat \<Rightarrow> fault + string" where
  "c_string buf off =
     (let rest = drop off buf; s = takeWhile (\<lambda>x. x \<noteq> 0) rest in
      if length s < length rest then Inr (map (\<lambda>x. char_of (unat x)) s) else Inl OutOfBounds)"

definition reflect_candidate :: "bytes \<Rightarrow> nat \<Rightarrow> fault + host_effect list" where
  "reflect_candidate buf len =
     fbind (c_string buf 1) (\<lambda>ip. Inr [SendTo (take len buf) ip (cp_port (dec_CandidatePacket buf))])"

text \<open>The buffer and length to process again, when the relay packet carries a secure one.\<close>

definition unwrap_relay :: "bytes \<Rightarrow> nat \<Rightarrow> host \<Rightarrow> (bytes \<times> nat) option" where
  "unwrap_relay buf len h =
     (if 27 < len \<and> list_ex (\<lambda>c. cs_sessionId c = rh_sessionId (dec_RelayHeader buf)) (h_clients h) then
        (let localBuf = take (min (len - 27) 2048) (drop 27 buf) in
         if localBuf ! 0 = pt_code PtSecure then Some (localBuf @ drop (length localBuf) buf, length localBuf)
         else None)
      else None)"

definition rejection :: "receive_env \<Rightarrow> string \<Rightarrow> u16 \<Rightarrow> host_effect" where
  "rejection env ip port = SendTo (enc_HandshakeSecureResponsePacket ((re_staleReply env)\<lparr>
     hr_type := pt_code PtHandshakeSecureResponse, hr_approved := 0\<rparr>)) ip port"

text \<open>Admission, under both mutexes; then finished threads are joined and the new one starts.\<close>

definition admit :: "receive_env \<Rightarrow> string \<Rightarrow> u16 \<Rightarrow> bytes \<Rightarrow> host \<Rightarrow> host_effect list \<times> host" where
  "admit env ip port key h =
     (if 32 \<le> length (h_clients h) + length (h_initializing h) then ([rejection env ip port], h)
      else if (ip, port) \<in> set (h_initializing h) then ([], h)
      else ([], h\<lparr>h_initializing := (ip, port) # h_initializing h,
        h_initThreads := filter (\<lambda>t. \<not> it_finished t) (h_initThreads h)
          @ [\<lparr>it_ip = ip, it_port = port, it_clientPublicKey = key, it_phase = Running, it_finished = False\<rparr>]\<rparr>))"

definition at_address :: "string \<Rightarrow> u16 \<Rightarrow> client_state \<Rightarrow> bool" where
  "at_address ip port c \<longleftrightarrow> cs_ip c = ip \<and> cs_port c = port"

definition handshake :: "receive_env \<Rightarrow> string \<Rightarrow> u16 \<Rightarrow> bytes \<Rightarrow> host \<Rightarrow> host_effect list \<times> host" where
  "handshake env ip port buf h =
     (case find_client (at_address ip port) (h_clients h) of Some _ \<Rightarrow> ([], h)
      | None \<Rightarrow> admit env ip port (hs_clientPublicKey (dec_HandshakeSecurePacket buf)) h)"

section \<open>Messages of a session\<close>

definition on_input :: "receive_env \<Rightarrow> string \<Rightarrow> bytes \<Rightarrow> nat \<Rightarrow> injector \<Rightarrow> fault + (host_effect list \<times> injector)" where
  "on_input env ip decrypted n j =
     (let it = ih_inputType (dec_InputHeader decrypted); payload = drop 10 decrypted; payloadLen = n - 10 in
      if it = it_code ItKeyboard \<and> 3 \<le> payloadLen
      then Inr ([Injected (inject_keyboard (dec_KeyboardEvent payload))], j)
      else if it = it_code ItMouseMove \<and> 17 \<le> payloadLen
      then fbind (inject_mouse_move (dec_MouseMoveEvent payload)) (\<lambda>i. Inr ([Injected i], j))
      else if it = it_code ItMouseButton \<and> 2 \<le> payloadLen
      then Inr ([Injected (inject_mouse_button (dec_MouseButtonEvent payload))], j)
      else if it = it_code ItMouseScroll \<and> 4 \<le> payloadLen
      then Inr ([Injected (inject_mouse_scroll (dec_MouseScrollEvent payload))], j)
      else if it = it_code ItGamepadStatus \<and> 2 \<le> payloadLen
      then (let (is, j) = handle_gamepad_status (re_padAdded env) ip (dec_GamepadStatusEvent payload) j
            in Inr (map Injected is, j))
      else if it = it_code ItGamepad \<and> 13 \<le> payloadLen
      then Inr (map Injected (inject_gamepad ip (dec_GamepadState payload) j), j)
      else Inr ([], j))"

definition on_feedback ::
  "ffmpeg \<Rightarrow> receive_env \<Rightarrow> FeedbackHeader \<Rightarrow> client_state \<Rightarrow> latency_predictor
    \<Rightarrow> fault + (client_state \<times> latency_predictor)" where
  "on_feedback ff env fb c p =
     (let loss = f32_of_bits (fb_lossRate fb);
          p = record_metrics p \<lparr>nm_rttMs = flt_of_int f32 (uint (fb_rttMs fb)), nm_jitterMs = Fin 0,
                nm_packetLossRate = loss, nm_timestamp = re_metricsTime env\<rparr>
      in fbind (update_metrics ff (re_engineNow env) (re_tierNow env) loss (Fin (- 1))
                  (f32_of_bits (fb_avgDecodeTimeMs fb)) (uint (fb_targetBitrateKbps fb))
                  (Some (lp_predict p 200)) (cs_encoder c)) (\<lambda>em.
           Inr (c\<lparr>cs_encoder := if fb_requestKeyframe fb \<noteq> 0 then request_keyframe em else em\<rparr>, p)))"

definition on_retransmit :: "RetransmitRequestPacket \<Rightarrow> client_state \<Rightarrow> host \<Rightarrow> fault + host" where
  "on_retransmit rr c h =
     (let cached = frb_get (cs_packetCache c) (cache_index (rr_frameId rr) (rr_fragmentIndex rr)) in
      if cp_occupied cached \<and> cp_frameId cached = rr_frameId rr \<and> cp_fragmentIndex cached = rr_fragmentIndex rr then
        (case take_udp h of (None, h) \<Rightarrow> Inr h
         | (Some u, h) \<Rightarrow> fbind (vec_write (pk_data u) 0 (cp_data cached)) (\<lambda>d.
             Inr (enqueue_packet (Some (u\<lparr>pk_data := d, pk_size := length (cp_data cached)\<rparr>)) c h)))
      else Inr h)"

definition on_time_sync ::
  "build \<Rightarrow> receive_env \<Rightarrow> string \<Rightarrow> u16 \<Rightarrow> TimeSyncPacket \<Rightarrow> client_state \<Rightarrow> host_effect list \<times> client_state" where
  "on_time_sync b env ip port ts c =
     (let reply = enc_TimeSyncResponsePacket \<lparr>tr_type = pt_code PtTimeSync,
            tr_clientSendTimestamp = ts_clientSendTimestamp ts, tr_hostReceiveTimestamp = re_wallTime env,
            tr_hostSendTimestamp = re_wallTime env\<rparr>;
          sequence = cs_sendSequenceNumber c;
          c = c\<lparr>cs_sendSequenceNumber := sequence + 1\<rparr>
      in case seal b (re_staleTag env) (cs_sessionId c) sequence (cs_txKey c) reply of
           None \<Rightarrow> ([], c)
         | Some dg \<Rightarrow> ([SendTo dg ip port], c))"

text \<open>An authenticated message of \<open>n\<close> bytes, from client number \<open>k\<close>, that is not a replay.\<close>

definition put_client :: "nat \<Rightarrow> client_state \<Rightarrow> host \<Rightarrow> host" where
  "put_client k c h = h\<lparr>h_clients := (h_clients h)[k := c]\<rparr>"

definition on_message ::
  "build \<Rightarrow> ffmpeg \<Rightarrow> receive_env \<Rightarrow> string \<Rightarrow> u16 \<Rightarrow> bytes \<Rightarrow> nat \<Rightarrow> nat \<Rightarrow> host
    \<Rightarrow> fault + (host_effect list \<times> host)" where
  "on_message b ff env ip port decrypted n k h =
     (let ty = decrypted ! 0; c = h_clients h ! k in
      if ty = pt_code PtInput \<and> 10 \<le> n then
        fbind (on_input env ip decrypted n (h_injector h)) (\<lambda>(es, j). Inr (es, h\<lparr>h_injector := j\<rparr>))
      else if ty = pt_code PtFeedback \<and> 24 \<le> n then
        fbind (on_feedback ff env (dec_FeedbackHeader decrypted) c (h_predictor h)) (\<lambda>(c, p).
          Inr ([], put_client k c (h\<lparr>h_predictor := p\<rparr>)))
      else if ty = pt_code PtRetransmitRequest \<and> 7 \<le> n then
        fbind (on_retransmit (dec_RetransmitRequestPacket decrypted) c h) (\<lambda>h. Inr ([], h))
      else if ty = pt_code PtTimeSync \<and> 9 \<le> n then
        (let (es, c) = on_time_sync b env ip port (dec_TimeSyncPacket decrypted) c in Inr (es, put_client k c h))
      else Inr ([], h))"

text \<open>Activity and path are noted before the replay check.\<close>

definition note_activity :: "receive_env \<Rightarrow> string \<Rightarrow> u16 \<Rightarrow> client_state \<Rightarrow> client_state" where
  "note_activity env ip port c =
     (let c = c\<lparr>cs_lastActivity := re_now env\<rparr> in
      if cs_ip c \<noteq> ip \<or> cs_port c \<noteq> port then c\<lparr>cs_ip := ip, cs_port := port\<rparr> else c)"

definition accept_message ::
  "build \<Rightarrow> ffmpeg \<Rightarrow> receive_env \<Rightarrow> string \<Rightarrow> u16 \<Rightarrow> SecureHeader \<Rightarrow> bytes \<Rightarrow> nat \<Rightarrow> host
    \<Rightarrow> fault + (host_effect list \<times> host)" where
  "accept_message b ff env ip port sh plaintext k h =
     (let h = put_client k (note_activity env ip port (h_clients h ! k)) h; n = unat (sh_encryptedSize sh) in
      if h_lastSeqs h (sh_sessionId sh) \<le> sh_sequenceNumber sh then
        on_message b ff env ip port (into_buffer plaintext (re_staleDecrypted env)) n k
          (h\<lparr>h_lastSeqs := (h_lastSeqs h)(sh_sessionId sh := sh_sequenceNumber sh + 1)\<rparr>)
      else Inr ([], h))"

definition addressed_by :: "string \<Rightarrow> u16 \<Rightarrow> SecureHeader \<Rightarrow> client_state \<Rightarrow> bool" where
  "addressed_by ip port sh c \<longleftrightarrow> cs_ip c = ip \<and> cs_port c = port \<and> cs_sessionId c = sh_sessionId sh"

text \<open>\<open>None\<close>: the \<open>continue\<close> for an oversized message, which goes round the loop unchanged.\<close>

definition on_secure ::
  "build \<Rightarrow> ffmpeg \<Rightarrow> receive_env \<Rightarrow> string \<Rightarrow> u16 \<Rightarrow> bytes \<Rightarrow> host
    \<Rightarrow> (fault + (host_effect list \<times> host)) option" where
  "on_secure b ff env ip port buf h =
     (let sh = dec_SecureHeader buf in
      case find_client (addressed_by ip port sh) (h_clients h) of None \<Rightarrow> Some (Inr ([], h))
      | Some k \<Rightarrow>
          if 2048 < sh_encryptedSize sh then None
          else Some (fbind (open_envelope b (cs_rxKey (h_clients h ! k)) buf) (\<lambda>r. case r of None \<Rightarrow> Inr ([], h)
             | Some plaintext \<Rightarrow> accept_message b ff env ip port sh plaintext k h)))"

section \<open>The loop\<close>

text \<open>\<open>while (len > 0)\<close>; \<open>None\<close> when the fuel does not suffice.\<close>

fun receive_loop ::
  "nat \<Rightarrow> build \<Rightarrow> ffmpeg \<Rightarrow> receive_env \<Rightarrow> string \<Rightarrow> u16 \<Rightarrow> bytes \<Rightarrow> nat \<Rightarrow> host
    \<Rightarrow> (fault + (host_effect list \<times> bytes \<times> host)) option" where
  "receive_loop 0 b ff env ip port buf len h = None"
| "receive_loop (Suc fuel) b ff env ip port buf len h =
     (let ty = buf ! 0 in
      if len = 0 then Some (Inr ([], buf, h))
      else if ty = pt_code PtCandidateDiscovery \<and> 68 \<le> len then
        Some (fbind (reflect_candidate buf len) (\<lambda>es. Inr (es, buf, h)))
      else if ty = pt_code PtRelayData \<and> 27 \<le> len then
        (case unwrap_relay buf len h of None \<Rightarrow> Some (Inr ([], buf, h))
         | Some (buf, len) \<Rightarrow> receive_loop fuel b ff env ip port buf len h)
      else if ty = pt_code PtHandshakeSecure \<and> 65 \<le> len then
        (let (es, h) = handshake env ip port buf h in Some (Inr (es, buf, h)))
      else if ty = pt_code PtSecure \<and> 35 \<le> len then
        (case on_secure b ff env ip port buf h of None \<Rightarrow> receive_loop fuel b ff env ip port buf len h
         | Some r \<Rightarrow> Some (fbind r (\<lambda>(es, h). Inr (es, buf, h))))
      else Some (Inr ([], buf, h)))"

definition receive_datagram ::
  "nat \<Rightarrow> build \<Rightarrow> ffmpeg \<Rightarrow> receive_env \<Rightarrow> string \<Rightarrow> u16 \<Rightarrow> bytes \<Rightarrow> bytes \<Rightarrow> host
    \<Rightarrow> (fault + (host_effect list \<times> bytes \<times> host)) option" where
  "receive_datagram fuel b ff env ip port dg buf h =
     receive_loop fuel b ff env ip port (into_buffer dg buf) (length dg) h"

section \<open>Every datagram is finished with, or never\<close>

lemma find_client_Some: "find_client P cs = Some k \<Longrightarrow> k < length cs \<and> P (cs ! k)"
  by (auto simp: find_client_def find_Some_iff)

lemma find_client_None: "find_client P cs = None \<longleftrightarrow> \<not> (\<exists>c \<in> set cs. P c)"
  by (force simp: find_client_def find_None_iff in_set_conv_nth)

definition oversize :: "string \<Rightarrow> u16 \<Rightarrow> bytes \<Rightarrow> nat \<Rightarrow> host \<Rightarrow> bool" where
  "oversize ip port buf len h \<longleftrightarrow> buf ! 0 = pt_code PtSecure \<and> 35 \<le> len
     \<and> list_ex (addressed_by ip port (dec_SecureHeader buf)) (h_clients h)
     \<and> 2048 < sh_encryptedSize (dec_SecureHeader buf)"

definition stuck :: "string \<Rightarrow> u16 \<Rightarrow> bytes \<Rightarrow> nat \<Rightarrow> host \<Rightarrow> bool" where
  "stuck ip port buf len h \<longleftrightarrow> oversize ip port buf len h
     \<or> buf ! 0 = pt_code PtRelayData \<and> 27 \<le> len
       \<and> (case unwrap_relay buf len h of None \<Rightarrow> False | Some (buf, len) \<Rightarrow> oversize ip port buf len h)"

lemma on_secure_None:
  "on_secure b ff env ip port buf h = None \<longleftrightarrow>
   list_ex (addressed_by ip port (dec_SecureHeader buf)) (h_clients h) \<and> 2048 < sh_encryptedSize (dec_SecureHeader buf)"
  using find_client_None [of "addressed_by ip port (dec_SecureHeader buf)" "h_clients h"]
  by (auto simp: on_secure_def Let_def list_ex_iff split: option.splits)

lemma oversize_spins: "oversize ip port buf len h \<Longrightarrow> receive_loop fuel b ff env ip port buf len h = None"
proof (induction fuel)
  case (Suc fuel)
  have "on_secure b ff env ip port buf h = None" using Suc.prems by (simp add: oversize_def on_secure_None)
  moreover have "buf ! 0 = pt_code PtSecure" "35 \<le> len" using Suc.prems by (simp_all add: oversize_def)
  ultimately show ?case using Suc by (simp add: Let_def del: pt_code.simps)
qed simp

lemma unwrap_relay_secure:
  "unwrap_relay buf len h = Some (buf', len') \<Longrightarrow> len \<le> length buf \<Longrightarrow> buf' ! 0 = pt_code PtSecure"
  by (auto simp: unwrap_relay_def Let_def nth_append split: if_splits)

lemma relay_round:
  "buf ! 0 = pt_code PtRelayData \<Longrightarrow> 27 \<le> len \<Longrightarrow> receive_loop (Suc fuel) b ff env ip port buf len h =
     (case unwrap_relay buf len h of None \<Rightarrow> Some (Inr ([], buf, h))
      | Some (buf, len) \<Rightarrow> receive_loop fuel b ff env ip port buf len h)"
  by (auto simp: Let_def simp del: pt_code.simps)

lemma last_round:
  "buf ! 0 \<noteq> pt_code PtSecure \<Longrightarrow> \<not> (buf ! 0 = pt_code PtRelayData \<and> 27 \<le> len) \<Longrightarrow>
   \<exists>r. receive_loop (Suc fuel) b ff env ip port buf len h = Some r"
  by (auto simp: Let_def simp del: pt_code.simps split: prod.splits)

lemma secure_round:
  assumes "buf ! 0 = pt_code PtSecure" and "\<not> oversize ip port buf len h"
  shows "\<exists>r. receive_loop (Suc fuel) b ff env ip port buf len h = Some r"
proof (cases "35 \<le> len")
  case True
  then have "on_secure b ff env ip port buf h \<noteq> None" using assms by (simp add: oversize_def on_secure_None)
  then show ?thesis using assms(1) by (auto simp: Let_def simp del: pt_code.simps)
next
  case False
  then show ?thesis using assms(1) by (simp add: Let_def del: pt_code.simps)
qed


declare receive_loop.simps [simp del]
declare pt_code.simps [simp del]

section \<open>Only authenticated messages act\<close>

definition authentic :: "build \<Rightarrow> string \<Rightarrow> u16 \<Rightarrow> bytes \<Rightarrow> host \<Rightarrow> bool" where
  "authentic b ip port buf h \<longleftrightarrow> (\<exists>c \<in> set (h_clients h). addressed_by ip port (dec_SecureHeader buf) c
     \<and> (\<exists>plaintext. open_envelope b (cs_rxKey c) buf = Inr (Some plaintext)))"

definition sealed_for_host :: "build \<Rightarrow> string \<Rightarrow> u16 \<Rightarrow> bytes \<Rightarrow> nat \<Rightarrow> host \<Rightarrow> bool" where
  "sealed_for_host b ip port buf len h \<longleftrightarrow> authentic b ip port buf h
     \<or> (case unwrap_relay buf len h of None \<Rightarrow> False | Some (buf, len) \<Rightarrow> authentic b ip port buf h)"

definition is_sending :: "host_effect \<Rightarrow> bool" where
  "is_sending e = (case e of SendTo _ _ _ \<Rightarrow> True | _ \<Rightarrow> False)"

definition only_admission :: "host \<Rightarrow> host \<Rightarrow> bool" where
  "only_admission h h' \<longleftrightarrow> h' = h\<lparr>h_initializing := h_initializing h', h_initThreads := h_initThreads h'\<rparr>"

lemma only_admission_refl [simp]: "only_admission h h"
  by (simp add: only_admission_def)

lemma on_secure_cases:
  assumes "on_secure b ff env ip port buf h = Some (Inr (es, h'))"
  obtains "es = []" and "h' = h"
  | k plaintext where "k < length (h_clients h)" and "addressed_by ip port (dec_SecureHeader buf) (h_clients h ! k)"
      and "open_envelope b (cs_rxKey (h_clients h ! k)) buf = Inr (Some plaintext)"
      and "accept_message b ff env ip port (dec_SecureHeader buf) plaintext k h = Inr (es, h')"
proof (cases "find_client (addressed_by ip port (dec_SecureHeader buf)) (h_clients h)")
  case None
  then show thesis using assms that(1) by (simp add: on_secure_def Let_def)
next
  case (Some k)
  then have "fbind (open_envelope b (cs_rxKey (h_clients h ! k)) buf) (\<lambda>r. case r of None \<Rightarrow> Inr ([], h)
      | Some plaintext \<Rightarrow> accept_message b ff env ip port (dec_SecureHeader buf) plaintext k h) = Inr (es, h')"
    using assms by (simp add: on_secure_def Let_def split: if_split_asm)
  then obtain r where r: "open_envelope b (cs_rxKey (h_clients h ! k)) buf = Inr r"
    "(case r of None \<Rightarrow> Inr ([], h)
      | Some plaintext \<Rightarrow> accept_message b ff env ip port (dec_SecureHeader buf) plaintext k h) = Inr (es, h')"
    by (auto simp: fbind_Inr_iff)
  show thesis
  proof (cases r)
    case None
    then show thesis using r(2) that(1) by simp
  next
    case (Some plaintext)
    then show thesis using r find_client_Some [OF \<open>find_client _ _ = Some k\<close>] by (intro that(2)) auto
  qed
qed

lemma on_secure_unauthentic:
  assumes "\<not> authentic b ip port buf h" and "on_secure b ff env ip port buf h = Some (Inr (es, h'))"
  shows "es = [] \<and> h' = h"
  using assms(2)
proof (cases rule: on_secure_cases)
  case (2 k plaintext)
  then show ?thesis using assms(1) nth_mem unfolding authentic_def by blast
qed simp

lemma secure_loop_step:
  assumes "buf ! 0 = pt_code PtSecure"
  shows "receive_loop fuel b ff env ip port buf len h = None \<or>
    (\<exists>r. 35 \<le> len \<and> on_secure b ff env ip port buf h = Some r
       \<and> receive_loop fuel b ff env ip port buf len h = Some (fbind r (\<lambda>(es, h). Inr (es, buf, h)))) \<or>
    receive_loop fuel b ff env ip port buf len h = Some (Inr ([], buf, h))"
  using assms by (induction fuel) (auto simp: receive_loop.simps Let_def split: option.splits)

text \<open>How a round of the loop can end.\<close>

lemma receive_loop_cases:
  assumes "receive_loop fuel b ff env ip port buf len h = Some (Inr (es, buf', h'))" and "len \<le> length buf"
  obtains "h' = h" and "list_all is_sending es" and "buf' = buf"
  | "handshake env ip port buf h = (es, h')" and "buf' = buf"
  | "35 \<le> len" and "on_secure b ff env ip port buf h = Some (Inr (es, h'))" and "buf' = buf"
  | l where "unwrap_relay buf len h = Some (buf', l)" and "h' = h" and "es = []"
  | l where "unwrap_relay buf len h = Some (buf', l)" and "35 \<le> l"
      and "on_secure b ff env ip port buf' h = Some (Inr (es, h'))"
proof (cases fuel)
  case 0
  then show thesis using assms by (simp add: receive_loop.simps)
next
  case (Suc n)
  show thesis
  proof (cases "buf ! 0 = pt_code PtRelayData \<and> 27 \<le> len")
    case True
    then have r: "receive_loop fuel b ff env ip port buf len h = (case unwrap_relay buf len h of None \<Rightarrow> Some (Inr ([], buf, h))
      | Some (buf, len) \<Rightarrow> receive_loop n b ff env ip port buf len h)" using Suc relay_round by simp
    show thesis
    proof (cases "unwrap_relay buf len h")
      case None
      then show thesis using r assms(1) that(1) by simp
    next
      case (Some x)
      obtain b2 l2 where x: "x = (b2, l2)" by (cases x)
      have "b2 ! 0 = pt_code PtSecure" using unwrap_relay_secure Some x assms(2) by blast
      from secure_loop_step [OF this, of n b ff env ip port l2 h] show thesis
        using r assms(1) Some x that(4,5) by (auto simp: fbind_Inr_iff eq_commute [of "Inr (es, buf', h')"])
    qed
  next
    case False
    show thesis
    proof (cases "buf ! 0 = pt_code PtSecure")
      case True
      from secure_loop_step [OF this, of fuel b ff env ip port len h] show thesis
        using assms(1) that(1,3) by (auto simp: fbind_Inr_iff eq_commute [of "Inr (es, buf', h')"])
    next
      case other: False
      show thesis
      proof (cases "buf ! 0 = pt_code PtHandshakeSecure \<and> 65 \<le> len")
        case True
        then have "receive_loop fuel b ff env ip port buf len h =
            Some (Inr (fst (handshake env ip port buf h), buf, snd (handshake env ip port buf h)))"
          unfolding Suc receive_loop.simps by (auto simp: Let_def split_beta)
        then show thesis using assms(1) that(2) by (cases "handshake env ip port buf h") auto
      next
        case False
        have "receive_loop fuel b ff env ip port buf len h = Some (Inr ([], buf, h)) \<or>
            receive_loop fuel b ff env ip port buf len h = Some (fbind (reflect_candidate buf len) (\<lambda>es. Inr (es, buf, h)))"
          using False other \<open>\<not> (buf ! 0 = pt_code PtRelayData \<and> 27 \<le> len)\<close>
          unfolding Suc receive_loop.simps Let_def by presburger
        moreover have "list_all is_sending es" if "reflect_candidate buf len = Inr es" for es
          using that by (auto simp: reflect_candidate_def is_sending_def fbind_Inr_iff)
        ultimately show thesis using assms(1) that(1) by (auto simp: fbind_Inr_iff eq_commute [of "Inr (es, buf', h')"])
      qed
    qed
  qed
qed

lemma handshake_only_admission:
  "handshake env ip port buf h = (es, h') \<Longrightarrow> only_admission h h' \<and> list_all is_sending es"
  by (auto simp: handshake_def admit_def only_admission_def rejection_def is_sending_def
      split: option.splits if_splits)

text \<open>C4: a datagram that no session's key opens, sent directly or through a relay, injects no input
  and leaves the sessions, the controllers, the queues, the pools and the replay state alone; at
  most it is answered and starts a handshake.\<close>
theorem host_acts_only_on_authenticated:
  assumes "receive_loop fuel b ff env ip port buf len h = Some (Inr (es, buf', h'))"
    and "len \<le> length buf" and "\<not> sealed_for_host b ip port buf len h"
  shows "only_admission h h' \<and> list_all is_sending es"
  using assms(1,2)
proof (cases rule: receive_loop_cases)
  case 2
  then show ?thesis using handshake_only_admission by blast
qed (use assms(3) on_secure_unauthentic in \<open>fastforce simp: sealed_for_host_def\<close>)+

section \<open>Replays\<close>

lemma take_udp_seqs [simp]: "take_udp h = (p, h') \<Longrightarrow> h_lastSeqs h' = h_lastSeqs h"
  by (auto simp: take_udp_def split: prod.splits)

lemma on_message_seqs:
  "on_message b ff env ip port decrypted n k h = Inr (es, h') \<Longrightarrow> h_lastSeqs h' = h_lastSeqs h"
  by (auto simp: on_message_def on_retransmit_def put_client_def enqueue_packet_def Let_def fbind_Inr_iff
      split: if_splits prod.splits option.splits)

lemma only_admission_seqs: "only_admission h h' \<Longrightarrow> h_lastSeqs h' = h_lastSeqs h"
  unfolding only_admission_def by (drule arg_cong [where f = h_lastSeqs]) simp

lemma put_client_seqs [simp]: "h_lastSeqs (put_client k c h) = h_lastSeqs h"
  by (simp add: put_client_def)

lemma accept_message_seqs:
  "accept_message b ff env ip port sh plaintext k h = Inr (es, h') \<Longrightarrow>
   h_lastSeqs h' = (if h_lastSeqs h (sh_sessionId sh) \<le> sh_sequenceNumber sh
     then (h_lastSeqs h)(sh_sessionId sh := sh_sequenceNumber sh + 1) else h_lastSeqs h)"
  by (auto simp: accept_message_def Let_def dest: on_message_seqs split: if_splits)

text \<open>The floor a message of a session moves to.\<close>

definition bumps :: "SecureHeader \<Rightarrow> host \<Rightarrow> host \<Rightarrow> bool" where
  "bumps sh h h' \<longleftrightarrow> h_lastSeqs h (sh_sessionId sh) \<le> sh_sequenceNumber sh
     \<and> h_lastSeqs h' = (h_lastSeqs h)(sh_sessionId sh := sh_sequenceNumber sh + 1)"

lemma on_secure_seqs:
  "on_secure b ff env ip port buf h = Some (Inr (es, h')) \<Longrightarrow>
   h_lastSeqs h' = h_lastSeqs h \<or> bumps (dec_SecureHeader buf) h h'"
  by (erule on_secure_cases) (auto simp: bumps_def dest!: accept_message_seqs)

text \<open>The sequence numbers a datagram can carry, its own and that of what it relays.\<close>

definition fresh_numbers :: "bytes \<Rightarrow> bool" where
  "fresh_numbers dg \<longleftrightarrow> length dg \<le> 2048 \<and> sh_sequenceNumber (dec_SecureHeader dg) \<noteq> - 1
     \<and> sh_sequenceNumber (dec_SecureHeader (drop 27 dg)) \<noteq> - 1"

lemma header_in_buffer: "35 \<le> length dg \<Longrightarrow> dec_SecureHeader (into_buffer dg buf) = dec_SecureHeader dg"
  by (simp add: sh_fmt.dec_eq_iff into_buffer_def)

lemma relayed_header:
  assumes "unwrap_relay (into_buffer dg buf) (length dg) h = Some (buf', l)" and "35 \<le> l" and "length dg \<le> 2048"
  shows "dec_SecureHeader buf' = dec_SecureHeader (drop 27 dg)"
proof -
  have "buf' = drop 27 dg @ drop (length dg - 27) (into_buffer dg buf)" and "l = length dg - 27"
    using assms by (auto simp: unwrap_relay_def Let_def into_buffer_def split: if_splits)
  then show ?thesis using assms(2) by (simp add: sh_fmt.dec_eq_iff)
qed

lemma datagram_seqs:
  assumes "receive_datagram fuel b ff env ip port dg buf h = Some (Inr (es, buf', h'))" and "length dg \<le> 2048"
  shows "h_lastSeqs h' = h_lastSeqs h \<or> bumps (dec_SecureHeader dg) h h' \<or> bumps (dec_SecureHeader (drop 27 dg)) h h'"
proof -
  have "length dg \<le> length (into_buffer dg buf)" by (simp add: into_buffer_def)
  with assms(1) show ?thesis unfolding receive_datagram_def
  proof (cases rule: receive_loop_cases)
    case 2
    then show ?thesis using handshake_only_admission only_admission_seqs by blast
  next
    case 3
    then show ?thesis using on_secure_seqs header_in_buffer by metis
  next
    case (5 l)
    then show ?thesis using on_secure_seqs relayed_header assms(2) by metis
  qed auto
qed

lemma bumps_mono:
  assumes "bumps sh h h'" and "sh_sequenceNumber sh \<noteq> - 1"
  shows "h_lastSeqs h sid \<le> h_lastSeqs h' sid"
proof -
  have "1 + sh_sequenceNumber sh \<noteq> 0" using assms(2) by (metis add_eq_0_iff)
  then have "sh_sequenceNumber sh \<le> sh_sequenceNumber sh + 1"
    using unatSuc [of "sh_sequenceNumber sh"] by (simp add: word_le_nat_alt add.commute)
  then show ?thesis using assms(1) by (auto simp: bumps_def)
qed

text \<open>
  The rest of the process between two datagrams: the other threads change the host as they like,
  but not the map of the receiver thread, which is \<open>thread_local\<close>.
\<close>

datatype event = Datagram receive_env string u16 bytes | Elsewhere "host \<Rightarrow> host"

fun receive_all :: "build \<Rightarrow> ffmpeg \<Rightarrow> event list \<Rightarrow> bytes \<Rightarrow> host \<Rightarrow> (fault + (bytes \<times> host)) option" where
  "receive_all b ff [] buf h = Some (Inr (buf, h))"
| "receive_all b ff (Elsewhere f # evs) buf h = receive_all b ff evs buf ((f h)\<lparr>h_lastSeqs := h_lastSeqs h\<rparr>)"
| "receive_all b ff (Datagram env ip port dg # evs) buf h =
     (case receive_datagram 2 b ff env ip port dg buf h of None \<Rightarrow> None | Some (Inl e) \<Rightarrow> Some (Inl e)
      | Some (Inr (es, buf, h)) \<Rightarrow> receive_all b ff evs buf h)"

fun fresh_event :: "event \<Rightarrow> bool" where
  "fresh_event (Elsewhere f) = True"
| "fresh_event (Datagram env ip port dg) = fresh_numbers dg"

lemma receive_all_mono:
  "receive_all b ff evs buf h = Some (Inr (buf', h')) \<Longrightarrow> list_all fresh_event evs \<Longrightarrow>
   h_lastSeqs h sid \<le> h_lastSeqs h' sid"
proof (induction b ff evs buf h rule: receive_all.induct)
  case (3 b ff env ip port dg evs buf h)
  obtain es buf1 h1 where s: "receive_datagram 2 b ff env ip port dg buf h = Some (Inr (es, buf1, h1))"
    and rest: "receive_all b ff evs buf1 h1 = Some (Inr (buf', h'))"
    using 3(2) by (auto split: option.splits sum.splits)
  have "h_lastSeqs h sid \<le> h_lastSeqs h1 sid"
    using datagram_seqs [OF s] 3(3) by (auto simp: fresh_numbers_def dest: bumps_mono)
  then show ?case using 3(1) [OF s refl refl refl rest] 3(3) by (auto intro: order_trans)
qed auto

text \<open>What a replayed datagram may change: the time of the session's last activity.\<close>

definition only_activity :: "host \<Rightarrow> host \<Rightarrow> bool" where
  "only_activity h h' \<longleftrightarrow> (\<exists>k now. k < length (h_clients h) \<and>
     h' = put_client k ((h_clients h ! k)\<lparr>cs_lastActivity := now\<rparr>) h)"

text \<open>The roaming branch is dead: the session was looked up under the address the datagram came from.\<close>

lemma no_roaming: "addressed_by ip port sh c \<Longrightarrow> note_activity env ip port c = c\<lparr>cs_lastActivity := re_now env\<rparr>"
  by (simp add: note_activity_def addressed_by_def)

lemma below_floor:
  assumes "receive_datagram fuel b ff env ip port dg buf h = Some (Inr (es, buf', h'))"
    and "dg ! 0 = pt_code PtSecure" and "35 \<le> length dg"
    and "sh_sequenceNumber (dec_SecureHeader dg) < h_lastSeqs h (sh_sessionId (dec_SecureHeader dg))"
  shows "es = [] \<and> (h' = h \<or> only_activity h h')"
proof -
  let ?buf = "into_buffer dg buf"
  have "?buf ! 0 = pt_code PtSecure" using assms(2,3) by (auto simp: into_buffer_def nth_append)
  from secure_loop_step [OF this, of fuel b ff env ip port "length dg" h] consider
    "on_secure b ff env ip port ?buf h = Some (Inr (es, h'))" | "es = []" "h' = h"
    using assms(1) unfolding receive_datagram_def
    by (auto simp: fbind_Inr_iff eq_commute [of "Inr (es, buf', h')"])
  then show ?thesis
  proof cases
    case 1
    then show ?thesis
    proof (cases rule: on_secure_cases)
      case (2 k plaintext)
      then show ?thesis
        using assms(4) [folded not_le] header_in_buffer [OF assms(3)] no_roaming [OF 2(2)]
        by (auto simp: accept_message_def Let_def only_activity_def)
    qed simp
  qed simp
qed


section \<open>A session to evaluate\<close>

definition sample_receive_env :: receive_env where
  "sample_receive_env = \<lparr>re_now = 9, re_metricsTime = 0, re_engineNow = 0, re_tierNow = 0, re_wallTime = 0,
     re_padAdded = True, re_staleTag = [], re_staleReply = dec_HandshakeSecureResponsePacket [], re_staleDecrypted = []\<rparr>"

text \<open>The client's key press, message number 5 of its session.\<close>

definition sample_key_press :: bytes where
  "sample_key_press = the (seal NoSodium (replicate 16 0) 7 5 [2]
     (enc_InputHeader \<lparr>ih_type = pt_code PtInput, ih_inputType = it_code ItKeyboard, ih_timestamp = 0\<rparr>
      @ enc_KeyboardEvent \<lparr>ke_vkCode = 65, ke_isPressed = 1\<rparr>))"

abbreviation sample_step :: "bytes \<Rightarrow> host \<Rightarrow> (fault + (host_effect list \<times> bytes \<times> host)) option" where
  "sample_step \<equiv> receive_datagram 2 NoSodium sample_ffmpeg sample_receive_env ''10.0.0.2'' 5006 sample_key_press"

lemma sample_runs:
  "case sample_step [] sample_host of Some (Inr (es, buf, h)) \<Rightarrow>
     es = [Injected (KeyInput 65 0)] \<and> h_lastSeqs h 7 = 6 \<and>
     (case sample_step buf (h\<lparr>h_running := False\<rparr>) of Some (Inr r) \<Rightarrow> True | _ \<Rightarrow> False) | _ \<Rightarrow> False"
  by code_simp

lemma sample_key_press_secure: "sample_key_press ! 0 = pt_code PtSecure" "35 \<le> length sample_key_press"
  by code_simp+

lemma sample_key_press_fresh: "fresh_numbers sample_key_press"
proof -
  have "fld 9 8 sample_key_press = 5" "fld 9 8 (drop 27 sample_key_press) = 1" "length sample_key_press = 48"
    by code_simp+
  then show ?thesis by (simp add: fresh_numbers_def dec_SecureHeader_def)
qed


text \<open>A message for the sample session that claims 65535 bytes.\<close>

definition oversize_header :: SecureHeader where
  "oversize_header = \<lparr>sh_type = pt_code PtSecure, sh_sessionId = 7, sh_sequenceNumber = 0,
     sh_encryptedSize = 65535, sh_authTag = replicate 16 0\<rparr>"


definition sample_forged :: bytes where
  "sample_forged = sample_key_press[20 := 0]"

lemma sample_forged_facts:
  "length sample_forged = 48"
  "open_envelope NoSodium (cs_rxKey sample_client) sample_forged = Inr None"
  "unwrap_relay sample_forged 48 sample_host = None"
  by code_simp+

theorem host_acts_only_on_authenticated_witness:
  "\<exists>es buf h. receive_loop 2 NoSodium sample_ffmpeg sample_receive_env ''10.0.0.2'' 5006 sample_forged 48 sample_host
       = Some (Inr (es, buf, h)) \<and> only_admission sample_host h \<and> list_all is_sending es"
proof -
  let ?r = "receive_loop 2 NoSodium sample_ffmpeg sample_receive_env ''10.0.0.2'' 5006 sample_forged 48 sample_host"
  have "case ?r of Some (Inr x) \<Rightarrow> True | _ \<Rightarrow> False" by code_simp
  then obtain es buf h where r: "?r = Some (Inr (es, buf, h))" by (cases ?r) (auto split: sum.splits)
  have "h_clients sample_host = [sample_client]" by (simp add: sample_host_def)
  then have "\<not> sealed_for_host NoSodium ''10.0.0.2'' 5006 sample_forged 48 sample_host"
    using sample_forged_facts by (simp add: sealed_for_host_def authentic_def)
  from host_acts_only_on_authenticated [OF r _ this] r sample_forged_facts(1) show ?thesis by simp
qed

section \<open>Before authentication\<close>

text \<open>A size field between 2014 and 2048 passes the check but not the buffer: the ciphertext starts at
  byte 35, so the host reads behind its buffer, before anything is authenticated.\<close>

lemma oversized_ciphertext_reads_outside:
  assumes "length buf = 2048" and "find_client (addressed_by ip port (dec_SecureHeader buf)) (h_clients h) = Some k"
    and "2013 < unat (sh_encryptedSize (dec_SecureHeader buf))" and "unat (sh_encryptedSize (dec_SecureHeader buf)) \<le> 2048"
  shows "on_secure b ff env ip port buf h = Some (Inl OutOfBounds)"
  using assms by (simp add: on_secure_def open_envelope_def vec_read_def Let_def word_less_nat_alt)

text \<open>A retried handshake from an address that has a session is not answered, so a client that lost the
  response waits until the session has timed out.\<close>

lemma lost_response_is_not_resent:
  "c \<in> set (h_clients h) \<Longrightarrow> at_address ip port c \<Longrightarrow> handshake env ip port buf h = ([], h)"
  using find_client_None [of "at_address ip port" "h_clients h"] by (auto simp: handshake_def split: option.splits)

end
