(* ===== verification/HostThreads.thy ===== *)
theory HostThreads
  imports HostReceiver
begin

text \<open>
  The handshake threads of \<open>SessionManager::runHost\<close> (\<open>cpp/common/session_manager.cpp\<close>), and the
  host as a whole: an iteration of any of its threads is a step, in any order. What is proved of
  the reachable states is the admission bound.
\<close>

section \<open>A handshake thread\<close>

definition set_phase :: "nat \<Rightarrow> init_phase \<Rightarrow> bool \<Rightarrow> host \<Rightarrow> host" where
  "set_phase k ph fin h = h\<lparr>h_initThreads := (h_initThreads h)[k :=
     (h_initThreads h ! k)\<lparr>it_phase := ph, it_finished := fin\<rparr>]\<rparr>"

definition leave_initializing :: "nat \<Rightarrow> host \<Rightarrow> host" where
  "leave_initializing k h = (let t = h_initThreads h ! k in
     h\<lparr>h_initializing := filter (\<lambda>a. a \<noteq> (it_ip t, it_port t)) (h_initializing h)\<rparr>)"

text \<open>From the start to the answer. The early returns skip the end of the thread: neither sets the
  \<open>finished\<close> flag, and the first leaves the address among the initializing ones.\<close>

definition init_answer ::
  "build \<Rightarrow> ffmpeg \<Rightarrow> int \<Rightarrow> bool \<Rightarrow> bool \<Rightarrow> receive_env \<Rightarrow> nat \<Rightarrow> host \<Rightarrow> host_effect list \<times> host" where
  "init_answer b ff fps device useHardware env k h =
     (let t = h_initThreads h ! k; kp = generate_key_pair b in
      if \<not> h_running h then ([], set_phase k Ended False h)
      else (case derive_session_keys b (publicKey kp) (privateKey kp) (it_clientPublicKey t) [] [] True of
        (ok, rxKey, txKey) \<Rightarrow>
          if \<not> ok then ([], set_phase k Ended False (leave_initializing k h))
          else (let sid = of_nat (fld 0 8 (generate_random_bytes b 8)) in
            case em_initialize ff (h_capturedWidth h) (h_capturedHeight h) fps device useHardware
                   (em_new (re_engineNow env)) of
              (True, em) \<Rightarrow>
                ([SendTo (enc_HandshakeSecureResponsePacket \<lparr>hr_type = pt_code PtHandshakeSecureResponse,
                    hr_hostPublicKey = publicKey kp, hr_approved = 1, hr_sessionId = sid\<rparr>) (it_ip t) (it_port t)],
                 set_phase k Answered False (h\<lparr>h_clients := h_clients h @
                   [\<lparr>cs_ip = it_ip t, cs_port = it_port t, cs_encoder = request_keyframe em,
                     cs_encodeQueue = lfq_new 4 [], cs_frameId = 0, cs_audioFrameId = 0, cs_txKey = txKey,
                     cs_rxKey = rxKey, cs_clientPublicKey = it_clientPublicKey t, cs_sessionId = sid,
                     cs_sendSequenceNumber = 0, cs_lastActivity = re_now env,
                     cs_packetCache = frb_new 512 no_cached\<rparr>]\<rparr>))
            | (False, em) \<Rightarrow>
                ([ReportError ENCODER_INIT_FAILED (''Failed to initialize encoder for client '' @ it_ip t),
                  rejection env (it_ip t) (it_port t)], set_phase k Answered False h))))"

definition init_finish :: "nat \<Rightarrow> host \<Rightarrow> host" where
  "init_finish k h = set_phase k Ended True (leave_initializing k h)"

text \<open>The end of \<open>runHost\<close>: every thread is told to finish and joined.\<close>

definition host_teardown :: "host \<Rightarrow> host" where
  "host_teardown h = h\<lparr>h_initThreads := []\<rparr>"

section \<open>The host's threads\<close>

inductive hstep :: "host \<Rightarrow> host \<Rightarrow> bool" where
  start: "capture_resolution w d resolutionScale h = Inr h' \<Longrightarrow> hstep h h'"
| capture: "capture_step ff fps device useHardware now acq h = Inr h' \<Longrightarrow> hstep h h'"
| packetize: "packetizer_round b stale [0..<length (h_clients h)] h = Inr h' \<Longrightarrow> hstep h h'"
| send: "sender_step h = Inr (out, h') \<Longrightarrow> hstep h h'"
| audio: "k < length (h_clients h) \<Longrightarrow> audio_step b stale t encoded (h_clients h ! k) h = Inr (c, h') \<Longrightarrow>
    hstep h (put_client k c h')"
| datagram: "receive_datagram fuel b ff env ip port dg buf h = Some (Inr (es, buf', h')) \<Longrightarrow> hstep h h'"
| late_admission: "admit env ip port key h = (es, h') \<Longrightarrow> hstep h h'"
| answer: "k < length (h_initThreads h) \<Longrightarrow> it_phase (h_initThreads h ! k) = Running \<Longrightarrow>
    init_answer b ff fps device useHardware env k h = (es, h') \<Longrightarrow> hstep h h'"
| finish: "k < length (h_initThreads h) \<Longrightarrow> it_phase (h_initThreads h ! k) = Answered \<Longrightarrow>
    hstep h (init_finish k h)"
| stop: "hstep h (h\<lparr>h_running := False\<rparr>)"

text \<open>\<open>late_admission\<close> is the receiver's admission when other threads ran since it looked the address
  up, under an earlier hold of the clients' mutex.\<close>

section \<open>Steps that leave the tables alone\<close>

definition keeps :: "host \<Rightarrow> host \<Rightarrow> bool" where
  "keeps h h' \<longleftrightarrow> length (h_clients h') \<le> length (h_clients h)
     \<and> h_initializing h' = h_initializing h \<and> h_initThreads h' = h_initThreads h"

lemma keeps_refl [simp]: "keeps h h"
  by (simp add: keeps_def)

lemma keeps_trans: "keeps h1 h2 \<Longrightarrow> keeps h2 h3 \<Longrightarrow> keeps h1 h3"
  by (simp add: keeps_def)

lemma keeps_updates [simp]:
  "keeps h (h\<lparr>h_running := r\<rparr>)" "keeps h (h\<lparr>h_udpPool := u\<rparr>)" "keeps h (h\<lparr>h_sendQueue := q\<rparr>)"
  "keeps h (h\<lparr>h_globalPacketSequence := s\<rparr>)" "keeps h (put_client k c h)"
  "keeps h (enqueue_packet p c h)" "keeps h (give_back u' h)" "keeps h (h\<lparr>h_packetPool := v\<rparr>)"
  by (simp_all add: keeps_def put_client_def enqueue_packet_def give_back_def)

lemma keeps_take_udp: "take_udp h = (p, h') \<Longrightarrow> keeps h h'"
  by (auto simp: take_udp_def split: prod.splits)

lemma length_encode_clients: "encode_clients ff t envs cs pl = Inr (cs', pl') \<Longrightarrow> length cs' = length cs"
  by (induction ff t envs cs pl arbitrary: cs' pl' rule: encode_clients.induct)
    (auto elim!: fbind_InrE split: prod.split_asm)

lemma keeps_capture: "capture_step ff fps device useHardware now acq h = Inr h' \<Longrightarrow> keeps h h'"
  by (auto simp: capture_step_def timeout_sweep_def keeps_def Let_def elim!: fbind_InrE dest!: length_encode_clients
      split: acquired.split_asm if_split_asm intro: order_trans [OF _ length_filter_le])


lemma keeps_fragment:
  "packetize_fragment b stale frame fid totalFrags i c h = Inr (go, c', h') \<Longrightarrow> keeps h h'"
  unfolding packetize_fragment_def cache_fragment_def
  by (auto simp: Let_def elim!: fbind_InrE dest!: keeps_take_udp split: prod.split_asm option.split_asm)
    (auto simp: keeps_def give_back_def)

lemma keeps_frame:
  "packetize_frame b stale frame fid totalFrags is c h = Inr (c', h') \<Longrightarrow> keeps h h'"
  by (induction b stale frame fid totalFrags "is" c h arbitrary: c' h' rule: packetize_frame.induct)
    (auto elim!: fbind_InrE dest!: keeps_fragment split: if_split_asm intro: keeps_trans)

lemma keeps_frames: "packetize_frames b stale ps fid c h = Inr (c', h') \<Longrightarrow> keeps h h'"
proof (induction b stale ps fid c h arbitrary: c' h' rule: packetize_frames.induct)
  case (2 b stale p ps fid c h)
  from 2(2) show ?case
    by (auto simp: Let_def elim!: fbind_InrE dest!: keeps_frame 2(1) [OF refl]) (auto simp: keeps_def)
qed simp

lemma keeps_packetize: "packetizer_round b stale ks h = Inr h' \<Longrightarrow> keeps h h'"
proof (induction b stale ks h rule: packetizer_round.induct)
  case (2 b stale k ks h)
  have client: "keeps h h'" if "packetize_client b stale c h = Inr (c', h')" for c c' h'
    using that by (auto simp: packetize_client_def elim!: fbind_InrE dest!: keeps_frames split: prod.split_asm option.split_asm)
  show ?case
  proof (cases "length (h_clients h) \<le> k")
    case True
    then show ?thesis using 2 by simp
  next
    case False
    then obtain c h1 where c: "packetize_client b stale (h_clients h ! k) h = Inr (c, h1)"
      and rest: "packetizer_round b stale ks (h1\<lparr>h_clients := (h_clients h1)[k := c]\<rparr>) = Inr h'"
      using 2(3) by (auto elim!: fbind_InrE)
    have "keeps (h1\<lparr>h_clients := (h_clients h1)[k := c]\<rparr>) h'" using 2(2) [OF False rest] .
    then show ?thesis using client [OF c] by (simp add: keeps_def)
  qed
qed simp

lemma keeps_send: "sender_step h = Inr (out, h') \<Longrightarrow> keeps h h'"
  by (auto simp: sender_step_def keeps_def Let_def split: prod.split_asm if_split_asm)

lemma keeps_audio: "audio_step b stale t encoded c h = Inr (c', h') \<Longrightarrow> keeps h h'"
  unfolding audio_step_def
  by (auto simp: Let_def elim!: fbind_InrE dest!: keeps_take_udp split: prod.split_asm option.split_asm if_split_asm)
    (auto simp: keeps_def give_back_def enqueue_packet_def)

lemma keeps_message: "on_message b ff env ip port decrypted n k h = Inr (es, h') \<Longrightarrow> keeps h h'"
  unfolding on_message_def on_retransmit_def
  by (auto simp: Let_def keeps_def put_client_def enqueue_packet_def elim!: fbind_InrE dest!: keeps_take_udp
      split: prod.split_asm option.split_asm if_split_asm)

lemma keeps_secure: "on_secure b ff env ip port buf h = Some (Inr (es, h')) \<Longrightarrow> keeps h h'"
proof (erule on_secure_cases)
  fix k plaintext assume "accept_message b ff env ip port (dec_SecureHeader buf) plaintext k h = Inr (es, h')"
  then show "keeps h h'"
    by (auto simp: accept_message_def Let_def dest!: keeps_message split: if_split_asm) (auto simp: keeps_def put_client_def)
qed simp

section \<open>The admission bound\<close>

definition address :: "init_thread \<Rightarrow> string \<times> u16" where
  "address t = (it_ip t, it_port t)"

definition live :: "init_thread list \<Rightarrow> init_thread list" where
  "live ts = filter (\<lambda>t. it_phase t \<noteq> Ended) ts"

definition answered :: "init_thread list \<Rightarrow> init_thread list" where
  "answered ts = filter (\<lambda>t. it_phase t = Answered) ts"

definition admission_inv :: "host \<Rightarrow> bool" where
  "admission_inv h \<longleftrightarrow> distinct (h_initializing h) \<and> length (h_initializing h) \<le> 32
     \<and> distinct (map address (live (h_initThreads h)))
     \<and> address ` set (live (h_initThreads h)) \<subseteq> set (h_initializing h)
     \<and> (\<forall>t \<in> set (h_initThreads h). it_finished t \<longrightarrow> it_phase t = Ended)
     \<and> length (h_clients h) + length (h_initializing h) \<le> 32 + length (answered (h_initThreads h))"

lemma admission_inv_new: "admission_inv (host_new bus)"
  by (simp add: admission_inv_def host_new_def live_def answered_def)

lemma admission_inv_keeps: "admission_inv h \<Longrightarrow> keeps h h' \<Longrightarrow> admission_inv h'"
  by (auto simp: admission_inv_def keeps_def)

lemma reap_keeps_live:
  assumes "\<forall>t \<in> set ts. it_finished t \<longrightarrow> it_phase t = Ended"
  shows "live (filter (\<lambda>t. \<not> it_finished t) ts) = live ts" "answered (filter (\<lambda>t. \<not> it_finished t) ts) = answered ts"
  using assms by (auto simp: live_def answered_def intro!: filter_cong)

lemma admission_inv_admit:
  assumes "admission_inv h" and "admit env ip port key h = (es, h')"
  shows "admission_inv h'"
proof (cases "h' = h")
  case False
  then have room: "length (h_clients h) + length (h_initializing h) < 32" and new: "(ip, port) \<notin> set (h_initializing h)"
    and h': "h_initializing h' = (ip, port) # h_initializing h" "h_clients h' = h_clients h"
      "h_initThreads h' = filter (\<lambda>t. \<not> it_finished t) (h_initThreads h)
          @ [\<lparr>it_ip = ip, it_port = port, it_clientPublicKey = key, it_phase = Running, it_finished = False\<rparr>]"
    using assms(2) by (auto simp: admit_def split: if_split_asm)
  have r: "live (filter (\<lambda>t. \<not> it_finished t) (h_initThreads h)) = live (h_initThreads h)"
    "answered (filter (\<lambda>t. \<not> it_finished t) (h_initThreads h)) = answered (h_initThreads h)"
    using reap_keeps_live assms(1) by (auto simp: admission_inv_def)
  have l: "live (xs @ ys) = live xs @ live ys" "answered (xs @ ys) = answered xs @ answered ys" for xs ys
    by (simp_all add: live_def answered_def)
  show ?thesis
    using assms(1) room new unfolding admission_inv_def h' l r
    by (auto simp: live_def answered_def address_def)
qed (use assms in simp)

text \<open>A thread that moves on, in the middle of the list.\<close>

lemma thread_split:
  assumes "k < length (h_initThreads h)"
  obtains as bs where "h_initThreads h = as @ h_initThreads h ! k # bs" and "length as = k"
  by (rule that [of "take k (h_initThreads h)" "drop (Suc k) (h_initThreads h)"])
    (use assms in \<open>simp_all add: id_take_nth_drop [symmetric]\<close>)

lemma live_split:
  "live (as @ t # bs) = live as @ (if it_phase t = Ended then [] else [t]) @ live bs"
  "length (answered (as @ t # bs)) = length (answered as) + (if it_phase t = Answered then 1 else 0) + length (answered bs)"
  by (simp_all add: live_def answered_def)

lemma set_phase_threads:
  "h_initThreads h = as @ t # bs \<Longrightarrow> length as = k \<Longrightarrow>
   h_initThreads (set_phase k ph fin h) = as @ t\<lparr>it_phase := ph, it_finished := fin\<rparr> # bs"
  by (auto simp: set_phase_def)

lemma set_phase_fields [simp]:
  "h_clients (set_phase k ph fin h) = h_clients h" "h_initializing (set_phase k ph fin h) = h_initializing h"
  by (simp_all add: set_phase_def)

lemma address_update [simp]: "address (t\<lparr>it_phase := ph, it_finished := fin\<rparr>) = address t"
  by (simp add: address_def)

lemma length_filter_out: "distinct xs \<Longrightarrow> x \<in> set xs \<Longrightarrow> length (filter (\<lambda>a. a \<noteq> x) xs) = length xs - 1"
proof (induction xs)
  case (Cons y xs)
  show ?case
  proof (cases "x = y")
    case True
    then have "filter (\<lambda>a. a \<noteq> x) xs = xs" using Cons.prems by (auto intro: filter_True)
    then show ?thesis using True by simp
  next
    case False
    then have "0 < length xs" using Cons.prems by auto
    then show ?thesis using Cons False by auto
  qed
qed simp

lemma admission_inv_ends:
  assumes "admission_inv h" and "h_initThreads h = as @ t # bs" and "length as = k" and "it_phase t \<noteq> Ended"
    and "it_phase t = Answered \<or> \<not> fin" and "leave \<or> it_phase t \<noteq> Answered"
  shows "admission_inv (set_phase k Ended fin (if leave then leave_initializing k h else h))"
proof -
  let ?h = "if leave then leave_initializing k h else h"
  have ts: "h_initThreads ?h = as @ t # bs" using assms(2) by (simp add: leave_initializing_def Let_def)
  have t: "h_initThreads h ! k = t" using assms(2,3) by auto
  have inv: "distinct (h_initializing h)" "length (h_initializing h) \<le> 32"
    "distinct (map address (live as @ [t] @ live bs))" "address ` set (live as @ [t] @ live bs) \<subseteq> set (h_initializing h)"
    "\<forall>t \<in> set (as @ t # bs). it_finished t \<longrightarrow> it_phase t = Ended"
    "length (h_clients h) + length (h_initializing h) \<le> 32 + (length (answered as)
       + (if it_phase t = Answered then 1 else 0) + length (answered bs))"
    using assms(1,4) unfolding admission_inv_def assms(2) live_split by simp_all
  have mem: "address t \<in> set (h_initializing h)" using inv(4) by auto
  have i: "h_initializing ?h = (if leave then filter (\<lambda>a. a \<noteq> address t) (h_initializing h) else h_initializing h)"
    using t by (simp add: leave_initializing_def address_def Let_def)
  note len = length_filter_out [OF inv(1) mem]
  have pos: "0 < length (h_initializing h)" using mem by auto
  have c: "h_clients ?h = h_clients h" by (simp add: leave_initializing_def Let_def)
  have n: "distinct (h_initializing ?h)" "length (h_initializing ?h) \<le> 32"
    unfolding i using inv(1,2) len by (cases leave, simp, simp)+
  have count: "length (h_clients ?h) + length (h_initializing ?h) \<le> 32 + (length (answered as) + length (answered bs))"
  proof (cases leave)
    case True
    then have "length (h_initializing ?h) = length (h_initializing h) - 1" using i len by simp
    moreover have "length (h_clients h) + length (h_initializing h) \<le> 33 + (length (answered as) + length (answered bs))"
      using inv(6) by (cases "it_phase t = Answered") simp_all
    ultimately show ?thesis using pos unfolding c by linarith
  next
    case False
    then show ?thesis using inv(6) assms(6) by simp
  qed
  have others: "address t \<notin> address ` set (live as @ live bs)" "distinct (map address (live as @ live bs))"
    using inv(3) by auto
  then have "address ` set (live as @ live bs) \<subseteq> set (h_initializing ?h)" using inv(4) i by auto
  then show ?thesis
    using n count others inv(5) unfolding admission_inv_def set_phase_threads [OF ts assms(3)] live_split set_phase_fields
    by simp
qed

lemma admission_inv_answers:
  assumes "admission_inv h" and "h_initThreads h = as @ t # bs" and "length as = k" and "it_phase t = Running"
    and "length (h_clients h') \<le> Suc (length (h_clients h))" and "h_initializing h' = h_initializing h"
    and "h_initThreads h' = h_initThreads h"
  shows "admission_inv (set_phase k Answered False h')"
  using assms(1,4-6) assms(7) unfolding admission_inv_def assms(2,7) live_split
    set_phase_threads [OF assms(7) [unfolded assms(2)] assms(3)] set_phase_fields
  by auto

lemma admission_inv_answer:
  assumes "admission_inv h" and "k < length (h_initThreads h)" and "it_phase (h_initThreads h ! k) = Running"
    and "init_answer b ff fps device useHardware env k h = (es, h')"
  shows "admission_inv h'"
proof -
  obtain as bs where ts: "h_initThreads h = as @ h_initThreads h ! k # bs" "length as = k"
    by (rule thread_split [OF assms(2)])
  note ends = admission_inv_ends [OF assms(1) ts, where fin = False] and answers = admission_inv_answers [OF assms(1) ts assms(3)]
  have "admission_inv (set_phase k Ended False h)" "admission_inv (set_phase k Ended False (leave_initializing k h))"
    "admission_inv (set_phase k Answered False (h\<lparr>h_clients := h_clients h @ [c]\<rparr>))"
    "admission_inv (set_phase k Answered False h)" for c
    using ends [of False] ends [of True] answers assms(3) by simp_all
  then show ?thesis using assms(4)
    by (auto simp: init_answer_def Let_def split: if_split_asm prod.split_asm bool.split_asm)
qed

lemma admission_inv_step:
  assumes "hstep h h'" and "admission_inv h"
  shows "admission_inv h'"
  using assms
proof (cases rule: hstep.cases)
  case (start w d s)
  then have "keeps h h'"
    by (auto simp: capture_resolution_def keeps_def elim!: fbind_InrE split: if_split_asm)
  then show ?thesis using admission_inv_keeps assms(2) by blast
next
  case (audio k b stale t encoded c h1)
  then have "keeps h h'" using keeps_audio keeps_trans keeps_updates(5) by blast
  then show ?thesis using admission_inv_keeps assms(2) by blast
next
  case (datagram fuel b ff env ip port dg buf es buf')
  have "length dg \<le> length (into_buffer dg buf)" by (simp add: into_buffer_def)
  with datagram show ?thesis unfolding receive_datagram_def
  proof (cases rule: receive_loop_cases)
    case 2
    then show ?thesis using assms(2) admission_inv_admit
      by (auto simp: handshake_def split: option.split_asm)
  qed (use assms(2) admission_inv_keeps keeps_secure in blast)+
next
  case (finish k)
  obtain as bs where ts: "h_initThreads h = as @ h_initThreads h ! k # bs" "length as = k"
    by (rule thread_split [OF finish(2)])
  show ?thesis using admission_inv_ends [OF assms(2) ts, where fin = True and leave = True] finish
    by (simp add: init_finish_def)
next
  case (capture ff fps device useHardware now acq)
  then show ?thesis using keeps_capture admission_inv_keeps assms(2) by blast
next
  case (packetize b stale)
  then show ?thesis using keeps_packetize admission_inv_keeps assms(2) by blast
next
  case (send out)
  then show ?thesis using keeps_send admission_inv_keeps assms(2) by blast
next
  case (late_admission env ip port key es)
  then show ?thesis using admission_inv_admit assms(2) by blast
next
  case (answer k b ff fps device useHardware env es)
  then show ?thesis using admission_inv_answer assms(2) by blast
next
  case stop
  then show ?thesis using keeps_updates(1) admission_inv_keeps assms(2) by blast
qed

lemma admission_inv_reachable: "hstep\<^sup>*\<^sup>* h h' \<Longrightarrow> admission_inv h \<Longrightarrow> admission_inv h'"
  by (induction rule: rtranclp_induct) (auto intro: admission_inv_step)

text \<open>C9: however the host's threads interleave, it never has more than 32 sessions, never more than 32
  handshakes in progress, and never two handshakes in progress for one address.\<close>
theorem host_admission_bound:
  assumes "hstep\<^sup>*\<^sup>* (host_new bus) h"
  shows "length (h_clients h) \<le> 32 \<and> length (live (h_initThreads h)) \<le> 32
    \<and> distinct (map address (live (h_initThreads h)))"
proof -
  have inv: "admission_inv h" using admission_inv_reachable [OF assms] admission_inv_new by blast
  have "length (answered ts) \<le> length (live ts)" for ts by (induction ts) (auto simp: answered_def live_def)
  then have "length (answered (h_initThreads h)) \<le> length (live (h_initThreads h))" .
  moreover have "length (live (h_initThreads h)) \<le> length (h_initializing h)"
    using inv unfolding admission_inv_def
    by (metis card_mono distinct_card finite_set length_map list.set_map)
  ultimately show ?thesis using inv by (auto simp: admission_inv_def)
qed

theorem host_admission_bound_witness:
  "\<exists>h. hstep\<^sup>*\<^sup>* (host_new True) h \<and> map it_ip (live (h_initThreads h)) = [''10.0.0.2''] \<and> length (h_clients h) \<le> 32"
proof -
  let ?h = "snd (admit sample_receive_env ''10.0.0.2'' 5006 [] (host_new True))"
  have step: "hstep (host_new True) ?h" by (rule late_admission) (rule surjective_pairing)
  have names: "map it_ip (live (h_initThreads ?h)) = [''10.0.0.2'']"
    by (simp add: admit_def host_new_def live_def)
  have reach: "hstep\<^sup>*\<^sup>* (host_new True) ?h" using step by (rule r_into_rtranclp)
  have "length (h_clients ?h) \<le> 32" using host_admission_bound [OF reach] by (rule conjunct1)
  with reach names show ?thesis by (intro exI conjI)
qed

text \<open>
  The lookup of a client and the admission hold the mutexes one after the other. When the
  handshake thread of an address publishes its session and ends in between, the retry it answers
  starts a second session for the same address.
\<close>

lemma late_admission_duplicates_session:
  assumes "c \<in> set (h_clients h)" and "(cs_ip c, cs_port c) \<notin> set (h_initializing h)"
    and "length (h_clients h) + length (h_initializing h) < 32"
  shows "\<exists>h'. hstep h h' \<and> h_clients h' = h_clients h \<and> (cs_ip c, cs_port c) \<in> address ` set (live (h_initThreads h'))"
proof -
  let ?h = "snd (admit sample_receive_env (cs_ip c) (cs_port c) [] h)"
  have "hstep h ?h" by (rule late_admission) (rule surjective_pairing)
  moreover have "h_clients ?h = h_clients h" "(cs_ip c, cs_port c) \<in> address ` set (live (h_initThreads ?h))"
    using assms(2,3) by (auto simp: admit_def live_def address_def image_iff)
  ultimately show ?thesis by blast
qed

text \<open>A failed key derivation ends the thread without its flag: it is never joined while the host runs.\<close>

lemma failed_derivation_is_never_reaped:
  assumes "k < length (h_initThreads h)" and "h_running h"
    and "derive_session_keys b (publicKey (generate_key_pair b)) (privateKey (generate_key_pair b))
      (it_clientPublicKey (h_initThreads h ! k)) [] [] True = (False, rx, tx)"
  shows "\<exists>h'. init_answer b ff fps device useHardware env k h = ([], h')
    \<and> it_phase (h_initThreads h' ! k) = Ended \<and> \<not> it_finished (h_initThreads h' ! k)"
  using assms by (simp add: init_answer_def Let_def set_phase_def leave_initializing_def)

end
