(* ===== verification/ClientSession.thy ===== *)
theory ClientSession
  imports HostReceiver Recovery JitterBuffer IntelligentRouter
begin

text \<open>
  The client side of a session, \<open>SessionManager::runClient\<close> (\<open>cpp/common/session_manager.cpp\<close>): the
  network thread over its 65535-byte buffer, the handshake with its retries, and the main loop,
  which feeds complete frames from the receiver to the jitter buffer, sends feedback,
  retransmission requests and time synchronisation, and decodes. The decoder, the renderer, the
  profiler and the clocks are arguments. Logging is left out.
\<close>

section \<open>State\<close>

record candidate =
  cd_ip :: string
  cd_port :: u16
  cd_priority :: u8

record client =
  cl_keys :: KeyPair
  cl_rxKey :: bytes
  cl_txKey :: bytes
  cl_sessionId :: u64
  cl_sendSequence :: u64
  cl_receiver :: receiver
  cl_jitter :: jitter_buffer
  cl_clock :: clock
  cl_hostIp :: string
  cl_hostPort :: u16
  cl_lastFrameId :: u32
  cl_approved :: bool
  cl_rejected :: bool
  cl_requestKeyframe :: bool
  cl_lastReportedMissing :: u32
  cl_lastFeedback :: int
  cl_lastTimeSync :: int

definition client_new :: "build \<Rightarrow> string \<Rightarrow> int \<Rightarrow> client" where
  "client_new b hostIp now = \<lparr>cl_keys = generate_key_pair b, cl_rxKey = [], cl_txKey = [], cl_sessionId = 0,
     cl_sendSequence = 0, cl_receiver = receiver_new 30, cl_jitter = jb_new 10, cl_clock = clock_new,
     cl_hostIp = hostIp, cl_hostPort = 5005, cl_lastFrameId = 0, cl_approved = False, cl_rejected = False,
     cl_requestKeyframe = False, cl_lastReportedMissing = 0, cl_lastFeedback = now, cl_lastTimeSync = now\<rparr>"

datatype client_effect = Sent bytes string u16 | Audio bytes | Decoded nat | Failed parsec_error

declare pt_code.simps [simp del]

section \<open>Sending in the session\<close>

definition client_seal :: "build \<Rightarrow> bytes \<Rightarrow> bytes \<Rightarrow> client \<Rightarrow> client_effect list \<times> client" where
  "client_seal b stale message c =
     (let sequence = cl_sendSequence c; c = c\<lparr>cl_sendSequence := sequence + 1\<rparr> in
      case seal b stale (cl_sessionId c) sequence (cl_txKey c) message of None \<Rightarrow> ([], c)
      | Some dg \<Rightarrow> ([Sent dg (cl_hostIp c) (cl_hostPort c)], c))"

text \<open>The callback of the input capture.\<close>

definition is_loopback :: "string \<Rightarrow> bool" where
  "is_loopback ip \<longleftrightarrow> ip = ''127.0.0.1'' \<or> ip = ''localhost'' \<or> ip = ''::1''"

definition send_input :: "build \<Rightarrow> bytes \<Rightarrow> string \<Rightarrow> bytes \<Rightarrow> client \<Rightarrow> client_effect list \<times> client" where
  "send_input b stale configuredHost event c =
     (if \<not> is_loopback configuredHost \<and> cl_sessionId c \<noteq> 0 then
        if 2048 < length event + 35 then ([], c) else client_seal b stale event c
      else ([], c))"

section \<open>The network thread\<close>

record client_env =
  ce_receiveTime :: u64
  ce_wallTime :: u64
  ce_staleDecrypted :: bytes

definition on_video :: "client_env \<Rightarrow> bytes \<Rightarrow> client \<Rightarrow> fault + client" where
  "on_video env decrypted c =
     (let vh = dec_VideoHeader decrypted in
      fbind (process_packet vh (drop 40 decrypted) (ce_receiveTime env) (cl_receiver c)) (\<lambda>r.
        Inr (c\<lparr>cl_receiver := r, cl_lastFrameId := max (cl_lastFrameId c) (vh_frameId vh)\<rparr>)))"

text \<open>The decoder is given as many bytes as the inner header says.\<close>

definition on_audio :: "bytes \<Rightarrow> fault + client_effect list" where
  "on_audio decrypted =
     fbind (vec_read decrypted 15 (unat (ah_dataSize (dec_AudioHeader decrypted)))) (\<lambda>bs. Inr [Audio bs])"

definition on_sync_reply :: "client_env \<Rightarrow> bytes \<Rightarrow> client \<Rightarrow> fault + client" where
  "on_sync_reply env decrypted c =
     (let ts = dec_TimeSyncResponsePacket decrypted in
      fbind (process_response (tr_clientSendTimestamp ts) (tr_hostReceiveTimestamp ts) (tr_hostSendTimestamp ts)
               (ce_wallTime env) (cl_clock c)) (\<lambda>k. Inr (c\<lparr>cl_clock := k\<rparr>)))"

definition client_message :: "client_env \<Rightarrow> bytes \<Rightarrow> nat \<Rightarrow> client \<Rightarrow> fault + (client_effect list \<times> client)" where
  "client_message env decrypted n c =
     (let ty = decrypted ! 0 in
      if ty = pt_code PtVideo \<and> 40 \<le> n then fbind (on_video env decrypted c) (\<lambda>c. Inr ([], c))
      else if ty = pt_code PtAudio \<and> 15 \<le> n then fbind (on_audio decrypted) (\<lambda>es. Inr (es, c))
      else if ty = pt_code PtTimeSync \<and> 25 \<le> n then fbind (on_sync_reply env decrypted c) (\<lambda>c. Inr ([], c))
      else Inr ([], c))"

text \<open>\<open>None\<close>: the \<open>continue\<close> for an oversized message.\<close>

definition client_secure ::
  "build \<Rightarrow> client_env \<Rightarrow> bytes \<Rightarrow> client \<Rightarrow> (fault + (client_effect list \<times> client)) option" where
  "client_secure b env buf c =
     (let sh = dec_SecureHeader buf; n = unat (sh_encryptedSize sh) in
      if sh_sessionId sh = cl_sessionId c \<and> cl_sessionId c \<noteq> 0 then
        if 2048 < n then None
        else Some (fbind (open_envelope b (cl_rxKey c) buf) (\<lambda>r. case r of None \<Rightarrow> Inr ([], c)
          | Some plaintext \<Rightarrow>
              (case receiver_validate (sh_sequenceNumber sh) (cl_receiver c) of
                (fresh, rx) \<Rightarrow>
                  let c = c\<lparr>cl_receiver := rx\<rparr> in
                  if fresh then client_message env (into_buffer plaintext (ce_staleDecrypted env)) n c
                  else Inr ([], c))))
      else Some (Inr ([], c)))"

text \<open>Whoever sends it, an approving response makes the keys, the session and the path.\<close>

definition on_response :: "build \<Rightarrow> string \<Rightarrow> u16 \<Rightarrow> bytes \<Rightarrow> client \<Rightarrow> client" where
  "on_response b ip port buf c =
     (let hr = dec_HandshakeSecureResponsePacket buf in
      if hr_approved hr \<noteq> 0 then
        (case derive_session_keys b (publicKey (cl_keys c)) (privateKey (cl_keys c)) (hr_hostPublicKey hr)
                (cl_rxKey c) (cl_txKey c) False of
          (ok, rxKey, txKey) \<Rightarrow>
            if ok then c\<lparr>cl_rxKey := rxKey, cl_txKey := txKey, cl_sessionId := hr_sessionId hr, cl_hostIp := ip,
              cl_hostPort := port, cl_approved := True\<rparr>
            else c\<lparr>cl_rxKey := rxKey, cl_txKey := txKey\<rparr>)
      else c\<lparr>cl_rejected := True\<rparr>)"

definition client_unwrap :: "bytes \<Rightarrow> nat \<Rightarrow> client \<Rightarrow> (bytes \<times> nat) option" where
  "client_unwrap buf len c =
     (if 27 < len \<and> rh_sessionId (dec_RelayHeader buf) = cl_sessionId c \<and> buf ! 27 = pt_code PtSecure
      then Some (take (len - 27) (drop 27 buf) @ drop (len - 27) buf, len - 27) else None)"

fun client_loop ::
  "nat \<Rightarrow> build \<Rightarrow> client_env \<Rightarrow> string \<Rightarrow> u16 \<Rightarrow> bytes \<Rightarrow> nat \<Rightarrow> client
    \<Rightarrow> (fault + (client_effect list \<times> bytes \<times> client)) option" where
  "client_loop 0 b env ip port buf len c = None"
| "client_loop (Suc fuel) b env ip port buf len c =
     (let ty = buf ! 0 in
      if len = 0 then Some (Inr ([], buf, c))
      else if ty = pt_code PtCandidateDiscovery \<and> 68 \<le> len then
        Some (fbind (c_string buf 1) (\<lambda>_. Inr ([], buf, c)))
      else if ty = pt_code PtRelayData \<and> 27 \<le> len then
        (case client_unwrap buf len c of None \<Rightarrow> Some (Inr ([], buf, c))
         | Some (buf, len) \<Rightarrow> client_loop fuel b env ip port buf len c)
      else if ty = pt_code PtSecure \<and> 35 \<le> len then
        (case client_secure b env buf c of None \<Rightarrow> client_loop fuel b env ip port buf len c
         | Some r \<Rightarrow> Some (fbind r (\<lambda>(es, c). Inr (es, buf, c))))
      else if ty = pt_code PtHandshakeSecureResponse \<and> 42 \<le> len then
        Some (Inr ([], buf, on_response b ip port buf c))
      else Some (Inr ([], buf, c)))"

definition client_datagram ::
  "nat \<Rightarrow> build \<Rightarrow> client_env \<Rightarrow> string \<Rightarrow> u16 \<Rightarrow> bytes \<Rightarrow> bytes \<Rightarrow> client
    \<Rightarrow> (fault + (client_effect list \<times> bytes \<times> client)) option" where
  "client_datagram fuel b env ip port dg buf c = client_loop fuel b env ip port (into_buffer dg buf) (length dg) c"

declare client_loop.simps [simp del]

section \<open>Frames are accounted for\<close>

text \<open>Every frame buffer of the receiver is in its ring, its pool, the jitter buffer or among \<open>gone\<close>.\<close>

definition client_ok :: "nat multiset \<Rightarrow> client \<Rightarrow> bool" where
  "client_ok gone c \<longleftrightarrow> jb_wf (cl_jitter c) \<and> receiver_wf (held (cl_jitter c) + gone) (cl_receiver c)"

lemma client_ok_new: "client_ok {#} (client_new b ip now)"
  by (simp add: client_ok_def client_new_def jb_new_wf receiver_wf_new)

definition same_frames :: "client \<Rightarrow> client \<Rightarrow> bool" where
  "same_frames c c' \<longleftrightarrow> cl_jitter c' = cl_jitter c \<and> cl_receiver c' = cl_receiver c"

lemma same_frames_ok: "same_frames c c' \<Longrightarrow> client_ok gone c' = client_ok gone c"
  by (simp add: same_frames_def client_ok_def)

lemma client_seal_same: "client_seal b stale msg c = (es, c') \<Longrightarrow> same_frames c c'"
  by (auto simp: client_seal_def same_frames_def Let_def split: option.split_asm)

lemma on_video_ok:
  assumes "client_ok gone c" and "2048 \<le> length decrypted"
  shows "\<exists>c'. on_video env decrypted c = Inr c' \<and> client_ok gone c'"
proof -
  have wf: "receiver_wf (held (cl_jitter c) + gone) (cl_receiver c)" using assms(1) by (simp add: client_ok_def)
  have "unat (vh_dataSize (dec_VideoHeader decrypted)) \<le> MAX_UDP_PAYLOAD \<Longrightarrow>
      unat (vh_dataSize (dec_VideoHeader decrypted)) \<le> length (drop 40 decrypted)"
    using assms(2) by (simp add: MAX_UDP_PAYLOAD_def)
  from process_packet_wf [OF wf this, where now = "ce_receiveTime env"] obtain r where
    "process_packet (dec_VideoHeader decrypted) (drop 40 decrypted) (ce_receiveTime env) (cl_receiver c) = Inr r"
    "receiver_wf (held (cl_jitter c) + gone) r" by blast
  then show ?thesis using assms(1) by (simp add: on_video_def client_ok_def Let_def)
qed

text \<open>The faults a message can cause: what the inner audio header announces, and clock arithmetic.\<close>

definition net_fault :: "fault \<Rightarrow> bool" where
  "net_fault e \<longleftrightarrow> e = OutOfBounds \<or> e = SignedOverflow"

lemma client_message_ok:
  assumes "client_ok gone c" and "2048 \<le> length decrypted"
  shows "case client_message env decrypted n c of Inl e \<Rightarrow> net_fault e | Inr (es, c') \<Rightarrow> client_ok gone c'"
proof -
  obtain c1 where v: "on_video env decrypted c = Inr c1" "client_ok gone c1" using on_video_ok [OF assms] by blast
  have a: "net_fault e" if "on_audio decrypted = Inl e" for e
    using that by (auto simp: on_audio_def vec_read_def net_fault_def fbind_Inl_iff split: if_split_asm)
  have s: "case on_sync_reply env decrypted c of Inl e \<Rightarrow> net_fault e | Inr c' \<Rightarrow> client_ok gone c'"
    using assms(1) by (auto simp: on_sync_reply_def process_response_def i64_def net_fault_def Let_def client_ok_def
        fbind_def split: sum.split if_split)
  show ?thesis
  proof (cases "decrypted ! 0 = pt_code PtVideo \<and> 40 \<le> n")
    case True
    then show ?thesis using v by (simp add: client_message_def)
  next
    case other: False
    show ?thesis
    proof (cases "decrypted ! 0 = pt_code PtAudio \<and> 15 \<le> n")
      case True
      then show ?thesis using other a assms(1) by (cases "on_audio decrypted") (simp_all add: client_message_def)
    next
      case False
      then show ?thesis using other s assms(1)
        by (cases "on_sync_reply env decrypted c") (auto simp: client_message_def Let_def)
    qed
  qed
qed

lemma client_secure_ok:
  assumes "client_ok gone c" and "length (ce_staleDecrypted env) = 2048" and "client_secure b env buf c = Some r"
  shows "case r of Inl e \<Rightarrow> net_fault e | Inr (es, c') \<Rightarrow> client_ok gone c'"
proof -
  have v: "client_ok gone (c\<lparr>cl_receiver := rx\<rparr>)" if "receiver_validate s (cl_receiver c) = (fresh, rx)" for s fresh rx
    using that assms(1) by (auto simp: client_ok_def receiver_validate_def split_beta Let_def)
  have l: "2048 \<le> length (into_buffer p (ce_staleDecrypted env))" for p using assms(2) by (simp add: into_buffer_def)
  have oe: "net_fault e" if "open_envelope b k buf = Inl e" for e k
    using that by (auto simp: open_envelope_def vec_read_def net_fault_def Let_def fbind_Inl_iff split: if_split_asm)
  show ?thesis
  proof (cases "sh_sessionId (dec_SecureHeader buf) = cl_sessionId c \<and> cl_sessionId c \<noteq> 0")
    case False
    then show ?thesis using assms(1,3) by (auto simp: client_secure_def Let_def)
  next
    case True
    let ?n = "unat (sh_encryptedSize (dec_SecureHeader buf))"
    have small: "\<not> 2048 < ?n" using True assms(3) by (auto simp: client_secure_def Let_def)
    obtain fresh rx where f: "receiver_validate (sh_sequenceNumber (dec_SecureHeader buf)) (cl_receiver c) = (fresh, rx)"
      by (cases "receiver_validate (sh_sequenceNumber (dec_SecureHeader buf)) (cl_receiver c)")
    have r: "r = fbind (open_envelope b (cl_rxKey c) buf) (\<lambda>res. case res of None \<Rightarrow> Inr ([], c)
        | Some p \<Rightarrow> if fresh then client_message env (into_buffer p (ce_staleDecrypted env)) ?n (c\<lparr>cl_receiver := rx\<rparr>)
            else Inr ([], c\<lparr>cl_receiver := rx\<rparr>))"
      using True assms(3) small f by (simp add: client_secure_def Let_def cong: option.case_cong)
    show ?thesis
    proof (cases "open_envelope b (cl_rxKey c) buf")
      case (Inl e)
      then show ?thesis using r oe by simp
    next
      case (Inr res)
      then show ?thesis using r assms(1) v [OF f] client_message_ok [OF v [OF f] l] by (cases res; cases fresh) simp_all
    qed
  qed
qed

lemma on_response_ok: "client_ok gone c \<Longrightarrow> client_ok gone (on_response b ip port buf c)"
  by (auto simp: on_response_def client_ok_def Let_def split: prod.split)

lemma client_loop_ok:
  assumes "client_ok gone c" and "length (ce_staleDecrypted env) = 2048"
    and "client_loop fuel b env ip port buf len c = Some r"
  shows "case r of Inl e \<Rightarrow> net_fault e | Inr (es, buf', c') \<Rightarrow> client_ok gone c'"
  using assms(3)
proof (induction fuel arbitrary: buf len)
  case 0
  then show ?case by (simp add: client_loop.simps)
next
  case (Suc fuel)
  have cand: "net_fault e" if "c_string buf 1 = Inl e" for e
    using that by (auto simp: c_string_def net_fault_def Let_def split: if_split_asm)
  show ?case
  proof (cases "buf ! 0 = pt_code PtSecure \<and> 35 \<le> len")
    case secure: True
    show ?thesis
    proof (cases "client_secure b env buf c")
      case None
      then show ?thesis using secure Suc by (auto simp: client_loop.simps)
    next
      case (Some x)
      then have "r = fbind x (\<lambda>(es, c). Inr (es, buf, c))" using secure Suc.prems by (auto simp: client_loop.simps)
      then show ?thesis using client_secure_ok [OF assms(1,2) Some] by (cases x) auto
    qed
  next
    case not_secure: False
    show ?thesis
    proof (cases "buf ! 0 = pt_code PtRelayData \<and> 27 \<le> len")
      case relay: True
      show ?thesis
      proof (cases "client_unwrap buf len c")
        case None
        then show ?thesis using relay Suc.prems assms(1) by (auto simp: client_loop.simps)
      next
        case (Some x)
        then show ?thesis using relay Suc by (cases x) (auto simp: client_loop.simps)
      qed
    next
      case False
      then have "r = Inr ([], buf, c) \<or> r = Inr ([], buf, on_response b ip port buf c)
          \<or> r = fbind (c_string buf 1) (\<lambda>_. Inr ([], buf, c))"
        using not_secure Suc.prems unfolding client_loop.simps Let_def by (metis option.inject)
      then show ?thesis using cand assms(1) on_response_ok [OF assms(1)] by (cases "c_string buf 1") auto
    qed
  qed
qed

end
