(* ===== verification/ClientLoop.thy ===== *)
theory ClientLoop
  imports ClientSession
begin

text \<open>
  The main thread of \<open>SessionManager::runClient\<close> (\<open>cpp/common/session_manager.cpp\<close>): candidates
  and handshake with its retries, then the loop over a frame. A frame is the address of its
  buffer in the receiver's storage, so that the frames in the receiver, in the jitter buffer and
  lost are accounted for together.
\<close>

section \<open>Candidates and handshake\<close>

text \<open>\<open>strncpy\<close> of at most \<open>n\<close> characters.\<close>

definition strncpy :: "nat \<Rightarrow> string \<Rightarrow> bytes" where
  "strncpy n s = take n (map of_char s) @ replicate (n - length s) 0"

definition candidate_packet :: "u8 \<Rightarrow> string \<Rightarrow> u16 \<Rightarrow> u8 \<Rightarrow> bytes" where
  "candidate_packet stale ip port priority = enc_CandidatePacket \<lparr>cp_type = pt_code PtCandidateDiscovery,
     cp_ip = strncpy 63 ip @ [stale], cp_port = port, cp_priority = priority\<rparr>"

definition announce_candidates :: "u8 \<Rightarrow> string \<Rightarrow> candidate list \<Rightarrow> client_effect list" where
  "announce_candidates stale configuredHost cands =
     map (\<lambda>k. Sent (candidate_packet stale (cd_ip k) (cd_port k) (cd_priority k)) configuredHost 5005) cands"

definition handshake_packet :: "string \<Rightarrow> client \<Rightarrow> bytes" where
  "handshake_packet username c = enc_HandshakeSecurePacket \<lparr>hs_type = pt_code PtHandshakeSecure,
     hs_clientPublicKey = take 32 (publicKey (cl_keys c)), hs_username = strncpy 31 username @ [0]\<rparr>"

definition candidate_route :: "candidate \<Rightarrow> route_candidate" where
  "candidate_route k = \<lparr>rc_id = cd_ip k, rc_ip = cd_ip k, rc_port = cd_port k,
     rc_measuredLatencyMs = Fin (if cd_priority k = 0 then 50 else if cd_priority k = 1 then 100 else 200),
     rc_packetLoss = Fin 0, rc_regionalLoad = 0, rc_stabilityTrend = Fin 0\<rparr>"

definition attempt_handshake ::
  "u8 \<Rightarrow> u8 \<Rightarrow> string \<Rightarrow> string \<Rightarrow> string \<Rightarrow> u16 \<Rightarrow> candidate list \<Rightarrow> client \<Rightarrow> client_effect list" where
  "attempt_handshake stale stalePriority configuredHost username publicIp publicPort cands c =
     (let hp = handshake_packet username c;
          hpp = candidate_packet stale publicIp publicPort stalePriority
      in Sent hp configuredHost 5005 #
         concat (map (\<lambda>score. concat (map (\<lambda>k. if cd_ip k = rs_id score
             then [Sent hp (cd_ip k) (cd_port k), Sent hpp (cd_ip k) (cd_port k)] else []) cands))
           (rank_routes (map candidate_route cands))))"

record handshake_state =
  hk_start :: int
  hk_lastSend :: int
  hk_retry :: nat
  hk_relay :: bool

text \<open>\<open>std::min(5, (1 << retryCount))\<close>, an \<open>int\<close> shift.\<close>

definition retry_interval :: "nat \<Rightarrow> fault + int" where
  "retry_interval k = (if k < 31 then Inr (min 5 (2 ^ k)) else Inl SignedOverflow)"

text \<open>One round of the loop: whether the handshake is sent again, and whether the client gives up.\<close>

definition handshake_round :: "int \<Rightarrow> handshake_state \<Rightarrow> fault + (bool \<times> bool \<times> handshake_state)" where
  "handshake_round now s =
     (let elapsed = seconds (now - hk_start s);
          s = (if 3 \<le> elapsed \<and> \<not> hk_relay s then s\<lparr>hk_relay := True\<rparr> else s)
      in fbind (retry_interval (hk_retry s)) (\<lambda>interval.
           let again = interval \<le> seconds (now - hk_lastSend s) \<or> hk_relay s \<and> hk_retry s = 0;
               s = (if again then s\<lparr>hk_lastSend := now, hk_retry := hk_retry s + 1\<rparr> else s)
           in Inr (again, 30 < elapsed, s)))"

datatype handshake_outcome = Responded | TimedOut | StillWaiting

text \<open>The readings of the clock, each with whether the network thread has seen a response by then; the
  number is how often the handshake was sent again.\<close>

fun handshake_loop :: "(int \<times> bool) list \<Rightarrow> handshake_state \<Rightarrow> fault + (handshake_outcome \<times> nat \<times> handshake_state)" where
  "handshake_loop [] s = Inr (StillWaiting, 0, s)"
| "handshake_loop ((now, responded) # ts) s =
     (if responded then Inr (Responded, 0, s)
      else fbind (handshake_round now s) (\<lambda>(again, giveUp, s).
        let n = (if again then 1 else 0) in
        if giveUp then Inr (TimedOut, n, s)
        else fbind (handshake_loop ts s) (\<lambda>(out, m, s). Inr (out, n + m, s))))"

section \<open>The main loop\<close>

record tick_env =
  te_now :: int
  te_loss :: flt
  te_rtt :: flt
  te_decodeTime :: flt
  te_staleFeedback :: FeedbackHeader
  te_staleTag :: bytes
  te_sendTime :: u64
  te_clockTime :: u64
  te_pushNow :: int
  te_pushTime :: int
  te_popNow :: int
  te_decodes :: bool

definition to_uint32 :: "flt \<Rightarrow> fault + u32" where
  "to_uint32 v = (case v of Fin x \<Rightarrow> if - 1 < x \<and> x < 2 ^ 32 then Inr (of_int (rat_trunc x)) else Inl BadConversion
     | _ \<Rightarrow> Inl BadConversion)"

definition gap_check :: "client \<Rightarrow> client" where
  "gap_check c = (let nextExpected = rc_next (cl_receiver c) in
     if nextExpected + 10 < cl_lastFrameId c \<and> nextExpected \<noteq> cl_lastReportedMissing c
     then c\<lparr>cl_requestKeyframe := True, cl_lastReportedMissing := nextExpected\<rparr> else c)"

definition reroute :: "tick_env \<Rightarrow> candidate list \<Rightarrow> client \<Rightarrow> client" where
  "reroute env cands c =
     (let current = \<lparr>rc_id = ''current'', rc_ip = cl_hostIp c, rc_port = cl_hostPort c,
            rc_measuredLatencyMs = to_f32 (te_rtt env), rc_packetLoss = to_f32 (te_loss env),
            rc_regionalLoad = 0, rc_stabilityTrend = Fin 0\<rparr>;
          others = map (\<lambda>k. \<lparr>rc_id = cd_ip k, rc_ip = cd_ip k, rc_port = cd_port k,
            rc_measuredLatencyMs = Fin 100, rc_packetLoss = fc (1 / 100), rc_regionalLoad = 0,
            rc_stabilityTrend = Fin 0\<rparr>) (filter (\<lambda>k. cd_ip k \<noteq> cl_hostIp c) cands);
          best = select_best_route (current # others)
      in if rc_id best \<noteq> ''current'' \<and> should_switch_route current best (fc (2 / 10))
         then c\<lparr>cl_hostIp := rc_ip best, cl_hostPort := rc_port best\<rparr> else c)"

definition feedback_header :: "tick_env \<Rightarrow> client \<Rightarrow> fault + FeedbackHeader" where
  "feedback_header env c = fbind (to_uint32 (te_rtt env)) (\<lambda>rtt. Inr ((te_staleFeedback env)\<lparr>
     fb_type := pt_code PtFeedback, fb_lastReceivedFrameId := cl_lastFrameId c,
     fb_lossRate := bits_of_f32 (to_f32 (te_loss env)), fb_rttMs := rtt,
     fb_avgDecodeTimeMs := bits_of_f32 (fdiv f32 (to_f32 (te_decodeTime env)) (Fin 1000)),
     fb_requestKeyframe := (if cl_requestKeyframe c then 1 else 0)\<rparr>))"

definition feedback_step ::
  "build \<Rightarrow> tick_env \<Rightarrow> candidate list \<Rightarrow> client \<Rightarrow> fault + (client_effect list \<times> client)" where
  "feedback_step b env cands c =
     (if (1000 \<le> milliseconds (te_now env - cl_lastFeedback c) \<or> cl_requestKeyframe c) \<and> cl_sessionId c \<noteq> 0 then
        (let c = reroute env cands c in
         fbind (feedback_header env c) (\<lambda>fb.
           let (es, c) = client_seal b (te_staleTag env) (enc_FeedbackHeader fb) c
           in Inr (es, c\<lparr>cl_lastFeedback := te_now env, cl_requestKeyframe := False\<rparr>)))
      else Inr ([], c))"

fun send_nacks :: "build \<Rightarrow> bytes \<Rightarrow> nack list \<Rightarrow> client \<Rightarrow> client_effect list \<times> client" where
  "send_nacks b stale [] c = ([], c)"
| "send_nacks b stale (k # ks) c =
     (let (es, c) = client_seal b stale (enc_RetransmitRequestPacket \<lparr>rr_type = pt_code PtRetransmitRequest,
            rr_frameId = nk_frameId k, rr_fragmentIndex = nk_fragmentIndex k\<rparr>) c;
          (es', c) = send_nacks b stale ks c
      in (es @ es', c))"

definition nack_step :: "build \<Rightarrow> tick_env \<Rightarrow> client \<Rightarrow> client_effect list \<times> client" where
  "nack_step b env c =
     (if 20 \<le> milliseconds (te_now env - cl_lastTimeSync c)
      then send_nacks b (te_staleTag env) (get_pending_nacks (cl_receiver c)) c else ([], c))"

definition sync_step :: "build \<Rightarrow> tick_env \<Rightarrow> client \<Rightarrow> client_effect list \<times> client" where
  "sync_step b env c =
     (if 2 \<le> seconds (te_now env - cl_lastTimeSync c) \<and> cl_sessionId c \<noteq> 0 then
        (let (es, c) = client_seal b (te_staleTag env) (enc_TimeSyncPacket \<lparr>ts_type = pt_code PtTimeSync,
               ts_clientSendTimestamp = te_sendTime env\<rparr>) c
         in (es, c\<lparr>cl_lastTimeSync := te_now env\<rparr>))
      else ([], c))"

text \<open>Frames the jitter buffer lets go are destroyed: they do not return to the receiver's pool.\<close>

definition recovery_step :: "client \<Rightarrow> nat list \<times> client" where
  "recovery_step c =
     (let latestKeyframe = find_latest_keyframe (cl_receiver c) in
      if 0 < latestKeyframe \<and> rc_next (cl_receiver c) < latestKeyframe then
        (let (jb, gone) = jb_reset latestKeyframe (cl_jitter c)
         in (gone, c\<lparr>cl_receiver := force_advance_to latestKeyframe (cl_receiver c), cl_jitter := jb\<rparr>))
      else ([], c))"

text \<open>\<open>while (auto frame = receiver.GetNextFrame())\<close>; \<open>None\<close> when the fuel does not suffice.\<close>

fun drain_frames :: "nat \<Rightarrow> tick_env \<Rightarrow> client \<Rightarrow> (nat list \<times> client) option" where
  "drain_frames 0 env c = None"
| "drain_frames (Suc n) env c =
     (case get_next_frame (cl_receiver c) of (None, r) \<Rightarrow> Some ([], c\<lparr>cl_receiver := r\<rparr>)
      | (Some a, r) \<Rightarrow>
          (let f = frame_at r a;
               (jb, gone) = push_frame (te_pushNow env) (te_pushTime env) (Some \<lparr>jf_addr = a,
                 jf_frameId = fd_frameId f, jf_captureTimestamp = fd_captureTimestamp f\<rparr>) (cl_jitter c)
           in map_option (\<lambda>(lost, c). (gone @ lost, c))
                (drain_frames n env (c\<lparr>cl_receiver := r, cl_jitter := jb\<rparr>))))"

definition present_step :: "tick_env \<Rightarrow> client \<Rightarrow> fault + (client_effect list \<times> client)" where
  "present_step env c =
     fbind (if m_synchronized (cl_clock c) then get_host_time (te_clockTime env) (cl_clock c) else Inr 0) (\<lambda>syncTime.
     fbind (pop_frame (te_popNow env) syncTime (cl_jitter c)) (\<lambda>(frame, jb).
       case frame of None \<Rightarrow> Inr ([], c\<lparr>cl_jitter := jb\<rparr>)
       | Some f \<Rightarrow> Inr ([Decoded (jf_addr f)], c\<lparr>cl_jitter := jb,
           cl_requestKeyframe := cl_requestKeyframe c \<or> \<not> te_decodes env,
           cl_receiver := return_to_pool (Some (jf_addr f)) (cl_receiver c)\<rparr>)))"

text \<open>A round of the loop: what is sent and decoded, and which frames are destroyed.\<close>

definition client_tick ::
  "nat \<Rightarrow> build \<Rightarrow> tick_env \<Rightarrow> candidate list \<Rightarrow> client \<Rightarrow> (fault + (client_effect list \<times> nat list \<times> client)) option" where
  "client_tick fuel b env cands c =
     (case feedback_step b env cands (gap_check c) of Inl e \<Rightarrow> Some (Inl e)
      | Inr (es1, c) \<Rightarrow>
          (let (es2, c) = nack_step b env c; (es3, c) = sync_step b env c; (gone1, c) = recovery_step c in
           case drain_frames fuel env c of None \<Rightarrow> None
           | Some (gone2, c) \<Rightarrow> Some (fbind (present_step env c) (\<lambda>(es4, c).
               Inr (es1 @ es2 @ es3 @ es4, gone1 @ gone2, c)))))"

section \<open>The handshake ends\<close>

text \<open>The seconds that \<open>k\<close> retransmissions take: 1, 2, 4, then 5 each.\<close>

definition retry_time :: "nat \<Rightarrow> int" where
  "retry_time k = (if k \<le> 3 then 2 ^ k - 1 else 7 + 5 * (int k - 3))"

lemma retry_time_Suc: "retry_time (Suc k) = retry_time k + min 5 (2 ^ k)"
proof (cases "k \<le> 3")
  case True
  then have "k = 0 \<or> k = 1 \<or> k = 2 \<or> k = 3" by auto
  then show ?thesis by (auto simp: retry_time_def)
next
  case False
  then have "(2 :: int) ^ 3 \<le> 2 ^ k" by (intro power_increasing) auto
  then show ?thesis using False by (auto simp: retry_time_def min_def)
qed

lemma retry_time_small: "retry_time k < 31 \<Longrightarrow> k \<le> 7"
  by (auto simp: retry_time_def split: if_split_asm)

definition handshake_inv :: "handshake_state \<Rightarrow> bool" where
  "handshake_inv s \<longleftrightarrow> hk_start s + 1000000000 * retry_time (hk_retry s) \<le> hk_lastSend s
     \<and> hk_lastSend s < hk_start s + 31000000000 \<and> (hk_relay s \<longrightarrow> 0 < hk_retry s)"

lemma handshake_round_inv:
  assumes "handshake_inv s" and "hk_start s \<le> now" and "hk_lastSend s \<le> now"
  obtains again s' where "handshake_round now s = Inr (again, 30 < seconds (now - hk_start s), s')"
    "hk_start s' = hk_start s" "hk_retry s' = hk_retry s + (if again then 1 else 0)" "hk_retry s' \<le> 8"
    "hk_lastSend s' \<le> now" "30 < seconds (now - hk_start s) \<or> handshake_inv s'"
proof -
  have "1000000000 * retry_time (hk_retry s) < 1000000000 * 31" using assms(1) by (simp add: handshake_inv_def)
  then have k: "hk_retry s \<le> 7" using retry_time_small by auto
  have i: "retry_interval (hk_retry s) = Inr (min 5 (2 ^ hk_retry s))" using k by (simp add: retry_interval_def)
  have step: "handshake_inv (s\<lparr>hk_lastSend := now, hk_retry := hk_retry s + 1, hk_relay := r\<rparr>)"
    if "\<not> 30 < seconds (now - hk_start s)"
      and "min 5 (2 ^ hk_retry s) \<le> seconds (now - hk_lastSend s) \<or> 3 \<le> seconds (now - hk_start s) \<and> hk_retry s = 0" for r
  proof -
    have early: "now < hk_start s + 31000000000" using that(1) assms(2) by (simp add: seconds_nonneg)
    have "hk_start s + 1000000000 * retry_time (Suc (hk_retry s)) \<le> now"
    proof (cases "min 5 (2 ^ hk_retry s) \<le> seconds (now - hk_lastSend s)")
      case True
      then have "1000000000 * min 5 (2 ^ hk_retry s) \<le> now - hk_lastSend s"
        using assms(3) by (simp add: seconds_nonneg)
      then show ?thesis using assms(1) by (simp add: handshake_inv_def retry_time_Suc algebra_simps)
    next
      case False
      then show ?thesis using that(2) assms(2) by (auto simp: seconds_nonneg retry_time_def)
    qed
    then show ?thesis using early by (simp add: handshake_inv_def)
  qed
  let ?late = "3 \<le> seconds (now - hk_start s)" and ?due = "min 5 (2 ^ hk_retry s) \<le> seconds (now - hk_lastSend s)"
  let ?relay = "hk_relay s \<or> ?late"
  let ?again = "?due \<or> ?relay \<and> hk_retry s = 0"
  let ?s = "if ?again then s\<lparr>hk_lastSend := now, hk_retry := hk_retry s + 1, hk_relay := ?relay\<rparr>
    else s\<lparr>hk_relay := ?relay\<rparr>"
  have same: "s\<lparr>hk_relay := hk_relay s\<rparr> = s" by simp
  show thesis
  proof (rule that [of ?again ?s])
    show "handshake_round now s = Inr (?again, 30 < seconds (now - hk_start s), ?s)"
      using i by (cases ?late; cases "hk_relay s") (simp_all add: handshake_round_def Let_def)
    show "30 < seconds (now - hk_start s) \<or> handshake_inv ?s"
    proof (cases "30 < seconds (now - hk_start s)")
      case False
      have "?due \<or> ?late \<and> hk_retry s = 0" if ?again using that assms(1) by (auto simp: handshake_inv_def)
      then show ?thesis using step [OF False] assms(1) by (auto simp: handshake_inv_def)
    qed simp
  qed (use k assms(3) in auto)
qed

text \<open>Readings of the clock at least 100 ms apart, as \<open>sleep_for\<close> guarantees.\<close>

fun paced :: "int \<Rightarrow> (int \<times> bool) list \<Rightarrow> bool" where
  "paced t [] = True"
| "paced t ((now, responded) # ts) = (t \<le> now \<and> paced (now + 100000000) ts)"

lemma handshake_loop_bounded:
  assumes "handshake_inv s" and "paced t ts" and "hk_start s \<le> t" and "hk_lastSend s \<le> t"
  shows "\<exists>out n s'. handshake_loop ts s = Inr (out, n, s') \<and> hk_retry s + n = hk_retry s' \<and> hk_retry s' \<le> 8
    \<and> (out = StillWaiting \<longrightarrow> ts = [] \<or> t + 100000000 * (int (length ts) - 1) < hk_start s + 31000000000)"
  using assms
proof (induction ts arbitrary: s t)
  case Nil
  then have "1000000000 * retry_time (hk_retry s) < 1000000000 * 31" by (simp add: handshake_inv_def)
  then have "hk_retry s \<le> 7" using retry_time_small by auto
  then show ?case by simp
next
  case (Cons x ts)
  obtain now responded where x: "x = (now, responded)" by (cases x)
  have now: "hk_start s \<le> now" "hk_lastSend s \<le> now" "t \<le> now" "paced (now + 100000000) ts" using Cons.prems x by auto
  have k: "hk_retry s \<le> 7" using Cons.prems(1) retry_time_small [of "hk_retry s"] by (simp add: handshake_inv_def)
  show ?case
  proof (cases responded)
    case True
    then show ?thesis using x k by simp
  next
    case False
    obtain again s1 where r: "handshake_round now s = Inr (again, 30 < seconds (now - hk_start s), s1)"
      "hk_start s1 = hk_start s" "hk_retry s1 = hk_retry s + (if again then 1 else 0)" "hk_retry s1 \<le> 8"
      "hk_lastSend s1 \<le> now" "30 < seconds (now - hk_start s) \<or> handshake_inv s1"
      by (rule handshake_round_inv [OF Cons.prems(1) now(1,2)])
    show ?thesis
    proof (cases "30 < seconds (now - hk_start s)")
      case True
      then show ?thesis using r x False by auto
    next
      case going: False
      then have inv: "handshake_inv s1" and early: "now < hk_start s + 31000000000"
        using r(6) now(1) by (auto simp: seconds_nonneg)
      have "hk_start s1 \<le> now + 100000000" "hk_lastSend s1 \<le> now + 100000000" using r(2,5) now(1) by auto
      from Cons.IH [OF inv now(4) this] obtain out n s' where ih: "handshake_loop ts s1 = Inr (out, n, s')"
        "hk_retry s1 + n = hk_retry s'" "hk_retry s' \<le> 8"
        "out = StillWaiting \<longrightarrow> ts = [] \<or> now + 100000000 + 100000000 * (int (length ts) - 1) < hk_start s1 + 31000000000"
        by auto
      have "handshake_loop (x # ts) s = Inr (out, (if again then 1 else 0) + n, s')"
        using r(1) ih(1) going False by (simp add: x Let_def)
      moreover have "hk_retry s + ((if again then 1 else 0) + n) = hk_retry s'" using r(3) ih(2) by simp
      moreover have "t + 100000000 * (int (length (x # ts)) - 1) < hk_start s + 31000000000" if "out = StillWaiting"
        using ih(4) that early now(3) r(2) by (cases ts) auto
      ultimately show ?thesis using ih(3) by blast
    qed
  qed
qed

text \<open>C20: the handshake loop always ends: by a response, or within 311 rounds of at least 100 ms with a
  time-out. However the clock runs it sends the handshake again at most eight times, and the shift
  that doubles the interval never overflows.\<close>
theorem handshake_gives_up:
  assumes "hk_retry s = 0" and "\<not> hk_relay s" and "hk_lastSend s < hk_start s + 31000000000"
    and "hk_start s \<le> hk_lastSend s" and "paced (hk_lastSend s) ts"
  shows "\<exists>out n s'. handshake_loop ts s = Inr (out, n, s') \<and> n \<le> 8 \<and> (311 \<le> length ts \<longrightarrow> out \<noteq> StillWaiting)"
proof -
  have "handshake_inv s" using assms(1-4) by (simp add: handshake_inv_def retry_time_def)
  from handshake_loop_bounded [OF this assms(5,4) order_refl] obtain out n s' where
    r: "handshake_loop ts s = Inr (out, n, s')" "hk_retry s + n = hk_retry s'" "hk_retry s' \<le> 8"
    "out = StillWaiting \<longrightarrow> ts = [] \<or> hk_lastSend s + 100000000 * (int (length ts) - 1) < hk_start s + 31000000000"
    by blast
  have "out \<noteq> StillWaiting" if "311 \<le> length ts"
    using r(4) that assms(4) by (cases ts) auto
  then show ?thesis using r(1-3) assms(1) by auto
qed

theorem handshake_gives_up_witness:
  "\<exists>out n s. handshake_loop [(100000000, False), (1000000000, False), (32000000000, False)]
     \<lparr>hk_start = 0, hk_lastSend = 0, hk_retry = 0, hk_relay = False\<rparr> = Inr (out, n, s) \<and> n \<le> 8"
  using handshake_gives_up [of "\<lparr>hk_start = 0, hk_lastSend = 0, hk_retry = 0, hk_relay = False\<rparr>"
    "[(100000000, False), (1000000000, False), (32000000000, False)]"] by auto

text \<open>The "aggressive relay fallback" after three seconds never decides anything: by then the first
  retransmission, due after one second, has been made or is made in the same round.\<close>

lemma relay_fallback_decides_nothing:
  assumes "hk_start s \<le> now" and "hk_lastSend s \<le> hk_start s + 2000000000" and "hk_relay s \<longrightarrow> 0 < hk_retry s"
    and "handshake_round now s = Inr (again, giveUp, s')"
  shows "again \<longleftrightarrow> min 5 (2 ^ hk_retry s) \<le> seconds (now - hk_lastSend s)"
proof -
  have "1 \<le> seconds (now - hk_lastSend s)" if "3 \<le> seconds (now - hk_start s)"
    using that assms(1,2) by (auto simp: seconds_nonneg)
  then show ?thesis
    using assms(3,4) by (auto simp: handshake_round_def retry_interval_def Let_def split: if_split_asm)
qed

section \<open>The main loop is safe\<close>

definition occupied :: "receiver \<Rightarrow> nat" where
  "occupied r = length (filter (\<lambda>p. p \<noteq> None) (rc_ring r))"

lemma occupied_le: "receiver_wf out r \<Longrightarrow> occupied r \<le> 64"
  using length_filter_le [of "\<lambda>p. p \<noteq> None" "rc_ring r"] by (simp add: occupied_def receiver_wf_def)

lemma length_filter_clear:
  "k < length xs \<Longrightarrow> xs ! k \<noteq> None \<Longrightarrow>
   length (filter (\<lambda>p. p \<noteq> None) (xs[k := None])) < length (filter (\<lambda>p. p \<noteq> None) xs)"
  by (induction xs arbitrary: k) (auto split: nat.split_asm simp: nth_Cons)

lemma get_next_frame_occupied:
  assumes "receiver_wf out r" and "get_next_frame r = (Some a, r')"
  shows "occupied r' < occupied r"
proof -
  have "length (rc_ring r) = 64" using assms(1) by (simp add: receiver_wf_def)
  then show ?thesis using assms(2) length_filter_clear [of "unat (rc_next r) mod 64" "rc_ring r"]
    by (auto simp: get_next_frame_def occupied_def frb_insert_def frb_get_def split: option.split_asm if_split_asm)
qed

lemma drain_frames_ok:
  "client_ok gone c \<Longrightarrow> occupied (cl_receiver c) < n \<Longrightarrow>
   \<exists>lost c'. drain_frames n env c = Some (lost, c') \<and> client_ok (gone + mset lost) c'"
proof (induction n arbitrary: gone c)
  case (Suc n)
  obtain fp r where g: "get_next_frame (cl_receiver c) = (fp, r)" by (cases "get_next_frame (cl_receiver c)")
  have ok: "jb_wf (cl_jitter c)" "receiver_wf (held (cl_jitter c) + gone) (cl_receiver c)"
    using Suc.prems(1) by (simp_all add: client_ok_def)
  note wf = get_next_frame_wf [OF ok(2) g]
  show ?case
  proof (cases fp)
    case None
    then show ?thesis using g ok wf by (simp add: client_ok_def)
  next
    case (Some a)
    let ?f = "\<lparr>jf_addr = a, jf_frameId = fd_frameId (frame_at r a), jf_captureTimestamp = fd_captureTimestamp (frame_at r a)\<rparr>"
    obtain jb out where p: "push_frame (te_pushNow env) (te_pushTime env) (Some ?f) (cl_jitter c) = (jb, out)"
      by (cases "push_frame (te_pushNow env) (te_pushTime env) (Some ?f) (cl_jitter c)")
    have j: "jb_wf jb" "held jb + mset out = add_mset a (held (cl_jitter c))"
      using push_frame_keeps [OF ok(1), of "Some ?f" "te_pushNow env" "te_pushTime env"] p
      by (simp_all add: keeps_def released_def)
    let ?c = "c\<lparr>cl_receiver := r, cl_jitter := jb\<rparr>"
    have eq: "held jb + (gone + mset out) = held (cl_jitter c) + gone + opt_mset fp"
      using j(2) Some by (simp add: ac_simps)
    have "receiver_wf (held jb + (gone + mset out)) r" unfolding eq using wf by simp
    then have "client_ok (gone + mset out) ?c" using j(1) by (simp add: client_ok_def)
    moreover have "occupied (cl_receiver ?c) < n"
      using get_next_frame_occupied [OF ok(2) g [unfolded Some]] Suc.prems(2) by simp
    ultimately obtain lost c' where "drain_frames n env ?c = Some (lost, c')" "client_ok (gone + mset out + mset lost) c'"
      using Suc.IH by blast
    then show ?thesis using g p Some by (auto simp: ac_simps)
  qed
qed simp

lemma gap_check_same: "same_frames c (gap_check c)"
  by (simp add: gap_check_def same_frames_def Let_def)

lemma same_frames_trans: "same_frames a b \<Longrightarrow> same_frames b c \<Longrightarrow> same_frames a c"
  by (simp add: same_frames_def)

lemma feedback_step_same:
  "feedback_step b env cands c = Inr (es, c') \<Longrightarrow> same_frames c c'"
  "feedback_step b env cands c = Inl e \<Longrightarrow> e = BadConversion"
  by (auto simp: feedback_step_def reroute_def Let_def feedback_header_def to_uint32_def fbind_Inl_iff same_frames_def
      elim!: fbind_InrE dest!: client_seal_same split: if_split_asm prod.split_asm flt.split_asm)

lemma send_nacks_same: "send_nacks b stale ks c = (es, c') \<Longrightarrow> same_frames c c'"
  by (induction ks arbitrary: c es c')
    (auto simp: same_frames_def dest!: client_seal_same split: prod.split_asm)

lemma nack_step_same: "nack_step b env c = (es, c') \<Longrightarrow> same_frames c c'"
  by (auto simp: nack_step_def same_frames_def dest!: send_nacks_same split: if_split_asm)

lemma sync_step_same: "sync_step b env c = (es, c') \<Longrightarrow> same_frames c c'"
  by (auto simp: sync_step_def same_frames_def Let_def dest!: client_seal_same split: if_split_asm prod.split_asm)

lemma recovery_step_ok:
  assumes "client_ok gone c" and "recovery_step c = (out, c')"
  shows "client_ok (gone + mset out) c'"
proof -
  obtain jb lost where j: "jb_reset (find_latest_keyframe (cl_receiver c)) (cl_jitter c) = (jb, lost)"
    by (cases "jb_reset (find_latest_keyframe (cl_receiver c)) (cl_jitter c)")
  have "jb_wf jb" "held jb + mset lost = held (cl_jitter c)"
    using jb_reset_keeps [of "cl_jitter c" "find_latest_keyframe (cl_receiver c)"] assms(1) j
    by (simp_all add: keeps_def client_ok_def)
  then show ?thesis using assms j
    by (auto simp: recovery_step_def Let_def client_ok_def ac_simps intro!: force_advance_wf split: if_split_asm)
qed

lemma present_step_ok:
  assumes "client_ok gone c"
  shows "case present_step env c of Inl e \<Rightarrow> e = SignedOverflow | Inr (es, c') \<Rightarrow> client_ok gone c'"
proof -
  have ok: "jb_wf (cl_jitter c)" "receiver_wf (held (cl_jitter c) + gone) (cl_receiver c)"
    using assms by (simp_all add: client_ok_def)
  let ?t = "if m_synchronized (cl_clock c) then get_host_time (te_clockTime env) (cl_clock c) else Inr 0"
  show ?thesis
  proof (cases ?t)
    case (Inl e)
    then have "e = SignedOverflow"
      by (auto simp: get_host_time_def i64_def fbind_Inl_iff split: if_split_asm)
    then show ?thesis using Inl by (simp add: present_step_def)
  next
    case (Inr sync)
    show ?thesis
    proof (cases rule: pop_frame_cases [OF ok(1), of "te_popNow env" sync])
      case 1
      then show ?thesis using Inr assms by (simp add: present_step_def client_ok_def)
    next
      case (2 f jb)
      then have "receiver_wf (add_mset (jf_addr f) (held jb + gone)) (cl_receiver c)" using ok(2) by (metis union_mset_add_mset_left)
      from return_to_pool_wf(1) [OF this] show ?thesis using Inr 2 by (simp add: present_step_def client_ok_def)
    qed
  qed
qed

lemma client_tick_ok:
  assumes "client_ok gone c" and "65 \<le> fuel"
  shows "\<exists>r. client_tick fuel b env cands c = Some r
    \<and> (case r of Inl e \<Rightarrow> e = BadConversion \<or> e = SignedOverflow
       | Inr (es, lost, c') \<Rightarrow> client_ok (gone + mset lost) c')"
proof (cases "feedback_step b env cands (gap_check c)")
  case (Inl e)
  then show ?thesis using feedback_step_same(2) by (simp add: client_tick_def)
next
  case (Inr x)
  obtain es1 c1 where x: "x = (es1, c1)" by (cases x)
  note fb = Inr [unfolded x]
  obtain es2 c2 where n: "nack_step b env c1 = (es2, c2)" by (cases "nack_step b env c1")
  obtain es3 c3 where s: "sync_step b env c2 = (es3, c3)" by (cases "sync_step b env c2")
  obtain gone1 c4 where r: "recovery_step c3 = (gone1, c4)" by (cases "recovery_step c3")
  have "same_frames c c3"
    using gap_check_same feedback_step_same(1) [OF fb] nack_step_same [OF n] sync_step_same [OF s]
      same_frames_trans by blast
  then have ok4: "client_ok (gone + mset gone1) c4" using recovery_step_ok [OF _ r] assms(1) same_frames_ok by blast
  then have "occupied (cl_receiver c4) < fuel" using occupied_le assms(2) by (fastforce simp: client_ok_def)
  from drain_frames_ok [OF ok4 this, of env] obtain gone2 c5 where d: "drain_frames fuel env c4 = Some (gone2, c5)"
    "client_ok (gone + mset gone1 + mset gone2) c5" by blast
  show ?thesis
  proof (cases "present_step env c5")
    case (Inl e)
    then have "client_tick fuel b env cands c = Some (Inl e)" using fb n s r d(1) by (simp add: client_tick_def)
    then show ?thesis using Inl present_step_ok [OF d(2), of env] by simp
  next
    case (Inr y)
    obtain es4 c6 where y: "y = (es4, c6)" by (cases y)
    have "client_tick fuel b env cands c = Some (Inr (es1 @ es2 @ es3 @ es4, gone1 @ gone2, c6))"
      using fb n s r d(1) Inr y by (simp add: client_tick_def)
    then show ?thesis using Inr y present_step_ok [OF d(2), of env] by (simp add: add.assoc)
  qed
qed

section \<open>The client as a whole\<close>

datatype client_event = Net client_env string u16 bytes | Tick tick_env "candidate list" | Event bytes string bytes

text \<open>The network thread, the main loop and the input callback, in any order; \<open>None\<close> when one of them
  never comes back.\<close>

fun client_run ::
  "build \<Rightarrow> client_event list \<Rightarrow> bytes \<Rightarrow> nat list \<Rightarrow> client \<Rightarrow> (fault + (nat list \<times> client)) option" where
  "client_run b [] buf gone c = Some (Inr (gone, c))"
| "client_run b (Net env ip port dg # evs) buf gone c =
     (case client_datagram 2 b env ip port dg buf c of None \<Rightarrow> None | Some (Inl e) \<Rightarrow> Some (Inl e)
      | Some (Inr (es, buf, c)) \<Rightarrow> client_run b evs buf gone c)"
| "client_run b (Tick env cands # evs) buf gone c =
     (case client_tick 65 b env cands c of None \<Rightarrow> None | Some (Inl e) \<Rightarrow> Some (Inl e)
      | Some (Inr (es, lost, c)) \<Rightarrow> client_run b evs buf (gone @ lost) c)"
| "client_run b (Event stale host event # evs) buf gone c =
     client_run b evs buf gone (snd (send_input b stale host event c))"

fun full_buffers :: "client_event \<Rightarrow> bool" where
  "full_buffers (Net env ip port dg) = (length (ce_staleDecrypted env) = 2048)"
| "full_buffers _ = True"

lemma client_run_ok:
  "client_ok (mset gone) c \<Longrightarrow> list_all full_buffers evs \<Longrightarrow> client_run b evs buf gone c = Some r \<Longrightarrow>
   (case r of Inl e \<Rightarrow> e \<in> {OutOfBounds, SignedOverflow, BadConversion} | Inr (gone', c') \<Rightarrow> client_ok (mset gone') c')"
proof (induction b evs buf gone c rule: client_run.induct)
  case (2 b env ip port dg evs buf gone c)
  show ?case
  proof (cases "client_datagram 2 b env ip port dg buf c")
    case None
    then show ?thesis using 2(4) by simp
  next
    case (Some x)
    then have ok: "case x of Inl e \<Rightarrow> net_fault e | Inr (es, buf', c') \<Rightarrow> client_ok (mset gone) c'"
      using client_loop_ok 2(2,3) unfolding client_datagram_def by fastforce
    then show ?thesis using Some 2 by (cases x) (auto simp: net_fault_def)
  qed
next
  case (3 b env cands evs buf gone c)
  obtain x where x: "client_tick 65 b env cands c = Some x"
    "case x of Inl e \<Rightarrow> e = BadConversion \<or> e = SignedOverflow | Inr (es, lost, c') \<Rightarrow> client_ok (mset gone + mset lost) c'"
    using client_tick_ok [OF 3(2)] by blast
  then show ?case using 3 by (cases x) auto
next
  case (4 b stale host event evs buf gone c)
  have "same_frames c (snd (send_input b stale host event c))"
    by (cases "client_seal b stale event c") (auto simp: send_input_def same_frames_def dest: client_seal_same)
  then show ?case using 4 same_frames_ok by simp
qed auto





end
