(* ===== verification/Network.thy ===== *)
theory Network
  imports Clock
begin

text \<open>
  \<open>NetworkManager\<close> (\<open>cpp/common/network_manager.cpp\<close>): the interface list, the UDP socket and the
  discovery of the public address by STUN. The operating system's address conversions and socket
  calls are arguments: a call is given as the function or the answer the code sees.
\<close>

lemmas fbind_recursion [fundef_cong] = fbind_cong

section \<open>Interfaces\<close>

record interface_info =
  ii_name :: string
  ii_ip :: string
  ii_isActive :: bool

text \<open>What \<open>GetAdaptersAddresses\<close> reports: the name in UTF-8 (none where the conversion is empty),
  whether the adapter is up, and for each unicast address whether it is an IPv4 one and its text
  (none where \<open>getnameinfo\<close> fails).\<close>

record adapter =
  ad_name :: "string option"
  ad_up :: bool
  ad_unicast :: "(bool \<times> string option) list"

definition adapter_interfaces :: "adapter \<Rightarrow> interface_info list" where
  "adapter_interfaces a = concat (map (\<lambda>(inet, host). case host of
       Some h \<Rightarrow> if inet then [\<lparr>ii_name = (case ad_name a of Some n \<Rightarrow> n | None \<Rightarrow> []), ii_ip = h, ii_isActive = ad_up a\<rparr>] else []
     | None \<Rightarrow> []) (ad_unicast a))"

text \<open>The second call has a buffer of the size the first one asked for; \<open>None\<close>: the call failed.\<close>

definition enumerate_windows :: "bool \<Rightarrow> bool \<Rightarrow> adapter list option \<Rightarrow> adapter list option \<Rightarrow> interface_info list" where
  "enumerate_windows started overflows first second =
     (if \<not> started then []
      else case (if overflows then second else first) of None \<Rightarrow> []
      | Some as \<Rightarrow> concat (map adapter_interfaces as))"

text \<open>\<open>getifaddrs\<close>: name, flag \<open>IFF_UP\<close>, whether there is an IPv4 address, and its text.\<close>

definition enumerate_posix :: "(string \<times> bool \<times> bool \<times> string option) list option \<Rightarrow> interface_info list" where
  "enumerate_posix as = (case as of None \<Rightarrow> []
     | Some as \<Rightarrow> concat (map (\<lambda>(name, up, inet, host). case host of
         Some h \<Rightarrow> if inet then [\<lparr>ii_name = name, ii_ip = h, ii_isActive = up\<rparr>] else []
       | None \<Rightarrow> []) as))"

section \<open>The socket\<close>

text \<open>\<open>inet_pton\<close> and \<open>inet_ntop\<close> on the four bytes of an address in network order.\<close>

record inet =
  pton :: "string \<Rightarrow> bytes option"
  ntop :: "bytes \<Rightarrow> string"

record network =
  nm_socket :: "nat option"

definition network_new :: network where
  "network_new = \<lparr>nm_socket = None\<rparr>"

definition network_delete :: "network \<Rightarrow> nat list" where
  "network_delete n = (case nm_socket n of None \<Rightarrow> [] | Some s \<Rightarrow> [s])"

definition bind_to ::
  "inet \<Rightarrow> nat option \<Rightarrow> (bytes \<Rightarrow> u16 \<Rightarrow> bool) \<Rightarrow> string \<Rightarrow> u16 \<Rightarrow> network \<Rightarrow> bool \<times> network" where
  "bind_to os new binds ip port n =
     (let n = n\<lparr>nm_socket := new\<rparr> in
      case new of None \<Rightarrow> (False, n)
      | Some _ \<Rightarrow> (case pton os ip of None \<Rightarrow> (False, n) | Some a \<Rightarrow> (binds a port, n)))"

type_synonym datagram = "bytes \<times> bytes \<times> u16"

text \<open>The result and what goes to \<open>sendto\<close>.\<close>

definition send_to ::
  "inet \<Rightarrow> (datagram \<Rightarrow> int) \<Rightarrow> bytes \<Rightarrow> string \<Rightarrow> u16 \<Rightarrow> int \<times> datagram list" where
  "send_to os sendto data ip port =
     (case pton os ip of None \<Rightarrow> (- 1, []) | Some a \<Rightarrow> (sendto (data, a, port), [(data, a, port)]))"

record batch_item =
  bi_data :: bytes
  bi_targetIp :: string
  bi_targetPort :: u16

fun send_batch_windows :: "inet \<Rightarrow> (datagram \<Rightarrow> int) \<Rightarrow> batch_item list \<Rightarrow> int \<times> datagram list" where
  "send_batch_windows os sendto [] = (0, [])"
| "send_batch_windows os sendto (i # is) =
     (let (ret, ds) = send_to os sendto (bi_data i) (bi_targetIp i) (bi_targetPort i);
          (n, ds') = send_batch_windows os sendto is
      in (if 0 < ret then ret + n else n, ds @ ds'))"

text \<open>The address array is not initialised, and the result of \<open>inet_pton\<close> is not looked at.\<close>

definition send_batch_linux ::
  "inet \<Rightarrow> (datagram list \<Rightarrow> int) \<Rightarrow> (nat \<Rightarrow> bytes) \<Rightarrow> batch_item list \<Rightarrow> int \<times> datagram list" where
  "send_batch_linux os sendmmsg stale items =
     (if items = [] then (0, [])
      else let msgs = map (\<lambda>k. let i = items ! k in
                 (bi_data i, (case pton os (bi_targetIp i) of Some a \<Rightarrow> a | None \<Rightarrow> stale k), bi_targetPort i))
                 [0..<min (length items) 64]
           in (sendmmsg msgs, msgs))"

text \<open>What \<open>recvfrom\<close> delivers, \<open>None\<close> for an error or a time-out.\<close>

definition receive_from ::
  "inet \<Rightarrow> datagram option \<Rightarrow> bytes \<Rightarrow> string \<times> u16 \<Rightarrow> int \<times> bytes \<times> string \<times> u16" where
  "receive_from os r buf sender =
     (case r of None \<Rightarrow> (- 1, buf, sender)
      | Some (dg, a, p) \<Rightarrow> if dg = [] then (0, buf, sender) else (int (length dg), into_buffer dg buf, ntop os a, p))"

section \<open>STUN\<close>

definition ntohs_at :: "bytes \<Rightarrow> nat \<Rightarrow> fault + u16" where
  "ntohs_at buf off = fbind (vec_read buf off 2) (\<lambda>b. Inr (of_nat (le_nat (rev b))))"

definition stun_cookie :: bytes where
  "stun_cookie = [0x21, 0x12, 0xA4, 0x42]"

text \<open>\<open>STUNHeader\<close> in network order.\<close>

definition binding_request :: "bytes \<Rightarrow> bytes" where
  "binding_request transactionId = [0, 1] @ [0, 0] @ stun_cookie @ transactionId"

text \<open>\<open>xIp\<close> is an XOR of the four bytes in memory, whatever the byte order of the machine.\<close>

definition xor_cookie :: "bytes \<Rightarrow> bytes" where
  "xor_cookie b = map2 (XOR) b stun_cookie"

type_synonym endpoint = "string \<times> u16"

definition stun_attribute :: "inet \<Rightarrow> bytes \<Rightarrow> nat \<Rightarrow> u16 \<Rightarrow> u16 \<Rightarrow> fault + endpoint option" where
  "stun_attribute os buf offset attrType attrLen =
     (if attrType = 0x0001 \<and> 8 \<le> attrLen then
        fbind (ntohs_at buf (offset + 6)) (\<lambda>port.
        fbind (vec_read buf (offset + 8) 4) (\<lambda>addr. Inr (Some (ntop os addr, port))))
      else if attrType = 0x0020 \<and> 8 \<le> attrLen then
        fbind (ntohs_at buf (offset + 6)) (\<lambda>xPort.
        fbind (vec_read buf (offset + 8) 4) (\<lambda>xIp. Inr (Some (ntop os (xor_cookie xIp), xPort XOR 0x2112))))
      else Inr None)"

definition attribute_end :: "nat \<Rightarrow> u16 \<Rightarrow> nat" where
  "attribute_end offset attrLen =
     (let offset = offset + (4 + unat attrLen) in
      if unat attrLen mod 4 \<noteq> 0 then offset + (4 - unat attrLen mod 4) else offset)"

lemma attribute_end_grows: "offset < attribute_end offset n"
proof -
  have "unat n mod 4 < 4" by simp
  then show ?thesis by (simp add: attribute_end_def Let_def) linarith
qed

function stun_scan :: "inet \<Rightarrow> bytes \<Rightarrow> nat \<Rightarrow> nat \<Rightarrow> fault + endpoint option" where
  "stun_scan os buf len offset =
     (if offset + 4 \<le> len then
        fbind (ntohs_at buf (offset + 2)) (\<lambda>n.
          if offset + 4 + unat n \<le> len then
            fbind (ntohs_at buf offset) (\<lambda>attrType.
            fbind (ntohs_at buf (offset + 2)) (\<lambda>attrLen.
            fbind (stun_attribute os buf offset attrType attrLen) (\<lambda>r. case r of
              Some e \<Rightarrow> Inr (Some e)
            | None \<Rightarrow> stun_scan os buf len (attribute_end offset attrLen))))
          else Inr None)
      else Inr None)"
  by pat_completeness auto
termination
  by (relation "measure (\<lambda>(os, buf, len, offset). len - offset)") (use attribute_end_grows in \<open>auto intro!: diff_less_mono2\<close>)

declare stun_scan.simps [simp del]

definition stun_response :: "inet \<Rightarrow> bytes \<Rightarrow> int \<Rightarrow> fault + endpoint option" where
  "stun_response os buf len =
     (if 20 \<le> len then
        fbind (ntohs_at buf 0) (\<lambda>ty. if ty = 0x0101 then stun_scan os buf (nat len) 20 else Inr None)
      else Inr None)"

record stun_env =
  se_sendto :: "datagram \<Rightarrow> int"
  se_received :: "datagram option"
  se_buffer :: bytes

definition get_public_endpoint ::
  "inet \<Rightarrow> stun_env \<Rightarrow> string \<Rightarrow> u16 \<Rightarrow> network \<Rightarrow> datagram list \<times> (fault + endpoint option)" where
  "get_public_endpoint os env stunServer stunPort n =
     (if nm_socket n = None then ([], Inr None)
      else case send_to os (se_sendto env) (binding_request (replicate 12 0xAC)) stunServer stunPort of
        (ret, ds) \<Rightarrow>
          if ret \<le> 0 then (ds, Inr None)
          else (ds, case receive_from os (se_received env) (se_buffer env) ([], 0) of
            (len, buf, _) \<Rightarrow> stun_response os buf len))"

section \<open>STUN with several servers\<close>

record stun_server =
  ss_host :: string
  ss_port :: u16

definition send_all :: "inet \<Rightarrow> (datagram \<Rightarrow> int) \<Rightarrow> bytes list \<Rightarrow> stun_server list \<Rightarrow> datagram list" where
  "send_all os sendto ids servers =
     concat (map2 (\<lambda>tid s. snd (send_to os sendto (binding_request tid) (ss_host s) (ss_port s))) ids servers)"

definition parallel_attribute :: "inet \<Rightarrow> bytes \<Rightarrow> nat \<Rightarrow> u16 \<Rightarrow> u16 \<Rightarrow> fault + endpoint option" where
  "parallel_attribute os buf offset attrType attrLen =
     (if attrType = 0x0001 \<and> 8 \<le> attrLen then
        fbind (ntohs_at buf (offset + 6)) (\<lambda>publicPort.
        fbind (vec_read buf (offset + 8) 4) (\<lambda>addr. Inr (Some (ntop os addr, publicPort))))
      else if attrType = 0x0020 \<and> 8 \<le> attrLen then
        fbind (ntohs_at buf (offset + 6)) (\<lambda>p.
        let publicPort = p XOR 0x2112 in
        fbind (vec_read buf (offset + 8) 4) (\<lambda>xIp. Inr (Some (ntop os (xor_cookie xIp), publicPort))))
      else Inr None)"

function parallel_scan :: "inet \<Rightarrow> bytes \<Rightarrow> nat \<Rightarrow> nat \<Rightarrow> fault + endpoint option" where
  "parallel_scan os buf len offset =
     (if offset + 4 \<le> len then
        fbind (ntohs_at buf offset) (\<lambda>attrType.
        fbind (ntohs_at buf (offset + 2)) (\<lambda>attrLen.
          if len < offset + 4 + unat attrLen then Inr None
          else fbind (parallel_attribute os buf offset attrType attrLen) (\<lambda>r. case r of
              Some e \<Rightarrow> Inr (Some e)
            | None \<Rightarrow> parallel_scan os buf len (attribute_end offset attrLen))))
      else Inr None)"
  by pat_completeness auto
termination
  by (relation "measure (\<lambda>(os, buf, len, offset). len - offset)") (use attribute_end_grows in \<open>auto intro!: diff_less_mono2\<close>)

declare parallel_scan.simps [simp del]

definition parallel_response :: "inet \<Rightarrow> bytes \<Rightarrow> int \<Rightarrow> fault + endpoint option" where
  "parallel_response os buf len =
     (if 20 \<le> len then
        fbind (ntohs_at buf 0) (\<lambda>ty. if ty = 0x0101 then parallel_scan os buf (nat len) 20 else Inr None)
      else Inr None)"

text \<open>A round of the loop: the two readings of the clock (in nanoseconds), the random transaction
  ids of a retry, and the answer of the socket.\<close>

record stun_poll =
  sp_check :: int
  sp_now :: int
  sp_ids :: "bytes list"
  sp_received :: "datagram option"
  sp_buffer :: bytes

datatype stun_outcome = StunFound endpoint | StunTimedOut | StunPending

fun parallel_loop ::
  "inet \<Rightarrow> (datagram \<Rightarrow> int) \<Rightarrow> stun_server list \<Rightarrow> int \<Rightarrow> int \<Rightarrow> stun_poll list \<Rightarrow> datagram list \<times> (fault + stun_outcome)" where
  "parallel_loop os sendto servers start lastSend [] = ([], Inr StunPending)"
| "parallel_loop os sendto servers start lastSend (p # ps) =
     (if milliseconds (sp_check p - start) < 3000 then
        (let retry = 500 < milliseconds (sp_now p - lastSend);
             ds = (if retry then send_all os sendto (sp_ids p) servers else []);
             lastSend = (if retry then sp_now p else lastSend);
             (len, buf, _) = receive_from os (sp_received p) (sp_buffer p) ([], 0)
         in case parallel_response os buf len of
              Inl e \<Rightarrow> (ds, Inl e)
            | Inr (Some e) \<Rightarrow> (ds, Inr (StunFound e))
            | Inr None \<Rightarrow> (case parallel_loop os sendto servers start lastSend ps of (ds', r) \<Rightarrow> (ds @ ds', r)))
      else ([], Inr StunTimedOut))"

definition get_public_endpoint_parallel ::
  "inet \<Rightarrow> (datagram \<Rightarrow> int) \<Rightarrow> bytes list \<Rightarrow> int \<Rightarrow> stun_server list \<Rightarrow> stun_poll list
    \<Rightarrow> datagram list \<times> (fault + stun_outcome)" where
  "get_public_endpoint_parallel os sendto ids start servers ps =
     (if servers = [] then ([], Inr StunTimedOut)
      else case parallel_loop os sendto servers start start ps of
        (ds, r) \<Rightarrow> (send_all os sendto ids servers @ ds, r))"

section \<open>The parsers\<close>

lemma ntohs_at_cases: "ntohs_at buf off = (if off + 2 \<le> length buf then Inr (of_nat (le_nat (rev (take 2 (drop off buf))))) else Inl OutOfBounds)"
  by (simp add: ntohs_at_def vec_read_def)

text \<open>An attribute is only read when it lies within what was received, so that the reads are within
  the buffer.\<close>

lemma stun_attribute_inside:
  "offset + 4 + unat attrLen \<le> length buf \<Longrightarrow> \<exists>r. stun_attribute os buf offset attrType attrLen = Inr r"
  by (auto simp: stun_attribute_def ntohs_at_cases vec_read_def word_le_nat_alt)

lemma stun_scan_inside: "len \<le> length buf \<Longrightarrow> \<exists>r. stun_scan os buf len offset = Inr r"
proof (induction os buf len offset rule: stun_scan.induct)
  case (1 os buf len offset)
  show ?case
  proof (cases "offset + 4 \<le> len")
    case True
    then obtain ty n where n: "ntohs_at buf offset = Inr ty" "ntohs_at buf (offset + 2) = Inr n"
      using 1(2) by (simp add: ntohs_at_cases)
    show ?thesis
    proof (cases "offset + 4 + unat n \<le> len")
      case inner: True
      then obtain r where r: "stun_attribute os buf offset ty n = Inr r"
        using 1(2) stun_attribute_inside [of offset n buf] by (meson le_trans)
      show ?thesis using 1(1) [OF True n(2) inner n(1) n(2) r] 1(2) True n r inner
        by (subst stun_scan.simps) (auto split: option.split)
    qed (use True n in \<open>subst stun_scan.simps, simp\<close>)
  qed (subst stun_scan.simps, simp)
qed

lemma stun_attribute_same: "parallel_attribute = stun_attribute"
  by (simp add: parallel_attribute_def stun_attribute_def fun_eq_iff)

lemma stun_scan_same: "parallel_scan os buf len offset = stun_scan os buf len offset"
proof (induction os buf len offset rule: stun_scan.induct)
  case (1 os buf len offset)
  show ?case
  proof (cases "offset + 4 \<le> len \<and> offset + 4 \<le> length buf")
    case True
    then obtain ty n where n: "ntohs_at buf offset = Inr ty" "ntohs_at buf (offset + 2) = Inr n"
      by (simp add: ntohs_at_cases)
    show ?thesis
    proof (cases "\<exists>r. offset + 4 + unat n \<le> len \<and> stun_attribute os buf offset ty n = Inr r")
      case inner: True
      then obtain r where r: "offset + 4 + unat n \<le> len" "stun_attribute os buf offset ty n = Inr r" by blast
      have "offset + 4 \<le> len" using True by simp
      from 1 [OF this n(2) r(1) n(1) n(2) r(2)] show ?thesis using True n r
        by (subst stun_scan.simps, subst parallel_scan.simps) (auto simp: stun_attribute_same split: option.split)
    next
      case False
      then show ?thesis using True n
        by (subst stun_scan.simps, subst parallel_scan.simps)
          (cases "stun_attribute os buf offset ty n"; simp add: stun_attribute_same not_le)
    qed
  next
    case False
    then show ?thesis
      by (subst stun_scan.simps, subst parallel_scan.simps) (auto simp: ntohs_at_cases)
  qed
qed

text \<open>C33: the two copies of the STUN parser, with their different loop conditions, are the same
  function of the buffer, for every content and length, and with a buffer that holds what was
  received neither reads outside it.\<close>
theorem stun_parsers_agree:
  "parallel_response os buf len = stun_response os buf len
   \<and> (20 \<le> len \<and> nat len \<le> length buf \<longrightarrow> (\<exists>r. stun_response os buf len = Inr r))"
proof -
  have "\<exists>r. stun_response os buf len = Inr r" if "20 \<le> len" "nat len \<le> length buf"
    using stun_scan_inside [OF that(2), of os 20] that by (simp add: stun_response_def ntohs_at_cases)
  moreover have "parallel_response os buf len = stun_response os buf len"
    unfolding parallel_response_def stun_response_def stun_scan_same ..
  ultimately show ?thesis by blast
qed

definition sample_inet :: inet where
  "sample_inet = \<lparr>pton = (\<lambda>s. if s = ''10.0.0.1'' then Some [10, 0, 0, 1] else None),
     ntop = (\<lambda>a. concat (map (\<lambda>b. dec_nat (unat b) @ ''.'') a))\<rparr>"

theorem stun_parsers_agree_witness:
  "\<exists>r. stun_response sample_inet (replicate 512 7) 100 = Inr r"
  using stun_parsers_agree [of sample_inet "replicate 512 7" 100] by simp

section \<open>The mapped address is found\<close>

definition be16 :: "u16 \<Rightarrow> bytes" where
  "be16 w = rev (put 2 w)"

definition stun_tlv :: "u16 \<times> bytes \<Rightarrow> bytes" where
  "stun_tlv = (\<lambda>(ty, v). be16 ty @ be16 (of_nat (length v)) @ v @ replicate ((4 - length v mod 4) mod 4) 0)"

definition binding_success :: "bytes \<Rightarrow> (u16 \<times> bytes) list \<Rightarrow> bytes" where
  "binding_success transactionId attrs = [1, 1] @ be16 (of_nat (length (concat (map stun_tlv attrs)))) @ stun_cookie
     @ transactionId @ concat (map stun_tlv attrs)"

definition mapped_address :: "bytes \<Rightarrow> u16 \<Rightarrow> u16 \<times> bytes" where
  "mapped_address a p = (0x0001, [0, 1] @ be16 p @ a)"

definition xor_mapped_address :: "bytes \<Rightarrow> u16 \<Rightarrow> u16 \<times> bytes" where
  "xor_mapped_address a p = (0x0020, [0, 1] @ be16 (p XOR 0x2112) @ xor_cookie a)"

lemma length_be16 [simp]: "length (be16 w) = 2"
  by (simp add: be16_def)

lemma be16_success: "be16 0x0101 = [1, 1]"
  by code_simp

lemma ntohs_at_be16: "drop off buf = be16 w @ tail \<Longrightarrow> ntohs_at buf off = Inr w"
proof -
  assume d: "drop off buf = be16 w @ tail"
  then have "2 \<le> length buf - off" by (metis le_add1 length_append length_be16 length_drop)
  then have "off + 2 \<le> length buf" by simp
  then show ?thesis using d by (simp add: ntohs_at_cases) (simp add: be16_def)
qed

lemma drop_further: "drop off buf = xs @ tail \<Longrightarrow> drop (off + length xs) buf = tail"
  by (metis append_eq_conv_conj drop_drop add.commute)

lemma length_stun_tlv: "length v < 65536 \<Longrightarrow> offset + length (stun_tlv (ty, v)) = attribute_end offset (of_nat (length v))"
proof -
  assume "length v < 65536"
  then have u: "unat (of_nat (length v) :: u16) = length v" by (rule unat_of_nat_u16)
  have "length v mod 4 < 4" by simp
  then show ?thesis by (cases "length v mod 4 = 0") (auto simp: stun_tlv_def attribute_end_def Let_def u)
qed

lemma tlv_fields:
  assumes "drop offset buf = stun_tlv (ty, v) @ tail"
  shows "ntohs_at buf offset = Inr ty" and "ntohs_at buf (offset + 2) = Inr (of_nat (length v))"
    and "drop (offset + 4) buf = v @ replicate ((4 - length v mod 4) mod 4) 0 @ tail"
proof -
  let ?r = "v @ replicate ((4 - length v mod 4) mod 4) 0 @ tail"
  have d: "drop offset buf = be16 ty @ be16 (of_nat (length v)) @ ?r" using assms by (simp add: stun_tlv_def)
  then show "ntohs_at buf offset = Inr ty" by (rule ntohs_at_be16)
  have d2: "drop (offset + 2) buf = be16 (of_nat (length v)) @ ?r" using drop_further [OF d] by simp
  then show "ntohs_at buf (offset + 2) = Inr (of_nat (length v))" by (rule ntohs_at_be16)
  have "offset + 4 = offset + 2 + length (be16 (of_nat (length v)))" by simp
  then show "drop (offset + 4) buf = ?r" using drop_further [OF d2] by (simp only:)
qed

lemma stun_scan_skip:
  assumes "drop offset buf = stun_tlv (ty, v) @ tail" and "length v < 65536" and "ty \<notin> {0x0001, 0x0020}"
    and "offset + length (stun_tlv (ty, v)) \<le> len"
  shows "stun_scan os buf len offset = stun_scan os buf len (offset + length (stun_tlv (ty, v)))"
  using tlv_fields [OF assms(1)] assms(2-4) length_stun_tlv [OF assms(2), of offset ty]
  by (subst stun_scan.simps) (auto simp: stun_attribute_def unat_of_nat_u16 stun_tlv_def)

lemma xor_cookie_twice: "length a = 4 \<Longrightarrow> xor_cookie (xor_cookie a) = a"
  by (auto simp: xor_cookie_def stun_cookie_def numeral_eq_Suc length_Suc_conv xor.assoc)

lemma stun_scan_hit:
  assumes "drop offset buf = stun_tlv t @ tail" and "length a = 4"
    and t: "t = mapped_address a p \<or> t = xor_mapped_address a p" and "offset + 12 \<le> len"
  shows "stun_scan os buf len offset = Inr (Some (ntop os a, p))"
proof -
  obtain ty v where tv: "t = (ty, v)" by (cases t)
  have len: "length (xor_cookie a) = 4" using assms(2) by (simp add: xor_cookie_def stun_cookie_def)
  note fields = tlv_fields [OF assms(1) [unfolded tv]]
  have v: "v = [0, 1] @ be16 (if ty = 1 then p else p XOR 0x2112) @ (if ty = 1 then a else xor_cookie a)"
    "ty = 0x0001 \<or> ty = 0x0020" using t tv by (auto simp: mapped_address_def xor_mapped_address_def)
  then have l: "length v = 8" using assms(2) len by simp
  have d4: "drop (offset + 4) buf = [0, 1] @ be16 (if ty = 1 then p else p XOR 0x2112) @ (if ty = 1 then a else xor_cookie a) @ tail"
    using fields(3) v(1) l by simp
  have d6: "drop (offset + 6) buf = be16 (if ty = 1 then p else p XOR 0x2112) @ (if ty = 1 then a else xor_cookie a) @ tail"
    using drop_further [OF d4] by (simp add: add.commute)
  have d8: "drop (offset + 8) buf = (if ty = 1 then a else xor_cookie a) @ tail" using drop_further [OF d6] by (simp add: add.commute)
  then have "length (drop (offset + 8) buf) = 4 + length tail" using assms(2) len by simp
  then have "4 \<le> length buf - (offset + 8)" by simp
  then have rd: "vec_read buf (offset + 8) 4 = Inr (if ty = 1 then a else xor_cookie a)"
    using d8 assms(2) len by (simp add: vec_read_def)
  have "stun_attribute os buf offset ty 8 = Inr (Some (ntop os a, p))"
    using v(2)
  proof
    assume "ty = 0x0001"
    then show ?thesis using ntohs_at_be16 [OF d6] rd unfolding stun_attribute_def by simp
  next
    assume "ty = 0x0020"
    then show ?thesis using ntohs_at_be16 [OF d6] rd xor_cookie_twice [OF assms(2)] unfolding stun_attribute_def
      by (simp add: xor.assoc)
  qed
  moreover have "ntohs_at buf (offset + 2) = Inr 8" using fields(2) l by simp
  ultimately show ?thesis using fields(1) assms(4) by (subst stun_scan.simps) simp
qed

lemma stun_scan_finds:
  assumes "\<forall>(ty, v) \<in> set attrs. length v < 65536 \<and> ty \<notin> {0x0001, 0x0020}" and "length a = 4"
    and "t = mapped_address a p \<or> t = xor_mapped_address a p"
    and "drop offset buf = concat (map stun_tlv attrs) @ stun_tlv t @ tail"
    and "offset + length (concat (map stun_tlv attrs)) + 12 \<le> len"
  shows "stun_scan os buf len offset = Inr (Some (ntop os a, p))"
  using assms(1,4,5)
proof (induction attrs arbitrary: offset)
  case Nil
  then show ?case using stun_scan_hit [OF _ assms(2,3)] by simp
next
  case (Cons x attrs)
  obtain ty v where x: "x = (ty, v)" by (cases x)
  have d: "drop offset buf = stun_tlv (ty, v) @ concat (map stun_tlv attrs) @ stun_tlv t @ tail"
    using Cons.prems(2) x by simp
  have "stun_scan os buf len offset = stun_scan os buf len (offset + length (stun_tlv (ty, v)))"
    using stun_scan_skip [OF d] Cons.prems(1,3) x by simp
  then show ?case using Cons.IH [of "offset + length (stun_tlv (ty, v))"] Cons.prems(1,3) drop_further [OF d] x
    by (simp add: add.assoc)
qed

text \<open>C28: an RFC 5389 success response gives its first mapped address, plain or XORed with the cookie,
  after any other attributes with their padding and before anything else - whatever its transaction id and whoever
  sends it.\<close>
theorem stun_finds_mapped_address:
  assumes "nm_socket n \<noteq> None" and "pton os server = Some s" and "0 < se_sendto env (binding_request (replicate 12 0xAC), s, port)"
    and "se_received env = Some (binding_success tid (attrs @ t # others), sender)"
    and "\<forall>(ty, v) \<in> set attrs. length v < 65536 \<and> ty \<notin> {0x0001, 0x0020}"
    and "length tid = 12" and "length a = 4" and "t = mapped_address a p \<or> t = xor_mapped_address a p"
  shows "get_public_endpoint os env server port n
    = ([(binding_request (replicate 12 0xAC), s, port)], Inr (Some (ntop os a, p)))"
proof -
  let ?dg = "binding_success tid (attrs @ t # others)"
  let ?buf = "into_buffer ?dg (se_buffer env)"
  let ?rest = "concat (map stun_tlv others) @ drop (length ?dg) (se_buffer env)"
  have "length (stun_tlv t) = 12" using assms(7,8)
    by (auto simp: mapped_address_def xor_mapped_address_def stun_tlv_def xor_cookie_def stun_cookie_def)
  then have l: "20 + length (concat (map stun_tlv attrs)) + 12 \<le> length ?dg"
    using assms(6) by (simp add: binding_success_def stun_cookie_def)
  have "drop 20 ?buf = concat (map stun_tlv attrs) @ stun_tlv t @ ?rest"
    using assms(6) by (simp add: into_buffer_def binding_success_def stun_cookie_def)
  from stun_scan_finds [OF assms(5,7,8) this l] have
    "stun_scan os ?buf (length ?dg) 20 = Inr (Some (ntop os a, p))" .
  moreover have "ntohs_at ?buf 0 = Inr 0x0101"
    by (rule ntohs_at_be16 [of _ _ _ "drop 2 ?buf"]) (simp add: into_buffer_def binding_success_def be16_success)
  moreover have "?dg \<noteq> []" by (simp add: binding_success_def)
  ultimately show ?thesis using assms(1-4) l
    by (cases sender) (auto simp: get_public_endpoint_def send_to_def receive_from_def stun_response_def)
qed

definition sample_answer :: stun_env where
  "sample_answer = \<lparr>se_sendto = (\<lambda>_. 20), se_received = Some (binding_success (replicate 12 1)
     [(0x8022, [9, 9, 9]), xor_mapped_address [192, 0, 2, 7] 40000], [6, 6, 6, 6], 53), se_buffer = replicate 512 0\<rparr>"

theorem stun_finds_mapped_address_witness:
  "snd (get_public_endpoint sample_inet sample_answer ''10.0.0.1'' 3478 \<lparr>nm_socket = Some 3\<rparr>)
    = Inr (Some (ntop sample_inet [192, 0, 2, 7], 40000))"
  using stun_finds_mapped_address [of "\<lparr>nm_socket = Some 3\<rparr>" sample_inet "''10.0.0.1''" "[10, 0, 0, 1]" sample_answer 3478
      "replicate 12 1" "[(0x8022, [9, 9, 9])]" "xor_mapped_address [192, 0, 2, 7] 40000" "[]" "([6, 6, 6, 6], 53)"
      "[192, 0, 2, 7]" 40000]
  by (simp add: sample_inet_def sample_answer_def)

section \<open>Names of servers\<close>

text \<open>\<open>SendTo\<close> gives its target to \<open>inet_pton\<close>, which takes no host names.\<close>

definition takes_no_names :: "inet \<Rightarrow> bool" where
  "takes_no_names os \<longleftrightarrow> (\<forall>s a. pton os s = Some a \<longrightarrow> list_all (\<lambda>c. is_digit c \<or> c = CHR ''.'') s)"

lemma send_to_name: "takes_no_names os \<Longrightarrow> CHR ''s'' \<in> set name \<Longrightarrow> send_to os sendto data name port = (- 1, [])"
proof -
  assume "takes_no_names os" "CHR ''s'' \<in> set name"
  moreover have "\<not> is_digit CHR ''s''" by code_simp
  ultimately have "pton os name = None" by (cases "pton os name") (auto simp: takes_no_names_def list_all_iff)
  then show ?thesis by (simp add: send_to_def)
qed

lemma stun_candidate_never_found:
  assumes "takes_no_names os"
  shows "get_public_endpoint os env ''stun.l.google.com'' 19302 n = ([], Inr None)"
  using send_to_name [OF assms, of "''stun.l.google.com''"] by (simp add: get_public_endpoint_def)

lemma send_all_names:
  "takes_no_names os \<Longrightarrow> \<forall>s \<in> set servers. CHR ''s'' \<in> set (ss_host s) \<Longrightarrow> send_all os sendto ids servers = []"
  by (auto simp: send_all_def send_to_name dest: set_zip_rightD)

section \<open>The loop over several servers ends\<close>

text \<open>Two readings of the clock in a row are at least the ten milliseconds of the sleep apart.\<close>

fun polled :: "int \<Rightarrow> stun_poll list \<Rightarrow> bool" where
  "polled t [] = True"
| "polled t (p # ps) = (t \<le> sp_check p \<and> polled (sp_check p + 10000000) ps)"

lemma parallel_loop_pending:
  "polled t ps \<Longrightarrow> start \<le> t \<Longrightarrow> parallel_loop os sendto servers start lastSend ps = (ds, Inr StunPending) \<Longrightarrow>
   ps = [] \<or> t + 10000000 * (int (length ps) - 1) < start + 3000000000"
proof (induction ps arbitrary: t lastSend ds)
  case (Cons p ps)
  let ?l = "if 500 < milliseconds (sp_now p - lastSend) then sp_now p else lastSend"
  obtain ds' r where rec: "parallel_loop os sendto servers start ?l ps = (ds', r)" by fastforce
  have lt: "sp_check p < start + 3000000000" using Cons.prems
    by (auto simp: Let_def milliseconds_nonneg split: if_split_asm)
  have "r = Inr StunPending" using Cons.prems rec
    by (auto simp: Let_def split: if_split_asm prod.split_asm sum.split_asm option.split_asm)
  then have "ps = [] \<or> sp_check p + 10000000 + 10000000 * (int (length ps) - 1) < start + 3000000000"
    using Cons.IH [OF _ _ rec [unfolded \<open>r = _\<close>], of "sp_check p + 10000000"] Cons.prems(1,2) by simp
  then show ?case using lt Cons.prems(1) by auto
qed simp

lemma parallel_loop_ends:
  assumes "polled start ps" and "301 \<le> length ps"
  shows "snd (get_public_endpoint_parallel os sendto ids start servers ps) \<noteq> Inr StunPending"
proof
  assume "snd (get_public_endpoint_parallel os sendto ids start servers ps) = Inr StunPending"
  then obtain ds where "parallel_loop os sendto servers start start ps = (ds, Inr StunPending)"
    by (auto simp: get_public_endpoint_parallel_def split: if_split_asm prod.split_asm)
  from parallel_loop_pending [OF assms(1) _ this] assms(2) show False by auto
qed

section \<open>Batches\<close>

text \<open>The two versions of \<open>SendBatch\<close> send the same datagrams in the same order when every address
  parses and there are at most 64; their results count different things (bytes, messages).\<close>

lemma send_batch_windows_datagrams:
  "\<forall>i \<in> set items. pton os (bi_targetIp i) \<noteq> None \<Longrightarrow> snd (send_batch_windows os sendto items)
    = map (\<lambda>i. (bi_data i, the (pton os (bi_targetIp i)), bi_targetPort i)) items"
  by (induction items) (auto simp: send_to_def split: prod.split)

lemma send_batch_same_datagrams:
  assumes "\<forall>i \<in> set items. pton os (bi_targetIp i) \<noteq> None" and "length items \<le> 64"
  shows "snd (send_batch_linux os sendmmsg stale items) = snd (send_batch_windows os sendto items)"
proof -
  have "(case pton os (bi_targetIp (items ! k)) of Some a \<Rightarrow> a | None \<Rightarrow> stale k) = the (pton os (bi_targetIp (items ! k)))"
    if "k < length items" for k
  proof -
    have "pton os (bi_targetIp (items ! k)) \<noteq> None" using that assms(1) by simp
    then show ?thesis by auto
  qed
  then have "map (\<lambda>k. let i = items ! k in (bi_data i,
        (case pton os (bi_targetIp i) of Some a \<Rightarrow> a | None \<Rightarrow> stale k), bi_targetPort i)) [0..<length items]
      = map (\<lambda>i. (bi_data i, the (pton os (bi_targetIp i)), bi_targetPort i)) items"
    by - (rule nth_equalityI, simp_all add: Let_def cong: option.case_cong)
  then show ?thesis unfolding send_batch_windows_datagrams [OF assms(1)]
    using assms(2) by (simp add: send_batch_linux_def min_def) (simp add: Let_def)
qed

lemma send_batch_linux_drops: "64 < length items \<Longrightarrow> length (snd (send_batch_linux os sendmmsg stale items)) = 64"
  by (auto simp: send_batch_linux_def Let_def)

end
