(* ===== verification/Config.thy ===== *)
theory Config
  imports Prelude Floats "HOL-Library.Char_ord" "HOL-Library.List_Lexorder"
begin

text \<open>
  \<open>Config\<close> (\<open>cpp/common/config.cpp\<close>): the settings as a map of strings, their file format, and the
  typed accessors. The \<open>std::map\<close> is the list of its entries in the order of its keys, which is the
  order \<open>save\<close> writes them in.
\<close>

section \<open>State\<close>

type_synonym settings = "(string \<times> string) list"

record config =
  cf_settings :: settings
  cf_filename :: string
  cf_lastLoadTime :: int

definition config_new :: config where
  "config_new = \<lparr>cf_settings = [], cf_filename = [], cf_lastLoadTime = 0\<rparr>"

text \<open>\<open>m_settings[key] = value\<close> and \<open>m_settings.find(key)\<close>.\<close>

fun set_entry :: "string \<Rightarrow> string \<Rightarrow> settings \<Rightarrow> settings" where
  "set_entry k v [] = [(k, v)]"
| "set_entry k v ((k', v') # es) =
     (if k < k' then (k, v) # (k', v') # es else if k = k' then (k, v) # es else (k', v') # set_entry k v es)"

section \<open>The file\<close>

fun getlines :: "string \<Rightarrow> string list" where
  "getlines [] = []"
| "getlines (c # cs) =
     (let s = c # cs in takeWhile (\<lambda>c. c \<noteq> CHR 0x0A) s # getlines (drop (Suc (length (takeWhile (\<lambda>c. c \<noteq> CHR 0x0A) s))) s))"

declare getlines.simps(2) [simp del]

definition is_blank :: "char \<Rightarrow> bool" where
  "is_blank c \<longleftrightarrow> c = CHR 0x20 \<or> c = CHR 0x09 \<or> c = CHR 0x0D \<or> c = CHR 0x0A"

text \<open>Both \<open>erase\<close> calls empty a string that is all blanks: \<open>npos + 1\<close> is 0.\<close>

definition trim :: "string \<Rightarrow> string" where
  "trim s = rev (dropWhile is_blank (rev (dropWhile is_blank s)))"

definition load_line :: "string \<Rightarrow> settings \<Rightarrow> settings" where
  "load_line line es =
     (let line = takeWhile (\<lambda>c. c \<noteq> CHR ''#'') line in
      if CHR ''='' \<in> set line then
        (let key = trim (takeWhile (\<lambda>c. c \<noteq> CHR ''='') line);
             value = trim (tl (dropWhile (\<lambda>c. c \<noteq> CHR ''='') line))
         in if key \<noteq> [] then set_entry key value es else es)
      else es)"

text \<open>The entries of a file are added to those there are.\<close>

definition load :: "(string \<Rightarrow> string option) \<Rightarrow> int \<Rightarrow> string \<Rightarrow> config \<Rightarrow> bool \<times> config" where
  "load files now filename c =
     (let c = c\<lparr>cf_filename := filename, cf_lastLoadTime := now\<rparr> in
      case files filename of None \<Rightarrow> (False, c)
      | Some text \<Rightarrow> (True, c\<lparr>cf_settings := fold load_line (getlines text) (cf_settings c)\<rparr>))"

text \<open>\<open>None\<close>: the time of the last write cannot be read.\<close>

definition check_hot_reload :: "(string \<Rightarrow> string option) \<Rightarrow> int option \<Rightarrow> int \<Rightarrow> config \<Rightarrow> config" where
  "check_hot_reload files written now c =
     (if cf_filename c = [] then c
      else case written of None \<Rightarrow> c
      | Some t \<Rightarrow> if cf_lastLoadTime c < t then snd (load files now (cf_filename c) c) else c)"

definition saved_text :: "settings \<Rightarrow> string" where
  "saved_text es = concat (map (\<lambda>(k, v). k @ ''='' @ v @ [CHR 0x0A]) es)"

definition save :: "(string \<Rightarrow> bool) \<Rightarrow> string \<Rightarrow> (string \<Rightarrow> string option) \<Rightarrow> config \<Rightarrow> bool \<times> (string \<Rightarrow> string option)" where
  "save opens filename files c =
     (if opens filename then (True, files(filename \<mapsto> saved_text (cf_settings c))) else (False, files))"

section \<open>Typed access\<close>

definition get_string :: "string \<Rightarrow> string \<Rightarrow> config \<Rightarrow> string" where
  "get_string key defaultValue c = (case map_of (cf_settings c) key of Some v \<Rightarrow> v | None \<Rightarrow> defaultValue)"

definition is_space :: "char \<Rightarrow> bool" where
  "is_space c \<longleftrightarrow> c = CHR 0x20 \<or> 9 \<le> (of_char c :: nat) \<and> (of_char c :: nat) \<le> 13"

text \<open>\<open>std::stoi\<close>; \<open>None\<close>: it throws.\<close>

definition stoi :: "string \<Rightarrow> int option" where
  "stoi s =
     (let s = dropWhile is_space s;
          neg = (s \<noteq> [] \<and> hd s = CHR ''-'');
          s = (if s \<noteq> [] \<and> (hd s = CHR ''-'' \<or> hd s = CHR ''+'') then tl s else s);
          ds = takeWhile is_digit s;
          v = (if neg then - int (dec_value ds) else int (dec_value ds))
      in if ds = [] \<or> v < - (2 ^ 31) \<or> 2 ^ 31 \<le> v then None else Some v)"

definition get_int :: "string \<Rightarrow> int \<Rightarrow> config \<Rightarrow> int" where
  "get_int key defaultValue c =
     (let val = get_string key [] c in
      if val = [] then defaultValue else case stoi val of Some v \<Rightarrow> v | None \<Rightarrow> defaultValue)"

definition lower :: "char \<Rightarrow> char" where
  "lower c = (if 65 \<le> (of_char c :: nat) \<and> (of_char c :: nat) \<le> 90 then char_of ((of_char c :: nat) + 32) else c)"

definition get_bool :: "string \<Rightarrow> bool \<Rightarrow> config \<Rightarrow> bool" where
  "get_bool key defaultValue c =
     (let val = get_string key [] c in
      if val = [] then defaultValue
      else let val = map lower val in val = ''true'' \<or> val = ''1'' \<or> val = ''yes'')"

text \<open>\<open>std::stof\<close> and \<open>std::stod\<close> over \<open>strtof\<close> and \<open>strtod\<close> in the C locale: digits with a point, read in a base; the
  number of digits behind the point; the rest.\<close>

definition mantissa :: "nat \<Rightarrow> (char \<Rightarrow> bool) \<Rightarrow> (char \<Rightarrow> nat) \<Rightarrow> string \<Rightarrow> (nat \<times> nat \<times> string) option" where
  "mantissa base ok val s =
     (let ip = takeWhile ok s; rest = drop (length ip) s;
          fp = (if rest \<noteq> [] \<and> hd rest = CHR ''.'' then takeWhile ok (tl rest) else []);
          rest = (if rest \<noteq> [] \<and> hd rest = CHR ''.'' then drop (length fp) (tl rest) else rest)
      in if ip = [] \<and> fp = [] then None else Some (foldl (\<lambda>a c. base * a + val c) 0 (ip @ fp), length fp, rest))"

definition strto_exponent :: "char \<Rightarrow> string \<Rightarrow> int" where
  "strto_exponent e s =
     (if s \<noteq> [] \<and> lower (hd s) = e then
        (let s = tl s; neg = (s \<noteq> [] \<and> hd s = CHR ''-'');
             v = int (dec_value (takeWhile is_digit (if s \<noteq> [] \<and> (hd s = CHR ''-'' \<or> hd s = CHR ''+'') then tl s else s)))
         in if neg then - v else v)
      else 0)"

definition is_hex_digit :: "char \<Rightarrow> bool" where
  "is_hex_digit c \<longleftrightarrow> is_digit c \<or> 97 \<le> (of_char (lower c) :: nat) \<and> (of_char (lower c) :: nat) \<le> 102"

definition hex_digit_value :: "char \<Rightarrow> nat" where
  "hex_digit_value c = (if is_digit c then of_char c - 48 else of_char (lower c) - 87)"

definition magnitude :: "string \<Rightarrow> flt option" where
  "magnitude s =
     (if map lower (take 3 s) = ''inf'' then Some PInf
      else if map lower (take 3 s) = ''nan'' then Some NaN
      else case (if map lower (take 2 s) = ''0x'' then mantissa 16 is_hex_digit hex_digit_value (drop 2 s) else None) of
        Some (v, k, rest) \<Rightarrow> Some (Fin (of_nat v * 2 powi (strto_exponent (CHR ''p'') rest - 4 * int k)))
      | None \<Rightarrow> (case mantissa 10 is_digit (\<lambda>c. of_char c - 48) s of
          Some (v, k, rest) \<Rightarrow> Some (Fin (of_nat v * 10 powi (strto_exponent (CHR ''e'') rest - int k)))
        | None \<Rightarrow> None))"

text \<open>\<open>None\<close>: it throws. Whether the C library reports a range error for a result below the normal numbers is its own
  choice: \<open>tiny\<close>.\<close>

definition parse_float :: "(rat \<Rightarrow> bool) \<Rightarrow> format \<Rightarrow> string \<Rightarrow> flt option" where
  "parse_float tiny m s =
     (let s = dropWhile is_space s;
          neg = (s \<noteq> [] \<and> hd s = CHR ''-'');
          s = (if s \<noteq> [] \<and> (hd s = CHR ''-'' \<or> hd s = CHR ''+'') then tl s else s);
          signed = (\<lambda>v. if neg then flt_neg v else v)
      in case magnitude s of None \<Rightarrow> None
         | Some (Fin x) \<Rightarrow> if rnd m x = PInf \<or> tiny x then None else Some (signed (rnd m x))
         | Some v \<Rightarrow> Some (signed v))"

definition get_number :: "(rat \<Rightarrow> bool) \<Rightarrow> format \<Rightarrow> string \<Rightarrow> flt \<Rightarrow> config \<Rightarrow> flt" where
  "get_number tiny m key defaultValue c =
     (let val = get_string key [] c in
      if val = [] then defaultValue else case parse_float tiny m val of Some v \<Rightarrow> v | None \<Rightarrow> defaultValue)"

definition get_float :: "(rat \<Rightarrow> bool) \<Rightarrow> string \<Rightarrow> flt \<Rightarrow> config \<Rightarrow> flt" where
  "get_float tiny = get_number tiny f32"

definition get_double :: "(rat \<Rightarrow> bool) \<Rightarrow> string \<Rightarrow> flt \<Rightarrow> config \<Rightarrow> flt" where
  "get_double tiny = get_number tiny f64"

definition set_string :: "string \<Rightarrow> string \<Rightarrow> config \<Rightarrow> config" where
  "set_string key value c = c\<lparr>cf_settings := set_entry key value (cf_settings c)\<rparr>"

definition set_int :: "string \<Rightarrow> int \<Rightarrow> config \<Rightarrow> config" where
  "set_int key value = set_string key (dec_int value)"

text \<open>\<open>std::to_string\<close> of a \<open>float\<close> or \<open>double\<close> is \<open>printf\<close>'s \<open>%f\<close>: six decimals of the exact value,
  ties to even.\<close>

definition fixed6 :: "flt \<Rightarrow> string" where
  "fixed6 v = (case v of
     Fin x \<Rightarrow> let n = nat (round_even (\<bar>x\<bar> * 1000000)); frac = dec_nat (n mod 1000000)
              in (if x < 0 then ''-'' else '''') @ dec_nat (n div 1000000) @ ''.'' @ replicate (6 - length frac) (CHR ''0'') @ frac
   | PInf \<Rightarrow> ''inf'' | NInf \<Rightarrow> ''-inf'' | NaN \<Rightarrow> ''nan'')"

definition set_float :: "string \<Rightarrow> flt \<Rightarrow> config \<Rightarrow> config" where
  "set_float key value = set_string key (fixed6 value)"

definition set_bool :: "string \<Rightarrow> bool \<Rightarrow> config \<Rightarrow> config" where
  "set_bool key value = set_string key (if value then ''true'' else ''false'')"

section \<open>The map\<close>

text \<open>The entries are those of a \<open>std::map\<close>: the keys strictly increase.\<close>

definition is_map :: "settings \<Rightarrow> bool" where
  "is_map es \<longleftrightarrow> sorted_wrt (<) (map fst es)"

lemma is_map_Cons: "is_map (e # es) \<longleftrightarrow> (\<forall>e' \<in> set es. fst e < fst e') \<and> is_map es"
  by (simp add: is_map_def)

lemma set_entry_keys: "fst ` set (set_entry k v es) = insert k (fst ` set es)"
  by (induction k v es rule: set_entry.induct) auto

lemma set_entry_is_map: "is_map es \<Longrightarrow> is_map (set_entry k v es)"
proof (induction k v es rule: set_entry.induct)
  case (2 k v k' v' es)
  show ?case
  proof (cases "k < k' \<or> k = k'")
    case True
    then show ?thesis using 2(2) by (fastforce simp: is_map_Cons)
  next
    case False
    have "\<forall>x \<in> fst ` set (set_entry k v es). k' < x" unfolding set_entry_keys using 2(2) False by (auto simp: is_map_Cons)
    then show ?thesis using 2 False by (auto simp: is_map_Cons)
  qed
qed (simp add: is_map_def)

lemma map_of_set_entry: "is_map es \<Longrightarrow> map_of (set_entry k v es) = (map_of es)(k \<mapsto> v)"
  by (induction k v es rule: set_entry.induct) (auto simp: is_map_Cons fun_upd_twist)

lemma set_entry_last: "\<forall>e \<in> set es. fst e < k \<Longrightarrow> set_entry k v es = es @ [(k, v)]"
  by (induction es) auto

lemma load_line_is_map: "is_map es \<Longrightarrow> is_map (load_line line es)"
  by (simp add: load_line_def Let_def set_entry_is_map)

lemma fold_load_line_is_map: "is_map es \<Longrightarrow> is_map (fold load_line ls es)"
  by (induction ls arbitrary: es) (simp_all add: load_line_is_map)

text \<open>The operations, in any order.\<close>

datatype config_op = Load "string \<Rightarrow> string option" int string
  | HotReload "string \<Rightarrow> string option" "int option" int
  | SetString string string | SetInt string int | SetFloat string flt | SetBool string bool

fun config_step :: "config_op \<Rightarrow> config \<Rightarrow> config" where
  "config_step (Load files now f) c = snd (load files now f c)"
| "config_step (HotReload files t now) c = check_hot_reload files t now c"
| "config_step (SetString k v) c = set_string k v c"
| "config_step (SetInt k v) c = set_int k v c"
| "config_step (SetFloat k v) c = set_float k v c"
| "config_step (SetBool k v) c = set_bool k v c"

lemma load_is_map: "is_map (cf_settings c) \<Longrightarrow> is_map (cf_settings (snd (load files now f c)))"
  by (simp add: load_def fold_load_line_is_map Let_def split: option.split)

lemma config_step_is_map: "is_map (cf_settings c) \<Longrightarrow> is_map (cf_settings (config_step op c))"
  by (cases op) (auto simp: check_hot_reload_def set_string_def set_int_def set_float_def set_bool_def
      set_entry_is_map load_is_map split: option.split)

lemma config_ops_is_map: "is_map (cf_settings c) \<Longrightarrow> is_map (cf_settings (fold config_step ops c))"
  by (induction ops arbitrary: c) (simp_all add: config_step_is_map)


section \<open>Saving and loading\<close>

text \<open>What the format can hold: a key or value with no line break, \<open>#\<close> or outer blanks, a key that
  is not empty and has no \<open>=\<close>.\<close>

definition clean_text :: "string \<Rightarrow> bool" where
  "clean_text s \<longleftrightarrow> CHR 0x0A \<notin> set s \<and> CHR ''#'' \<notin> set s \<and> trim s = s"

definition clean_entry :: "string \<times> string \<Rightarrow> bool" where
  "clean_entry = (\<lambda>(k, v). k \<noteq> [] \<and> clean_text k \<and> clean_text v \<and> CHR ''='' \<notin> set k)"

lemma takeWhile_until: "c \<notin> set xs \<Longrightarrow> takeWhile (\<lambda>x. x \<noteq> c) (xs @ c # ys) = xs"
  by (induction xs) auto

lemma takeWhile_none: "c \<notin> set xs \<Longrightarrow> takeWhile (\<lambda>x. x \<noteq> c) xs = xs"
  by (induction xs) auto

lemma dropWhile_until: "c \<notin> set xs \<Longrightarrow> dropWhile (\<lambda>x. x \<noteq> c) (xs @ c # ys) = c # ys"
  by (induction xs) auto

lemma getlines_unfold: "s \<noteq> [] \<Longrightarrow> getlines s = takeWhile (\<lambda>c. c \<noteq> CHR 0x0A) s
    # getlines (drop (Suc (length (takeWhile (\<lambda>c. c \<noteq> CHR 0x0A) s))) s)"
  using getlines.simps(2) [of "hd s" "tl s"] by (simp add: Let_def)

lemma getlines_line: "CHR 0x0A \<notin> set l \<Longrightarrow> getlines (l @ CHR 0x0A # s) = l # getlines s"
  using getlines_unfold [of "l @ CHR 0x0A # s"] takeWhile_until [of "CHR 0x0A" l s]
  by (simp del: takeWhile_append)

lemma load_line_clean: "clean_entry (k, v) \<Longrightarrow> load_line (k @ CHR ''='' # v) es = set_entry k v es"
proof -
  assume c: "clean_entry (k, v)"
  have no: "CHR ''='' \<notin> set k" "CHR ''#'' \<notin> set (k @ CHR ''='' # v)"
    using c by (simp_all add: clean_entry_def clean_text_def)
  show ?thesis
    unfolding load_line_def Let_def takeWhile_none [OF no(2)] takeWhile_until [OF no(1)] dropWhile_until [OF no(1)]
    using c by (simp add: clean_entry_def clean_text_def)
qed

lemma load_saved: "list_all clean_entry es \<Longrightarrow>
   fold load_line (getlines (saved_text es)) es0 = fold (\<lambda>(k, v). set_entry k v) es es0"
proof (induction es arbitrary: es0)
  case (Cons e es)
  obtain k v where e: "e = (k, v)" by (cases e)
  then have "CHR 0x0A \<notin> set (k @ CHR ''='' # v)" using Cons.prems by (simp add: clean_entry_def clean_text_def)
  from getlines_line [OF this, of "saved_text es"] have
    "getlines (saved_text (e # es)) = (k @ CHR ''='' # v) # getlines (saved_text es)" using e by (simp add: saved_text_def)
  then show ?case using Cons e by (simp add: load_line_clean)
qed (simp add: saved_text_def)

lemma fold_set_entry: "is_map es \<Longrightarrow> fold (\<lambda>(k, v). set_entry k v) es [] = es"
proof (induction es rule: rev_induct)
  case (snoc e es)
  then have "is_map es" "\<forall>e' \<in> set es. fst e' < fst e" by (auto simp: is_map_def sorted_wrt_append)
  then show ?case using snoc by (auto simp: set_entry_last split: prod.split)
qed simp

text \<open>C35: a configuration whose keys and values the format can hold is the same after saving it and
  loading the file in a new process.\<close>
theorem config_save_load:
  assumes "is_map (cf_settings c)" and "list_all clean_entry (cf_settings c)" and "opens f"
    and "save opens f files c = (ok, files')"
  shows "ok \<and> load files' now f config_new = (True, c\<lparr>cf_filename := f, cf_lastLoadTime := now\<rparr>)"
  using assms load_saved [OF assms(2), of "[]"] fold_set_entry [OF assms(1)]
  by (auto simp: save_def load_def config_new_def Let_def)

theorem config_save_load_witness:
  "let c = set_int ''fps'' 60 (set_bool ''useHardwareEncoding'' True config_new) in
   load [''config.ini'' \<mapsto> ''fps=60'' @ [CHR 0x0A] @ ''useHardwareEncoding=true'' @ [CHR 0x0A]] 5 ''config.ini'' config_new
     = (True, c\<lparr>cf_filename := ''config.ini'', cf_lastLoadTime := 5\<rparr>)"
proof -
  let ?c = "set_int ''fps'' 60 (set_bool ''useHardwareEncoding'' True config_new)"
  let ?files = "[''config.ini'' \<mapsto> ''fps=60'' @ [CHR 0x0A] @ ''useHardwareEncoding=true'' @ [CHR 0x0A]]"
  have s: "cf_settings ?c = [(''fps'', ''60''), (''useHardwareEncoding'', ''true'')]" by code_simp
  have "list_all clean_entry [(''fps'', ''60''), (''useHardwareEncoding'', ''true'')]" by code_simp
  moreover have "is_map [(''fps'', ''60''), (''useHardwareEncoding'', ''true'')]" unfolding is_map_def by code_simp
  ultimately show ?thesis
    using config_save_load [of ?c "\<lambda>_. True" "''config.ini''" Map.empty True ?files 5] unfolding s
    by (simp add: save_def saved_text_def s)
qed

text \<open>A number survives: \<open>stoi\<close> undoes \<open>to_string\<close>.\<close>

lemma dec_nat_is_digits: "c \<in> set (dec_nat n) \<Longrightarrow> is_digit c"
  using dec_nat_digits [of n] by (simp add: list_all_iff)

lemma is_digit_not: "is_digit c \<Longrightarrow> \<not> is_space c \<and> c \<noteq> CHR ''-'' \<and> c \<noteq> CHR ''+''"
  by (auto simp: is_digit_def is_space_def)

lemma takeWhile_digits: "takeWhile is_digit (dec_nat n) = dec_nat n"
  by (simp add: takeWhile_eq_all_conv dec_nat_is_digits)

lemma stoi_dec_int:
  assumes "- (2 ^ 31) \<le> v" and "v < 2 ^ 31"
  shows "stoi (dec_int v) = Some v"
proof -
  have hd: "is_digit (hd (dec_nat n))" for n using dec_nat_is_digits [of "hd (dec_nat n)" n] by simp
  have "dropWhile is_space (dec_nat n) = dec_nat n" for n
    using is_digit_not [OF hd [of n]] by (cases "dec_nat n") auto
  moreover have "\<not> is_space CHR ''-''" by code_simp
  ultimately show ?thesis using assms is_digit_not [OF hd] by (auto simp: stoi_def dec_int_def Let_def takeWhile_digits)
qed

lemma get_set_int:
  assumes "- (2 ^ 31) \<le> v" and "v < 2 ^ 31" and "is_map (cf_settings c)"
  shows "get_int k d (set_int k v c) = v"
proof -
  have "get_string k [] (set_int k v c) = dec_int v" using assms(3) by (simp add: set_int_def set_string_def get_string_def map_of_set_entry)
  moreover have "dec_int v \<noteq> []" by (simp add: dec_int_def)
  ultimately show ?thesis using stoi_dec_int [OF assms(1,2)] by (simp add: get_int_def)
qed

text \<open>\<open>setString\<close> checks nothing: a value with a line break brings in other settings when the file is
  loaded again, and one with \<open>#\<close> is cut off.\<close>

lemma dec_value_append: "dec_value (xs @ ys) = dec_value xs * 10 ^ length ys + dec_value ys"
proof (induction ys rule: rev_induct)
  case (snoc y ys)
  then show ?case unfolding append_assoc [symmetric] dec_value_snoc by (simp add: algebra_simps)
qed (simp add: dec_value_def)

lemma dec_value_zeros: "dec_value (replicate n (CHR ''0'')) = 0"
  by (induction n) (simp_all add: dec_value_def)

lemma dec_nat_length: "n < 10 ^ Suc k \<Longrightarrow> length (dec_nat n) \<le> Suc k"
proof (induction k arbitrary: n)
  case (Suc k)
  then show ?case by (subst dec_nat.simps) (auto simp: less_mult_imp_div_less)
qed (subst dec_nat.simps, simp)

text \<open>What \<open>setFloat\<close> writes is read back as the nearest number to six decimals of it.\<close>

lemma parse_fixed6:
  assumes n: "n = nat (round_even (\<bar>x\<bar> * 1000000))"
    and "rnd m (of_nat n / 1000000) \<noteq> PInf" and "\<not> tiny (of_nat n / 1000000)"
  shows "parse_float tiny m (fixed6 (Fin x)) = Some ((if x < 0 then flt_neg else id) (rnd m (of_nat n / 1000000)))"
proof -
  let ?a = "dec_nat (n div 1000000)" and ?f = "dec_nat (n mod 1000000)"
  define p where "p = replicate (6 - length ?f) (CHR ''0'') @ ?f"
  have len: "length p = 6" using dec_nat_length [of "n mod 1000000" 5] by (simp add: p_def)
  have "\<forall>c \<in> set p. is_digit c" using dec_nat_is_digits by (auto simp: p_def is_digit_def)
  then have digits: "takeWhile is_digit (?a @ CHR ''.'' # p) = ?a" "takeWhile is_digit p = p"
    using dec_nat_is_digits by (auto simp: takeWhile_append is_digit_def takeWhile_eq_all_conv)
  have "dec_value p = n mod 1000000" by (simp add: p_def dec_value_append dec_value_zeros)
  then have "dec_value (?a @ p) = n" by (simp add: dec_value_append len)
  then have "mantissa 10 is_digit (\<lambda>c. of_char c - 48) (?a @ CHR ''.'' # p) = Some (n, 6, [])"
    using digits len by (simp add: mantissa_def Let_def dec_value_def del: takeWhile_eq_all_conv)
  moreover obtain d ds where a: "?a = d # ds" "is_digit d" "list_all is_digit ds"
    using dec_nat_digits [of "n div 1000000"] by (cases ?a) auto
  have low: "lower c = c" if "is_digit c" for c using that by (simp add: lower_def is_digit_def)
  have no: "\<not> is_digit (CHR ''i'')" "\<not> is_digit (CHR ''n'')" "\<not> is_digit (CHR ''x'')" by (simp_all add: is_digit_def)
  have "map lower (take 3 (?a @ CHR ''.'' # p)) \<noteq> ''inf''" "map lower (take 3 (?a @ CHR ''.'' # p)) \<noteq> ''nan''"
    using a no low by auto
  moreover have "map lower (take 2 (?a @ CHR ''.'' # p)) \<noteq> ''0x''"
    using a no low by (cases ds) (auto simp: lower_def)
  moreover have ten: "(10 :: rat) powi (- 6) = inverse 1000000" by (simp add: power_int_def eval_nat_numeral)
  then have "of_nat n * (10 :: rat) powi (strto_exponent (CHR ''e'') [] - int 6) = of_nat n / 1000000"
    unfolding divide_inverse ten [symmetric] by (simp add: strto_exponent_def)
  ultimately have mag: "magnitude (?a @ CHR ''.'' # p) = Some (Fin (of_nat n / 1000000))"
    unfolding magnitude_def by (simp only: if_False option.case prod.case)
  have d: "\<not> is_space d" "d \<noteq> CHR ''-''" "d \<noteq> CHR ''+''" using is_digit_not [OF a(2)] by simp_all
  have "\<not> is_space (CHR ''-'')" by (simp add: is_space_def)
  then have "parse_float tiny m (?a @ CHR ''.'' # p) = Some (rnd m (of_nat n / 1000000))"
    "parse_float tiny m (CHR ''-'' # ?a @ CHR ''.'' # p) = Some (flt_neg (rnd m (of_nat n / 1000000)))"
    using mag assms(2,3) d unfolding a(1) by (simp_all add: parse_float_def Let_def)
  then show ?thesis by (simp add: fixed6_def Let_def n [symmetric] p_def)
qed

lemma get_set_float:
  assumes "is_map (cf_settings c)" and "n = nat (round_even (\<bar>x\<bar> * 1000000))"
    and "rnd m (of_nat n / 1000000) \<noteq> PInf" and "\<not> tiny (of_nat n / 1000000)"
  shows "get_number tiny m k d (set_float k (Fin x) c) = (if x < 0 then flt_neg else id) (rnd m (of_nat n / 1000000))"
proof -
  have "get_string k [] (set_float k (Fin x) c) = fixed6 (Fin x)"
    using assms(1) by (simp add: set_float_def set_string_def get_string_def map_of_set_entry)
  moreover have "fixed6 (Fin x) \<noteq> []" by (simp add: fixed6_def Let_def)
  ultimately show ?thesis using parse_fixed6 [where tiny = tiny, OF assms(2-4)] by (simp add: get_number_def)
qed

lemma saved_value_injects_a_setting:
  "load_line ''fps=60'' (load_line ''username=x'' []) = [(''fps'', ''60''), (''username'', ''x'')]
   \<and> getlines (saved_text [(''username'', ''x'' @ [CHR 0x0A] @ ''fps=60'')]) = [''username=x'', ''fps=60'']"
  by code_simp

lemma saved_value_is_cut_off: "load_line (''username=a#b'') [] = [(''username'', ''a'')]"
  by code_simp

text \<open>A reload forgets nothing: a setting removed from the file keeps its value.\<close>

lemma reload_keeps_removed_settings:
  "k \<in> fst ` set es \<Longrightarrow> k \<in> fst ` set (fold load_line ls es)"
proof (induction ls arbitrary: es)
  case (Cons l ls)
  have "k \<in> fst ` set (load_line l es)" using Cons.prems by (simp add: load_line_def Let_def set_entry_keys)
  then show ?case using Cons.IH by simp
qed simp

end
