(* ===== verification/Support.thy ===== *)
theory Support
  imports Config Network
begin

text \<open>
  The support package of \<open>cpp/common/parsec_lite_api.cpp\<close> - which output paths it accepts, what it
  removes from the configuration, what it collects and the command it runs - and the validation of
  the launcher's form (\<open>cpp/client/ui_system.cpp\<close>).
\<close>

section \<open>Paths\<close>

definition is_safe_path :: "string \<Rightarrow> bool" where
  "is_safe_path path =
     (if path = [] \<or> 512 < length path then False
      else if contains ''..'' path then False
      else \<not> list_ex (\<lambda>c. c \<in> set (List.append '';|&`$<>'' [CHR 0x22, CHR 0x27, CHR 0x0D, CHR 0x0A])) path)"

section \<open>Secrets\<close>

definition sensitive_keywords :: "string list" where
  "sensitive_keywords = [''password'', ''secret'', ''token'', ''private_key'', ''tx_key'', ''rx_key'', ''credential'', ''auth_key'']"

definition contains_sensitive_key :: "string \<Rightarrow> bool" where
  "contains_sensitive_key line = (let lowerLine = map lower line in list_ex (\<lambda>kw. contains kw lowerLine) sensitive_keywords)"

definition sanitized_line :: "string \<Rightarrow> string" where
  "sanitized_line line =
     (if contains_sensitive_key line then
        if CHR ''='' \<in> set line then takeWhile (\<lambda>c. c \<noteq> CHR ''='') line @ ''='' @ '' [REDACTED]'' @ [CHR 0x0A]
        else ''# [REDACTED LINE]'' @ [CHR 0x0A]
      else line @ [CHR 0x0A])"

definition sanitized_config :: "string \<Rightarrow> string" where
  "sanitized_config text = concat (map sanitized_line (getlines text))"

section \<open>The package\<close>

text \<open>The files it reads: those below \<open>logs\<close> by relative path, those in \<open>CrashReports\<close> by name, and
  \<open>config.ini\<close>; the texts of the system information and of the profiler are given.\<close>

record diagnostics =
  dg_logs :: "(string \<times> string) list option"
  dg_crashes :: "(string \<times> string) list option"
  dg_config :: "string option"
  dg_systemInfo :: string
  dg_telemetry :: string
  dg_interfaces :: "interface_info list"

definition interface_lines :: "interface_info list \<Rightarrow> string" where
  "interface_lines is = ''=== Network Interfaces ==='' @ [CHR 0x0A] @
     concat (map (\<lambda>i. ''  Interface: '' @ ii_name i @ '' ('' @ ii_ip i @ '')'' @ [CHR 0x0A]) is)"

definition copied :: "string \<Rightarrow> (string \<times> string) list option \<Rightarrow> (string \<times> string) list" where
  "copied dir fs = (case fs of None \<Rightarrow> [] | Some fs \<Rightarrow> map (\<lambda>(name, text). (dir @ name, text)) fs)"

definition support_report :: "diagnostics \<Rightarrow> (string \<times> string) list" where
  "support_report d =
     copied ''SupportReport/Logs/'' (dg_logs d) @
     copied ''SupportReport/CrashReports/'' (dg_crashes d) @
     (case dg_config d of None \<Rightarrow> [] | Some text \<Rightarrow> [(''SupportReport/Configuration/config.ini'', sanitized_config text)]) @
     [(''SupportReport/SystemInfo/system_info.txt'', dg_systemInfo d),
      (''SupportReport/Telemetry/telemetry_history.txt'', dg_telemetry d),
      (''SupportReport/Network/network_diagnostics.txt'', interface_lines (dg_interfaces d))]"

definition archive_command :: "bool \<Rightarrow> string \<Rightarrow> string" where
  "archive_command windows out =
     (if windows then ''powershell -NoProfile -Command '' @ [CHR 0x22] @ ''Compress-Archive -Path '' @ [CHR 0x27] @
        ''SupportReport'' @ [CHR 0x27] @ '' -DestinationPath '' @ [CHR 0x27] @ out @ [CHR 0x27] @ '' -Force'' @ [CHR 0x22]
      else ''tar -czf '' @ out @ '' SupportReport'')"

text \<open>Whether it succeeds, and what it collects and runs if it gets that far. The result of the command
  is not looked at.\<close>

definition generate_support_package ::
  "bool \<Rightarrow> string option \<Rightarrow> diagnostics \<Rightarrow> bool \<times> ((string \<times> string) list \<times> string) option" where
  "generate_support_package windows outputPath d =
     (case outputPath of None \<Rightarrow> (False, None)
      | Some out \<Rightarrow> if \<not> is_safe_path out then (False, None)
          else (True, Some (support_report d, archive_command windows out)))"

text \<open>The filter lets blanks pass, and the path is not quoted outside Windows: it can carry options of \<open>tar\<close>, among
  them one that runs a program.\<close>

lemma options_pass_the_filter:
  "fst (generate_support_package False (Some ''x --checkpoint=1 --checkpoint-action=exec=id'') d)"
  "archive_command False ''x --checkpoint=1 --checkpoint-action=exec=id''
    = ''tar -czf x --checkpoint=1 --checkpoint-action=exec=id SupportReport''"
proof -
  have "is_safe_path ''x --checkpoint=1 --checkpoint-action=exec=id''" by code_simp
  then show "fst (generate_support_package False (Some ''x --checkpoint=1 --checkpoint-action=exec=id'') d)"
    by (simp add: generate_support_package_def)
qed (simp add: archive_command_def)

section \<open>The launcher's form\<close>

datatype severity = Info | Success | Warning | Error

record validation_message =
  vm_field :: string
  vm_message :: string
  vm_severity :: severity

record launcher_config =
  lc_selectedIp :: string
  lc_hostIp :: string
  lc_bitrate :: int
  lc_fps :: int
  lc_isHost :: bool

definition validate_launcher_config :: "launcher_config \<Rightarrow> interface_info list \<Rightarrow> validation_message list" where
  "validate_launcher_config c interfaces =
     (if interfaces = [] then [\<lparr>vm_field = ''interface'',
        vm_message = ''No network interfaces were found. Check adapter status, VPNs, and firewall permissions, then restart the launcher.'',
        vm_severity = Error\<rparr>]
      else if \<not> list_ex (\<lambda>i. ii_ip i = lc_selectedIp c) interfaces then [\<lparr>vm_field = ''interface'',
        vm_message = ''Select a valid local network interface before starting a session.'', vm_severity = Error\<rparr>]
      else []) @
     (if \<not> lc_isHost c \<and> lc_hostIp c = [] then [\<lparr>vm_field = ''hostIp'',
        vm_message = ''Enter the host IP address before connecting.'', vm_severity = Error\<rparr>] else []) @
     (if lc_bitrate c < 1000 \<or> 20000 < lc_bitrate c then [\<lparr>vm_field = ''quality'',
        vm_message = ''Bitrate must stay between 1,000 and 20,000 kbps.'', vm_severity = Error\<rparr>] else []) @
     (if lc_fps c < 30 \<or> 144 < lc_fps c then [\<lparr>vm_field = ''quality'',
        vm_message = ''Frame rate must stay between 30 and 144 FPS.'', vm_severity = Error\<rparr>] else []) @
     (if 16000 \<le> lc_bitrate c \<and> 120 \<le> lc_fps c then [\<lparr>vm_field = ''quality'',
        vm_message = ''High bitrate plus high FPS can increase latency on congested LANs.'', vm_severity = Warning\<rparr>] else [])"

definition has_blocking_errors :: "validation_message list \<Rightarrow> bool" where
  "has_blocking_errors ms = list_ex (\<lambda>m. vm_severity m = Error) ms"

section \<open>What is accepted and what is hidden\<close>

lemma contains_iff: "contains t s \<longleftrightarrow> (\<exists>a b. s = a @ t @ b)"
proof
  assume "contains t s"
  then obtain n where n: "take (length t) (drop n s) = t" unfolding contains_def list_ex_iff by blast
  then have "s = take n s @ t @ drop (length t) (drop n s)" by (metis append_take_drop_id)
  then show "\<exists>a b. s = a @ t @ b" by blast
next
  assume "\<exists>a b. s = a @ t @ b"
  then obtain a b where "s = a @ t @ b" by blast
  then have "take (length t) (drop (length a) s) = t" "length a \<le> length s - length t" by simp_all
  then show "contains t s" unfolding contains_def list_ex_iff by (metis atLeastLessThan_iff le0 le_imp_less_Suc set_upt)
qed

lemma contains_sensitive_key_append: "contains_sensitive_key k \<Longrightarrow> contains_sensitive_key (k @ v)"
  by (fastforce simp: contains_sensitive_key_def list_ex_iff contains_iff)

text \<open>Two lines of a configuration that differ at most in the value of a sensitive key.\<close>

definition same_but_secret :: "string \<Rightarrow> string \<Rightarrow> bool" where
  "same_but_secret l l' \<longleftrightarrow> l = l' \<or> (\<exists>k v v'. l = k @ ''='' @ v \<and> l' = k @ ''='' @ v' \<and> contains_sensitive_key k)"

lemma sanitized_line_secret: "same_but_secret l l' \<Longrightarrow> sanitized_line l = sanitized_line l'"
proof -
  assume "same_but_secret l l'"
  moreover have "takeWhile (\<lambda>c. c \<noteq> CHR ''='') (k @ CHR ''='' # v) = takeWhile (\<lambda>c. c \<noteq> CHR ''='') (k @ CHR ''='' # v')" for k v v'
    by (induction k) auto
  ultimately show ?thesis
    by (auto simp: same_but_secret_def sanitized_line_def contains_sensitive_key_append simp del: takeWhile_append)
qed



text \<open>Blanks are accepted, so on Linux a path can bring in options of \<open>tar\<close>.\<close>

lemma safe_path_injects_options:
  "archive_command False ''x.tgz --use-compress-program=run.sh'' = ''tar -czf x.tgz --use-compress-program=run.sh SupportReport''
   \<and> is_safe_path ''x.tgz --use-compress-program=run.sh''"
  by code_simp

text \<open>A session can be started from the launcher exactly with these settings.\<close>

lemma launcher_starts_iff:
  "\<not> has_blocking_errors (validate_launcher_config c interfaces) \<longleftrightarrow>
     (\<exists>i \<in> set interfaces. ii_ip i = lc_selectedIp c) \<and> (lc_isHost c \<or> lc_hostIp c \<noteq> [])
     \<and> lc_bitrate c \<in> {1000..20000} \<and> lc_fps c \<in> {30..144}"
  unfolding has_blocking_errors_def validate_launcher_config_def list_ex_append
  by (auto simp: list_ex_iff [of _ interfaces] split: if_split_asm)

end
