(* ===== verification/Logging.thy ===== *)
theory Logging
  imports Config
begin

text \<open>
  \<open>Logger\<close> (\<open>cpp/common/logger.cpp\<close>): levels, filtering, the queue to the worker thread, the log file
  and its rotation. The files are a map from paths to contents; which paths can be opened, the
  formatted times and what the system tells of itself are arguments. An operation also returns the
  lines it writes.
\<close>

section \<open>Levels\<close>

datatype log_level = LL_TRACE | LL_DEBUG | LL_INFO | LL_WARN | LL_ERROR | LL_CRITICAL | LL_FATAL

fun level_code :: "log_level \<Rightarrow> nat" where
  "level_code LL_TRACE = 0"
| "level_code LL_DEBUG = 1"
| "level_code LL_INFO = 2"
| "level_code LL_WARN = 3"
| "level_code LL_ERROR = 4"
| "level_code LL_CRITICAL = 5"
| "level_code LL_FATAL = 6"

lemma level_code_eq: "level_code a = level_code b \<longleftrightarrow> a = b"
  by (cases a; cases b) simp_all

instantiation log_level :: linorder
begin

definition less_eq_log_level :: "log_level \<Rightarrow> log_level \<Rightarrow> bool" where
  "less_eq_log_level a b \<longleftrightarrow> level_code a \<le> level_code b"

definition less_log_level :: "log_level \<Rightarrow> log_level \<Rightarrow> bool" where
  "less_log_level a b \<longleftrightarrow> level_code a < level_code b"

instance
  by standard (auto simp: less_eq_log_level_def less_log_level_def level_code_eq)

end

fun level_to_string :: "log_level \<Rightarrow> string" where
  "level_to_string LL_TRACE = ''TRACE''"
| "level_to_string LL_DEBUG = ''DEBUG''"
| "level_to_string LL_INFO = ''INFO''"
| "level_to_string LL_WARN = ''WARN''"
| "level_to_string LL_ERROR = ''ERROR''"
| "level_to_string LL_CRITICAL = ''CRIT''"
| "level_to_string LL_FATAL = ''FATAL''"

definition upper :: "char \<Rightarrow> char" where
  "upper c = (if 97 \<le> (of_char c :: nat) \<and> (of_char c :: nat) \<le> 122 then char_of ((of_char c :: nat) - 32) else c)"

definition string_to_level :: "string \<Rightarrow> log_level" where
  "string_to_level s =
     (let s = map upper s in
      if s = ''TRACE'' then LL_TRACE
      else if s = ''DEBUG'' then LL_DEBUG
      else if s = ''INFO'' then LL_INFO
      else if s = ''WARN'' \<or> s = ''WARNING'' then LL_WARN
      else if s = ''ERROR'' then LL_ERROR
      else if s = ''CRITICAL'' then LL_CRITICAL
      else if s = ''FATAL'' then LL_FATAL
      else LL_INFO)"

section \<open>State\<close>

record log_record =
  lr_time :: string
  lr_ms :: nat
  lr_processId :: u32
  lr_threadId :: u32
  lr_sessionId :: string
  lr_module :: string
  lr_level :: log_level
  lr_file :: string
  lr_line :: int
  lr_function :: string
  lr_message :: string

record logger =
  lg_role :: string
  lg_logDir :: string
  lg_baseFilename :: string
  lg_open :: bool
  lg_currentFileSize :: u64
  lg_maxFileSize :: u64
  lg_maxFiles :: int
  lg_performance :: bool
  lg_runtimeLevel :: log_level
  lg_initialized :: bool
  lg_running :: bool
  lg_queue :: "log_record list"
  lg_files :: "string \<Rightarrow> string option"

definition logger_new :: "(string \<Rightarrow> string option) \<Rightarrow> logger" where
  "logger_new files = \<lparr>lg_role = ''App'', lg_logDir = ''logs'', lg_baseFilename = [], lg_open = False,
     lg_currentFileSize = 0, lg_maxFileSize = 104857600, lg_maxFiles = 5, lg_performance = False,
     lg_runtimeLevel = LL_TRACE, lg_initialized = False, lg_running = False, lg_queue = [], lg_files = files\<rparr>"

section \<open>The session id of a thread\<close>

definition hex_digit :: "nat \<Rightarrow> char" where
  "hex_digit n = (if n < 10 then char_of (48 + n) else char_of (55 + n))"

definition thread_session_id :: "u64 \<Rightarrow> string" where
  "thread_session_id sessionId =
     (if sessionId = 0 then ''00000000''
      else let n = unat (sessionId AND 0xFFFFFFFF) in map (\<lambda>k. hex_digit (n div 16 ^ (7 - k) mod 16)) [0..<8])"

section \<open>The file\<close>

definition open_file :: "(string \<Rightarrow> bool) \<Rightarrow> logger \<Rightarrow> logger" where
  "open_file opens l =
     (if opens (lg_baseFilename l) then
        (let content = (case lg_files l (lg_baseFilename l) of Some t \<Rightarrow> t | None \<Rightarrow> [])
         in l\<lparr>lg_open := True, lg_files := (lg_files l)(lg_baseFilename l \<mapsto> content),
              lg_currentFileSize := of_nat (length content)\<rparr>)
      else l\<lparr>lg_open := False\<rparr>)"

definition archive :: "string \<Rightarrow> int \<Rightarrow> string" where
  "archive base k = base @ ''.'' @ dec_int k"

definition rename_file :: "string \<Rightarrow> string \<Rightarrow> (string \<Rightarrow> string option) \<Rightarrow> (string \<Rightarrow> string option)" where
  "rename_file a b files = (if files a \<noteq> None then files(b := files a, a := None) else files)"

text \<open>The loop over \<open>i = historyLimit - 1, \<dots>, 1\<close>.\<close>

fun shift_archives :: "string \<Rightarrow> nat \<Rightarrow> (string \<Rightarrow> string option) \<Rightarrow> (string \<Rightarrow> string option)" where
  "shift_archives base 0 files = files"
| "shift_archives base (Suc i) files =
     shift_archives base i (rename_file (archive base (int (Suc i))) (archive base (int (Suc i) + 1)) files)"

definition rotate_files :: "(string \<Rightarrow> bool) \<Rightarrow> logger \<Rightarrow> logger" where
  "rotate_files opens l =
     (let base = lg_baseFilename l; historyLimit = lg_maxFiles l;
          files = (lg_files l)(archive base historyLimit := None);
          files = shift_archives base (nat (historyLimit - 1)) files;
          files = rename_file base (archive base 1) files
      in open_file opens (l\<lparr>lg_open := False, lg_files := files\<rparr>))"

definition file_name :: "string \<Rightarrow> string" where
  "file_name path = rev (takeWhile (\<lambda>c. c \<noteq> CHR 0x5C \<and> c \<noteq> CHR ''/'') (rev path))"

definition padded_ms :: "nat \<Rightarrow> string" where
  "padded_ms n = replicate (3 - length (dec_nat n)) (CHR ''0'') @ dec_nat n"

definition log_line :: "log_record \<Rightarrow> string" where
  "log_line r =
     ''['' @ lr_time r @ ''.'' @ padded_ms (lr_ms r) @ ''] '' @
     ''[PID:'' @ dec_nat (unat (lr_processId r)) @ ''] '' @
     ''[TID:'' @ dec_nat (unat (lr_threadId r)) @ ''] '' @
     ''[Session:'' @ (if lr_sessionId r = [] then ''00000000'' else lr_sessionId r) @ ''] '' @
     ''['' @ lr_module r @ ''] '' @ ''['' @ level_to_string (lr_level r) @ ''] '' @
     file_name (lr_file r) @ '':'' @ dec_int (lr_line r) @ '' '' @ lr_function r @ ''() '' @ lr_message r @ [CHR 0x0A]"

definition append_line :: "string \<Rightarrow> logger \<Rightarrow> logger" where
  "append_line line l = l\<lparr>lg_files := (lg_files l)(lg_baseFilename l \<mapsto>
     (case lg_files l (lg_baseFilename l) of Some t \<Rightarrow> t | None \<Rightarrow> []) @ line)\<rparr>"

definition write_record :: "(string \<Rightarrow> bool) \<Rightarrow> log_record \<Rightarrow> logger \<Rightarrow> logger" where
  "write_record opens r l =
     (if lg_open l then
        (let line = log_line r;
             l = append_line line l;
             l = l\<lparr>lg_currentFileSize := lg_currentFileSize l + of_nat (length line)\<rparr>
         in if lg_maxFileSize l \<le> lg_currentFileSize l then rotate_files opens l else l)
      else l)"

section \<open>Logging\<close>

definition log_filtered :: "log_record \<Rightarrow> logger \<Rightarrow> bool" where
  "log_filtered r l \<longleftrightarrow> lr_level r < lg_runtimeLevel l \<or>
     (lr_module r = ''StreamTrace'' \<or> lr_module r = ''ClientTrace'') \<and> lr_level r < LL_WARN"

text \<open>The records written by the caller, and the logger.\<close>

definition log_message :: "(string \<Rightarrow> bool) \<Rightarrow> log_record \<Rightarrow> logger \<Rightarrow> log_record list \<times> logger" where
  "log_message opens r l =
     (if log_filtered r l then ([], l)
      else if LL_CRITICAL \<le> lr_level r then ([r], write_record opens r l)
      else if length (lg_queue l) < 10000 then ([], l\<lparr>lg_queue := lg_queue l @ [r]\<rparr>)
      else ([], l))"

text \<open>One round of the worker that finds a record.\<close>

definition worker_step :: "(string \<Rightarrow> bool) \<Rightarrow> logger \<Rightarrow> log_record list \<times> logger" where
  "worker_step opens l = (case lg_queue l of [] \<Rightarrow> ([], l)
     | r # rs \<Rightarrow> ([r], write_record opens r (l\<lparr>lg_queue := rs\<rparr>)))"

definition drain_queue :: "(string \<Rightarrow> bool) \<Rightarrow> logger \<Rightarrow> log_record list \<times> logger" where
  "drain_queue opens l = (lg_queue l, fold (write_record opens) (lg_queue l) (l\<lparr>lg_queue := []\<rparr>))"

text \<open>Stopping the worker: it drains the queue before it is joined.\<close>

definition stop_worker :: "(string \<Rightarrow> bool) \<Rightarrow> logger \<Rightarrow> log_record list \<times> logger" where
  "stop_worker opens l = (if lg_running l then drain_queue opens (l\<lparr>lg_running := False\<rparr>) else ([], l))"

definition logger_shutdown :: "(string \<Rightarrow> bool) \<Rightarrow> logger \<Rightarrow> log_record list \<times> logger" where
  "logger_shutdown opens l = (case stop_worker opens l of (rs, l) \<Rightarrow> (rs, l\<lparr>lg_open := False\<rparr>))"

text \<open>What the build and the operating system tell: the memory in bytes, and the versions linked.\<close>

record system_facts =
  sf_windows :: bool
  sf_memory :: "(u64 \<times> u64) option"
  sf_ffmpeg :: "string option"
  sf_qt :: "string option"

definition system_lines :: "system_facts \<Rightarrow> string \<Rightarrow> u32 \<Rightarrow> string" where
  "system_lines f role pid =
     (let nl = [CHR 0x0A]; rule = replicate 80 (CHR ''='') in
      rule @ nl @ replicate 26 (CHR '' '') @ ''CONFIGURATION SNAPSHOT'' @ nl @ rule @ nl @
      ''Application Mode:     '' @ role @ nl @
      ''Build Version:        v1.2.0-Production'' @ nl @
      ''Process ID (PID):     '' @ dec_nat (unat pid) @ nl @
      ''Operating System:     '' @ (if sf_windows f then ''Windows 10/11'' else ''Linux / POSIX'') @ nl @
      (case sf_memory f of None \<Rightarrow> []
       | Some (total_ram, available) \<Rightarrow>
           ''Total Physical RAM:   '' @ dec_nat (unat total_ram div (1024 * 1024)) @ '' MB'' @ nl @
           ''Available RAM:        '' @ dec_nat (unat available div (1024 * 1024)) @ '' MB'' @ nl) @
      ''FFmpeg Version:       '' @ (case sf_ffmpeg f of None \<Rightarrow> ''Not Enabled / Mocked'' | Some v \<Rightarrow> v) @ nl @
      ''Qt Version:           '' @ (case sf_qt f of None \<Rightarrow> ''Not Linked / Static Engine'' | Some v \<Rightarrow> v) @ nl)"

text \<open>The text of the resolution scale is given.\<close>

definition snapshot :: "string \<Rightarrow> string \<Rightarrow> config \<Rightarrow> string" where
  "snapshot described scale c =
     (let nl = [CHR 0x0A]; flag = (\<lambda>b. if b then ''true'' else ''false'') in
      described @ nl @ ''--- active config.ini parameters ---'' @ nl @
      ''log_level='' @ get_string ''log_level'' ''INFO'' c @ nl @
      ''max_log_file_size_mb='' @ dec_int (get_int ''max_log_file_size_mb'' 100 c) @ nl @
      ''max_log_files='' @ dec_int (get_int ''max_log_files'' 5 c) @ nl @
      ''enable_performance_logging='' @ flag (get_bool ''enable_performance_logging'' False c) @ nl @
      ''username='' @ get_string ''username'' ''User'' c @ nl @
      ''useHardwareEncoding='' @ flag (get_bool ''useHardwareEncoding'' True c) @ nl @
      ''encoderPreset='' @ dec_int (get_int ''encoderPreset'' 0 c) @ nl @
      ''resolutionScale='' @ scale @ nl @ replicate 80 (CHR ''='') @ nl @ nl)"

text \<open>The snapshot is not counted in the size of the file.\<close>

definition write_snapshot :: "system_facts \<Rightarrow> u32 \<Rightarrow> string \<Rightarrow> config \<Rightarrow> logger \<Rightarrow> logger" where
  "write_snapshot f pid scale c l =
     (if lg_open l then append_line (snapshot (system_lines f (lg_role l) pid) scale c) l else l)"

definition log_prefix :: "string \<Rightarrow> string" where
  "log_prefix role = (if role = ''Host'' then ''host'' else if role = ''Client'' then ''client''
     else if role = ''Standalone'' then ''standalone'' else ''app'')"

definition logger_init ::
  "(string \<Rightarrow> bool) \<Rightarrow> bool \<Rightarrow> string \<Rightarrow> u32 \<Rightarrow> system_facts \<Rightarrow> string \<Rightarrow> config \<Rightarrow> string \<Rightarrow> string \<Rightarrow> logger
    \<Rightarrow> log_record list \<times> logger" where
  "logger_init opens directories time pid f scale c role logDir l =
     (if lg_initialized l \<and> lg_role l = role then ([], l)
      else (case stop_worker opens l of (rs, l) \<Rightarrow>
        let dir = (if directories then logDir else ''.'');
            l = l\<lparr>lg_role := role, lg_logDir := dir, lg_initialized := True,
              lg_baseFilename := dir @ ''/'' @ role @ ''/'' @ log_prefix role @ ''_'' @ time @ ''_PID'' @ dec_nat (unat pid) @ ''.log''\<rparr>;
            l = write_snapshot f pid scale c (open_file opens l)
        in (rs, l\<lparr>lg_running := True\<rparr>)))"

definition load_log_config :: "config \<Rightarrow> logger \<Rightarrow> logger" where
  "load_log_config c l = l\<lparr>lg_runtimeLevel := string_to_level (get_string ''log_level'' ''INFO'' c),
     lg_maxFileSize := of_int (get_int ''max_log_file_size_mb'' 100 c) * 1024 * 1024,
     lg_maxFiles := get_int ''max_log_files'' 5 c,
     lg_performance := get_bool ''enable_performance_logging'' False c\<rparr>"

section \<open>Rotation keeps the history\<close>

lemma dec_nat_inj: "dec_nat a = dec_nat b \<longleftrightarrow> a = b"
  by (metis dec_value_dec_nat)

lemma archive_inj: "0 \<le> a \<Longrightarrow> 0 \<le> b \<Longrightarrow> archive base a = archive base b \<longleftrightarrow> a = b"
  by (simp add: archive_def dec_int_def dec_nat_inj eq_nat_nat_iff)

lemma archive_not_base [simp]: "archive base k \<noteq> base" "base \<noteq> archive base k"
  by (simp_all add: archive_def)

lemma rename_file_free: "files b = None \<Longrightarrow> a \<noteq> b \<Longrightarrow> rename_file a b files = files(b := files a, a := None)"
  by (auto simp: rename_file_def fun_eq_iff)

definition shifted :: "string \<Rightarrow> nat \<Rightarrow> (string \<Rightarrow> string option) \<Rightarrow> (string \<Rightarrow> string option) \<Rightarrow> bool" where
  "shifted base n files files' \<longleftrightarrow>
     (\<forall>k \<in> {1..n}. files' (archive base (int k + 1)) = files (archive base (int k)))
   \<and> (0 < n \<longrightarrow> files' (archive base 1) = None)
   \<and> (\<forall>p. (\<forall>k \<in> {1..n + 1}. p \<noteq> archive base (int k)) \<longrightarrow> files' p = files p)"

lemma shift_archives_shifted:
  "files (archive base (int n + 1)) = None \<Longrightarrow> shifted base n files (shift_archives base n files)"
proof (induction n arbitrary: files)
  case (Suc n)
  define f where "f = files(archive base (int (Suc n) + 1) := files (archive base (int (Suc n))), archive base (int (Suc n)) := None)"
  have rename: "shift_archives base (Suc n) files = shift_archives base n f"
    using Suc.prems by (simp add: rename_file_free archive_inj f_def)
  have "f (archive base (int n + 1)) = None" by (simp add: f_def archive_inj add.commute)
  then have ih: "shifted base n f (shift_archives base n f)" by (rule Suc.IH)
  let ?r = "shift_archives base n f"
  have top: "?r (archive base (int (Suc n) + 1)) = files (archive base (int (Suc n)))"
  proof -
    have "?r (archive base (int (Suc n) + 1)) = f (archive base (int (Suc n) + 1))"
      using ih by (simp add: shifted_def archive_inj)
    then show ?thesis by (simp add: f_def archive_inj)
  qed
  have low: "?r (archive base (int k + 1)) = files (archive base (int k))" if "k \<in> {1..n}" for k
    using ih that by (simp add: shifted_def f_def archive_inj)
  have one: "?r (archive base 1) = None" using ih by (cases n) (simp_all add: shifted_def f_def)
  have other: "?r p = files p" if "\<forall>k \<in> {1..Suc n + 1}. p \<noteq> archive base (int k)" for p
  proof -
    have "p \<noteq> archive base (int (Suc n))" "p \<noteq> archive base (int (Suc n) + 1)"
      using that [rule_format, of "Suc n"] that [rule_format, of "Suc (Suc n)"] by (simp_all add: add.commute)
    moreover have "?r p = f p" using ih that by (simp add: shifted_def)
    ultimately show ?thesis by (simp add: f_def)
  qed
  have "?r (archive base (int k + 1)) = files (archive base (int k))" if "k \<in> {1..Suc n}" for k
    using low [of k] top that by (cases "k = Suc n") simp_all
  then show ?case unfolding rename shifted_def using one other by blast
qed (simp add: shifted_def)

text \<open>A rotation renames the log to archive 1 and archive \<open>k\<close> to \<open>k + 1\<close>, forgets only the oldest,
  touches no other file and goes on with an empty log.\<close>
theorem log_rotation_keeps_history:
  assumes "lg_maxFiles l = int n" and "0 < n" and "opens (lg_baseFilename l)" and "lg_files l (lg_baseFilename l) = Some t"
  defines "base \<equiv> lg_baseFilename l" and "files \<equiv> lg_files (rotate_files opens l)"
  shows "files base = Some [] \<and> files (archive base 1) = Some t
    \<and> (\<forall>k \<in> {1..<n}. files (archive base (int k + 1)) = lg_files l (archive base (int k)))
    \<and> (\<forall>p. p \<noteq> base \<and> (\<forall>k \<in> {1..n}. p \<noteq> archive base (int k)) \<longrightarrow> files p = lg_files l p)"
proof -
  let ?f0 = "(lg_files l)(archive base (int n) := None)"
  let ?f1 = "shift_archives base (n - 1) ?f0"
  have n: "int n = int (n - 1) + 1" using assms(2) by simp
  have free: "?f0 (archive base (int (n - 1) + 1)) = None" unfolding n [symmetric] by simp
  have sh: "shifted base (n - 1) ?f0 ?f1" using shift_archives_shifted [of ?f0 base "n - 1"] free by simp
  have one: "?f1 (archive base 1) = None"
  proof (cases "0 < n - 1")
    case False
    then have "n = 1" using assms(2) by simp
    then show ?thesis by simp
  qed (use sh in \<open>simp add: shifted_def\<close>)
  have b: "?f1 base = Some t" using sh assms(4) by (simp add: shifted_def base_def)
  have eq: "files = ?f1(archive base 1 := Some t, base := Some [])"
    using assms(1-3) one b by (simp add: files_def base_def rotate_files_def Let_def open_file_def rename_file_free nat_diff_distrib fun_eq_iff)
  have "files (archive base (int k + 1)) = lg_files l (archive base (int k))" if "k \<in> {1..<n}" for k
  proof -
    have "k \<in> {1..n - 1}" using that by auto
    then show ?thesis using sh [unfolded shifted_def, THEN conjunct1, rule_format, of k] by (auto simp: eq archive_inj)
  qed
  moreover have "files p = lg_files l p" if "p \<noteq> base" "\<forall>k \<in> {1..n}. p \<noteq> archive base (int k)" for p
  proof -
    have "p \<noteq> archive base 1" "p \<noteq> archive base (int n)" using that(2) assms(2) by force+
    then show ?thesis using sh that assms(2) by (simp add: eq shifted_def)
  qed
  ultimately show ?thesis using eq by simp
qed

theorem log_rotation_keeps_history_witness:
  "lg_files (rotate_files (\<lambda>_. True) ((logger_new [''a.log'' \<mapsto> ''new'', ''a.log.1'' \<mapsto> ''old''])\<lparr>lg_baseFilename := ''a.log''\<rparr>)) ''a.log.1''
    = Some ''new''"
proof -
  have a: "archive ''a.log'' 1 = ''a.log.1''" by code_simp
  show ?thesis
    using log_rotation_keeps_history [of "(logger_new [''a.log'' \<mapsto> ''new'', ''a.log.1'' \<mapsto> ''old''])\<lparr>lg_baseFilename := ''a.log''\<rparr>" 5
        "\<lambda>_. True" "''new''"] by (simp add: logger_new_def a)
qed

section \<open>Every accepted record is written once, in order\<close>

datatype log_event = Log log_record | Work | Reconfigure config

definition below_critical :: "log_record \<Rightarrow> bool" where
  "below_critical r \<longleftrightarrow> lr_level r < LL_CRITICAL"

definition enqueued :: "log_record \<Rightarrow> logger \<Rightarrow> log_record list" where
  "enqueued r l = (if \<not> log_filtered r l \<and> below_critical r \<and> length (lg_queue l) < 10000 then [r] else [])"

text \<open>The calls of the other threads and the rounds of the worker, in any order: the records written, the
  records the queue took, and the logger.\<close>

fun log_run :: "(string \<Rightarrow> bool) \<Rightarrow> log_event list \<Rightarrow> logger \<Rightarrow> log_record list \<times> log_record list \<times> logger" where
  "log_run opens [] l = ([], [], l)"
| "log_run opens (Log r # es) l =
     (let (w, l') = log_message opens r l; (ws, taken, l'') = log_run opens es l' in (w @ ws, enqueued r l @ taken, l''))"
| "log_run opens (Work # es) l =
     (let (w, l') = worker_step opens l; (ws, taken, l'') = log_run opens es l' in (w @ ws, taken, l''))"
| "log_run opens (Reconfigure c # es) l = log_run opens es (load_log_config c l)"

lemma write_record_queue [simp]: "lg_queue (write_record opens r l) = lg_queue l" "lg_running (write_record opens r l) = lg_running l"
  by (simp_all add: write_record_def Let_def append_line_def rotate_files_def open_file_def)

definition queue_ok :: "logger \<Rightarrow> bool" where
  "queue_ok l \<longleftrightarrow> lg_running l \<and> length (lg_queue l) \<le> 10000 \<and> list_all below_critical (lg_queue l)"

lemma log_run_in_order:
  "log_run opens es l = (ws, taken, l') \<Longrightarrow> queue_ok l \<Longrightarrow>
   filter below_critical ws @ lg_queue l' = lg_queue l @ taken \<and> queue_ok l'"
proof (induction opens es l arbitrary: ws taken l' rule: log_run.induct)
  case (2 opens r es l)
  obtain w l1 where m: "log_message opens r l = (w, l1)" by (cases "log_message opens r l")
  obtain ws1 taken1 where rest: "log_run opens es l1 = (ws1, taken1, l')" "ws = w @ ws1" "taken = enqueued r l @ taken1"
    using 2(2) m by (auto split: prod.split_asm)
  have "filter below_critical w = []" "lg_queue l1 = lg_queue l @ enqueued r l" "queue_ok l1"
    using m 2(3) by (auto simp: log_message_def enqueued_def below_critical_def queue_ok_def split: if_split_asm)
  then show ?case using 2(1) [OF m [symmetric] refl, of ws1 taken1 l'] rest by simp
next
  case (3 opens es l)
  obtain w l1 where m: "worker_step opens l = (w, l1)" by (cases "worker_step opens l")
  obtain ws1 where rest: "log_run opens es l1 = (ws1, taken, l')" "ws = w @ ws1"
    using 3(2) m by (auto split: prod.split_asm)
  have "filter below_critical w @ lg_queue l1 = lg_queue l" "queue_ok l1"
    using m 3(3) by (auto simp: worker_step_def queue_ok_def split: list.split_asm)
  then show ?case using 3(1) [OF m [symmetric] refl rest(1)] rest(2) by (metis append.assoc filter_append)
next
  case (4 opens c es l)
  then show ?case by (simp add: load_log_config_def queue_ok_def)
qed simp

text \<open>Whatever is logged, reconfigured and written before, stopping the logger leaves the queue empty,
  and the records below CRITICAL have then been written exactly once and in the order the queue took
  them; it never holds more than 10000.\<close>
theorem logger_writes_in_order:
  "let (ws, taken, l) = log_run opens es ((logger_new files)\<lparr>lg_running := True\<rparr>); (rs, l') = logger_shutdown opens l
   in filter below_critical (ws @ rs) = taken \<and> lg_queue l' = [] \<and> length (lg_queue l) \<le> 10000"
proof -
  let ?l = "(logger_new files)\<lparr>lg_running := True\<rparr>"
  obtain ws taken l where r: "log_run opens es ?l = (ws, taken, l)" by (cases "log_run opens es ?l") auto
  have "queue_ok ?l" "lg_queue ?l = []" by (simp_all add: logger_new_def queue_ok_def)
  with log_run_in_order [OF r] have inv: "filter below_critical ws @ lg_queue l = taken" "queue_ok l" by simp_all
  have q: "lg_queue (fold (write_record opens) rs l0) = lg_queue l0" for rs l0
    by (induction rs arbitrary: l0) simp_all
  have "filter below_critical (lg_queue l) = lg_queue l" using inv(2) by (simp add: queue_ok_def list_all_iff filter_id_conv)
  then show ?thesis using r inv by (simp add: logger_shutdown_def stop_worker_def drain_queue_def queue_ok_def q)
qed

section \<open>Stopping the worker can hang\<close>

text \<open>The worker between evaluating the condition of \<open>wait\<close> and blocking holds the mutex of the queue, but
  \<open>shutdown\<close> clears \<open>m_running\<close> and notifies without it.\<close>

datatype worker_pc = AtLoop | Evaluated | Blocked | Draining | Ended
datatype stop_pc = Stopping | Cleared | Joining | Joined

inductive stop_step :: "worker_pc \<times> stop_pc \<times> bool \<Rightarrow> worker_pc \<times> stop_pc \<times> bool \<Rightarrow> bool" where
  loop_ends: "stop_step (AtLoop, s, False) (Draining, s, False)"
| condition_fails: "stop_step (AtLoop, s, True) (Evaluated, s, True)"
| blocks: "stop_step (Evaluated, s, running) (Blocked, s, running)"
| drains: "stop_step (Draining, s, running) (Ended, s, running)"
| clears: "stop_step (w, Stopping, running) (w, Cleared, False)"
| notifies: "stop_step (w, Cleared, running) (if w = Blocked then AtLoop else w, Joining, running)"
| joins: "stop_step (Ended, Joining, running) (Ended, Joined, running)"

inductive_simps stop_step_stuck: "stop_step (Blocked, Joining, running) c"

lemma shutdown_can_hang:
  "stop_step\<^sup>*\<^sup>* (AtLoop, Stopping, True) (Blocked, Joining, False) \<and> (\<nexists>c. stop_step (Blocked, Joining, False) c)"
proof -
  have "stop_step (AtLoop, Stopping, True) (Evaluated, Stopping, True)" by (rule condition_fails)
  moreover have "stop_step (Evaluated, Stopping, True) (Evaluated, Cleared, False)" by (rule clears)
  moreover have "stop_step (Evaluated, Cleared, False) (Evaluated, Joining, False)" using notifies [of Evaluated False] by simp
  moreover have "stop_step (Evaluated, Joining, False) (Blocked, Joining, False)" by (rule blocks)
  ultimately have "stop_step\<^sup>*\<^sup>* (AtLoop, Stopping, True) (Blocked, Joining, False)"
    by (meson rtranclp.rtrancl_into_rtrancl rtranclp.rtrancl_refl)
  then show ?thesis by (simp add: stop_step_stuck)
qed

end
