(* ===== verification/InputCapture.thy ===== *)
theory InputCapture
  imports InputPredictor HostReceiver
begin

text \<open>
  \<open>Client::InputCapture\<close> (\<open>cpp/client/input_capture.cpp\<close>): raw input to input packets, the batching of
  relative mouse movement and the polling of gamepads. What Windows reports - the raw input, cursor,
  focus and client area, the XInput states, the clock - is given. An operation gives the packets it
  hands to the callback, without the time stamps of their headers.
\<close>

section \<open>Input and state\<close>

record raw_mouse =
  rm_absolute :: bool
  rm_lastX :: int
  rm_lastY :: int
  rm_buttonFlags :: u16
  rm_buttonData :: u16

datatype raw_input = RawKeyboard u16 u16 | RawMouse raw_mouse | RawOther

record capture_env =
  ve_cursor :: "bool option"
  ve_focused :: bool
  ve_point :: "int \<times> int"
  ve_width :: u32
  ve_height :: u32
  ve_recordTime :: u64
  ve_batchTime :: u64

record xinput_state =
  xs_packetNumber :: u32
  xs_buttons :: u16
  xs_leftTrigger :: u8
  xs_rightTrigger :: u8
  xs_thumbLX :: u16
  xs_thumbLY :: u16
  xs_thumbRX :: u16
  xs_thumbRY :: u16

record input_capture =
  ic_lastPad :: "xinput_state list"
  ic_connected :: "bool list"
  ic_relX :: int
  ic_relY :: int
  ic_lastSentUs :: u64
  ic_hasPending :: bool
  ic_predictor :: input_predictor

definition no_pad :: xinput_state where
  "no_pad = \<lparr>xs_packetNumber = 0, xs_buttons = 0, xs_leftTrigger = 0, xs_rightTrigger = 0, xs_thumbLX = 0,
     xs_thumbLY = 0, xs_thumbRX = 0, xs_thumbRY = 0\<rparr>"

definition capture_new :: input_capture where
  "capture_new = \<lparr>ic_lastPad = replicate 4 no_pad, ic_connected = replicate 4 False, ic_relX = 0, ic_relY = 0,
     ic_lastSentUs = 0, ic_hasPending = False, ic_predictor = ip_new 10\<rparr>"

datatype input_packet = KeyPacket KeyboardEvent | MovePacket MouseMoveEvent | ButtonPacket MouseButtonEvent
  | ScrollPacket MouseScrollEvent | PadPacket GamepadState | PadStatusPacket GamepadStatusEvent

text \<open>\<open>SendPacket\<close>: the bytes handed to the callback.\<close>

fun input_bytes :: "u64 \<Rightarrow> input_packet \<Rightarrow> bytes" where
  "input_bytes t (KeyPacket e) = enc_InputHeader \<lparr>ih_type = pt_code PtInput, ih_inputType = it_code ItKeyboard, ih_timestamp = t\<rparr> @ enc_KeyboardEvent e"
| "input_bytes t (MovePacket e) = enc_InputHeader \<lparr>ih_type = pt_code PtInput, ih_inputType = it_code ItMouseMove, ih_timestamp = t\<rparr> @ enc_MouseMoveEvent e"
| "input_bytes t (ButtonPacket e) = enc_InputHeader \<lparr>ih_type = pt_code PtInput, ih_inputType = it_code ItMouseButton, ih_timestamp = t\<rparr> @ enc_MouseButtonEvent e"
| "input_bytes t (ScrollPacket e) = enc_InputHeader \<lparr>ih_type = pt_code PtInput, ih_inputType = it_code ItMouseScroll, ih_timestamp = t\<rparr> @ enc_MouseScrollEvent e"
| "input_bytes t (PadPacket e) = enc_InputHeader \<lparr>ih_type = pt_code PtInput, ih_inputType = it_code ItGamepad, ih_timestamp = t\<rparr> @ enc_GamepadState e"
| "input_bytes t (PadStatusPacket e) = enc_InputHeader \<lparr>ih_type = pt_code PtInput, ih_inputType = it_code ItGamepadStatus, ih_timestamp = t\<rparr> @ enc_GamepadStatusEvent e"

section \<open>Raw input\<close>

definition keyboard_packet :: "u16 \<Rightarrow> u16 \<Rightarrow> input_packet" where
  "keyboard_packet vkey flags = KeyPacket \<lparr>ke_vkCode = vkey, ke_isPressed = (if flags AND 1 = 0 then 1 else 0)\<rparr>"

definition desktop_move :: "capture_env \<Rightarrow> input_capture \<Rightarrow> fault + (input_packet list \<times> input_capture)" where
  "desktop_move env c =
     (let p = record_input (ic_predictor c) (fst (ve_point env)) (snd (ve_point env)) (ve_recordTime env);
          c = c\<lparr>ic_predictor := p\<rparr>
      in fbind (ip_predict p (ve_recordTime env + 16000)) (\<lambda>prediction.
           let x = is_x prediction; y = is_y prediction in
           Inr (if 0 \<le> x \<and> 0 \<le> y \<and> x \<le> sint (ve_width env) \<and> y \<le> sint (ve_height env)
                then [MovePacket \<lparr>mm_x = of_int x, mm_y = of_int y, mm_screenWidth = ve_width env,
                        mm_screenHeight = ve_height env, mm_isRelative = 0\<rparr>]
                else [], c)))"

definition game_move :: "capture_env \<Rightarrow> raw_mouse \<Rightarrow> input_capture \<Rightarrow> fault + (input_packet list \<times> input_capture)" where
  "game_move env m c =
     (let c = c\<lparr>ic_predictor := record_input (ic_predictor c) (rm_lastX m) (rm_lastY m) (ve_recordTime env)\<rparr> in
      if \<not> rm_absolute m then
        fbind (int32 (ic_relX c + rm_lastX m)) (\<lambda>relX.
        fbind (int32 (ic_relY c + rm_lastY m)) (\<lambda>relY.
          if 4000 \<le> ve_batchTime env - ic_lastSentUs c then
            Inr ([MovePacket \<lparr>mm_x = of_int relX, mm_y = of_int relY, mm_screenWidth = 0, mm_screenHeight = 0, mm_isRelative = 1\<rparr>],
                 c\<lparr>ic_relX := 0, ic_relY := 0, ic_lastSentUs := ve_batchTime env, ic_hasPending := False\<rparr>)
          else Inr ([], c\<lparr>ic_relX := relX, ic_relY := relY, ic_hasPending := True\<rparr>)))
      else Inr ([MovePacket \<lparr>mm_x = of_int (rm_lastX m), mm_y = of_int (rm_lastY m), mm_screenWidth = ve_width env,
                   mm_screenHeight = ve_height env, mm_isRelative = 0\<rparr>], c))"

definition mouse_move :: "capture_env \<Rightarrow> raw_mouse \<Rightarrow> input_capture \<Rightarrow> fault + (input_packet list \<times> input_capture)" where
  "mouse_move env m c =
     (let cursorVisible = (case ve_cursor env of Some v \<Rightarrow> v | None \<Rightarrow> True);
          isMovement = (rm_lastX m \<noteq> 0 \<or> rm_lastY m \<noteq> 0)
      in if isMovement \<or> rm_absolute m \<or> cursorVisible then
           (if cursorVisible \<and> ve_focused env then desktop_move env c
            else if isMovement then game_move env m c
            else Inr ([], c))
         else Inr ([], c))"

definition button_packets :: "u16 \<Rightarrow> input_packet list" where
  "button_packets flags = concat (map (\<lambda>(bit, btn, pressed).
       if flags AND bit \<noteq> 0 then [ButtonPacket \<lparr>mb_button = btn, mb_isPressed = (if pressed then 1 else 0)\<rparr>] else [])
     [(0x0001, 1, True), (0x0002, 1, False), (0x0004, 2, True), (0x0008, 2, False), (0x0010, 3, True),
      (0x0020, 3, False), (0x0040, 4, True), (0x0080, 4, False), (0x0100, 5, True), (0x0200, 5, False)])"

definition wheel_packets :: "raw_mouse \<Rightarrow> input_packet list" where
  "wheel_packets m = (if rm_buttonFlags m AND 0x0400 \<noteq> 0 then [ScrollPacket \<lparr>ms_delta = scast (rm_buttonData m)\<rparr>] else [])"

definition handle_raw_input :: "capture_env \<Rightarrow> raw_input \<Rightarrow> input_capture \<Rightarrow> fault + (input_packet list \<times> input_capture)" where
  "handle_raw_input env raw c = (case raw of
     RawKeyboard vkey flags \<Rightarrow> Inr ([keyboard_packet vkey flags], c)
   | RawMouse m \<Rightarrow> fbind (mouse_move env m c) (\<lambda>(ps, c).
       Inr (ps @ button_packets (rm_buttonFlags m) @ wheel_packets m, c))
   | RawOther \<Rightarrow> Inr ([], c))"

section \<open>Gamepads\<close>

definition pad_state :: "nat \<Rightarrow> xinput_state \<Rightarrow> GamepadState" where
  "pad_state i s = \<lparr>gs_gamepadId = of_nat i, gs_buttons = xs_buttons s, gs_leftTrigger = xs_leftTrigger s,
     gs_rightTrigger = xs_rightTrigger s, gs_thumbLX = xs_thumbLX s, gs_thumbLY = xs_thumbLY s,
     gs_thumbRX = xs_thumbRX s, gs_thumbRY = xs_thumbRY s\<rparr>"

text \<open>What \<open>XInputGetState\<close> gives, \<open>None\<close> when the pad is not connected.\<close>

definition poll_pad :: "nat \<Rightarrow> xinput_state option \<Rightarrow> input_capture \<Rightarrow> input_packet list \<times> input_capture" where
  "poll_pad i result c =
     (let connects = (result \<noteq> None);
          changed = (connects \<noteq> ic_connected c ! i);
          status = (if changed then [PadStatusPacket \<lparr>ge_gamepadId = of_nat i, ge_isConnected = (if connects then 1 else 0)\<rparr>] else []);
          c = (if changed then c\<lparr>ic_connected := (ic_connected c)[i := connects]\<rparr> else c)
      in case result of None \<Rightarrow> (status, c)
         | Some s \<Rightarrow>
             let c = (if changed then c\<lparr>ic_lastPad := (ic_lastPad c)[i := s\<lparr>xs_packetNumber := xs_packetNumber s - 1\<rparr>]\<rparr> else c) in
             if xs_packetNumber s \<noteq> xs_packetNumber (ic_lastPad c ! i)
             then (status @ [PadPacket (pad_state i s)], c\<lparr>ic_lastPad := (ic_lastPad c)[i := s]\<rparr>)
             else (status, c))"

fun poll_pads :: "nat \<Rightarrow> xinput_state option list \<Rightarrow> input_capture \<Rightarrow> input_packet list \<times> input_capture" where
  "poll_pads i [] c = ([], c)"
| "poll_pads i (r # rs) c =
     (let (ps, c) = poll_pad i r c; (ps', c) = poll_pads (Suc i) rs c in (ps @ ps', c))"

definition poll_gamepads :: "xinput_state option list \<Rightarrow> input_capture \<Rightarrow> input_packet list \<times> input_capture" where
  "poll_gamepads results c = poll_pads 0 (take 4 results) c"

section \<open>The host injects what was captured\<close>

text \<open>What an input packet means on the host.\<close>

fun packet_effect :: "receive_env \<Rightarrow> string \<Rightarrow> input_packet \<Rightarrow> injector \<Rightarrow> fault + (host_effect list \<times> injector)" where
  "packet_effect env ip (KeyPacket e) j = Inr ([Injected (inject_keyboard e)], j)"
| "packet_effect env ip (MovePacket e) j = fbind (inject_mouse_move e) (\<lambda>i. Inr ([Injected i], j))"
| "packet_effect env ip (ButtonPacket e) j = Inr ([Injected (inject_mouse_button e)], j)"
| "packet_effect env ip (ScrollPacket e) j = Inr ([Injected (inject_mouse_scroll e)], j)"
| "packet_effect env ip (PadPacket e) j = Inr (map Injected (inject_gamepad ip e j), j)"
| "packet_effect env ip (PadStatusPacket e) j =
     (let (is, j) = handle_gamepad_status (re_padAdded env) ip e j in Inr (map Injected is, j))"

text \<open>The host reads every input packet the client builds as the event it was built from, whatever was in
  its buffer before.\<close>
theorem captured_input_is_injected:
  "on_input env ip (into_buffer (input_bytes t p) stale) (length (input_bytes t p)) j = packet_effect env ip p j"
  by (cases p) (simp_all add: on_input_def into_buffer_def ih_fmt.dec_enc_append ih_fmt.length_enc ke_fmt.dec_enc_append
      ke_fmt.length_enc mm_fmt.dec_enc_append mm_fmt.length_enc mb_fmt.dec_enc_append mb_fmt.length_enc ms_fmt.dec_enc_append
      ms_fmt.length_enc gs_fmt.dec_enc_append gs_fmt.length_enc ge_fmt.dec_enc_append ge_fmt.length_enc Let_def)

section \<open>Relative movement is conserved\<close>

fun capture_run :: "(capture_env \<times> raw_input) list \<Rightarrow> input_capture \<Rightarrow> fault + (input_packet list \<times> input_capture)" where
  "capture_run [] c = Inr ([], c)"
| "capture_run ((env, raw) # es) c = fbind (handle_raw_input env raw c) (\<lambda>(ps, c).
     fbind (capture_run es c) (\<lambda>(ps', c). Inr (ps @ ps', c)))"

text \<open>The relative movement of an input: none where the cursor position is sent instead.\<close>

fun relative_input :: "capture_env \<times> raw_input \<Rightarrow> int \<times> int" where
  "relative_input (env, RawMouse m) =
     (if rm_absolute m \<or> ve_cursor env \<noteq> Some False \<and> ve_focused env then (0, 0) else (rm_lastX m, rm_lastY m))"
| "relative_input (env, _) = (0, 0)"

fun relative_sent :: "input_packet \<Rightarrow> int \<times> int" where
  "relative_sent (MovePacket e) = (if mm_isRelative e \<noteq> 0 then (sint (mm_x e), sint (mm_y e)) else (0, 0))"
| "relative_sent _ = (0, 0)"

definition total_x :: "(int \<times> int) list \<Rightarrow> int" where "total_x ds = sum_list (map fst ds)"
definition total_y :: "(int \<times> int) list \<Rightarrow> int" where "total_y ds = sum_list (map snd ds)"

lemma totals [simp]:
  "total_x [] = 0" "total_x (d # ds) = fst d + total_x ds" "total_x (ds @ es) = total_x ds + total_x es"
  "total_y [] = 0" "total_y (d # ds) = snd d + total_y ds" "total_y (ds @ es) = total_y ds + total_y es"
  by (simp_all add: total_x_def total_y_def)

lemma int32_Inr: "int32 k = Inr v \<longleftrightarrow> v = k \<and> - (2 ^ 31) \<le> k \<and> k < 2 ^ 31"
  by (auto simp: int32_def)

lemma sint_of_int32: "- (2 ^ 31) \<le> k \<Longrightarrow> k < 2 ^ 31 \<Longrightarrow> sint (of_int k :: u32) = k"
  by (simp add: signed_take_bit_int_eq_self sint_sbintrunc')

lemma sint_add_int32: "- (2 ^ 31) \<le> a + b \<Longrightarrow> a + b < 2 ^ 31 \<Longrightarrow> sint (of_int a + of_int b :: u32) = a + b"
  using sint_of_int32 [of "a + b"] by simp

lemma no_relative_buttons: "map relative_sent (button_packets flags @ wheel_packets m) = replicate (length (button_packets flags @ wheel_packets m)) (0, 0)"
  by (auto simp: button_packets_def wheel_packets_def)

lemma totals_replicate [simp]: "total_x (replicate n (0, 0)) = 0" "total_y (replicate n (0, 0)) = 0"
  by (induction n) simp_all

lemma mouse_move_conserves:
  assumes "mouse_move env m c = Inr (ps, c')"
  shows "ic_relX c + fst (relative_input (env, RawMouse m)) = total_x (map relative_sent ps) + ic_relX c'
    \<and> ic_relY c + snd (relative_input (env, RawMouse m)) = total_y (map relative_sent ps) + ic_relY c'"
proof -
  consider (desktop) "ve_cursor env \<noteq> Some False \<and> ve_focused env" "desktop_move env c = Inr (ps, c')"
    | (game) "\<not> (ve_cursor env \<noteq> Some False \<and> ve_focused env)" "game_move env m c = Inr (ps, c')"
    | (none) "rm_lastX m = 0" "rm_lastY m = 0" "ps = []" "c' = c"
    using assms by (auto simp: mouse_move_def Let_def split: if_split_asm option.split_asm)
  then show ?thesis
  proof cases
    case desktop
    then show ?thesis by (auto simp: desktop_move_def Let_def elim!: fbind_InrE split: if_split_asm)
  next
    case game
    then show ?thesis
      by (auto simp: game_move_def Let_def int32_Inr sint_add_int32 elim!: fbind_InrE split: if_split_asm)
  qed simp
qed

lemma handle_raw_input_conserves:
  assumes "handle_raw_input env raw c = Inr (ps, c')"
  shows "ic_relX c + fst (relative_input (env, raw)) = total_x (map relative_sent ps) + ic_relX c'
    \<and> ic_relY c + snd (relative_input (env, raw)) = total_y (map relative_sent ps) + ic_relY c'"
proof (cases raw)
  case (RawMouse m)
  then obtain ps0 where "mouse_move env m c = Inr (ps0, c')"
    "ps = ps0 @ button_packets (rm_buttonFlags m) @ wheel_packets m"
    using assms by (auto simp: handle_raw_input_def elim!: fbind_InrE)
  then show ?thesis using mouse_move_conserves [of env m c ps0 c'] RawMouse no_relative_buttons [of "rm_buttonFlags m" m]
    by (simp del: relative_input.simps map_append add: map_append [of _ ps0])
qed (use assms in \<open>auto simp: handle_raw_input_def keyboard_packet_def\<close>)

lemma capture_run_conserves:
  "capture_run es c = Inr (ps, c') \<Longrightarrow>
     ic_relX c + total_x (map relative_input es) = total_x (map relative_sent ps) + ic_relX c'
   \<and> ic_relY c + total_y (map relative_input es) = total_y (map relative_sent ps) + ic_relY c'"
proof (induction es arbitrary: c ps)
  case (Cons e es)
  obtain env raw where e: "e = (env, raw)" by (cases e)
  obtain ps1 c1 ps2 where "handle_raw_input env raw c = Inr (ps1, c1)" "capture_run es c1 = Inr (ps2, c')" "ps = ps1 @ ps2"
    using Cons.prems e by (auto elim!: fbind_InrE)
  then show ?case using Cons.IH [of c1 ps2] handle_raw_input_conserves [of env raw c ps1 c1] e
    by (simp del: relative_input.simps)
qed simp

text \<open>C38: batching invents and loses no movement: at any time the relative movement of the inputs is what
  has been sent plus what waits for the next packet.\<close>
theorem relative_movement_conserved:
  assumes "capture_run es capture_new = Inr (ps, c)"
  shows "total_x (map relative_input es) = total_x (map relative_sent ps) + ic_relX c
    \<and> total_y (map relative_input es) = total_y (map relative_sent ps) + ic_relY c"
  using capture_run_conserves [OF assms] by (simp add: capture_new_def)

definition in_game :: "u64 \<Rightarrow> capture_env" where
  "in_game t = \<lparr>ve_cursor = Some False, ve_focused = True, ve_point = (0, 0), ve_width = 800, ve_height = 600,
     ve_recordTime = t, ve_batchTime = t\<rparr>"

definition moved :: "int \<Rightarrow> int \<Rightarrow> raw_input" where
  "moved x y = RawMouse \<lparr>rm_absolute = False, rm_lastX = x, rm_lastY = y, rm_buttonFlags = 0, rm_buttonData = 0\<rparr>"

lemma batch_example:
  "\<exists>ps c. capture_run [(in_game 5000, moved 3 1), (in_game 6000, moved 4 0), (in_game 7000, moved 2 2)] capture_new = Inr (ps, c)
    \<and> ic_relX c = 6"
  by (simp add: in_game_def moved_def handle_raw_input_def mouse_move_def game_move_def int32_def capture_new_def
      button_packets_def wheel_packets_def word_le_nat_alt Let_def)

theorem relative_movement_conserved_witness:
  "\<exists>ps c. capture_run [(in_game 5000, moved 3 1), (in_game 6000, moved 4 0), (in_game 7000, moved 2 2)] capture_new = Inr (ps, c)
    \<and> total_x (map relative_sent ps) = 3"
proof -
  obtain ps c where r: "capture_run [(in_game 5000, moved 3 1), (in_game 6000, moved 4 0), (in_game 7000, moved 2 2)] capture_new = Inr (ps, c)"
    "ic_relX c = 6" using batch_example by blast
  have "total_x (map relative_input [(in_game 5000, moved 3 1), (in_game 6000, moved 4 0), (in_game 7000, moved 2 2)]) = 9"
    by (simp add: in_game_def moved_def)
  with relative_movement_conserved [OF r(1)] r show ?thesis by auto
qed

text \<open>What waits is only sent with the next relative movement: nothing else looks at the batch.\<close>

lemma pending_movement_waits:
  assumes "handle_raw_input env raw c = Inr (ps, c')" and "relative_input (env, raw) = (0, 0)"
    and "\<forall>m. raw = RawMouse m \<longrightarrow> rm_lastX m = 0 \<and> rm_lastY m = 0"
  shows "ic_relX c' = ic_relX c \<and> ic_relY c' = ic_relY c"
  using assms by (auto simp: handle_raw_input_def mouse_move_def desktop_move_def Let_def elim!: fbind_InrE
      split: raw_input.split_asm if_split_asm)

section \<open>Polling reports each change once\<close>

definition pad_reported :: "xinput_state option \<Rightarrow> nat \<Rightarrow> input_capture \<Rightarrow> bool" where
  "pad_reported result i c \<longleftrightarrow> ic_connected c ! i = (result \<noteq> None)
     \<and> (\<forall>s. result = Some s \<longrightarrow> xs_packetNumber (ic_lastPad c ! i) = xs_packetNumber s)"

definition four_pads :: "input_capture \<Rightarrow> bool" where
  "four_pads c \<longleftrightarrow> length (ic_connected c) = 4 \<and> length (ic_lastPad c) = 4"

lemma poll_pad_result:
  assumes "four_pads c" and "i < 4"
  shows "four_pads (snd (poll_pad i result c))" and "pad_reported result i (snd (poll_pad i result c))"
    and "j \<noteq> i \<Longrightarrow> pad_reported r j (snd (poll_pad i result c)) = pad_reported r j c"
    and "pad_reported result i c \<Longrightarrow> poll_pad i result c = ([], c)"
  using assms by (cases result; simp add: poll_pad_def four_pads_def pad_reported_def Let_def)+

lemma poll_pad_reports:
  assumes "four_pads c" and "i < 4" and "poll_pad i result c = (ps, c')"
  shows "four_pads c'" and "pad_reported result i c'" and "j \<noteq> i \<Longrightarrow> pad_reported r j c' = pad_reported r j c"
    and "pad_reported result i c \<Longrightarrow> ps = [] \<and> c' = c"
  using poll_pad_result [OF assms(1,2), where result = result] assms(3) by simp_all

lemma poll_pads_reports:
  assumes "four_pads c" and "i + length rs \<le> 4" and "poll_pads i rs c = (ps, c')"
  shows "four_pads c' \<and> (\<forall>k < length rs. pad_reported (rs ! k) (i + k) c') \<and> (\<forall>j < i. \<forall>r. pad_reported r j c' = pad_reported r j c)
    \<and> ((\<forall>k < length rs. pad_reported (rs ! k) (i + k) c) \<longrightarrow> ps = [] \<and> c' = c)"
  using assms
proof (induction rs arbitrary: i c ps)
  case (Cons r rs)
  obtain ps1 c1 where p: "poll_pad i r c = (ps1, c1)" by (cases "poll_pad i r c")
  obtain ps2 where q: "poll_pads (Suc i) rs c1 = (ps2, c')" "ps = ps1 @ ps2"
    using Cons.prems(3) p by (auto split: prod.split_asm)
  have i: "i < 4" using Cons.prems(2) by simp
  note one = poll_pad_reports [OF Cons.prems(1) i p]
  have ih: "four_pads c'" "\<forall>k < length rs. pad_reported (rs ! k) (Suc i + k) c'"
    "\<forall>j < Suc i. \<forall>r. pad_reported r j c' = pad_reported r j c1"
    "(\<forall>k < length rs. pad_reported (rs ! k) (Suc i + k) c1) \<longrightarrow> ps2 = [] \<and> c' = c1"
    using Cons.IH [OF one(1) _ q(1)] Cons.prems(2) by auto
  have "pad_reported ((r # rs) ! k) (i + k) c'" if "k < length (r # rs)" for k
    using that ih(2,3) one(2) by (cases k) auto
  moreover have "pad_reported r' j c' = pad_reported r' j c" if "j < i" for j r' using that ih(3) one(3) by simp
  moreover have "ps = [] \<and> c' = c" if all: "\<forall>k < length (r # rs). pad_reported ((r # rs) ! k) (i + k) c"
  proof -
    have "ps1 = [] \<and> c1 = c" using one(4) all [rule_format, of 0] by simp
    then show ?thesis using ih(4) all q(2) by fastforce
  qed
  ultimately show ?case using ih(1) by blast
qed simp

text \<open>After a poll every pad is reported as it is, and a second poll of the same states sends nothing.\<close>

lemma poll_gamepads_once:
  assumes "four_pads c" and "length rs = 4"
  shows "poll_gamepads rs (snd (poll_gamepads rs c)) = ([], snd (poll_gamepads rs c))"
proof -
  obtain ps c' where p: "poll_pads 0 rs c = (ps, c')" by (cases "poll_pads 0 rs c")
  have "four_pads c'" "\<forall>k < length rs. pad_reported (rs ! k) (0 + k) c'"
    using poll_pads_reports [OF assms(1) _ p] assms(2) by auto
  moreover obtain ps' c'' where p': "poll_pads 0 rs c' = (ps', c'')" by (cases "poll_pads 0 rs c'")
  ultimately have "ps' = [] \<and> c'' = c'" using poll_pads_reports [of c' 0 rs ps' c''] assms(2) by auto
  then show ?thesis using p p' assms(2) by (simp add: poll_gamepads_def)
qed

lemma four_pads_new: "four_pads capture_new"
  by (simp add: four_pads_def capture_new_def)

end
