(* ===== verification/Profiling.thy ===== *)
theory Profiling
  imports Floats Clock
begin

text \<open>
  \<open>Profiler\<close> (\<open>cpp/common/profiler.hpp\<close>): named sample buffers of bounded size with running
  minimum, maximum and sum, counters, and the statistics computed from them in double precision.
  The printed report is not modelled.
\<close>

section \<open>Samples\<close>

definition MAX_SAMPLES :: nat where
  "MAX_SAMPLES = 1000"

record sample_buffer =
  sb_samples :: "flt list"
  sb_count :: u64
  sb_min :: flt
  sb_max :: flt
  sb_sum :: flt

text \<open>\<open>make_unique\<close> zeroes the samples.\<close>

definition sample_buffer_new :: sample_buffer where
  "sample_buffer_new = \<lparr>sb_samples = replicate MAX_SAMPLES (Fin 0), sb_count = 0, sb_min = Fin (10 ^ 18),
     sb_max = Fin 0, sb_sum = Fin 0\<rparr>"

definition record_sample :: "flt \<Rightarrow> sample_buffer \<Rightarrow> sample_buffer" where
  "record_sample val b =
     (let b = (if unat (sb_count b) < MAX_SAMPLES
               then b\<lparr>sb_samples := (sb_samples b)[unat (sb_count b) := val], sb_count := sb_count b + 1\<rparr>
               else b\<lparr>sb_samples := (sb_samples b)[unat (sb_count b) mod MAX_SAMPLES := val], sb_count := sb_count b + 1\<rparr>);
          b = (if flt_lt val (sb_min b) then b\<lparr>sb_min := val\<rparr> else b);
          b = (if flt_lt (sb_max b) val then b\<lparr>sb_max := val\<rparr> else b)
      in b\<lparr>sb_sum := fadd f64 (sb_sum b) val\<rparr>)"

record stats =
  st_avg :: flt
  st_min :: flt
  st_max :: flt
  st_p99 :: flt
  st_latest :: flt
  st_totalCount :: u64

definition no_stats :: stats where
  "no_stats = \<lparr>st_avg = Fin 0, st_min = Fin 0, st_max = Fin 0, st_p99 = Fin 0, st_latest = Fin 0, st_totalCount = 0\<rparr>"

text \<open>\<open>std::sort\<close> of values that are not NaN.\<close>

fun insert_sample :: "flt \<Rightarrow> flt list \<Rightarrow> flt list" where
  "insert_sample v [] = [v]"
| "insert_sample v (w # ws) = (if flt_lt w v then w # insert_sample v ws else v # w # ws)"

definition sort_samples :: "flt list \<Rightarrow> flt list" where
  "sort_samples vs = foldr insert_sample vs []"

text \<open>\<open>static_cast<size_t>(n * 0.99)\<close>.\<close>

definition p99_index :: "nat \<Rightarrow> fault + nat" where
  "p99_index n = (case fmul f64 (flt_of_int f64 (int n)) (rnd f64 (99 / 100)) of
     Fin x \<Rightarrow> if - 1 < x \<and> x < 2 ^ 64 then Inr (nat (rat_trunc x)) else Inl BadConversion | _ \<Rightarrow> Inl BadConversion)"

definition calculate_stats :: "sample_buffer \<Rightarrow> fault + stats" where
  "calculate_stats b =
     (let n = min (unat (sb_count b)) MAX_SAMPLES in
      if n = 0 then Inr no_stats
      else let sorted = sort_samples (take n (sb_samples b)) in
        fbind (p99_index n) (\<lambda>k.
          if k < length sorted then
            Inr \<lparr>st_avg = fdiv f64 (sb_sum b) (flt_of_int f64 (uint (sb_count b))), st_min = sb_min b, st_max = sb_max b,
              st_p99 = sorted ! k, st_latest = sb_samples b ! (unat (sb_count b - 1) mod MAX_SAMPLES),
              st_totalCount = sb_count b\<rparr>
          else Inl OutOfBounds))"

section \<open>Named metrics\<close>

record profiler =
  pr_time :: "string \<Rightarrow> sample_buffer option"
  pr_value :: "string \<Rightarrow> sample_buffer option"
  pr_counters :: "string \<Rightarrow> u64 option"

definition profiler_new :: profiler where
  "profiler_new = \<lparr>pr_time = Map.empty, pr_value = Map.empty, pr_counters = Map.empty\<rparr>"

definition get_buffer :: "(string \<Rightarrow> sample_buffer option) \<Rightarrow> string \<Rightarrow> sample_buffer" where
  "get_buffer m name = (case m name of Some b \<Rightarrow> b | None \<Rightarrow> sample_buffer_new)"

definition record_time :: "string \<Rightarrow> flt \<Rightarrow> profiler \<Rightarrow> profiler" where
  "record_time name v p = p\<lparr>pr_time := (pr_time p)(name \<mapsto> record_sample v (get_buffer (pr_time p) name))\<rparr>"

definition record_value :: "string \<Rightarrow> flt \<Rightarrow> profiler \<Rightarrow> profiler" where
  "record_value name v p = p\<lparr>pr_value := (pr_value p)(name \<mapsto> record_sample v (get_buffer (pr_value p) name))\<rparr>"

definition record_counter :: "string \<Rightarrow> u64 \<Rightarrow> profiler \<Rightarrow> profiler" where
  "record_counter name n p = p\<lparr>pr_counters := (pr_counters p)(name \<mapsto>
     (case pr_counters p name of Some k \<Rightarrow> k | None \<Rightarrow> 0) + n)\<rparr>"

definition get_stats :: "string \<Rightarrow> profiler \<Rightarrow> fault + stats" where
  "get_stats name p = (case pr_time p name of Some b \<Rightarrow> calculate_stats b
     | None \<Rightarrow> (case pr_value p name of Some b \<Rightarrow> calculate_stats b | None \<Rightarrow> Inr no_stats))"

definition profiler_reset :: "profiler \<Rightarrow> profiler" where
  "profiler_reset p = p\<lparr>pr_time := Map.empty, pr_counters := Map.empty, pr_value := Map.empty\<rparr>"

text \<open>\<open>ScopeTimer\<close>: its destructor, with the readings of the clock in nanoseconds.\<close>

definition scope_timer :: "string \<Rightarrow> int \<Rightarrow> int \<Rightarrow> profiler \<Rightarrow> profiler" where
  "scope_timer name start now p = record_time name (flt_of_int f64 (tdiv (now - start) 1000)) p"

section \<open>The window of samples\<close>

lemma insert_sample_set [simp]: "set (insert_sample v ws) = insert v (set ws)" "length (insert_sample v ws) = Suc (length ws)"
  by (induction ws) auto

lemma sort_samples_set [simp]: "set (sort_samples vs) = set vs" "length (sort_samples vs) = length vs"
  by (induction vs) (simp_all add: sort_samples_def)

lemma rnd_f64_dyadic:
  assumes "\<bar>j\<bar> \<le> 2 ^ 53" and "k \<le> 1000"
  shows "rnd f64 (of_int j / 2 ^ k) = Fin (of_int j / 2 ^ k)"
proof -
  have "(2 :: int) ^ 53 < 2 ^ 1024" by (rule power_strict_increasing) simp_all
  then have "\<bar>j\<bar> < 2 ^ 1024" using assms(1) by (rule le_less_trans [rotated])
  then have "\<bar>of_int j\<bar> < (2 :: rat) ^ 1024" by (metis of_int_abs of_int_less_iff of_int_numeral of_int_power)
  moreover have "\<bar>of_int j / 2 ^ k\<bar> \<le> \<bar>of_int j :: rat\<bar>" by (simp add: divide_le_eq mult_le_cancel_left1)
  ultimately have "\<bar>of_int j / 2 ^ k :: rat\<bar> < 2 ^ 1024" by linarith
  then have "of_int j / 2 ^ k < (2 :: rat) ^ 1024" "- (2 ^ 1024) < (of_int j / 2 ^ k :: rat)" unfolding abs_less_iff by linarith+
  moreover have "of_int j * pow2 (- int k) = (of_int j / 2 ^ k :: rat)" by (simp add: pow2_def)
  then have "round_rat f64 (of_int j / 2 ^ k) = of_int j / 2 ^ k"
    using round_rat_dyadic [of f64 "- int k" j] assms by (simp add: f64_def)
  moreover have "pow2 (emax f64 + 1) = (2 :: rat) ^ 1024" by (simp add: f64_def pow2_def)
  ultimately show ?thesis unfolding rnd_def Let_def by (simp only: not_le [symmetric] if_False)
qed

lemma p99_index_inside:
  assumes "0 < n" and "n \<le> MAX_SAMPLES"
  obtains k where "p99_index n = Inr k" "k < n"
proof -
  have f: "1 \<le> prec f64" by simp
  have exact: "rnd f64 (of_int j * pow2 (- 7)) = Fin (of_int j * pow2 (- 7))" if "\<bar>j\<bar> \<le> 2 ^ 53" for j
    using rnd_f64_dyadic [OF that, of 7] by (simp add: pow2_def)
  have n: "rnd f64 (of_int (int n)) = Fin (of_int (int n))"
    using exact [of "int n * 128"] assms(2) by (simp add: pow2_def MAX_SAMPLES_def)
  have "fbetween 0 (of_int 127 * pow2 (- 7)) (rnd f64 (99 / 100))"
    by (rule rnd_fbetween [OF f _ exact]) (simp_all add: pow2_def)
  then obtain d where d: "rnd f64 (99 / 100) = Fin d" "0 \<le> d" "d \<le> 127 / 128" by (auto elim!: fbetweenE simp: pow2_def)
  let ?hi = "of_int (int n * 128 - 1) * pow2 (- 7) :: rat"
  have "of_nat n * d \<le> of_nat n * (127 / 128)" using d(3) by (intro mult_left_mono) simp_all
  also have "\<dots> \<le> ?hi" using assms(1) by (simp add: pow2_def field_simps)
  finally have "fbetween 0 ?hi (rnd f64 (of_nat n * d))"
    by (intro rnd_fbetween [OF f _ exact]) (use d(2) assms in \<open>simp_all add: MAX_SAMPLES_def\<close>)
  then obtain x where x: "rnd f64 (of_nat n * d) = Fin x" "0 \<le> x" "x \<le> ?hi" by (auto elim!: fbetweenE)
  have hi: "?hi < of_nat n" by (simp add: pow2_def field_simps)
  then have "\<lfloor>x\<rfloor> < int n" using x(3) by (simp add: floor_less_iff)
  moreover have "x < 2 ^ 64" using x(3) hi assms(2) by (simp add: MAX_SAMPLES_def)
  ultimately show thesis using that [of "nat \<lfloor>x\<rfloor>"] n d x assms(1)
    by (simp add: p99_index_def flt_of_int_def rat_trunc_def)
qed

text \<open>The buffer after the samples \<open>vs\<close>: the last thousand are there, each at its number modulo 1000.\<close>

definition holds_samples :: "flt list \<Rightarrow> sample_buffer \<Rightarrow> bool" where
  "holds_samples vs b \<longleftrightarrow> length (sb_samples b) = MAX_SAMPLES \<and> sb_count b = of_nat (length vs)
     \<and> (\<forall>i < length vs. length vs \<le> i + MAX_SAMPLES \<longrightarrow> sb_samples b ! (i mod MAX_SAMPLES) = vs ! i)"

lemma record_sample_slot:
  "sb_samples (record_sample v b) = (sb_samples b)[unat (sb_count b) mod MAX_SAMPLES := v]"
  "sb_count (record_sample v b) = sb_count b + 1"
  by (simp_all add: record_sample_def Let_def)

lemma record_sample_holds:
  assumes "holds_samples vs b" and "length vs < 2 ^ 64"
  shows "holds_samples (vs @ [v]) (record_sample v b)"
proof -
  have u: "unat (sb_count b) = length vs" using assms by (simp add: holds_samples_def unat_of_nat_u64)
  have "sb_samples (record_sample v b) ! (i mod MAX_SAMPLES) = (vs @ [v]) ! i"
    if i: "i < length (vs @ [v])" "length (vs @ [v]) \<le> i + MAX_SAMPLES" for i
  proof (cases "i = length vs")
    case True
    then show ?thesis using assms(1) u by (simp add: record_sample_slot holds_samples_def MAX_SAMPLES_def)
  next
    case False
    then have "i mod MAX_SAMPLES \<noteq> length vs mod MAX_SAMPLES" using i by (intro mod_neq_of_close) auto
    then show ?thesis using False i assms(1) u by (simp add: record_sample_slot holds_samples_def nth_append)
  qed
  then show ?thesis using assms(1) by (simp add: holds_samples_def record_sample_slot add.commute)
qed

lemma record_samples_hold:
  "length vs + length ws < 2 ^ 64 \<Longrightarrow> holds_samples vs b \<Longrightarrow> holds_samples (vs @ ws) (fold record_sample ws b)"
proof (induction ws arbitrary: vs b)
  case (Cons w ws)
  have "holds_samples (vs @ [w]) (record_sample w b)" using Cons.prems by (intro record_sample_holds) simp_all
  then show ?case using Cons.IH [of "vs @ [w]"] Cons.prems(1) by simp
qed simp

lemma holds_samples_recent:
  assumes "holds_samples vs b" and "j < min (length vs) MAX_SAMPLES"
  shows "sb_samples b ! j \<in> set (drop (length vs - MAX_SAMPLES) vs)"
proof -
  let ?N = MAX_SAMPLES and ?l = "length vs"
  have "0 < ?N" by (simp add: MAX_SAMPLES_def)
  define r where "r = (j + ?N * ?l - (?l - ?N)) mod ?N"
  define i where "i = (if ?l \<le> ?N then j else ?l - ?N + r)"
  have i: "i < ?l" "?l \<le> i + ?N" "i mod ?N = j"
  proof -
    have m: "r < ?N" using \<open>0 < ?N\<close> by (simp add: r_def)
    have le: "?l - ?N \<le> j + ?N * ?l" using \<open>0 < ?N\<close> by (metis diff_le_self le_trans mult_le_mono1 nat_mult_1 One_nat_def Suc_leI trans_le_add2)
    have "(?l - ?N + r) mod ?N = (?l - ?N + (j + ?N * ?l - (?l - ?N))) mod ?N"
      unfolding r_def by (rule mod_add_right_eq)
    also have "\<dots> = j mod ?N" using le by simp
    finally show "i < ?l" "?l \<le> i + ?N" "i mod ?N = j" using m assms(2) by (auto simp: i_def)
  qed
  then have "sb_samples b ! j = vs ! i" using assms(1) by (auto simp: holds_samples_def)
  moreover have "vs ! i \<in> set (drop (?l - ?N) vs)"
    using i(1,2) by (auto simp: in_set_conv_nth intro!: exI [of _ "i - (?l - ?N)"])
  ultimately show ?thesis by simp
qed

text \<open>Statistics are always defined: they give the last sample, the number of all samples, and as 99th
  percentile one of the last thousand samples, for which the sort and the index stay inside the buffer.\<close>
theorem profiler_statistics:
  assumes "vs \<noteq> []" and "length vs < 2 ^ 64"
  shows "\<exists>s. calculate_stats (fold record_sample vs sample_buffer_new) = Inr s
    \<and> st_latest s = last vs \<and> st_totalCount s = of_nat (length vs)
    \<and> st_p99 s \<in> set (drop (length vs - MAX_SAMPLES) vs)"
proof -
  let ?b = "fold record_sample vs sample_buffer_new"
  have h: "holds_samples vs ?b"
    using record_samples_hold [of "[]" vs sample_buffer_new] assms(2) by (simp add: holds_samples_def sample_buffer_new_def)
  have u: "unat (sb_count ?b) = length vs" using h assms(2) by (simp add: holds_samples_def unat_of_nat_u64)
  let ?n = "min (length vs) MAX_SAMPLES"
  have n: "0 < ?n" "?n \<le> MAX_SAMPLES" using assms(1) by (simp_all add: MAX_SAMPLES_def)
  then obtain k where k: "p99_index ?n = Inr k" "k < ?n" by (rule p99_index_inside)
  have len: "length (take ?n (sb_samples ?b)) = ?n" using h by (simp add: holds_samples_def)
  have "sort_samples (take ?n (sb_samples ?b)) ! k \<in> set (take ?n (sb_samples ?b))"
    using k(2) len nth_mem [of k "sort_samples (take ?n (sb_samples ?b))"] by simp
  then obtain j where "j < ?n" "sort_samples (take ?n (sb_samples ?b)) ! k = sb_samples ?b ! j"
    by (auto simp: in_set_conv_nth)
  then have p99: "sort_samples (take ?n (sb_samples ?b)) ! k \<in> set (drop (length vs - MAX_SAMPLES) vs)"
    using holds_samples_recent [OF h] by simp
  have "sb_count ?b \<noteq> 0" using u assms(1) by auto
  then have "unat (sb_count ?b - 1) = length vs - 1" using u by (simp add: unat_minus_one)
  then have latest: "sb_samples ?b ! (unat (sb_count ?b - 1) mod MAX_SAMPLES) = last vs"
    using h assms(1) by (auto simp: holds_samples_def last_conv_nth MAX_SAMPLES_def)
  have "sb_count ?b = of_nat (length vs)" using h by (simp add: holds_samples_def)
  then show ?thesis using k p99 latest n len u by (simp add: calculate_stats_def Let_def)
qed

theorem profiler_statistics_witness:
  "\<exists>s. calculate_stats (fold record_sample [Fin 3, Fin 9, Fin 4] sample_buffer_new) = Inr s \<and> st_latest s = Fin 4"
  using profiler_statistics [of "[Fin 3, Fin 9, Fin 4]"] by auto

end
