(* ===== verification/SessionManager.thy ===== *)
theory SessionManager
  imports HostReceiver Profiling
begin

text \<open>
  \<open>SessionManager\<close> itself (\<open>cpp/common/session_manager.cpp\<close>): starting and stopping the host and client
  threads, telemetry, the initialisation of the client's renderer and decoder, and the raw input
  handed to the client. The threads are seen from outside here: one runs until it fails or until
  it sees that \<open>m_running\<close> is false.
\<close>

section \<open>Sessions\<close>

text \<open>A \<open>std::thread\<close>: joinable unless it is \<open>NoThread\<close>.\<close>

datatype thread_handle = NoThread | ActiveThread | EndedThread

record session_config =
  sc_isHost :: bool
  sc_runBoth :: bool

record manager =
  sm_running :: bool
  sm_hostThread :: thread_handle
  sm_clientThread :: thread_handle
  sm_currentConfig :: "session_config option"

definition manager_new :: manager where
  "manager_new = \<lparr>sm_running = False, sm_hostThread = NoThread, sm_clientThread = NoThread, sm_currentConfig = None\<rparr>"

text \<open>Both threads are joined: the call returns when they have ended (\<open>Startup\<close> has a case where the host's does not).\<close>

definition stop_session :: "manager \<Rightarrow> manager" where
  "stop_session m = m\<lparr>sm_running := False, sm_hostThread := NoThread, sm_clientThread := NoThread\<rparr>"

text \<open>The error callback of the user interface stops the session on the thread that reports the error. A
  thread that joins itself gets an exception nothing catches: \<open>None\<close>.\<close>

datatype session_thread = HostSide | ClientSide

definition stop_session_on :: "session_thread \<Rightarrow> manager \<Rightarrow> manager option" where
  "stop_session_on caller m =
     (if (case caller of HostSide \<Rightarrow> sm_hostThread m | ClientSide \<Rightarrow> sm_clientThread m) \<noteq> NoThread then None
      else Some (stop_session m))"

text \<open>Assigning to a joinable \<open>std::thread\<close> calls \<open>std::terminate\<close>: \<open>None\<close>.\<close>

definition start_host :: "manager \<Rightarrow> manager option" where
  "start_host m = (if sm_hostThread m = NoThread then Some (m\<lparr>sm_hostThread := ActiveThread\<rparr>) else None)"

definition start_client :: "manager \<Rightarrow> manager option" where
  "start_client m = (if sm_clientThread m = NoThread then Some (m\<lparr>sm_clientThread := ActiveThread\<rparr>) else None)"

definition session_role :: "session_config \<Rightarrow> string" where
  "session_role cfg = (if sc_runBoth cfg then ''Standalone'' else if sc_isHost cfg then ''Host'' else ''Client'')"

definition start_session :: "bool \<Rightarrow> session_config \<Rightarrow> manager \<Rightarrow> (parsec_error list \<times> manager) option" where
  "start_session crypto cfg m =
     (let m = (if sm_running m then stop_session m else m) in
      if \<not> crypto then Some ([UNEXPECTED_ERROR], m)
      else let m = m\<lparr>sm_running := True, sm_currentConfig := Some cfg\<rparr> in
        map_option (Pair [])
          (if sc_runBoth cfg then Option.bind (start_host m) start_client
           else if sc_isHost cfg then start_host m
           else start_client m))"

inductive manager_step :: "manager \<Rightarrow> manager \<Rightarrow> bool" where
  starts: "start_session crypto cfg m = Some (es, m') \<Longrightarrow> manager_step m m'"
| stops: "manager_step m (stop_session m)"
| host_fails: "sm_hostThread m = ActiveThread \<Longrightarrow> manager_step m (m\<lparr>sm_hostThread := EndedThread, sm_running := False\<rparr>)"
| client_fails: "sm_clientThread m = ActiveThread \<Longrightarrow> manager_step m (m\<lparr>sm_clientThread := EndedThread, sm_running := False\<rparr>)"
| host_ends: "sm_hostThread m = ActiveThread \<Longrightarrow> \<not> sm_running m \<Longrightarrow> manager_step m (m\<lparr>sm_hostThread := EndedThread\<rparr>)"
| client_ends: "sm_clientThread m = ActiveThread \<Longrightarrow> \<not> sm_running m \<Longrightarrow> manager_step m (m\<lparr>sm_clientThread := EndedThread\<rparr>)"

section \<open>Telemetry\<close>

record telemetry =
  tm_e2eLatency :: flt
  tm_captureTime :: flt
  tm_encodeTime :: flt
  tm_networkTime :: flt
  tm_decodeTime :: flt
  tm_fps :: flt
  tm_lossRate :: flt
  tm_rtt :: flt
  tm_bitrateMbps :: flt

definition us_to_ms :: "flt \<Rightarrow> flt" where
  "us_to_ms v = fdiv f32 (to_f32 v) (Fin 1000)"

definition get_telemetry :: "profiler \<Rightarrow> fault + telemetry" where
  "get_telemetry p =
     fbind (get_stats ''EndToEnd_Latency'' p) (\<lambda>e2e.
     fbind (get_stats ''Capture_Time'' p) (\<lambda>capture.
     fbind (get_stats ''Encode_Time'' p) (\<lambda>encode.
     fbind (get_stats ''Network_Latency'' p) (\<lambda>network.
     fbind (get_stats ''Decode_Time'' p) (\<lambda>decode.
     fbind (get_stats ''FPS'' p) (\<lambda>fps.
     fbind (get_stats ''Network_LossRate'' p) (\<lambda>loss.
     fbind (get_stats ''Network_RTT'' p) (\<lambda>rtt.
     fbind (get_stats ''Host_Bitrate'' p) (\<lambda>bitrate.
       Inr \<lparr>tm_e2eLatency = us_to_ms (st_p99 e2e), tm_captureTime = us_to_ms (st_avg capture),
            tm_encodeTime = us_to_ms (st_avg encode), tm_networkTime = us_to_ms (st_avg network),
            tm_decodeTime = us_to_ms (st_avg decode), tm_fps = to_f32 (st_latest fps), tm_lossRate = to_f32 (st_latest loss),
            tm_rtt = to_f32 (st_latest rtt), tm_bitrateMbps = to_f32 (st_latest bitrate)\<rparr>)))))))))"

section \<open>The client's window\<close>

text \<open>\<open>m_activeInputCapture\<close>: the input capture is a local of \<open>runClient\<close>.\<close>

datatype capture_pointer = NoCapture | LiveCapture | DestroyedCapture

text \<open>The pointer and the error after the initialisation; an error leaves \<open>runClient\<close>, which destroys its
  locals.\<close>

definition client_init :: "bool \<Rightarrow> bool \<Rightarrow> bool \<Rightarrow> capture_pointer \<Rightarrow> capture_pointer \<times> parsec_error option" where
  "client_init window renderer decoder p =
     (let p = (if window then LiveCapture else p);
          leave = (\<lambda>p. if p = LiveCapture then DestroyedCapture else p)
      in if window then
           (if \<not> renderer then (leave p, Some RENDERER_INIT_FAILED)
            else if \<not> decoder then (leave p, Some DECODER_INIT_FAILED)
            else (p, None))
         else if \<not> decoder then (leave p, Some DECODER_INIT_FAILED)
         else (p, None))"

text \<open>Whether the message reaches the capture; \<open>None\<close>: it is given to a destroyed object.\<close>

definition handle_message :: "bool \<Rightarrow> capture_pointer \<Rightarrow> bool option" where
  "handle_message is_input p = (case p of NoCapture \<Rightarrow> Some False
     | LiveCapture \<Rightarrow> Some is_input
     | DestroyedCapture \<Rightarrow> if is_input then None else Some False)"

section \<open>Starting again\<close>

lemma start_session_terminates_iff:
  "start_session crypto cfg m = None \<longleftrightarrow> crypto \<and> \<not> sm_running m
     \<and> ((sc_runBoth cfg \<or> sc_isHost cfg) \<and> sm_hostThread m \<noteq> NoThread
        \<or> (sc_runBoth cfg \<or> \<not> sc_isHost cfg) \<and> sm_clientThread m \<noteq> NoThread)"
  by (auto simp: start_session_def stop_session_def start_host_def start_client_def Let_def)

lemma client_failure_reached:
  "manager_step\<^sup>*\<^sup>* manager_new (manager_new\<lparr>sm_clientThread := EndedThread,
     sm_currentConfig := Some \<lparr>sc_isHost = False, sc_runBoth = False\<rparr>\<rparr>)"
proof -
  let ?cfg = "\<lparr>sc_isHost = False, sc_runBoth = False\<rparr>"
  let ?m = "manager_new\<lparr>sm_running := True, sm_currentConfig := Some ?cfg, sm_clientThread := ActiveThread\<rparr>"
  have "start_session True ?cfg manager_new = Some ([], ?m)"
    by (simp add: start_session_def start_client_def manager_new_def)
  then have "manager_step manager_new ?m" by (rule starts)
  moreover have "manager_step ?m (?m\<lparr>sm_clientThread := EndedThread, sm_running := False\<rparr>)" by (rule client_fails) simp
  moreover have "?m\<lparr>sm_clientThread := EndedThread, sm_running := False\<rparr>
      = manager_new\<lparr>sm_clientThread := EndedThread, sm_currentConfig := Some ?cfg\<rparr>" by (simp add: manager_new_def)
  ultimately show ?thesis by (metis converse_rtranclp_into_rtranclp r_into_rtranclp)
qed

text \<open>C22: starting a session ends the process exactly when nothing is running but a thread of the wanted
  role has ended by itself and was never joined - which a failed connection attempt leads to, so
  that connecting again after a failure without an explicit stop ends the process. After a stop it
  never does.\<close>
theorem restart_after_failure_terminates:
  "(start_session crypto cfg m = None \<longleftrightarrow> crypto \<and> \<not> sm_running m
     \<and> ((sc_runBoth cfg \<or> sc_isHost cfg) \<and> sm_hostThread m \<noteq> NoThread
        \<or> (sc_runBoth cfg \<or> \<not> sc_isHost cfg) \<and> sm_clientThread m \<noteq> NoThread))
   \<and> start_session crypto cfg (stop_session m) \<noteq> None
   \<and> (\<exists>m'. manager_step\<^sup>*\<^sup>* manager_new m' \<and> start_session True \<lparr>sc_isHost = False, sc_runBoth = False\<rparr> m' = None)"
proof -
  have "start_session True \<lparr>sc_isHost = False, sc_runBoth = False\<rparr>
      (manager_new\<lparr>sm_clientThread := EndedThread, sm_currentConfig := Some \<lparr>sc_isHost = False, sc_runBoth = False\<rparr>\<rparr>) = None"
    by (simp add: start_session_terminates_iff manager_new_def)
  then have "\<exists>m'. manager_step\<^sup>*\<^sup>* manager_new m' \<and> start_session True \<lparr>sc_isHost = False, sc_runBoth = False\<rparr> m' = None"
    using client_failure_reached by blast
  then show ?thesis by (simp add: start_session_terminates_iff stop_session_def)
qed

theorem restart_after_failure_terminates_witness:
  "start_session True \<lparr>sc_isHost = True, sc_runBoth = False\<rparr> (manager_new\<lparr>sm_hostThread := EndedThread\<rparr>) = None"
  using restart_after_failure_terminates
    [of True "\<lparr>sc_isHost = True, sc_runBoth = False\<rparr>" "manager_new\<lparr>sm_hostThread := EndedThread\<rparr>"]
  by (simp add: manager_new_def)

text \<open>While a session runs there is a thread for its role: \<open>m_running\<close> is never left set without one.\<close>

definition session_inv :: "manager \<Rightarrow> bool" where
  "session_inv m \<longleftrightarrow> (sm_running m \<longrightarrow> sm_hostThread m = ActiveThread \<or> sm_clientThread m = ActiveThread)"

lemma session_running_has_thread: "manager_step\<^sup>*\<^sup>* manager_new m \<Longrightarrow> session_inv m"
proof (induction rule: rtranclp_induct)
  case (step m m')
  then show ?case
    by (auto simp: session_inv_def start_session_def start_host_def start_client_def stop_session_def Let_def
        elim!: manager_step.cases split: if_split_asm bind_split_asm)
qed (simp add: session_inv_def manager_new_def)

lemma error_callback_terminates:
  "sm_clientThread m = ActiveThread \<Longrightarrow> stop_session_on ClientSide m = None"
  "sm_hostThread m = ActiveThread \<Longrightarrow> stop_session_on HostSide m = None"
  by (simp_all add: stop_session_on_def)

lemma failed_renderer_leaves_destroyed_capture:
  "client_init True False decoder p = (DestroyedCapture, Some RENDERER_INIT_FAILED)
   \<and> handle_message True (fst (client_init True False decoder p)) = None"
  by (simp add: client_init_def handle_message_def)

end
