(* ===== verification/Decoder.thy ===== *)
theory Decoder
  imports Prelude "HOL-Library.Multiset"
begin

text \<open>
  \<open>Client::DecoderHW\<close> (\<open>cpp/client/decoder_hw.cpp\<close>) as built with FFmpeg on Windows: which objects it
  creates and releases, the scan for NAL units, and what \<open>DecodeFrame\<close> hands to the renderer. FFmpeg and
  Direct3D are a parameter: \<open>decode_lib\<close> says which calls of \<open>Initialize\<close> succeed, \<open>decode_env\<close> what those
  of one \<open>DecodeFrame\<close> return. Pixels are not modelled. The objects that are alive are kept in a multiset
  beside the decoder, so that a leak or a second release shows.
\<close>

section \<open>Objects of FFmpeg and Direct3D\<close>

datatype resource = Codec_Ctx | Hw_Ref | Wrapped_Device | Frame | Temp_Frame | Packet | Sws_Ctx
  | Rgba_Frame | Sw_Texture | Context_Ref | Device_Ref

type_synonym objects = "resource multiset"

definition release :: "resource \<Rightarrow> objects \<Rightarrow> fault + objects" where
  "release r h = (if r \<in># h then Inr (h - {#r#}) else Inl UseAfterFree)"

fun release_each :: "(bool \<times> resource) list \<Rightarrow> objects \<Rightarrow> fault + objects" where
  "release_each [] h = Inr h"
| "release_each ((held, r) # rs) h = fbind (if held then release r h else Inr h) (release_each rs)"

text \<open>\<open>av_buffer_unref\<close> of a device context: with the last reference goes the device it wraps.\<close>

definition unref_hw :: "objects \<Rightarrow> fault + objects" where
  "unref_hw h = fbind (release Hw_Ref h) (\<lambda>h. Inr (if Hw_Ref \<in># h then h else filter_mset (\<lambda>r. r \<noteq> Wrapped_Device) h))"

section \<open>The decoder\<close>

record decoder_hw =
  dh_codecCtx :: "bool option"
  dh_hwDeviceCtx :: bool
  dh_frame :: bool
  dh_tempFrame :: bool
  dh_pkt :: bool
  dh_isHEVC :: bool
  dh_lastDevice :: bool
  dh_lastUseHardware :: bool
  dh_device :: bool
  dh_context :: bool
  dh_swTexture :: bool
  dh_swsCtx :: bool
  dh_rgbaFrame :: "(int \<times> int) option"

definition decoder_new :: decoder_hw where
  "decoder_new = \<lparr>dh_codecCtx = None, dh_hwDeviceCtx = False, dh_frame = False, dh_tempFrame = False, dh_pkt = False,
     dh_isHEVC = False, dh_lastDevice = False, dh_lastUseHardware = True, dh_device = False, dh_context = False,
     dh_swTexture = False, dh_swsCtx = False, dh_rgbaFrame = None\<rparr>"

text \<open>\<open>dh_codecCtx = Some hw\<close>: a codec context, with \<open>hw_device_ctx\<close> set when \<open>hw\<close>.\<close>

definition is_hardware :: "decoder_hw \<Rightarrow> bool" where
  "is_hardware d \<longleftrightarrow> dh_codecCtx d = Some True"

definition free_codec :: "decoder_hw \<Rightarrow> objects \<Rightarrow> fault + objects" where
  "free_codec d h = (case dh_codecCtx d of None \<Rightarrow> Inr h
     | Some hw \<Rightarrow> fbind (release Codec_Ctx h) (\<lambda>h. if hw then unref_hw h else Inr h))"

definition decoder_shutdown :: "objects \<times> decoder_hw \<Rightarrow> fault + (objects \<times> decoder_hw)" where
  "decoder_shutdown = (\<lambda>(h, d).
     fbind (release_each [(dh_swsCtx d, Sws_Ctx), (dh_rgbaFrame d \<noteq> None, Rgba_Frame), (dh_swTexture d, Sw_Texture),
       (dh_context d, Context_Ref), (dh_device d, Device_Ref)] h) (\<lambda>h.
     fbind (free_codec d h) (\<lambda>h.
     fbind (if dh_hwDeviceCtx d then unref_hw h else Inr h) (\<lambda>h.
     fbind (release_each [(dh_frame d, Frame), (dh_tempFrame d, Temp_Frame), (dh_pkt d, Packet)] h) (\<lambda>h.
       Inr (h, d\<lparr>dh_swsCtx := False, dh_rgbaFrame := None, dh_swTexture := False, dh_context := False,
         dh_device := False, dh_codecCtx := None, dh_hwDeviceCtx := False, dh_frame := False,
         dh_tempFrame := False, dh_pkt := False\<rparr>))))))"

subsection \<open>Initialize\<close>

record decode_lib =
  dl_find :: "bool \<Rightarrow> bool"
  dl_alloc :: bool
  dl_hwAlloc :: bool
  dl_hwCtx :: bool
  dl_hwInit :: bool
  dl_hwRef :: bool
  dl_open :: bool
  dl_packet :: bool
  dl_frame :: bool
  dl_tempFrame :: bool
  dl_context :: bool

definition when_some :: "bool \<Rightarrow> resource \<Rightarrow> objects" where
  "when_some b r = (if b then {#r#} else {#})"

definition attach_device :: "decode_lib \<Rightarrow> bool \<Rightarrow> bool \<Rightarrow> objects \<times> decoder_hw \<Rightarrow> fault + (objects \<times> decoder_hw)" where
  "attach_device lib device useHardware = (\<lambda>(h, d).
     if useHardware \<and> device \<and> dl_hwAlloc lib then
       (let h = add_mset Hw_Ref h in
        if \<not> dl_hwCtx lib then fbind (unref_hw h) (\<lambda>h. Inr (h, d))
        else let h = add_mset Wrapped_Device h in
          if \<not> dl_hwInit lib then fbind (unref_hw h) (\<lambda>h. Inr (h, d))
          else Inr (h + when_some (dl_hwRef lib) Hw_Ref, d\<lparr>dh_hwDeviceCtx := True, dh_codecCtx := Some (dl_hwRef lib)\<rparr>))
     else Inr (h, d))"

definition open_decoder :: "decode_lib \<Rightarrow> bool \<Rightarrow> objects \<times> decoder_hw \<Rightarrow> bool \<times> objects \<times> decoder_hw" where
  "open_decoder lib device = (\<lambda>(h, d).
     if \<not> dl_open lib then (False, h, d)
     else let d = d\<lparr>dh_pkt := dl_packet lib, dh_frame := dl_frame lib, dh_tempFrame := dl_tempFrame lib\<rparr>;
              h = h + when_some (dl_packet lib) Packet + when_some (dl_frame lib) Frame + when_some (dl_tempFrame lib) Temp_Frame in
       if \<not> (dl_packet lib \<and> dl_frame lib \<and> dl_tempFrame lib) then (False, h, d)
       else if device then
         (True, add_mset Device_Ref h + when_some (dl_context lib) Context_Ref,
           d\<lparr>dh_device := True, dh_context := dl_context lib\<rparr>)
       else (True, h, d))"

definition decoder_initialize ::
  "decode_lib \<Rightarrow> bool \<Rightarrow> bool \<Rightarrow> objects \<times> decoder_hw \<Rightarrow> fault + (bool \<times> objects \<times> decoder_hw)" where
  "decoder_initialize lib device useHardware s =
     fbind (decoder_shutdown s) (\<lambda>(h, d).
       let d = d\<lparr>dh_lastDevice := device, dh_lastUseHardware := useHardware\<rparr> in
       if \<not> dl_find lib (dh_isHEVC d) then Inr (False, h, d)
       else if \<not> dl_alloc lib then Inr (False, h, d)
       else fbind (attach_device lib device useHardware (add_mset Codec_Ctx h, d\<lparr>dh_codecCtx := Some False\<rparr>)) (\<lambda>s.
         Inr (open_decoder lib device s)))"

section \<open>NAL units\<close>

definition start_code_length :: "bytes \<Rightarrow> nat" where
  "start_code_length c = (if c = [0, 0, 0, 1] then 4 else if take 3 c = [0, 0, 1] then 3 else 0)"

definition nal_type :: "bool \<Rightarrow> u8 \<Rightarrow> nat" where
  "nal_type hevc b = unat (if hevc then drop_bit 1 b AND 0x3F else b AND 0x1F)"

function nal_scan :: "bool \<Rightarrow> bytes \<Rightarrow> nat \<Rightarrow> fault + nat list" where
  "nal_scan hevc data i =
     (if i + 3 < length data then
        fbind (vec_read data i 4) (\<lambda>c.
          let n = start_code_length c in
          if 0 < n \<and> i + n < length data then
            fbind (vec_read data (i + n) 1) (\<lambda>b.
            fbind (nal_scan hevc data (i + n + 1)) (\<lambda>ts. Inr (nal_type hevc (hd b) # ts)))
          else nal_scan hevc data (i + 1))
      else Inr [])"
  by pat_completeness auto
termination by (relation "measure (\<lambda>(hevc, data, i). length data - i)") auto

declare nal_scan.simps [simp del]

text \<open>The string of the types, and the test for a keyframe on that string.\<close>

fun nal_string :: "nat list \<Rightarrow> string" where
  "nal_string [] = []"
| "nal_string [t] = dec_nat t"
| "nal_string (t # ts) = dec_nat t @ CHR '','' # nal_string ts"

definition nal_keyframe :: "bool \<Rightarrow> nat list \<Rightarrow> bool" where
  "nal_keyframe hevc ts \<longleftrightarrow>
     (if hevc then contains ''19'' (nal_string ts) \<or> contains ''20'' (nal_string ts) else contains ''5'' (nal_string ts))"

section \<open>DecodeFrame\<close>

record picture =
  pi_width :: int
  pi_height :: int
  pi_d3d11 :: bool
  pi_texture :: "nat option"
  pi_index :: int

datatype sent = Sent | SendAgain | SendFailed
datatype received_picture = Picture picture | NoPicture | ReceiveFailed

text \<open>The answers of \<open>avcodec_receive_frame\<close> up to the first that is not a picture; an empty rest stands
  for \<open>EAGAIN\<close>.\<close>

record decode_env =
  dv_lib :: decode_lib
  dv_send :: sent
  dv_resend :: sent
  dv_receive :: "received_picture list"
  dv_swsAlloc :: bool
  dv_rgbaAlloc :: bool
  dv_rgbaBuffer :: bool
  dv_createTexture :: bool
  dv_scaled :: bool

datatype texture = HardwareTexture nat int | SoftwareTexture

fun newest_picture :: "received_picture list \<Rightarrow> picture option \<Rightarrow> picture option" where
  "newest_picture (Picture p # rs) acc = newest_picture rs (Some p)"
| "newest_picture (NoPicture # rs) acc = acc"
| "newest_picture (ReceiveFailed # rs) acc = acc"
| "newest_picture [] acc = acc"

text \<open>The scaler and its target are made again when the size of the picture changes.\<close>

definition remake_scaler :: "decode_env \<Rightarrow> picture \<Rightarrow> objects \<times> decoder_hw \<Rightarrow> fault + (bool \<times> objects \<times> decoder_hw)" where
  "remake_scaler env p = (\<lambda>(h, d).
     fbind (release_each [(dh_swsCtx d, Sws_Ctx), (dh_rgbaFrame d \<noteq> None, Rgba_Frame), (dh_swTexture d, Sw_Texture)] h) (\<lambda>h.
       let d = d\<lparr>dh_swsCtx := dv_swsAlloc env, dh_rgbaFrame := None, dh_swTexture := False\<rparr>;
           h = h + when_some (dv_swsAlloc env) Sws_Ctx in
       if \<not> dv_swsAlloc env then Inr (False, h, d)
       else if \<not> dv_rgbaAlloc env then Inr (False, h, d)
       else let d = d\<lparr>dh_rgbaFrame := Some (pi_width p, pi_height p)\<rparr>; h = add_mset Rgba_Frame h in
         if \<not> dv_rgbaBuffer env then Inr (False, h, d)
         else if \<not> dv_createTexture env then Inr (False, h, d)
         else Inr (True, add_mset Sw_Texture h, d\<lparr>dh_swTexture := True\<rparr>)))"

definition software_texture :: "decode_env \<Rightarrow> picture \<Rightarrow> objects \<times> decoder_hw \<Rightarrow> fault + (texture option \<times> objects \<times> decoder_hw)" where
  "software_texture env p = (\<lambda>(h, d).
     if \<not> (dh_device d \<and> dh_context d) then Inr (None, h, d)
     else fbind (if \<not> dh_swsCtx d \<or> dh_rgbaFrame d \<noteq> Some (pi_width p, pi_height p)
         then remake_scaler env p (h, d) else Inr (True, h, d)) (\<lambda>(ok, h, d).
       if ok \<and> dh_swsCtx d \<and> dh_rgbaFrame d \<noteq> None \<and> dh_swTexture d \<and> dv_scaled env
       then Inr (Some SoftwareTexture, h, d) else Inr (None, h, d)))"

definition picture_texture :: "decode_env \<Rightarrow> objects \<times> decoder_hw \<Rightarrow> fault + (texture option \<times> objects \<times> decoder_hw)" where
  "picture_texture env s =
     (case newest_picture (dv_receive env) None of None \<Rightarrow> Inr (None, s)
      | Some p \<Rightarrow>
          if pi_width p \<le> 0 \<or> pi_height p \<le> 0 then Inr (None, s)
          else if pi_d3d11 p then
            Inr (map_option (\<lambda>t. HardwareTexture t (pi_index p)) (pi_texture p), s)
          else software_texture env p s)"

text \<open>On \<open>EAGAIN\<close> the pictures waiting in the decoder are received and dropped before the packet is sent again.\<close>

definition packet_accepted :: "decode_env \<Rightarrow> bool" where
  "packet_accepted env \<longleftrightarrow> (case dv_send env of Sent \<Rightarrow> True | SendFailed \<Rightarrow> False | SendAgain \<Rightarrow> dv_resend env = Sent)"

definition change_codec :: "decode_env \<Rightarrow> bool \<Rightarrow> objects \<times> decoder_hw \<Rightarrow> fault + (bool \<times> objects \<times> decoder_hw)" where
  "change_codec env hevc = (\<lambda>(h, d).
     if hevc = dh_isHEVC d then Inr (True, h, d)
     else fbind (decoder_shutdown (h, d\<lparr>dh_isHEVC := hevc\<rparr>))
       (decoder_initialize (dv_lib env) (dh_lastDevice d) (dh_lastUseHardware d)))"

definition decode_frame ::
  "decode_env \<Rightarrow> bytes \<Rightarrow> bool \<Rightarrow> objects \<times> decoder_hw \<Rightarrow> fault + (texture option \<times> objects \<times> decoder_hw)" where
  "decode_frame env data hevc = (\<lambda>(h, d).
     if dh_codecCtx d = None then Inr (None, h, d)
     else fbind (change_codec env hevc (h, d)) (\<lambda>(ok, h, d).
       if \<not> ok then Inr (None, h, d)
       else if dh_codecCtx d = None \<or> \<not> dh_pkt d \<or> \<not> dh_frame d then Inr (None, h, d)
       else fbind (nal_scan (dh_isHEVC d) data 0) (\<lambda>types.
         if \<not> packet_accepted env then Inr (None, h, d)
         else if \<not> dh_tempFrame d then Inr (None, h, d)
         else picture_texture env (h, d))))"

section \<open>Every object has one owner\<close>

fun held_of :: "(bool \<times> resource) list \<Rightarrow> objects" where
  "held_of [] = {#}"
| "held_of ((held, r) # rs) = when_some held r + held_of rs"

definition codec_objects :: "decoder_hw \<Rightarrow> objects" where
  "codec_objects d = (case dh_codecCtx d of None \<Rightarrow> {#} | Some hw \<Rightarrow> add_mset Codec_Ctx (when_some hw Hw_Ref))
     + (if dh_hwDeviceCtx d then {#Hw_Ref, Wrapped_Device#} else {#})"

definition frame_objects :: "decoder_hw \<Rightarrow> objects" where
  "frame_objects d = held_of [(dh_frame d, Frame), (dh_tempFrame d, Temp_Frame), (dh_pkt d, Packet)]"

definition surface_objects :: "decoder_hw \<Rightarrow> objects" where
  "surface_objects d = held_of [(dh_swsCtx d, Sws_Ctx), (dh_rgbaFrame d \<noteq> None, Rgba_Frame), (dh_swTexture d, Sw_Texture),
     (dh_context d, Context_Ref), (dh_device d, Device_Ref)]"

definition objects_of :: "decoder_hw \<Rightarrow> objects" where
  "objects_of d = surface_objects d + (codec_objects d + frame_objects d)"

definition decoder_ok :: "objects \<times> decoder_hw \<Rightarrow> bool" where
  "decoder_ok = (\<lambda>(h, d). h = objects_of d \<and> (dh_codecCtx d = Some True \<longrightarrow> dh_hwDeviceCtx d))"

lemma release_held [simp]: "release r (add_mset r h) = Inr h"
  by (simp add: release_def)

lemma release_each_held: "release_each rs (held_of rs + h) = Inr h"
  by (induction rs rule: held_of.induct) (simp_all add: when_some_def)

lemma frame_objects_plain: "Hw_Ref \<notin># frame_objects d" "Wrapped_Device \<notin># frame_objects d"
  by (auto simp: frame_objects_def when_some_def)

lemma without_wrapped: "Wrapped_Device \<notin># h \<Longrightarrow> filter_mset (\<lambda>r. r \<noteq> Wrapped_Device) h = h"
  by (induction h) auto

lemma unref_hw_last:
  "Hw_Ref \<notin># h \<Longrightarrow> Wrapped_Device \<notin># h \<Longrightarrow> unref_hw (add_mset Hw_Ref h) = Inr h"
  "Hw_Ref \<notin># h \<Longrightarrow> Wrapped_Device \<notin># h \<Longrightarrow> unref_hw (add_mset Hw_Ref (add_mset Wrapped_Device h)) = Inr h"
  by (simp_all add: unref_hw_def without_wrapped)

lemma unref_hw_shared:
  "unref_hw (add_mset Hw_Ref (add_mset Wrapped_Device (add_mset Hw_Ref h))) = Inr (add_mset Hw_Ref (add_mset Wrapped_Device h))"
  by (simp add: unref_hw_def add_mset_commute)

lemma shutdown_codec:
  assumes "dh_codecCtx d = Some True \<longrightarrow> dh_hwDeviceCtx d"
  shows "fbind (free_codec d (codec_objects d + frame_objects d)) (\<lambda>h. if dh_hwDeviceCtx d then unref_hw h else Inr h)
    = Inr (frame_objects d)"
  using assms frame_objects_plain [of d]
  by (cases "dh_codecCtx d")
     (auto simp: free_codec_def codec_objects_def when_some_def unref_hw_last unref_hw_shared)

definition cleared :: "decoder_hw \<Rightarrow> decoder_hw" where
  "cleared d = d\<lparr>dh_swsCtx := False, dh_rgbaFrame := None, dh_swTexture := False, dh_context := False,
     dh_device := False, dh_codecCtx := None, dh_hwDeviceCtx := False, dh_frame := False,
     dh_tempFrame := False, dh_pkt := False\<rparr>"

lemma shutdown_releases_all:
  assumes "decoder_ok (h, d)"
  shows "decoder_shutdown (h, d) = Inr ({#}, cleared d)"
proof -
  have h: "h = surface_objects d + (codec_objects d + frame_objects d)" using assms by (simp add: decoder_ok_def objects_of_def)
  obtain h1 where h1: "free_codec d (codec_objects d + frame_objects d) = Inr h1"
    "(if dh_hwDeviceCtx d then unref_hw h1 else Inr h1) = Inr (frame_objects d)"
    using shutdown_codec [of d] assms by (auto simp: decoder_ok_def elim: fbind_InrE)
  show ?thesis unfolding decoder_shutdown_def h surface_objects_def
    using release_each_held [of "[(dh_frame d, Frame), (dh_tempFrame d, Temp_Frame), (dh_pkt d, Packet)]" "{#}"]
    by (simp only: release_each_held prod.case fbind_simps h1 h1(2) frame_objects_def [symmetric] add_0_right cleared_def)
qed

lemma attach_device_cases:
  "\<exists>hw y. (y \<longrightarrow> hw)
     \<and> attach_device lib device useHardware ({#Codec_Ctx#}, d\<lparr>dh_codecCtx := Some False\<rparr>)
       = Inr ({#Codec_Ctx#} + when_some y Hw_Ref + (if hw then {#Hw_Ref, Wrapped_Device#} else {#}),
           d\<lparr>dh_codecCtx := Some y, dh_hwDeviceCtx := hw \<or> dh_hwDeviceCtx d\<rparr>)"
proof (cases "useHardware \<and> device \<and> dl_hwAlloc lib \<and> dl_hwCtx lib \<and> dl_hwInit lib")
  case True
  then show ?thesis
    by (intro exI [of _ True] exI [of _ "dl_hwRef lib"]) (simp add: attach_device_def Let_def when_some_def add_mset_commute)
next
  case False
  have plain: "Hw_Ref \<notin># {#Codec_Ctx#}" "Wrapped_Device \<notin># {#Codec_Ctx#}" by simp_all
  have "unref_hw {#Hw_Ref, Codec_Ctx#} = Inr {#Codec_Ctx#}" "unref_hw {#Wrapped_Device, Hw_Ref, Codec_Ctx#} = Inr {#Codec_Ctx#}"
    using unref_hw_last [OF plain] by (simp_all add: add_mset_commute)
  with False show ?thesis
    by (intro exI [of _ False]) (auto simp: attach_device_def Let_def when_some_def)
qed

lemma open_decoder_ok:
  assumes "decoder_ok (h, d)" and "\<not> dh_pkt d" and "\<not> dh_frame d" and "\<not> dh_tempFrame d"
    and "\<not> dh_device d" and "\<not> dh_context d"
  shows "\<exists>b h' d'. open_decoder lib device (h, d) = (b, h', d') \<and> decoder_ok (h', d') \<and> dh_isHEVC d' = dh_isHEVC d"
proof -
  have h: "h = surface_objects d + (codec_objects d + frame_objects d)" "dh_codecCtx d = Some True \<longrightarrow> dh_hwDeviceCtx d"
    using assms(1) by (simp_all add: decoder_ok_def objects_of_def)
  show ?thesis using assms(2-6) h(2)
    unfolding open_decoder_def h(1)
    by (auto simp: Let_def decoder_ok_def objects_of_def surface_objects_def codec_objects_def frame_objects_def when_some_def)
qed

lemma initialize_ok:
  assumes "decoder_ok (h, d)"
  shows "\<exists>b h' d'. decoder_initialize lib device useHardware (h, d) = Inr (b, h', d') \<and> decoder_ok (h', d')
    \<and> dh_isHEVC d' = dh_isHEVC d"
proof -
  let ?d = "(cleared d)\<lparr>dh_lastDevice := device, dh_lastUseHardware := useHardware\<rparr>"
  note sd = shutdown_releases_all [OF assms]
  have fields: "\<not> dh_hwDeviceCtx ?d" "dh_isHEVC ?d = dh_isHEVC d" by (simp_all add: cleared_def)
  have empty: "decoder_ok ({#}, ?d)"
    by (simp add: decoder_ok_def objects_of_def surface_objects_def codec_objects_def frame_objects_def when_some_def cleared_def)
  obtain hw y where a: "y \<longrightarrow> hw"
    "attach_device lib device useHardware ({#Codec_Ctx#}, ?d\<lparr>dh_codecCtx := Some False\<rparr>)
     = Inr ({#Codec_Ctx#} + when_some y Hw_Ref + (if hw then {#Hw_Ref, Wrapped_Device#} else {#}),
         ?d\<lparr>dh_codecCtx := Some y, dh_hwDeviceCtx := hw \<or> dh_hwDeviceCtx ?d\<rparr>)"
    using attach_device_cases [of lib device useHardware ?d] by blast
  let ?e = "?d\<lparr>dh_codecCtx := Some y, dh_hwDeviceCtx := hw \<or> dh_hwDeviceCtx ?d\<rparr>"
  have "decoder_ok ({#Codec_Ctx#} + when_some y Hw_Ref + (if hw then {#Hw_Ref, Wrapped_Device#} else {#}), ?e)"
    using a(1) by (simp add: decoder_ok_def objects_of_def surface_objects_def codec_objects_def frame_objects_def
        when_some_def cleared_def)
  moreover have "\<not> dh_pkt ?e" "\<not> dh_frame ?e" "\<not> dh_tempFrame ?e" "\<not> dh_device ?e" "\<not> dh_context ?e"
    by (simp_all add: cleared_def)
  ultimately obtain b h' d' where opened:
    "open_decoder lib device ({#Codec_Ctx#} + when_some y Hw_Ref + (if hw then {#Hw_Ref, Wrapped_Device#} else {#}), ?e) = (b, h', d')"
    "decoder_ok (h', d')" "dh_isHEVC d' = dh_isHEVC ?e"
    using open_decoder_ok by blast
  show ?thesis
  proof (cases "dl_find lib (dh_isHEVC ?d) \<and> dl_alloc lib")
    case True
    then show ?thesis using opened fields unfolding decoder_initialize_def sd fbind_simps prod.case Let_def a(2) by simp
  next
    case False
    then show ?thesis using empty fields unfolding decoder_initialize_def sd fbind_simps prod.case Let_def by auto
  qed
qed

lemma remake_scaler_ok:
  assumes "decoder_ok (h, d)"
  shows "\<exists>b h' d'. remake_scaler env p (h, d) = Inr (b, h', d') \<and> decoder_ok (h', d') \<and> dh_isHEVC d' = dh_isHEVC d"
proof -
  let ?rest = "held_of [(dh_context d, Context_Ref), (dh_device d, Device_Ref)] + (codec_objects d + frame_objects d)"
  have "h = held_of [(dh_swsCtx d, Sws_Ctx), (dh_rgbaFrame d \<noteq> None, Rgba_Frame), (dh_swTexture d, Sw_Texture)] + ?rest"
    and hw: "dh_codecCtx d = Some True \<longrightarrow> dh_hwDeviceCtx d"
    using assms by (simp_all add: decoder_ok_def objects_of_def surface_objects_def ac_simps)
  from this(1) have r: "release_each [(dh_swsCtx d, Sws_Ctx), (dh_rgbaFrame d \<noteq> None, Rgba_Frame), (dh_swTexture d, Sw_Texture)] h = Inr ?rest"
    by (simp only: release_each_held)
  show ?thesis using hw unfolding remake_scaler_def prod.case r fbind_simps
    by (auto simp: Let_def decoder_ok_def objects_of_def surface_objects_def codec_objects_def frame_objects_def when_some_def)
qed

lemma nal_scan_safe: "\<exists>ts. nal_scan hevc data i = Inr ts"
proof (induction hevc data i rule: nal_scan.induct)
  case (1 hevc data i)
  let ?c = "take 4 (drop i data)"
  show ?case
  proof (cases "i + 3 < length data")
    case True
    then have c: "vec_read data i 4 = Inr ?c" by (simp add: vec_read_def)
    show ?thesis
    proof (cases "0 < start_code_length ?c \<and> i + start_code_length ?c < length data")
      case found: True
      obtain ts where "nal_scan hevc data (i + start_code_length ?c + 1) = Inr ts"
        using "1.IH"(1) [OF True refl found] by blast
      then show ?thesis using True c found by (subst nal_scan.simps) (simp add: Let_def vec_read_def)
    next
      case False
      obtain ts where "nal_scan hevc data (i + 1) = Inr ts" using "1.IH"(2) [OF True refl False] by blast
      then show ?thesis using True c False by (subst nal_scan.simps) (auto simp: Let_def)
    qed
  qed (subst nal_scan.simps, simp)
qed

lemma software_texture_ok:
  assumes "decoder_ok (h, d)"
  shows "\<exists>x h' d'. software_texture env p (h, d) = Inr (x, h', d') \<and> decoder_ok (h', d')"
  using assms remake_scaler_ok [OF assms, of env p] by (auto simp: software_texture_def)

lemma picture_texture_ok:
  assumes "decoder_ok (h, d)"
  shows "\<exists>x h' d'. picture_texture env (h, d) = Inr (x, h', d') \<and> decoder_ok (h', d')"
  using assms software_texture_ok [OF assms, of env] by (auto simp: picture_texture_def split: option.split)

lemma change_codec_ok:
  assumes "decoder_ok (h, d)"
  shows "\<exists>b h' d'. change_codec env hevc (h, d) = Inr (b, h', d') \<and> decoder_ok (h', d') \<and> dh_isHEVC d' = hevc"
proof (cases "hevc = dh_isHEVC d")
  case False
  let ?d = "d\<lparr>dh_isHEVC := hevc\<rparr>"
  have ok: "decoder_ok (h, ?d)"
    using assms by (simp add: decoder_ok_def objects_of_def surface_objects_def codec_objects_def frame_objects_def)
  have "decoder_ok ({#}, cleared ?d)"
    by (simp add: decoder_ok_def objects_of_def surface_objects_def codec_objects_def frame_objects_def when_some_def cleared_def)
  from initialize_ok [OF this, of "dv_lib env" "dh_lastDevice d" "dh_lastUseHardware d"]
  have "\<exists>b h' d'. decoder_initialize (dv_lib env) (dh_lastDevice d) (dh_lastUseHardware d) ({#}, cleared ?d) = Inr (b, h', d')
      \<and> decoder_ok (h', d') \<and> dh_isHEVC d' = hevc" by (simp add: cleared_def)
  then show ?thesis unfolding change_codec_def prod.case shutdown_releases_all [OF ok] fbind_simps using False by simp
qed (use assms in \<open>auto simp: change_codec_def\<close>)

lemma decode_frame_ok:
  assumes "decoder_ok (h, d)"
  shows "\<exists>x h' d'. decode_frame env data hevc (h, d) = Inr (x, h', d') \<and> decoder_ok (h', d')"
proof (cases "dh_codecCtx d = None")
  case False
  obtain b h1 d1 where c: "change_codec env hevc (h, d) = Inr (b, h1, d1)" "decoder_ok (h1, d1)"
    using change_codec_ok [OF assms] by blast
  obtain ts where ts: "nal_scan (dh_isHEVC d1) data 0 = Inr ts" using nal_scan_safe by blast
  from picture_texture_ok [OF c(2), of env] show ?thesis
    using False c(2) by (auto simp: decode_frame_def c(1) ts)
qed (use assms in \<open>simp add: decode_frame_def\<close>)

datatype decoder_op = Initialize decode_lib bool bool | Decode decode_env bytes bool | Shutdown

fun decoder_step :: "decoder_op \<Rightarrow> objects \<times> decoder_hw \<Rightarrow> fault + (objects \<times> decoder_hw)" where
  "decoder_step (Initialize lib device useHardware) s = fbind (decoder_initialize lib device useHardware s) (\<lambda>r. Inr (snd r))"
| "decoder_step (Decode env data hevc) s = fbind (decode_frame env data hevc s) (\<lambda>r. Inr (snd r))"
| "decoder_step Shutdown s = decoder_shutdown s"

fun decoder_run :: "decoder_op list \<Rightarrow> objects \<times> decoder_hw \<Rightarrow> fault + (objects \<times> decoder_hw)" where
  "decoder_run [] s = Inr s"
| "decoder_run (x # xs) s = fbind (decoder_step x s) (decoder_run xs)"

lemma decoder_step_ok:
  assumes "decoder_ok s"
  shows "\<exists>s'. decoder_step x s = Inr s' \<and> decoder_ok s'"
proof -
  obtain h d where s: "s = (h, d)" by (cases s)
  have empty: "decoder_ok ({#}, cleared d)"
    by (simp add: decoder_ok_def objects_of_def surface_objects_def codec_objects_def frame_objects_def when_some_def cleared_def)
  show ?thesis
  proof (cases x)
    case (Initialize lib device useHardware)
    then show ?thesis using initialize_ok [of h d lib device useHardware] assms s by auto
  next
    case (Decode env data hevc)
    then show ?thesis using decode_frame_ok [of h d env data hevc] assms s by auto
  next
    case Shutdown
    then show ?thesis using shutdown_releases_all [of h d] assms s empty by auto
  qed
qed

lemma decoder_run_ok: "decoder_ok s \<Longrightarrow> \<exists>s'. decoder_run xs s = Inr s' \<and> decoder_ok s'"
proof (induction xs arbitrary: s)
  case (Cons x xs)
  then show ?case using decoder_step_ok [of s x] by fastforce
qed simp

lemma decoder_run_append: "decoder_run (xs @ ys) s = fbind (decoder_run xs s) (decoder_run ys)"
proof (induction xs arbitrary: s)
  case (Cons x xs)
  then show ?case by (cases "decoder_step x s") simp_all
qed simp

text \<open>C18: whatever FFmpeg and Direct3D answer, no sequence of initialisations, frames, codec changes and
  shutdowns releases an object twice or reads the frame out of range; the objects alive are those the
  decoder points to, and the destructor's shutdown leaves none.\<close>
theorem decoder_leaks_nothing:
  "\<exists>h d. decoder_run xs ({#}, decoder_new) = Inr (h, d) \<and> h = objects_of d
    \<and> (\<exists>d'. decoder_run (xs @ [Shutdown]) ({#}, decoder_new) = Inr ({#}, d'))"
proof -
  have "decoder_ok ({#}, decoder_new)"
    by (simp add: decoder_ok_def objects_of_def surface_objects_def codec_objects_def frame_objects_def when_some_def decoder_new_def)
  then obtain h d where r: "decoder_run xs ({#}, decoder_new) = Inr (h, d)" "decoder_ok (h, d)"
    using decoder_run_ok by fastforce
  have "decoder_run (xs @ [Shutdown]) ({#}, decoder_new) = Inr ({#}, cleared d)"
    by (simp add: decoder_run_append r(1) shutdown_releases_all [OF r(2)])
  then show ?thesis using r by (auto simp: decoder_ok_def)
qed

section \<open>What the renderer gets\<close>

lemma newest_picture_last: "newest_picture (map Picture (ps @ [p]) @ rs) acc = newest_picture rs (Some p)"
  by (induction ps arbitrary: acc) simp_all

text \<open>Of the pictures one packet releases only the newest is shown, and those that were waiting when the
  packet was first refused are not shown at all.\<close>

lemma decode_frame_newest:
  assumes "dh_codecCtx d \<noteq> None" and "dh_isHEVC d = hevc" and "dh_pkt d" and "dh_frame d" and "dh_tempFrame d"
    and "packet_accepted env" and "dv_receive env = map Picture (ps @ [p]) @ rs" and "newest_picture rs (Some p) = Some p"
    and "0 < pi_width p" and "0 < pi_height p" and "pi_d3d11 p"
  shows "decode_frame env data hevc (h, d) = Inr (map_option (\<lambda>t. HardwareTexture t (pi_index p)) (pi_texture p), h, d)"
proof -
  obtain ts where "nal_scan (dh_isHEVC d) data 0 = Inr ts" using nal_scan_safe by blast
  then show ?thesis using assms newest_picture_last [of ps p rs None]
    by (auto simp: decode_frame_def change_codec_def picture_texture_def)
qed

text \<open>A codec change the library has no decoder for leaves no codec context, and without one no later frame
  is decoded, of whatever codec.\<close>

lemma unknown_codec_ends_decoding:
  assumes "decoder_ok (h, d)" and "dh_codecCtx d \<noteq> None" and "hevc \<noteq> dh_isHEVC d" and "\<not> dl_find (dv_lib env) hevc"
  shows "\<exists>d'. decode_frame env data hevc (h, d) = Inr (None, {#}, d')
    \<and> (\<forall>env data hevc. decode_frame env data hevc ({#}, d') = Inr (None, {#}, d'))"
proof -
  let ?d = "d\<lparr>dh_isHEVC := hevc\<rparr>" and ?l = "\<lambda>e. (cleared e)\<lparr>dh_lastDevice := dh_lastDevice d, dh_lastUseHardware := dh_lastUseHardware d\<rparr>"
  have ok: "decoder_ok (h, ?d)" "decoder_ok ({#}, cleared ?d)"
    using assms(1) by (simp_all add: decoder_ok_def objects_of_def surface_objects_def codec_objects_def frame_objects_def
        when_some_def cleared_def)
  have "change_codec env hevc (h, d) = Inr (False, {#}, ?l (cleared ?d))"
    using assms(3,4) unfolding change_codec_def prod.case shutdown_releases_all [OF ok(1)] fbind_simps
      decoder_initialize_def shutdown_releases_all [OF ok(2)] Let_def by (auto simp: cleared_def)
  then show ?thesis using assms(2) by (intro exI [of _ "?l (cleared ?d)"]) (auto simp: decode_frame_def, auto simp: cleared_def)
qed

text \<open>A texture that could not be created is not tried again while the size stays the same.\<close>

lemma missing_texture_stays_missing:
  assumes "dh_swsCtx d" and "dh_rgbaFrame d = Some (pi_width p, pi_height p)" and "\<not> dh_swTexture d"
  shows "software_texture env p (h, d) = Inr (None, h, d)"
  using assms by (simp add: software_texture_def)

lemma failed_texture_leads_there:
  assumes "remake_scaler env p (h, d) = Inr (ok, h', d')" and "dv_swsAlloc env" and "dv_rgbaAlloc env" and "\<not> dv_createTexture env"
  shows "dh_swsCtx d' \<and> dh_rgbaFrame d' = Some (pi_width p, pi_height p) \<and> \<not> dh_swTexture d'"
  using assms by (auto simp: remake_scaler_def Let_def elim!: fbind_InrE split: if_split_asm)

text \<open>The search for 5 in the list of types finds type 15, a subset sequence parameter set, as well.\<close>

lemma subset_sps_looks_like_keyframe: "nal_keyframe False [15]" "\<not> nal_keyframe False [1]"
  by code_simp+

end
