(* ===== verification/Com.thy ===== *)
theory Com
  imports Prelude "HOL-Library.Multiset"
begin

text \<open>
  COM objects as the renderer and the screen capture (\<open>cpp/client/renderer_d3d11.cpp\<close>,
  \<open>cpp/host/capture_dxgi.cpp\<close>) use them. An object is a number; the references held to it are counted in a
  multiset, and a call through a pointer without a reference is a use after free.
\<close>

section \<open>References\<close>

text \<open>\<open>cm_content\<close>: the sizes a video processor enumerator was made for.\<close>

record com =
  cm_refs :: "nat multiset"
  cm_next :: nat
  cm_content :: "nat \<Rightarrow> (nat \<times> nat) \<times> (nat \<times> nat)"
  cm_imgui :: bool

definition com_create :: "com \<Rightarrow> nat \<times> com" where
  "com_create h = (cm_next h, h\<lparr>cm_refs := add_mset (cm_next h) (cm_refs h), cm_next := Suc (cm_next h)\<rparr>)"

definition com_call :: "nat option \<Rightarrow> com \<Rightarrow> fault + com" where
  "com_call p h = (case p of None \<Rightarrow> Inl NullDeref | Some i \<Rightarrow> if i \<in># cm_refs h then Inr h else Inl UseAfterFree)"

definition com_addref :: "nat \<Rightarrow> com \<Rightarrow> fault + com" where
  "com_addref i h = fbind (com_call (Some i) h) (\<lambda>h. Inr (h\<lparr>cm_refs := add_mset i (cm_refs h)\<rparr>))"

text \<open>\<open>if (p) p->Release()\<close>.\<close>

definition com_release :: "nat option \<Rightarrow> com \<Rightarrow> fault + com" where
  "com_release p h = (case p of None \<Rightarrow> Inr h
     | Some i \<Rightarrow> fbind (com_call p h) (\<lambda>h. Inr (h\<lparr>cm_refs := cm_refs h - {#i#}\<rparr>)))"

fun com_release_all :: "nat option list \<Rightarrow> com \<Rightarrow> fault + com" where
  "com_release_all [] h = Inr h"
| "com_release_all (p # ps) h = fbind (com_release p h) (com_release_all ps)"

section \<open>References held\<close>

definition opt :: "nat option \<Rightarrow> nat multiset" where
  "opt p = (case p of None \<Rightarrow> {#} | Some i \<Rightarrow> {#i#})"

definition opts :: "nat option list \<Rightarrow> nat multiset" where
  "opts ps = sum_list (map opt ps)"

lemma opt_simps [simp]: "opt None = {#}" "opt (Some i) = {#i#}"
  by (simp_all add: opt_def)

lemma opts_simps [simp]: "opts [] = {#}" "opts (p # ps) = opt p + opts ps" "opts (ps @ qs) = opts ps + opts qs"
  "opts (replicate n None) = {#}"
  by (simp_all add: opts_def) (induction n; simp)

lemma opts_update: "k < length ps \<Longrightarrow> opts (ps[k := x]) + opt (ps ! k) = opts ps + opt x"
proof (induction ps arbitrary: k)
  case (Cons p ps)
  then show ?case by (cases k) (auto simp: ac_simps)
qed simp

lemma opts_take_drop: "opts ps = opts (take n ps) + opts (drop n ps)"
  by (metis append_take_drop_id opts_simps(3))

definition refs_live :: "nat multiset \<Rightarrow> com \<Rightarrow> bool" where
  "refs_live m h \<longleftrightarrow> m \<subseteq># cm_refs h"

text \<open>Nothing but references differs.\<close>

definition same_rest :: "com \<Rightarrow> com \<Rightarrow> bool" where
  "same_rest h h' \<longleftrightarrow> cm_content h' = cm_content h \<and> cm_imgui h' = cm_imgui h"

lemma same_rest_refl [simp]: "same_rest h h"
  by (simp add: same_rest_def)

lemma same_rest_trans: "same_rest h h' \<Longrightarrow> same_rest h' h'' \<Longrightarrow> same_rest h h''"
  by (simp add: same_rest_def)

lemma live_mono: "refs_live m h \<Longrightarrow> m' \<subseteq># m \<Longrightarrow> refs_live m' h"
  using subset_mset.order_trans unfolding refs_live_def by blast

lemma com_call_live: "refs_live (add_mset i m) h \<Longrightarrow> com_call (Some i) h = Inr h"
  by (auto simp: com_call_def refs_live_def dest: mset_subset_eqD)

lemma com_release_live:
  assumes "refs_live (opt p + m) h"
  shows "\<exists>h'. com_release p h = Inr h' \<and> refs_live m h' \<and> same_rest h h'"
proof (cases p)
  case (Some i)
  then have l: "refs_live (add_mset i m) h" using assms by simp
  then have "m \<subseteq># cm_refs h - {#i#}" by (simp add: refs_live_def insert_subset_eq_iff)
  then show ?thesis using com_call_live [OF l] Some by (simp add: com_release_def refs_live_def same_rest_def)
qed (use assms in \<open>simp add: com_release_def\<close>)

lemma com_release_all_live:
  "refs_live (opts ps + m) h \<Longrightarrow> \<exists>h'. com_release_all ps h = Inr h' \<and> refs_live m h' \<and> same_rest h h'"
proof (induction ps arbitrary: h)
  case (Cons p ps)
  then have "refs_live (opt p + (opts ps + m)) h" by (simp add: ac_simps)
  from com_release_live [OF this] obtain h1 where h1: "com_release p h = Inr h1" "refs_live (opts ps + m) h1" "same_rest h h1" by blast
  from Cons.IH [OF h1(2)] show ?case using h1 same_rest_trans by auto
qed simp

lemma com_create_live:
  "refs_live m h \<Longrightarrow> com_create h = (i, h') \<Longrightarrow> refs_live (add_mset i m) h' \<and> same_rest h h'"
  by (auto simp: com_create_def refs_live_def same_rest_def)

lemma live_addref: "refs_live m h \<Longrightarrow> refs_live (add_mset i m) (h\<lparr>cm_refs := add_mset i (cm_refs h)\<rparr>)"
  by (simp add: refs_live_def)

end
