(* ===== verification/Renderer.thy ===== *)
theory Renderer
  imports Com
begin

text \<open>
  \<open>Client::RendererD3D11\<close> (\<open>cpp/client/renderer_d3d11.cpp\<close>): the lifetime of its Direct3D objects, its caches
  and its index into the swap chain. What Direct3D and DXGI return is an argument. Dear ImGui (vendored, \<open>cpp/third_party/imgui\<close>) is only its current context, which its
  shutdown functions dereference. Pixels are not modelled.
\<close>

section \<open>The renderer\<close>

record renderer =
  rd_device :: "nat option"
  rd_context :: "nat option"
  rd_swapChain :: "nat option"
  rd_backBufferViews :: "nat option list"
  rd_currentBufferIndex :: int
  rd_bufferCount :: nat
  rd_tearingSupported :: bool
  rd_videoDevice :: "nat option"
  rd_videoContext :: "nat option"
  rd_videoProcessor :: "nat option"
  rd_videoEnumerator :: "nat option"
  rd_inputView :: "nat option"
  rd_outputViews :: "nat option list"
  rd_lastOutputTextures :: "nat option list"
  rd_lastInputTexture :: "nat option"
  rd_lastInputArrayIndex :: int

definition renderer_new :: renderer where
  "renderer_new = \<lparr>rd_device = None, rd_context = None, rd_swapChain = None, rd_backBufferViews = replicate 8 None,
     rd_currentBufferIndex = 0, rd_bufferCount = 2, rd_tearingSupported = False, rd_videoDevice = None,
     rd_videoContext = None, rd_videoProcessor = None, rd_videoEnumerator = None, rd_inputView = None,
     rd_outputViews = replicate 8 None, rd_lastOutputTextures = replicate 8 None, rd_lastInputTexture = None,
     rd_lastInputArrayIndex = -1\<rparr>"

definition array_get :: "'a list \<Rightarrow> nat \<Rightarrow> fault + 'a" where
  "array_get xs i = (if i < length xs then Inr (xs ! i) else Inl OutOfBounds)"

definition array_set :: "'a list \<Rightarrow> nat \<Rightarrow> 'a \<Rightarrow> fault + 'a list" where
  "array_set xs i x = (if i < length xs then Inr (xs[i := x]) else Inl OutOfBounds)"

subsection \<open>Initialize\<close>

text \<open>\<open>ie_fallbacks\<close>: which of the four kinds of swap chain can be created; \<open>ie_actualCount\<close>: the number of
  buffers \<open>GetDesc\<close> tells; \<open>ie_buffers\<close>: whether each buffer is handed out and whether a view of it is made.\<close>

record init_env =
  ie_hwnd :: bool
  ie_clientRect :: "(int \<times> int) option"
  ie_fallbacks :: "bool list"
  ie_actualCount :: "nat option"
  ie_buffers :: "nat \<Rightarrow> bool \<times> bool"

definition window_size :: "(int \<times> int) option \<Rightarrow> int \<Rightarrow> int \<Rightarrow> int \<times> int" where
  "window_size rect width height =
     (let (w, h) = (case rect of Some r \<Rightarrow> r | None \<Rightarrow> (width, height)) in if w \<le> 0 \<or> h \<le> 0 then (1280, 720) else (w, h))"

definition swap_chain_options :: "(nat \<times> bool) list" where
  "swap_chain_options = [(2, True), (2, False), (2, False), (1, False)]"

fun first_option :: "bool list \<Rightarrow> (nat \<times> bool) list \<Rightarrow> (nat \<times> bool) option" where
  "first_option (ok # oks) (x # xs) = (if ok then Some x else first_option oks xs)"
| "first_option _ _ = None"

text \<open>The views of the buffers \<open>is\<close>; \<open>False\<close>: the initialisation fails.\<close>

fun make_views :: "(nat \<Rightarrow> bool \<times> bool) \<Rightarrow> nat list \<Rightarrow> com \<times> renderer \<Rightarrow> fault + (bool \<times> com \<times> renderer)" where
  "make_views buffers [] (h, r) = Inr (True, h, r)"
| "make_views buffers (i # is) (h, r) = (let (buffer, view) = buffers i in
     fbind (com_call (rd_swapChain r) h) (\<lambda>h.
       if \<not> buffer then (if 0 < i then Inr (True, h, r\<lparr>rd_bufferCount := i\<rparr>) else Inr (False, h, r))
       else fbind (com_call (rd_device r) h) (\<lambda>h.
         if \<not> view then fbind (array_set (rd_backBufferViews r) i None) (\<lambda>vs. Inr (False, h, r\<lparr>rd_backBufferViews := vs\<rparr>))
         else (let (v, h) = com_create h in
           fbind (array_set (rd_backBufferViews r) i (Some v)) (\<lambda>vs.
             make_views buffers is (h, r\<lparr>rd_backBufferViews := vs\<rparr>))))))"

definition d3d_initialize :: "init_env \<Rightarrow> com \<times> renderer \<Rightarrow> fault + (bool \<times> com \<times> renderer)" where
  "d3d_initialize env = (\<lambda>(h, r).
     if \<not> ie_hwnd env then Inr (False, h, r)
     else case first_option (ie_fallbacks env) swap_chain_options of None \<Rightarrow> Inr (False, h, r)
     | Some (buffers, tearing) \<Rightarrow>
         (let (sc, h) = com_create h; (dev, h) = com_create h; (ctx, h) = com_create h;
              r = r\<lparr>rd_swapChain := Some sc, rd_device := Some dev, rd_context := Some ctx,
                    rd_bufferCount := (case ie_actualCount env of Some n \<Rightarrow> min n 8 | None \<Rightarrow> buffers),
                    rd_tearingSupported := tearing\<rparr>
          in fbind (make_views (ie_buffers env) [0..<rd_bufferCount r] (h, r)) (\<lambda>(ok, h, r).
               if ok then Inr (True, h\<lparr>cm_imgui := True\<rparr>, r) else Inr (False, h, r))))"

subsection \<open>Frames\<close>

definition clamp_index :: "nat \<Rightarrow> int \<Rightarrow> int" where
  "clamp_index n k = (if k < 0 \<or> int n \<le> k then 0 else k)"

text \<open>\<open>removed\<close>: the device is lost; \<open>index\<close>: the current back buffer, where the swap chain tells it.\<close>

definition new_frame :: "bool \<Rightarrow> int option \<Rightarrow> com \<times> renderer \<Rightarrow> fault + (com \<times> renderer)" where
  "new_frame removed index = (\<lambda>(h, r).
     if rd_swapChain r = None \<or> rd_context r = None \<or> rd_device r = None then Inr (h, r)
     else fbind (com_call (rd_device r) h) (\<lambda>h.
       if removed then Inr (h, r)
       else fbind (com_call (rd_swapChain r) h) (\<lambda>h.
         let k = (if 1 < rd_bufferCount r then (case index of Some k \<Rightarrow> k | None \<Rightarrow> 0) else 0);
             r = r\<lparr>rd_currentBufferIndex := clamp_index (rd_bufferCount r) k\<rparr> in
         fbind (array_get (rd_backBufferViews r) (nat (rd_currentBufferIndex r))) (\<lambda>view.
         fbind (if view = None then Inr h else fbind (com_call view h) (com_call (rd_context r))) (\<lambda>h.
           if \<not> cm_imgui h then Inl NullDeref else Inr (h, r))))))"

definition clamped :: "renderer \<Rightarrow> renderer" where
  "clamped r = (let n = (if rd_bufferCount r = 0 then 1 else rd_bufferCount r) in
     r\<lparr>rd_bufferCount := n, rd_currentBufferIndex := clamp_index n (rd_currentBufferIndex r)\<rparr>)"

text \<open>\<open>presented\<close>: \<open>Present\<close> did not report a lost device.\<close>

definition end_frame :: "bool \<Rightarrow> bool \<Rightarrow> com \<times> renderer \<Rightarrow> fault + (bool \<times> com \<times> renderer)" where
  "end_frame removed presented = (\<lambda>(h, r).
     if rd_context r = None \<or> rd_swapChain r = None \<or> rd_device r = None then Inr (False, h, r)
     else fbind (com_call (rd_device r) h) (\<lambda>h.
       if removed then Inr (False, h, r)
       else let r = clamped r in
         if \<not> cm_imgui h then Inl NullDeref
         else fbind (array_get (rd_backBufferViews r) (nat (rd_currentBufferIndex r))) (\<lambda>view.
           fbind (if view = None then Inr h else fbind (com_call view h) (com_call (rd_context r))) (\<lambda>h.
           fbind (com_call (rd_swapChain r) h) (\<lambda>h. Inr (presented, h, r))))))"

subsection \<open>The video processor\<close>

text \<open>What the calls of one \<open>Render\<close> return; \<open>rv_backBuffer\<close>: the buffer \<open>GetBuffer\<close> hands out.\<close>

record tex_desc =
  td_size :: "nat \<times> nat"
  td_format :: nat
  td_arraySize :: nat

definition NV12 :: nat where
  "NV12 = 103"

record render_env =
  rv_removed :: bool
  rv_backBuffer :: "nat option"
  rv_videoDevice :: bool
  rv_videoContext :: bool
  rv_enumerator :: bool
  rv_processor :: bool
  rv_inputView :: bool
  rv_outputView :: bool
  rv_blt :: bool

text \<open>\<open>QueryInterface\<close> for the video device or context, unless there is one already.\<close>

definition query_interface :: "bool \<Rightarrow> nat option \<Rightarrow> nat option \<Rightarrow> com \<Rightarrow> fault + (nat option \<times> com)" where
  "query_interface ok origin p h =
     (if p \<noteq> None then Inr (p, h)
      else fbind (com_call origin h) (\<lambda>h. if ok then (let (i, h) = com_create h in Inr (Some i, h)) else Inr (None, h)))"

definition drop_processor :: "com \<times> renderer \<Rightarrow> fault + (com \<times> renderer)" where
  "drop_processor = (\<lambda>(h, r).
     fbind (com_release_all ([rd_inputView r, rd_lastInputTexture r] @ rd_outputViews r @ [rd_videoProcessor r, rd_videoEnumerator r]) h) (\<lambda>h.
       Inr (h, r\<lparr>rd_inputView := None, rd_lastInputTexture := None, rd_lastInputArrayIndex := -1,
         rd_outputViews := replicate 8 None, rd_lastOutputTextures := replicate 8 None,
         rd_videoProcessor := None, rd_videoEnumerator := None\<rparr>)))"

definition make_processor :: "render_env \<Rightarrow> (nat \<times> nat) \<times> (nat \<times> nat) \<Rightarrow> com \<times> renderer \<Rightarrow> fault + (bool \<times> com \<times> renderer)" where
  "make_processor env sizes = (\<lambda>(h, r).
     fbind (com_call (rd_videoDevice r) h) (\<lambda>h.
       if \<not> rv_enumerator env then Inr (False, h, r\<lparr>rd_videoEnumerator := None\<rparr>)
       else let (e, h) = com_create h; h = h\<lparr>cm_content := (cm_content h)(e := sizes)\<rparr>; r = r\<lparr>rd_videoEnumerator := Some e\<rparr> in
         if \<not> rv_processor env then Inr (False, h, r\<lparr>rd_videoProcessor := None\<rparr>)
         else let (p, h) = com_create h in Inr (True, h, r\<lparr>rd_videoProcessor := Some p\<rparr>)))"

definition setup_video_processor ::
  "render_env \<Rightarrow> (nat \<times> nat) \<times> (nat \<times> nat) \<Rightarrow> com \<times> renderer \<Rightarrow> fault + (bool \<times> com \<times> renderer)" where
  "setup_video_processor env sizes = (\<lambda>(h, r).
     fbind (query_interface (rv_videoDevice env) (rd_device r) (rd_videoDevice r) h) (\<lambda>(vd, h).
     let r = r\<lparr>rd_videoDevice := vd\<rparr> in
     if vd = None then Inr (False, h, r)
     else fbind (query_interface (rv_videoContext env) (rd_context r) (rd_videoContext r) h) (\<lambda>(vc, h).
       let r = r\<lparr>rd_videoContext := vc\<rparr> in
       if vc = None then Inr (False, h, r)
       else case (rd_videoProcessor r, rd_videoEnumerator r) of
         (Some p, Some e) \<Rightarrow>
           fbind (com_call (Some e) h) (\<lambda>h.
             if cm_content h e = sizes then Inr (True, h, r)
             else fbind (drop_processor (h, r)) (make_processor env sizes))
       | _ \<Rightarrow> make_processor env sizes (h, r))))"

text \<open>The views are made again when the texture or the back buffer is another one.\<close>

definition renew_input_view :: "render_env \<Rightarrow> nat \<Rightarrow> int \<Rightarrow> com \<times> renderer \<Rightarrow> fault + (com \<times> renderer)" where
  "renew_input_view env tex index = (\<lambda>(h, r).
     if rd_lastInputTexture r = Some tex \<and> rd_lastInputArrayIndex r = index then Inr (h, r)
     else fbind (com_release (rd_inputView r) h) (\<lambda>h.
       fbind (com_call (rd_videoDevice r) h) (\<lambda>h.
       fbind (com_call (Some tex) h) (\<lambda>h.
       fbind (com_call (rd_videoEnumerator r) h) (\<lambda>h.
         if rv_inputView env then (let (v, h) = com_create h in Inr (h, r\<lparr>rd_inputView := Some v\<rparr>))
         else Inr (h, r\<lparr>rd_inputView := None\<rparr>))))))"

text \<open>\<open>keep\<close>: the path for other formats leaves the remembered back buffer as it was when no view can be made.\<close>

definition renew_output_view :: "render_env \<Rightarrow> bool \<Rightarrow> nat \<Rightarrow> com \<times> renderer \<Rightarrow> fault + (com \<times> renderer)" where
  "renew_output_view env keep target = (\<lambda>(h, r).
     let k = nat (rd_currentBufferIndex r) in
     fbind (array_get (rd_lastOutputTextures r) k) (\<lambda>remembered.
       if remembered = Some target then Inr (h, r)
       else fbind (array_get (rd_outputViews r) k) (\<lambda>old.
         fbind (com_release old h) (\<lambda>h.
         fbind (com_call (rd_videoDevice r) h) (\<lambda>h.
         fbind (com_call (rd_videoEnumerator r) h) (\<lambda>h.
           if rv_outputView env then
             (let (v, h) = com_create h in
              fbind (array_set (rd_outputViews r) k (Some v)) (\<lambda>vs.
              fbind (array_set (rd_lastOutputTextures r) k (Some target)) (\<lambda>ts.
                Inr (h, r\<lparr>rd_outputViews := vs, rd_lastOutputTextures := ts\<rparr>))))
           else fbind (array_set (rd_outputViews r) k None) (\<lambda>vs.
             Inr (h, r\<lparr>rd_outputViews := vs,
               rd_lastOutputTextures := (if keep then rd_lastOutputTextures r else (rd_lastOutputTextures r)[k := None])\<rparr>))))))))"

definition video_blt :: "render_env \<Rightarrow> com \<times> renderer \<Rightarrow> fault + (bool \<times> com \<times> renderer)" where
  "video_blt env = (\<lambda>(h, r).
     fbind (array_get (rd_outputViews r) (nat (rd_currentBufferIndex r))) (\<lambda>out.
       if rd_inputView r \<noteq> None \<and> out \<noteq> None then
         fbind (com_call (rd_videoContext r) h) (\<lambda>h. fbind (com_call (rd_videoProcessor r) h) (\<lambda>h.
         fbind (com_call out h) (\<lambda>h. fbind (com_call (rd_inputView r) h) (\<lambda>h. Inr (rv_blt env, h, r)))))
       else Inr (False, h, r)))"

definition process_video :: "render_env \<Rightarrow> bool \<Rightarrow> tex_desc \<Rightarrow> tex_desc \<Rightarrow> nat \<Rightarrow> int \<Rightarrow> nat \<Rightarrow> com \<times> renderer \<Rightarrow> fault + (bool \<times> com \<times> renderer)" where
  "process_video env keep src dst tex index target s =
     fbind (setup_video_processor env (td_size src, td_size dst) s) (\<lambda>(ok, h, r).
       if \<not> ok then Inr (False, h, r)
       else fbind (renew_input_view env tex index (h, r)) (\<lambda>s.
         fbind (renew_output_view env keep target s) (video_blt env)))"

definition copyable :: "tex_desc \<Rightarrow> tex_desc \<Rightarrow> bool" where
  "copyable src dst \<longleftrightarrow> td_format src \<noteq> NV12 \<and> td_size src = td_size dst \<and> td_format src = td_format dst \<and> td_arraySize src = 1"

definition draw :: "render_env \<Rightarrow> tex_desc \<Rightarrow> tex_desc \<Rightarrow> nat \<Rightarrow> int \<Rightarrow> nat \<Rightarrow> com \<times> renderer \<Rightarrow> fault + (com \<times> renderer)" where
  "draw env src dst tex index target s =
     (if td_format src = NV12 then fbind (process_video env False src dst tex index target s) (\<lambda>(ok, s). Inr s)
      else if copyable src dst then fbind (com_call (rd_context (snd s)) (fst s)) (\<lambda>h. fbind (com_call (Some tex) h) (\<lambda>h. Inr (h, snd s)))
      else fbind (process_video env True src dst tex index target s) (\<lambda>(ok, h, r).
        if ok then Inr (h, r)
        else fbind (com_call (rd_context r) h) (\<lambda>h. fbind (com_call (Some tex) h) (\<lambda>h. Inr (h, r)))))"

definition cache_texture :: "nat \<Rightarrow> int \<Rightarrow> com \<times> renderer \<Rightarrow> fault + (com \<times> renderer)" where
  "cache_texture tex index = (\<lambda>(h, r).
     if rd_lastInputTexture r = Some tex \<and> rd_lastInputArrayIndex r = index then Inr (h, r)
     else fbind (com_release (rd_lastInputTexture r) h) (\<lambda>h. fbind (com_addref tex h) (\<lambda>h.
       Inr (h, r\<lparr>rd_lastInputTexture := Some tex, rd_lastInputArrayIndex := index\<rparr>))))"

text \<open>\<open>desc\<close>: the descriptions of textures and back buffers.\<close>

definition render :: "(nat \<Rightarrow> tex_desc) \<Rightarrow> render_env \<Rightarrow> (nat \<times> int) option \<Rightarrow> com \<times> renderer \<Rightarrow> fault + (bool \<times> com \<times> renderer)" where
  "render desc env texture = (\<lambda>(h, r).
     if rd_context r = None \<or> rd_swapChain r = None \<or> rd_device r = None then Inr (False, h, r)
     else fbind (com_call (rd_device r) h) (\<lambda>h.
       if rv_removed env then Inr (False, h, r)
       else case (case texture of Some ti \<Rightarrow> Some ti
           | None \<Rightarrow> map_option (\<lambda>t. (t, rd_lastInputArrayIndex r)) (rd_lastInputTexture r)) of
         None \<Rightarrow> Inr (True, h, r)
       | Some (tex, index) \<Rightarrow>
           (let r = clamped r in
            fbind (com_call (Some tex) h) (\<lambda>h.
            fbind (com_call (rd_swapChain r) h) (\<lambda>h.
              case rv_backBuffer env of None \<Rightarrow> Inr (False, h, r)
              | Some target \<Rightarrow>
                  fbind (draw env (desc tex) (desc target) tex index target (h, r)) (\<lambda>s.
                  fbind (cache_texture tex index s) (\<lambda>(h, r). Inr (True, h, r))))))))"

subsection \<open>Shutdown\<close>

text \<open>The pointers to the video device, context, processor and enumerator keep their values.\<close>

definition renderer_shutdown :: "com \<times> renderer \<Rightarrow> fault + (com \<times> renderer)" where
  "renderer_shutdown = (\<lambda>(h, r).
     if \<not> cm_imgui h then Inl NullDeref
     else fbind (com_release_all ([rd_inputView r, rd_lastInputTexture r] @ take (rd_bufferCount r) (rd_outputViews r)
         @ [rd_videoProcessor r, rd_videoEnumerator r, rd_videoContext r, rd_videoDevice r]
         @ take (rd_bufferCount r) (rd_backBufferViews r) @ [rd_swapChain r, rd_context r, rd_device r]) (h\<lparr>cm_imgui := False\<rparr>)) (\<lambda>h.
       Inr (h, r\<lparr>rd_inputView := None, rd_lastInputTexture := None,
         rd_outputViews := replicate (rd_bufferCount r) None @ drop (rd_bufferCount r) (rd_outputViews r),
         rd_lastOutputTextures := replicate (rd_bufferCount r) None @ drop (rd_bufferCount r) (rd_lastOutputTextures r),
         rd_backBufferViews := replicate (rd_bufferCount r) None @ drop (rd_bufferCount r) (rd_backBufferViews r),
         rd_swapChain := None, rd_context := None, rd_device := None\<rparr>)))"

section \<open>References held\<close>

definition objects_held :: "renderer \<Rightarrow> nat multiset" where
  "objects_held r = opt (rd_device r) + opt (rd_context r) + opt (rd_swapChain r) + opts (rd_backBufferViews r)
     + opt (rd_videoDevice r) + opt (rd_videoContext r) + opt (rd_videoProcessor r) + opt (rd_videoEnumerator r)
     + opt (rd_inputView r) + opts (rd_outputViews r) + opt (rd_lastInputTexture r)"

definition arrays_ok :: "renderer \<Rightarrow> bool" where
  "arrays_ok r \<longleftrightarrow> length (rd_backBufferViews r) = 8 \<and> length (rd_outputViews r) = 8 \<and> length (rd_lastOutputTextures r) = 8
     \<and> rd_bufferCount r \<le> 8 \<and> (\<forall>k. rd_bufferCount r \<le> k \<and> k < 8 \<longrightarrow> rd_backBufferViews r ! k = None \<and> rd_outputViews r ! k = None)"

definition base_ok :: "nat multiset \<Rightarrow> com \<times> renderer \<Rightarrow> bool" where
  "base_ok ext = (\<lambda>(h, r). refs_live (objects_held r + ext) h \<and> arrays_ok r \<and> cm_imgui h
     \<and> rd_device r \<noteq> None \<and> rd_context r \<noteq> None \<and> rd_swapChain r \<noteq> None
     \<and> (rd_videoProcessor r \<noteq> None \<longrightarrow> rd_videoDevice r \<noteq> None \<and> rd_videoContext r \<noteq> None))"

text \<open>The processor, when there is one, was made for the given sizes.\<close>

definition made_for :: "(nat \<times> nat) \<times> (nat \<times> nat) \<Rightarrow> com \<times> renderer \<Rightarrow> bool" where
  "made_for sizes = (\<lambda>(h, r). \<forall>p e. rd_videoProcessor r = Some p \<and> rd_videoEnumerator r = Some e \<longrightarrow> cm_content h e = sizes)"

text \<open>A cached texture that may be drawn by the video processor has the size the processor was made for.\<close>

definition cache_ok :: "(nat \<Rightarrow> tex_desc) \<Rightarrow> tex_desc \<Rightarrow> com \<times> renderer \<Rightarrow> bool" where
  "cache_ok desc dst = (\<lambda>(h, r). \<forall>t. rd_lastInputTexture r = Some t \<longrightarrow>
     copyable (desc t) dst \<or> made_for (td_size (desc t), td_size dst) (h, r))"

definition drawable :: "nat multiset \<Rightarrow> nat \<Rightarrow> int \<Rightarrow> renderer \<Rightarrow> bool" where
  "drawable ext tex index r \<longleftrightarrow> tex \<in># ext \<or> rd_lastInputTexture r = Some tex \<and> rd_lastInputArrayIndex r = index"

lemma same_rest_made_for: "same_rest h h' \<Longrightarrow> made_for sizes (h', r) = made_for sizes (h, r)"
  by (simp add: same_rest_def made_for_def)

lemma call_held:
  assumes "base_ok ext (h, r)"
  shows "com_call (rd_device r) h = Inr h" "com_call (rd_context r) h = Inr h" "com_call (rd_swapChain r) h = Inr h"
    and "rd_videoDevice r \<noteq> None \<Longrightarrow> com_call (rd_videoDevice r) h = Inr h"
    and "rd_videoContext r \<noteq> None \<Longrightarrow> com_call (rd_videoContext r) h = Inr h"
    and "rd_videoProcessor r \<noteq> None \<Longrightarrow> com_call (rd_videoProcessor r) h = Inr h"
    and "rd_videoEnumerator r \<noteq> None \<Longrightarrow> com_call (rd_videoEnumerator r) h = Inr h"
    and "rd_inputView r \<noteq> None \<Longrightarrow> com_call (rd_inputView r) h = Inr h"
    and "drawable ext tex index r \<Longrightarrow> com_call (Some tex) h = Inr h"
proof -
  have l: "objects_held r + ext \<subseteq># cm_refs h" using assms by (simp add: base_ok_def refs_live_def)
  have call: "com_call p h = Inr h" if "p \<noteq> None" "opt p \<subseteq># objects_held r + ext" for p
  proof -
    from that(1) obtain i where "p = Some i" by blast
    then show ?thesis using subset_mset.order_trans [OF that(2) l] by (simp add: com_call_def)
  qed
  show "com_call (rd_device r) h = Inr h" "com_call (rd_context r) h = Inr h" "com_call (rd_swapChain r) h = Inr h"
    using assms by (auto intro!: call simp: base_ok_def objects_held_def)
  show "rd_videoDevice r \<noteq> None \<Longrightarrow> com_call (rd_videoDevice r) h = Inr h"
    "rd_videoContext r \<noteq> None \<Longrightarrow> com_call (rd_videoContext r) h = Inr h"
    "rd_videoProcessor r \<noteq> None \<Longrightarrow> com_call (rd_videoProcessor r) h = Inr h"
    "rd_videoEnumerator r \<noteq> None \<Longrightarrow> com_call (rd_videoEnumerator r) h = Inr h"
    "rd_inputView r \<noteq> None \<Longrightarrow> com_call (rd_inputView r) h = Inr h"
    by (auto intro!: call simp: objects_held_def)
  show "drawable ext tex index r \<Longrightarrow> com_call (Some tex) h = Inr h"
    by (rule call) (auto simp: drawable_def objects_held_def)
qed

lemma call_output:
  assumes "base_ok ext (h, r)" and "k < 8"
  shows "rd_outputViews r ! k \<noteq> None \<Longrightarrow> com_call (rd_outputViews r ! k) h = Inr h"
    and "rd_backBufferViews r ! k \<noteq> None \<Longrightarrow> com_call (rd_backBufferViews r ! k) h = Inr h"
proof -
  have l: "objects_held r + ext \<subseteq># cm_refs h" and len: "length (rd_outputViews r) = 8" "length (rd_backBufferViews r) = 8"
    using assms(1) by (simp_all add: base_ok_def refs_live_def arrays_ok_def)
  have part: "opt (ps ! k) \<subseteq># opts ps" if "k < length ps" for ps
    using opts_update [OF that, of None] by (metis add.right_neutral mset_subset_eq_add_right opt_simps(1))
  show "rd_outputViews r ! k \<noteq> None \<Longrightarrow> com_call (rd_outputViews r ! k) h = Inr h"
    using part [of "rd_outputViews r"] assms(2) len l
    by (auto simp: com_call_def objects_held_def split: option.split dest!: mset_subset_eqD)
  show "rd_backBufferViews r ! k \<noteq> None \<Longrightarrow> com_call (rd_backBufferViews r ! k) h = Inr h"
    using part [of "rd_backBufferViews r"] assms(2) len l
    by (auto simp: com_call_def objects_held_def split: option.split dest!: mset_subset_eqD)
qed

lemma query_interface_ok:
  assumes "refs_live (opt p + m) h" and "com_call origin h = Inr h"
  shows "\<exists>p' h'. query_interface ok origin p h = Inr (p', h') \<and> refs_live (opt p' + m) h' \<and> same_rest h h' \<and> (p \<noteq> None \<longrightarrow> p' = p)"
  using assms com_create_live [of m h] by (auto simp: query_interface_def Let_def split: prod.split)

lemma drop_processor_ok:
  assumes "base_ok ext (h, r)"
  shows "\<exists>h' r'. drop_processor (h, r) = Inr (h', r') \<and> base_ok ext (h', r') \<and> rd_videoProcessor r' = None
    \<and> rd_lastInputTexture r' = None \<and> rd_videoDevice r' = rd_videoDevice r \<and> rd_videoContext r' = rd_videoContext r
    \<and> rd_bufferCount r' = rd_bufferCount r \<and> rd_currentBufferIndex r' = rd_currentBufferIndex r"
proof -
  let ?gone = "[rd_inputView r, rd_lastInputTexture r] @ rd_outputViews r @ [rd_videoProcessor r, rd_videoEnumerator r]"
  let ?rest = "opt (rd_device r) + opt (rd_context r) + opt (rd_swapChain r) + opts (rd_backBufferViews r)
     + opt (rd_videoDevice r) + opt (rd_videoContext r) + ext"
  have "refs_live (opts ?gone + ?rest) h" using assms by (simp add: base_ok_def objects_held_def ac_simps)
  from com_release_all_live [OF this] obtain h' where h': "com_release_all ?gone h = Inr h'" "refs_live ?rest h'" "same_rest h h'" by blast
  show ?thesis unfolding drop_processor_def prod.case h'(1) fbind_simps
    using assms h'(2,3) by (auto simp: base_ok_def objects_held_def arrays_ok_def same_rest_def)
qed

lemma make_processor_ok:
  assumes "base_ok ext (h, r)" and "rd_videoDevice r \<noteq> None" and "rd_videoContext r \<noteq> None"
  shows "\<exists>ok h' r'. make_processor env sizes (h, r) = Inr (ok, h', r') \<and> base_ok ext (h', r') \<and> made_for sizes (h', r')
    \<and> (ok \<longrightarrow> rd_videoProcessor r' \<noteq> None \<and> rd_videoEnumerator r' \<noteq> None)
    \<and> rd_videoDevice r' = rd_videoDevice r \<and> rd_videoContext r' = rd_videoContext r
    \<and> rd_lastInputTexture r' = rd_lastInputTexture r \<and> rd_lastInputArrayIndex r' = rd_lastInputArrayIndex r
    \<and> rd_bufferCount r' = rd_bufferCount r \<and> rd_currentBufferIndex r' = rd_currentBufferIndex r"
proof -
  let ?rest = "opt (rd_device r) + opt (rd_context r) + opt (rd_swapChain r) + opts (rd_backBufferViews r)
     + opt (rd_videoDevice r) + opt (rd_videoContext r) + opt (rd_inputView r) + opts (rd_outputViews r) + opt (rd_lastInputTexture r) + ext"
  have l: "refs_live (objects_held r + ext) h" using assms(1) by (simp add: base_ok_def)
  have rest: "refs_live (opt (rd_videoProcessor r) + ?rest) h" "refs_live ?rest h"
    by (rule live_mono [OF l], simp add: objects_held_def ac_simps)+
  note vd = call_held(4) [OF assms(1,2)]
  obtain e h1 where e: "com_create h = (e, h1)" by (cases "com_create h")
  let ?h1 = "h1\<lparr>cm_content := (cm_content h1)(e := sizes)\<rparr>"
  have rest1: "refs_live (add_mset e (opt (rd_videoProcessor r) + ?rest)) ?h1" "refs_live (add_mset e ?rest) ?h1" "same_rest h h1"
    using com_create_live [OF rest(1) e] com_create_live [OF rest(2) e] by (simp_all add: refs_live_def)
  obtain p h2 where p: "com_create ?h1 = (p, h2)" by (cases "com_create ?h1")
  have rest2: "refs_live (add_mset p (add_mset e ?rest)) h2" "same_rest ?h1 h2" using com_create_live [OF rest1(2) p] by simp_all
  have failed: "base_ok ext (h, r\<lparr>rd_videoEnumerator := None\<rparr>)"
    "base_ok ext (?h1, r\<lparr>rd_videoEnumerator := Some e, rd_videoProcessor := None\<rparr>)"
    using assms rest(1) rest1(2,3) by (simp_all add: base_ok_def objects_held_def arrays_ok_def same_rest_def ac_simps)
  have made: "base_ok ext (h2, r\<lparr>rd_videoEnumerator := Some e, rd_videoProcessor := Some p\<rparr>)"
    "cm_content h2 e = sizes"
    using assms rest1(3) rest2 by (simp_all add: base_ok_def objects_held_def arrays_ok_def same_rest_def ac_simps)
  show ?thesis
  proof (cases "rv_enumerator env")
    case False
    then show ?thesis using failed(1) vd by (auto simp: make_processor_def made_for_def)
  next
    case en: True
    show ?thesis
    proof (cases "rv_processor env")
      case False
      then show ?thesis using failed(2) vd en by (auto simp: make_processor_def e Let_def made_for_def)
    next
      case True
      then show ?thesis using made vd en by (auto simp: make_processor_def e p Let_def made_for_def)
    qed
  qed
qed

lemma setup_video_processor_ok:
  assumes "base_ok ext (h, r)" and "drawable ext tex index r" and "tex \<in># ext \<or> made_for sizes (h, r)"
  shows "\<exists>ok h' r'. setup_video_processor env sizes (h, r) = Inr (ok, h', r') \<and> base_ok ext (h', r')
    \<and> drawable ext tex index r' \<and> made_for sizes (h', r')
    \<and> (ok \<longrightarrow> rd_videoDevice r' \<noteq> None \<and> rd_videoContext r' \<noteq> None \<and> rd_videoProcessor r' \<noteq> None \<and> rd_videoEnumerator r' \<noteq> None)
    \<and> rd_bufferCount r' = rd_bufferCount r \<and> rd_currentBufferIndex r' = rd_currentBufferIndex r"
proof -
  note b = assms(1)
  let ?m1 = "opt (rd_device r) + opt (rd_context r) + opt (rd_swapChain r) + opts (rd_backBufferViews r)
     + opt (rd_videoContext r) + opt (rd_videoProcessor r) + opt (rd_videoEnumerator r)
     + opt (rd_inputView r) + opts (rd_outputViews r) + opt (rd_lastInputTexture r) + ext"
  have "refs_live (opt (rd_videoDevice r) + ?m1) h" using b by (simp add: base_ok_def objects_held_def ac_simps)
  from query_interface_ok [OF this call_held(1) [OF b], of "rv_videoDevice env"]
  obtain vd h1 where vd: "query_interface (rv_videoDevice env) (rd_device r) (rd_videoDevice r) h = Inr (vd, h1)"
    "refs_live (opt vd + ?m1) h1" "same_rest h h1" "rd_videoDevice r \<noteq> None \<longrightarrow> vd = rd_videoDevice r" by blast
  let ?r1 = "r\<lparr>rd_videoDevice := vd\<rparr>"
  have b1: "base_ok ext (h1, ?r1)"
    using b vd(2-4) by (auto simp: base_ok_def objects_held_def arrays_ok_def same_rest_def ac_simps)
  have made1: "made_for sizes (h1, ?r1) = made_for sizes (h, r)" using vd(3) by (simp add: made_for_def same_rest_def)
  have none1: "vd = None \<Longrightarrow> rd_videoProcessor r = None" using b vd(4) by (auto simp: base_ok_def)
  let ?m2 = "opt (rd_device r) + opt (rd_context r) + opt (rd_swapChain r) + opts (rd_backBufferViews r)
     + opt vd + opt (rd_videoProcessor r) + opt (rd_videoEnumerator r)
     + opt (rd_inputView r) + opts (rd_outputViews r) + opt (rd_lastInputTexture r) + ext"
  have "refs_live (opt (rd_videoContext r) + ?m2) h1" using b1 by (simp add: base_ok_def objects_held_def ac_simps)
  from query_interface_ok [OF this, of "rd_context r" "rv_videoContext env"] call_held(2) [OF b1]
  obtain vc h2 where vc: "query_interface (rv_videoContext env) (rd_context r) (rd_videoContext r) h1 = Inr (vc, h2)"
    "refs_live (opt vc + ?m2) h2" "same_rest h1 h2" "rd_videoContext r \<noteq> None \<longrightarrow> vc = rd_videoContext r" by auto
  let ?r2 = "r\<lparr>rd_videoDevice := vd, rd_videoContext := vc\<rparr>"
  have b2: "base_ok ext (h2, ?r2)"
    using b1 vc(2-4) by (auto simp: base_ok_def objects_held_def arrays_ok_def same_rest_def ac_simps)
  have made2: "made_for sizes (h2, ?r2) = made_for sizes (h, r)" using vd(3) vc(3) by (simp add: made_for_def same_rest_def)
  have none2: "vc = None \<Longrightarrow> rd_videoProcessor r = None" using b vc(4) by (auto simp: base_ok_def)
  show ?thesis
  proof (cases "vd = None \<or> vc = None")
    case True
    then show ?thesis using vd(1) vc(1) b1 b2 none1 none2 assms(2)
      by (auto simp: setup_video_processor_def Let_def drawable_def made_for_def)
  next
    case some: False
    show ?thesis
    proof (cases "\<exists>p e. rd_videoProcessor r = Some p \<and> rd_videoEnumerator r = Some e")
      case False
      from some have "rd_videoDevice ?r2 \<noteq> None" "rd_videoContext ?r2 \<noteq> None" by auto
      from make_processor_ok [OF b2 this, of env sizes] False some assms(2) vd(1) vc(1) show ?thesis
        by (auto simp: setup_video_processor_def Let_def drawable_def split: option.split)
    next
      case True
      then obtain p e where pe: "rd_videoProcessor r = Some p" "rd_videoEnumerator r = Some e" by blast
      have call: "com_call (Some e) h2 = Inr h2" using call_held(7) [OF b2] pe by simp
      show ?thesis
      proof (cases "cm_content h2 e = sizes")
        case True
        then show ?thesis using some vd(1) vc(1) b2 pe call assms(2)
          by (auto simp: setup_video_processor_def Let_def drawable_def made_for_def)
      next
        case False
        then have ext: "tex \<in># ext" using assms(3) made2 pe by (auto simp: made_for_def)
        obtain h3 r3 where d: "drop_processor (h2, ?r2) = Inr (h3, r3)" "base_ok ext (h3, r3)" "rd_videoProcessor r3 = None"
          "rd_lastInputTexture r3 = None" "rd_videoDevice r3 = vd" "rd_videoContext r3 = vc"
          "rd_bufferCount r3 = rd_bufferCount r" "rd_currentBufferIndex r3 = rd_currentBufferIndex r"
          using drop_processor_ok [OF b2] by auto
        have "rd_videoDevice r3 \<noteq> None" "rd_videoContext r3 \<noteq> None" using d(5,6) some by auto
        from make_processor_ok [OF d(2) this, of env sizes]
        obtain ok h4 r4 where m: "make_processor env sizes (h3, r3) = Inr (ok, h4, r4)" "base_ok ext (h4, r4)"
          "made_for sizes (h4, r4)" "ok \<longrightarrow> rd_videoProcessor r4 \<noteq> None \<and> rd_videoEnumerator r4 \<noteq> None"
          "rd_videoDevice r4 = rd_videoDevice r3" "rd_videoContext r4 = rd_videoContext r3"
          "rd_bufferCount r4 = rd_bufferCount r3" "rd_currentBufferIndex r4 = rd_currentBufferIndex r3" by blast
        have "setup_video_processor env sizes (h, r) = Inr (ok, h4, r4)"
          using some by (auto simp: setup_video_processor_def Let_def vd(1) vc(1) pe call False d(1) m(1))
        moreover have "drawable ext tex index r4" using ext by (simp add: drawable_def)
        ultimately show ?thesis using m d(5-8) some by auto
      qed
    qed
  qed
qed

lemma renew_input_view_ok:
  assumes "base_ok ext (h, r)" and "drawable ext tex index r" and "rd_videoDevice r \<noteq> None" and "rd_videoEnumerator r \<noteq> None"
  shows "\<exists>h' r'. renew_input_view env tex index (h, r) = Inr (h', r') \<and> base_ok ext (h', r') \<and> same_rest h h'
    \<and> (\<exists>v. r' = r\<lparr>rd_inputView := v\<rparr>)"
proof (cases "rd_lastInputTexture r = Some tex \<and> rd_lastInputArrayIndex r = index")
  case True
  then show ?thesis using assms(1) by (auto simp: renew_input_view_def intro!: exI [of _ "rd_inputView r"])
next
  case False
  then have tex: "tex \<in># ext" using assms(2) by (auto simp: drawable_def)
  let ?m = "opt (rd_device r) + opt (rd_context r) + opt (rd_swapChain r) + opts (rd_backBufferViews r)
     + opt (rd_videoDevice r) + opt (rd_videoContext r) + opt (rd_videoProcessor r) + opt (rd_videoEnumerator r)
     + opts (rd_outputViews r) + opt (rd_lastInputTexture r) + ext"
  have "refs_live (opt (rd_inputView r) + ?m) h" using assms(1) by (simp add: base_ok_def objects_held_def ac_simps)
  from com_release_live [OF this] obtain h1 where h1: "com_release (rd_inputView r) h = Inr h1" "refs_live ?m h1" "same_rest h h1" by blast
  have b1: "base_ok ext (h1, r\<lparr>rd_inputView := None\<rparr>)"
    using assms(1) h1(2,3) by (simp add: base_ok_def objects_held_def arrays_ok_def same_rest_def ac_simps)
  have calls: "com_call (rd_videoDevice r) h1 = Inr h1" "com_call (Some tex) h1 = Inr h1" "com_call (rd_videoEnumerator r) h1 = Inr h1"
    using call_held(4,7,9) [OF b1] assms(3,4) tex by (simp_all add: drawable_def)
  obtain v h2 where v: "com_create h1 = (v, h2)" by (cases "com_create h1")
  have "refs_live (add_mset v ?m) h2" "same_rest h1 h2" using com_create_live [OF h1(2) v] by simp_all
  then have b2: "base_ok ext (h2, r\<lparr>rd_inputView := Some v\<rparr>)" "same_rest h h2"
    using b1 h1(3) by (simp_all add: base_ok_def objects_held_def arrays_ok_def same_rest_def ac_simps)
  show ?thesis
  proof (cases "rv_inputView env")
    case True
    then show ?thesis using False h1(1) calls v b2 unfolding renew_input_view_def by (auto simp: Let_def)
  next
    case no: False
    then show ?thesis using False h1(1,3) calls b1 unfolding renew_input_view_def by (auto simp: Let_def)
  qed
qed

lemma renew_output_view_ok:
  assumes "base_ok ext (h, r)" and "rd_videoDevice r \<noteq> None" and "rd_videoEnumerator r \<noteq> None"
    and "nat (rd_currentBufferIndex r) < rd_bufferCount r"
  shows "\<exists>h' r'. renew_output_view env keep target (h, r) = Inr (h', r') \<and> base_ok ext (h', r') \<and> same_rest h h'
    \<and> (\<exists>vs ts. r' = r\<lparr>rd_outputViews := vs, rd_lastOutputTextures := ts\<rparr>)"
proof -
  let ?k = "nat (rd_currentBufferIndex r)"
  have k: "?k < length (rd_outputViews r)" "?k < length (rd_lastOutputTextures r)" "?k < 8"
    using assms(1,4) by (simp_all add: base_ok_def arrays_ok_def)
  show ?thesis
  proof (cases "rd_lastOutputTextures r ! ?k = Some target")
    case True
    then have "renew_output_view env keep target (h, r) = Inr (h, r)" using k by (simp add: renew_output_view_def Let_def array_get_def)
    moreover have "r = r\<lparr>rd_outputViews := rd_outputViews r, rd_lastOutputTextures := rd_lastOutputTextures r\<rparr>" by simp
    ultimately show ?thesis using assms(1) same_rest_refl by blast
  next
    case False
    let ?m = "opt (rd_device r) + opt (rd_context r) + opt (rd_swapChain r) + opts (rd_backBufferViews r)
       + opt (rd_videoDevice r) + opt (rd_videoContext r) + opt (rd_videoProcessor r) + opt (rd_videoEnumerator r)
       + opt (rd_inputView r) + opts ((rd_outputViews r)[?k := None]) + opt (rd_lastInputTexture r) + ext"
    have "opts (rd_outputViews r) = opt (rd_outputViews r ! ?k) + opts ((rd_outputViews r)[?k := None])"
      using opts_update [OF k(1), of None] by (simp add: ac_simps)
    then have "refs_live (opt (rd_outputViews r ! ?k) + ?m) h" using assms(1) by (simp add: base_ok_def objects_held_def ac_simps)
    from com_release_live [OF this] obtain h1 where h1: "com_release (rd_outputViews r ! ?k) h = Inr h1" "refs_live ?m h1" "same_rest h h1"
      by blast
    have beyond: "(rd_outputViews r)[?k := x] ! j = None" if "rd_bufferCount r \<le> j" "j < 8" for x j
      using assms(1,4) that by (auto simp: base_ok_def arrays_ok_def)
    have b1: "base_ok ext (h1, r\<lparr>rd_outputViews := (rd_outputViews r)[?k := None], rd_lastOutputTextures := ts\<rparr>)"
      if "length ts = 8" for ts
      using assms(1) h1(2,3) that beyond
      by (simp add: base_ok_def objects_held_def arrays_ok_def same_rest_def ac_simps)
    have calls: "com_call (rd_videoDevice r) h1 = Inr h1" "com_call (rd_videoEnumerator r) h1 = Inr h1"
      using call_held(4,7) [OF b1 [of "rd_lastOutputTextures r"]] assms(1-3) by (simp_all add: base_ok_def arrays_ok_def)
    obtain v h2 where v: "com_create h1 = (v, h2)" by (cases "com_create h1")
    have two: "refs_live (add_mset v ?m) h2" "same_rest h1 h2" using com_create_live [OF h1(2) v] by simp_all
    have "opts ((rd_outputViews r)[?k := Some v]) = add_mset v (opts ((rd_outputViews r)[?k := None]))"
      using opts_update [of ?k "(rd_outputViews r)[?k := None]" "Some v"] k(1) by simp
    then have b2: "base_ok ext (h2, r\<lparr>rd_outputViews := (rd_outputViews r)[?k := Some v],
        rd_lastOutputTextures := (rd_lastOutputTextures r)[?k := Some target]\<rparr>)" "same_rest h h2"
      using assms(1) two h1(3) beyond
      by (simp_all add: base_ok_def objects_held_def arrays_ok_def same_rest_def ac_simps)
    have len: "length (rd_lastOutputTextures r) = 8" using assms(1) by (simp add: base_ok_def arrays_ok_def)
    show ?thesis
    proof (cases "rv_outputView env")
      case True
      then have "renew_output_view env keep target (h, r) = Inr (h2, r\<lparr>rd_outputViews := (rd_outputViews r)[?k := Some v],
          rd_lastOutputTextures := (rd_lastOutputTextures r)[?k := Some target]\<rparr>)"
        using False h1(1) calls v k by (simp add: renew_output_view_def Let_def array_get_def array_set_def)
      then show ?thesis using b2 by blast
    next
      case no: False
      let ?ts = "if keep then rd_lastOutputTextures r else (rd_lastOutputTextures r)[?k := None]"
      have "base_ok ext (h1, r\<lparr>rd_outputViews := (rd_outputViews r)[?k := None], rd_lastOutputTextures := ?ts\<rparr>)"
        using len by (intro b1) simp
      moreover have "renew_output_view env keep target (h, r)
          = Inr (h1, r\<lparr>rd_outputViews := (rd_outputViews r)[?k := None], rd_lastOutputTextures := ?ts\<rparr>)"
        using False h1(1) calls k no by (simp add: renew_output_view_def Let_def array_get_def array_set_def)
      ultimately show ?thesis using h1(3) by blast
    qed
  qed
qed

lemma video_blt_ok:
  assumes "base_ok ext (h, r)" and "rd_videoContext r \<noteq> None" and "rd_videoProcessor r \<noteq> None"
    and "nat (rd_currentBufferIndex r) < 8"
  shows "\<exists>ok. video_blt env (h, r) = Inr (ok, h, r)"
  using call_held(5,6,8) [OF assms(1)] call_output(1) [OF assms(1,4)] assms
  by (auto simp: video_blt_def array_get_def base_ok_def arrays_ok_def)

lemma process_video_ok:
  assumes "base_ok ext (h, r)" and "drawable ext tex index r" and "tex \<in># ext \<or> made_for (td_size src, td_size dst) (h, r)"
    and "nat (rd_currentBufferIndex r) < rd_bufferCount r"
  shows "\<exists>ok h' r'. process_video env keep src dst tex index target (h, r) = Inr (ok, h', r') \<and> base_ok ext (h', r')
    \<and> drawable ext tex index r' \<and> made_for (td_size src, td_size dst) (h', r')"
proof -
  let ?sizes = "(td_size src, td_size dst)"
  obtain ok h1 r1 where s: "setup_video_processor env ?sizes (h, r) = Inr (ok, h1, r1)" "base_ok ext (h1, r1)"
    "drawable ext tex index r1" "made_for ?sizes (h1, r1)"
    "ok \<longrightarrow> rd_videoDevice r1 \<noteq> None \<and> rd_videoContext r1 \<noteq> None \<and> rd_videoProcessor r1 \<noteq> None \<and> rd_videoEnumerator r1 \<noteq> None"
    "rd_bufferCount r1 = rd_bufferCount r" "rd_currentBufferIndex r1 = rd_currentBufferIndex r"
    using setup_video_processor_ok [OF assms(1-3)] by blast
  show ?thesis
  proof (cases ok)
    case False
    then show ?thesis using s by (auto simp: process_video_def)
  next
    case True
    then have some: "rd_videoDevice r1 \<noteq> None" "rd_videoContext r1 \<noteq> None" "rd_videoProcessor r1 \<noteq> None" "rd_videoEnumerator r1 \<noteq> None"
      using s(5) by blast+
    obtain h2 v where i: "renew_input_view env tex index (h1, r1) = Inr (h2, r1\<lparr>rd_inputView := v\<rparr>)"
      "base_ok ext (h2, r1\<lparr>rd_inputView := v\<rparr>)" "same_rest h1 h2"
      using renew_input_view_ok [OF s(2,3) some(1,4)] by blast
    let ?r2 = "r1\<lparr>rd_inputView := v\<rparr>"
    have "nat (rd_currentBufferIndex ?r2) < rd_bufferCount ?r2" using assms(4) s(6,7) by simp
    from renew_output_view_ok [OF i(2) _ _ this, of env keep target] some
    obtain h3 vs ts where out: "renew_output_view env keep target (h2, ?r2) = Inr (h3, ?r2\<lparr>rd_outputViews := vs, rd_lastOutputTextures := ts\<rparr>)"
      "base_ok ext (h3, ?r2\<lparr>rd_outputViews := vs, rd_lastOutputTextures := ts\<rparr>)" "same_rest h2 h3" by auto
    let ?r3 = "?r2\<lparr>rd_outputViews := vs, rd_lastOutputTextures := ts\<rparr>"
    have "nat (rd_currentBufferIndex ?r3) < 8" using assms(4) s(6,7) out(2) by (simp add: base_ok_def arrays_ok_def)
    from video_blt_ok [OF out(2) _ _ this, of env] some
    obtain ok' where blt: "video_blt env (h3, ?r3) = Inr (ok', h3, ?r3)" by auto
    have "made_for ?sizes (h3, ?r3)" using s(4) i(3) out(3) by (simp add: made_for_def same_rest_def)
    moreover have "drawable ext tex index ?r3" using s(3) by (simp add: drawable_def)
    moreover have "process_video env keep src dst tex index target (h, r) = Inr (ok', h3, ?r3)"
      unfolding process_video_def s(1) fbind_simps prod.case using True i(1) out(1) blt by simp
    ultimately show ?thesis using out(2) by blast
  qed
qed

lemma draw_ok:
  assumes "base_ok ext (h, r)" and "drawable ext tex index r"
    and "tex \<in># ext \<or> copyable src dst \<or> made_for (td_size src, td_size dst) (h, r)"
    and "nat (rd_currentBufferIndex r) < rd_bufferCount r"
  shows "\<exists>h' r'. draw env src dst tex index target (h, r) = Inr (h', r') \<and> base_ok ext (h', r')
    \<and> drawable ext tex index r' \<and> (copyable src dst \<or> made_for (td_size src, td_size dst) (h', r'))"
proof (cases "copyable src dst")
  case True
  then show ?thesis using assms(1,2) call_held(2,9) [OF assms(1)] by (auto simp: draw_def copyable_def)
next
  case False
  obtain ok h1 r1 where p: "process_video env (td_format src \<noteq> NV12) src dst tex index target (h, r) = Inr (ok, h1, r1)"
    "base_ok ext (h1, r1)" "drawable ext tex index r1" "made_for (td_size src, td_size dst) (h1, r1)"
    using process_video_ok [OF assms(1,2) _ assms(4)] assms(3) False by blast
  show ?thesis
  proof (cases "td_format src = NV12")
    case True
    then show ?thesis using p by (simp add: draw_def)
  next
    case other: False
    then show ?thesis using False p call_held(2,9) [OF p(2)] by (cases ok) (auto simp: draw_def)
  qed
qed

lemma cache_texture_ok:
  assumes "base_ok ext (h, r)" and "drawable ext tex index r" and "copyable (desc tex) dst \<or> made_for (td_size (desc tex), td_size dst) (h, r)"
  shows "\<exists>h' r'. cache_texture tex index (h, r) = Inr (h', r') \<and> base_ok ext (h', r') \<and> cache_ok desc dst (h', r')"
proof (cases "rd_lastInputTexture r = Some tex \<and> rd_lastInputArrayIndex r = index")
  case True
  then show ?thesis using assms by (auto simp: cache_texture_def cache_ok_def)
next
  case False
  then have tex: "tex \<in># ext" using assms(2) by (auto simp: drawable_def)
  let ?m = "opt (rd_device r) + opt (rd_context r) + opt (rd_swapChain r) + opts (rd_backBufferViews r)
     + opt (rd_videoDevice r) + opt (rd_videoContext r) + opt (rd_videoProcessor r) + opt (rd_videoEnumerator r)
     + opt (rd_inputView r) + opts (rd_outputViews r) + ext"
  have "refs_live (opt (rd_lastInputTexture r) + ?m) h" using assms(1) by (simp add: base_ok_def objects_held_def ac_simps)
  from com_release_live [OF this] obtain h1 where h1: "com_release (rd_lastInputTexture r) h = Inr h1" "refs_live ?m h1" "same_rest h h1" by blast
  have b1: "base_ok ext (h1, r\<lparr>rd_lastInputTexture := None\<rparr>)"
    using assms(1) h1(2,3) by (simp add: base_ok_def objects_held_def arrays_ok_def same_rest_def ac_simps)
  have call: "com_call (Some tex) h1 = Inr h1" using call_held(9) [OF b1] tex by (simp add: drawable_def)
  let ?h2 = "h1\<lparr>cm_refs := add_mset tex (cm_refs h1)\<rparr>" and ?r2 = "r\<lparr>rd_lastInputTexture := Some tex, rd_lastInputArrayIndex := index\<rparr>"
  have "refs_live (add_mset tex ?m) ?h2" using live_addref [OF h1(2)] .
  then have "base_ok ext (?h2, ?r2)" using b1 by (simp add: base_ok_def objects_held_def arrays_ok_def ac_simps)
  moreover have "cache_ok desc dst (?h2, ?r2)"
    using assms(3) h1(3) by (auto simp: cache_ok_def made_for_def same_rest_def)
  ultimately show ?thesis using False h1(1) call by (auto simp: cache_texture_def com_addref_def)
qed

lemma base_ok_clamped:
  assumes "base_ok ext (h, r)"
  shows "base_ok ext (h, clamped r)" "nat (rd_currentBufferIndex (clamped r)) < rd_bufferCount (clamped r)"
    "rd_bufferCount (clamped r) \<le> 8"
  using assms by (auto simp: clamped_def clamp_index_def base_ok_def objects_held_def arrays_ok_def Let_def)

lemma clamped_same [simp]:
  "rd_lastInputTexture (clamped r) = rd_lastInputTexture r" "rd_lastInputArrayIndex (clamped r) = rd_lastInputArrayIndex r"
  "rd_videoProcessor (clamped r) = rd_videoProcessor r" "rd_videoEnumerator (clamped r) = rd_videoEnumerator r"
  "rd_backBufferViews (clamped r) = rd_backBufferViews r"
  by (simp_all add: clamped_def Let_def)

text \<open>All the back buffers have the description \<open>dst\<close>; a texture given by the caller is held by the caller.\<close>

definition render_ready :: "(nat \<Rightarrow> tex_desc) \<Rightarrow> tex_desc \<Rightarrow> nat multiset \<Rightarrow> com \<times> renderer \<Rightarrow> bool" where
  "render_ready desc dst ext s \<longleftrightarrow> base_ok ext s \<and> cache_ok desc dst s"

lemma render_ok:
  assumes "render_ready desc dst ext (h, r)"
    and "\<And>t. rv_backBuffer env = Some t \<Longrightarrow> desc t = dst"
    and "\<And>t i. texture = Some (t, i) \<Longrightarrow> t \<in># ext"
  shows "\<exists>ok h' r'. render desc env texture (h, r) = Inr (ok, h', r') \<and> render_ready desc dst ext (h', r')"
proof -
  note base = assms(1) [unfolded render_ready_def, THEN conjunct1] and cache = assms(1) [unfolded render_ready_def, THEN conjunct2]
  have some: "rd_context r \<noteq> None" "rd_swapChain r \<noteq> None" "rd_device r \<noteq> None" using base by (simp_all add: base_ok_def)
  define what where "what = (case texture of Some ti \<Rightarrow> Some ti
    | None \<Rightarrow> map_option (\<lambda>t. (t, rd_lastInputArrayIndex r)) (rd_lastInputTexture r))"
  note call = call_held [OF base]
  show ?thesis
  proof (cases "rv_removed env \<or> what = None")
    case True
    then show ?thesis using some call(1) assms(1) by (auto simp: render_def what_def)
  next
    case False
    then obtain tex index where w: "what = Some (tex, index)" by auto
    let ?r = "clamped r"
    note b = base_ok_clamped [OF base]
    have d: "drawable ext tex index ?r" using w assms(3) by (auto simp: what_def drawable_def split: option.splits)
    have m: "tex \<in># ext \<or> copyable (desc tex) dst \<or> made_for (td_size (desc tex), td_size dst) (h, ?r)"
      using w assms(3) cache by (auto simp: what_def cache_ok_def made_for_def split: option.splits)
    have ready: "render_ready desc dst ext (h, ?r)" using b(1) cache by (simp add: render_ready_def cache_ok_def made_for_def)
    show ?thesis
    proof (cases "rv_backBuffer env")
      case None
      then show ?thesis using False w some call(1) call_held(3,9) [OF b(1)] d ready
        by (auto simp: render_def what_def [symmetric] Let_def clamped_def)
    next
      case (Some target)
      then have dst: "desc target = dst" using assms(2) by blast
      from draw_ok [OF b(1) d m b(2), of env target]
      obtain h1 r1 where dr: "draw env (desc tex) dst tex index target (h, ?r) = Inr (h1, r1)" "base_ok ext (h1, r1)"
        "drawable ext tex index r1" "copyable (desc tex) dst \<or> made_for (td_size (desc tex), td_size dst) (h1, r1)" by blast
      obtain h2 r2 where c: "cache_texture tex index (h1, r1) = Inr (h2, r2)" "base_ok ext (h2, r2)" "cache_ok desc dst (h2, r2)"
        using cache_texture_ok [where desc = desc, OF dr(2-4)] by blast
      have "render desc env texture (h, r) = Inr (True, h2, r2)"
        using False some call(1) call_held(3,9) [OF b(1)] d
        by (simp add: render_def what_def [symmetric] w Some Let_def dst dr(1) c(1))
      then show ?thesis using c(2,3) by (auto simp: render_ready_def)
    qed
  qed
qed

lemma new_frame_ok:
  assumes "render_ready desc dst ext (h, r)"
  shows "\<exists>r'. new_frame removed index (h, r) = Inr (h, r') \<and> render_ready desc dst ext (h, r')"
proof -
  have base: "base_ok ext (h, r)" and imgui: "cm_imgui h" using assms by (simp_all add: render_ready_def base_ok_def)
  let ?r = "r\<lparr>rd_currentBufferIndex := clamp_index (rd_bufferCount r) (if 1 < rd_bufferCount r then (case index of Some k \<Rightarrow> k | None \<Rightarrow> 0) else 0)\<rparr>"
  let ?k = "nat (rd_currentBufferIndex ?r)"
  have k: "?k < 8" using base by (auto simp: clamp_index_def base_ok_def arrays_ok_def)
  have len: "length (rd_backBufferViews r) = 8" using base by (simp add: base_ok_def arrays_ok_def)
  have ready: "render_ready desc dst ext (h, ?r)"
    using assms by (simp add: render_ready_def base_ok_def objects_held_def arrays_ok_def cache_ok_def made_for_def)
  have call: "com_call (rd_device r) h = Inr h" "com_call (rd_context r) h = Inr h" "com_call (rd_swapChain r) h = Inr h"
    using call_held [OF base] by simp_all
  note view = call_output(2) [OF base k]
  show ?thesis
  proof (cases removed)
    case True
    then show ?thesis using assms call by (auto simp: new_frame_def)
  next
    case False
    have "new_frame removed index (h, r) = (if rd_swapChain r = None \<or> rd_context r = None \<or> rd_device r = None then Inr (h, r) else Inr (h, ?r))"
      using False call view k len imgui by (cases "rd_backBufferViews r ! ?k = None") (simp_all add: new_frame_def Let_def array_get_def)
    then show ?thesis using ready assms by simp
  qed
qed

lemma end_frame_ok:
  assumes "render_ready desc dst ext (h, r)"
  shows "\<exists>ok r'. end_frame removed presented (h, r) = Inr (ok, h, r') \<and> render_ready desc dst ext (h, r')"
proof -
  have base: "base_ok ext (h, r)" and imgui: "cm_imgui h" using assms by (simp_all add: render_ready_def base_ok_def)
  note b = base_ok_clamped [OF base]
  have k: "nat (rd_currentBufferIndex (clamped r)) < 8" using b(2,3) by simp
  have len: "length (rd_backBufferViews r) = 8" using base by (simp add: base_ok_def arrays_ok_def)
  have ready: "render_ready desc dst ext (h, clamped r)" using assms b(1) by (simp add: render_ready_def cache_ok_def made_for_def)
  have call: "com_call (rd_device r) h = Inr h" "com_call (rd_context (clamped r)) h = Inr h" "com_call (rd_swapChain (clamped r)) h = Inr h"
    using call_held(1) [OF base] call_held(2,3) [OF b(1)] by simp_all
  note view = call_output(2) [OF b(1) k]
  have some: "rd_swapChain r \<noteq> None \<and> rd_context r \<noteq> None \<and> rd_device r \<noteq> None" using base by (simp add: base_ok_def)
  show ?thesis
  proof (cases removed)
    case True
    then show ?thesis using assms call some by (auto simp: end_frame_def)
  next
    case False
    have "end_frame removed presented (h, r) = Inr (presented, h, clamped r)"
      using False call view k len imgui some
      by (auto simp: end_frame_def Let_def array_get_def)
    then show ?thesis using ready by simp
  qed
qed

subsection \<open>From Initialize to Shutdown\<close>

text \<open>The first \<open>i\<close> buffers may have views.\<close>

definition half_ok :: "nat \<Rightarrow> nat multiset \<Rightarrow> com \<times> renderer \<Rightarrow> bool" where
  "half_ok i ext = (\<lambda>(h, r). refs_live (objects_held r + ext) h \<and> arrays_ok (r\<lparr>rd_bufferCount := i\<rparr>) \<and> rd_bufferCount r \<le> 8
     \<and> rd_device r \<noteq> None \<and> rd_context r \<noteq> None \<and> rd_swapChain r \<noteq> None \<and> rd_videoProcessor r = None
     \<and> rd_lastInputTexture r = None)"

lemma half_ok_calls:
  assumes "half_ok i ext (h, r)"
  shows "com_call (rd_device r) h = Inr h" "com_call (rd_swapChain r) h = Inr h"
proof -
  have "set_mset (objects_held r + ext) \<subseteq> set_mset (cm_refs h)" using assms by (auto simp: half_ok_def refs_live_def dest: mset_subset_eqD)
  then show "com_call (rd_device r) h = Inr h" "com_call (rd_swapChain r) h = Inr h"
    using assms by (auto simp: half_ok_def objects_held_def com_call_def)
qed

lemma make_views_ok:
  assumes "half_ok i ext (h, r)" and "i \<le> n" and "n \<le> rd_bufferCount r"
  shows "\<exists>ok h' r'. make_views buffers [i..<n] (h, r) = Inr (ok, h', r')
    \<and> (ok \<longrightarrow> rd_bufferCount r = n \<longrightarrow> half_ok (rd_bufferCount r') ext (h', r'))"
  using assms
proof (induction "n - i" arbitrary: i h r)
  case (Suc d)
  then have "[i..<n] = i # [Suc i..<n]" by (simp add: upt_conv_Cons)
  moreover obtain buffer view where bv: "buffers i = (buffer, view)" by fastforce
  moreover note calls = half_ok_calls [OF Suc.prems(1)]
  have i: "i < 8" "length (rd_backBufferViews r) = 8" "rd_backBufferViews r ! i = None"
    using Suc.prems Suc.hyps(2) by (auto simp: half_ok_def arrays_ok_def)
  obtain v h1 where v: "com_create h = (v, h1)" by (cases "com_create h")
  let ?r = "r\<lparr>rd_backBufferViews := (rd_backBufferViews r)[i := Some v]\<rparr>"
  have "opts ((rd_backBufferViews r)[i := Some v]) = add_mset v (opts (rd_backBufferViews r))"
    using opts_update [of i "rd_backBufferViews r" "Some v"] i by simp
  then have "half_ok (Suc i) ext (h1, ?r)"
    using Suc.prems(1) com_create_live [of _ h v h1, OF _ v, of "objects_held r + ext"] i
    by (auto simp: half_ok_def objects_held_def arrays_ok_def ac_simps nth_list_update)
  have "d = n - Suc i" "Suc i \<le> n" "n \<le> rd_bufferCount ?r" using Suc.hyps(2) Suc.prems(2,3) by simp_all
  from Suc.hyps(1) [OF this(1) \<open>half_ok (Suc i) ext (h1, ?r)\<close> this(2,3)]
  obtain ok h' r' where "make_views buffers [Suc i..<n] (h1, ?r) = Inr (ok, h', r')"
    "ok \<longrightarrow> rd_bufferCount r = n \<longrightarrow> half_ok (rd_bufferCount r') ext (h', r')" by auto
  moreover have "half_ok i ext (h, r\<lparr>rd_bufferCount := i\<rparr>)"
    using Suc.prems(1) i(1) by (auto simp: half_ok_def objects_held_def arrays_ok_def)
  ultimately show ?case using calls i v by (cases buffer; cases view) (auto simp: array_set_def)
qed auto

lemma renderer_initialize_ok:
  assumes "refs_live ext h"
  shows "\<exists>ok h' r'. d3d_initialize env (h, renderer_new) = Inr (ok, h', r') \<and> (ok \<longrightarrow> render_ready desc dst ext (h', r'))"
proof (cases "ie_hwnd env \<and> first_option (ie_fallbacks env) swap_chain_options \<noteq> None")
  case False
  then have "d3d_initialize env (h, renderer_new) = Inr (False, h, renderer_new)"
    by (cases "ie_hwnd env") (auto simp: d3d_initialize_def split: option.split)
  then show ?thesis by auto
next
  case True
  then obtain bs t where o: "first_option (ie_fallbacks env) swap_chain_options = Some (bs, t)" by fastforce
  have bs: "bs \<le> 2" using o
  proof -
    have "first_option oks xs = Some x \<Longrightarrow> x \<in> set xs" for oks xs x
      by (induction oks xs rule: first_option.induct) (auto split: if_splits)
    from this [OF o] show ?thesis by (auto simp: swap_chain_options_def)
  qed
  obtain sc h1 where h1: "com_create h = (sc, h1)" by (cases "com_create h")
  obtain dev h2 where h2: "com_create h1 = (dev, h2)" by (cases "com_create h1")
  obtain ctx h3 where h3: "com_create h2 = (ctx, h3)" by (cases "com_create h2")
  have l: "refs_live (add_mset ctx (add_mset dev (add_mset sc ext))) h3"
    using com_create_live assms h1 h2 h3 by blast
  define n where "n = (case ie_actualCount env of Some n \<Rightarrow> min n 8 | None \<Rightarrow> bs)"
  let ?r = "renderer_new\<lparr>rd_swapChain := Some sc, rd_device := Some dev, rd_context := Some ctx, rd_bufferCount := n,
    rd_tearingSupported := t\<rparr>"
  have "n \<le> 8" using bs by (simp add: n_def split: option.split)
  then have "half_ok 0 ext (h3, ?r)" using l by (simp add: half_ok_def objects_held_def arrays_ok_def renderer_new_def add_mset_commute)
  from make_views_ok [OF this, of n "ie_buffers env"]
  obtain ok h' r' where m: "make_views (ie_buffers env) [0..<n] (h3, ?r) = Inr (ok, h', r')"
    "ok \<longrightarrow> half_ok (rd_bufferCount r') ext (h', r')" by auto
  have "d3d_initialize env (h, renderer_new) = (if ok then Inr (True, h'\<lparr>cm_imgui := True\<rparr>, r') else Inr (False, h', r'))"
    using True m(1) by (simp add: d3d_initialize_def o h1 h2 h3 Let_def n_def)
  moreover have "ok \<Longrightarrow> render_ready desc dst ext (h'\<lparr>cm_imgui := True\<rparr>, r')"
    using m(2) by (simp add: half_ok_def render_ready_def base_ok_def cache_ok_def refs_live_def)
  ultimately show ?thesis by (cases ok) auto
qed

text \<open>What the client's loop does with the renderer; the environment takes and gives up references (the decoder's
  textures, the buffers of the swap chain).\<close>

datatype render_op = NewFrame bool "int option" | EndFrame bool bool | Render render_env "(nat \<times> int) option" | Take nat | Give nat

fun render_step :: "(nat \<Rightarrow> tex_desc) \<Rightarrow> render_op \<Rightarrow> com \<times> renderer \<Rightarrow> fault + (com \<times> renderer)" where
  "render_step desc (NewFrame removed index) s = new_frame removed index s"
| "render_step desc (EndFrame removed presented) s = fbind (end_frame removed presented s) (\<lambda>(ok, s). Inr s)"
| "render_step desc (Render env texture) s = fbind (render desc env texture s) (\<lambda>(ok, s). Inr s)"
| "render_step desc (Take i) (h, r) = Inr (h\<lparr>cm_refs := add_mset i (cm_refs h)\<rparr>, r)"
| "render_step desc (Give i) (h, r) = fbind (com_release (Some i) h) (\<lambda>h. Inr (h, r))"

fun renderer_run :: "(nat \<Rightarrow> tex_desc) \<Rightarrow> render_op list \<Rightarrow> com \<times> renderer \<Rightarrow> fault + (com \<times> renderer)" where
  "renderer_run desc [] s = Inr s"
| "renderer_run desc (x # xs) s = fbind (render_step desc x s) (renderer_run desc xs)"

text \<open>The environment gives up references it holds, and hands over textures it holds, as the decoder does.\<close>

fun env_ok :: "(nat \<Rightarrow> tex_desc) \<Rightarrow> tex_desc \<Rightarrow> nat multiset \<Rightarrow> render_op list \<Rightarrow> bool" where
  "env_ok desc dst ext [] = True"
| "env_ok desc dst ext (Take i # xs) = env_ok desc dst (add_mset i ext) xs"
| "env_ok desc dst ext (Give i # xs) = (i \<in># ext \<and> env_ok desc dst (ext - {#i#}) xs)"
| "env_ok desc dst ext (Render env texture # xs) =
     ((case texture of None \<Rightarrow> True | Some (t, i) \<Rightarrow> t \<in># ext)
      \<and> (case rv_backBuffer env of None \<Rightarrow> True | Some t \<Rightarrow> desc t = dst) \<and> env_ok desc dst ext xs)"
| "env_ok desc dst ext (_ # xs) = env_ok desc dst ext xs"

lemma take_ok:
  assumes "render_ready desc dst ext (h, r)"
  shows "render_ready desc dst (add_mset i ext) (h\<lparr>cm_refs := add_mset i (cm_refs h)\<rparr>, r)"
  using assms by (simp add: render_ready_def base_ok_def refs_live_def cache_ok_def made_for_def)

lemma give_ok:
  assumes "render_ready desc dst ext (h, r)" and "i \<in># ext"
  shows "\<exists>h'. com_release (Some i) h = Inr h' \<and> render_ready desc dst (ext - {#i#}) (h', r)"
proof -
  have "refs_live (opt (Some i) + (objects_held r + (ext - {#i#}))) h"
    using assms by (simp add: render_ready_def base_ok_def)
  from com_release_live [OF this] obtain h' where "com_release (Some i) h = Inr h'" "refs_live (objects_held r + (ext - {#i#})) h'" "same_rest h h'"
    by blast
  then show ?thesis using assms(1) by (auto simp: render_ready_def base_ok_def cache_ok_def same_rest_def made_for_def)
qed

lemma render_run_ok:
  assumes "render_ready desc dst ext s" and "env_ok desc dst ext xs"
  shows "\<exists>s' ext'. renderer_run desc xs s = Inr s' \<and> render_ready desc dst ext' s'"
  using assms
proof (induction xs arbitrary: ext s)
  case (Cons x xs)
  obtain h r where s: "s = (h, r)" by (cases s)
  note ready = Cons.prems(1) [unfolded s]
  have "\<exists>s1 ext1. render_step desc x s = Inr s1 \<and> render_ready desc dst ext1 s1 \<and> env_ok desc dst ext1 xs"
  proof (cases x)
    case (NewFrame removed index)
    then show ?thesis using new_frame_ok [OF ready, of removed index] Cons.prems(2) s by auto
  next
    case (EndFrame removed presented)
    then show ?thesis using end_frame_ok [OF ready, of removed presented] Cons.prems(2) s by auto
  next
    case (Render env texture)
    have "\<exists>ok h' r'. render desc env texture (h, r) = Inr (ok, h', r') \<and> render_ready desc dst ext (h', r')"
      by (rule render_ok [OF ready]) (use Render Cons.prems(2) in \<open>auto split: option.splits\<close>)
    then show ?thesis using Render Cons.prems(2) s by auto
  next
    case (Take i)
    then show ?thesis using take_ok [OF ready, of i] Cons.prems(2) s by auto
  next
    case (Give i)
    then show ?thesis using give_ok [OF ready, of i] Cons.prems(2) s by auto
  qed
  then obtain s1 ext1 where "render_step desc x s = Inr s1" "render_ready desc dst ext1 s1" "env_ok desc dst ext1 xs" by blast
  then show ?case using Cons.IH by simp
qed auto

lemma opts_take_all:
  assumes "length ps = 8" and "\<And>k. n \<le> k \<and> k < 8 \<Longrightarrow> ps ! k = None"
  shows "opts (take n ps) = opts ps"
proof -
  have "drop n ps = replicate (length ps - n) None" using assms by (intro nth_equalityI) auto
  then show ?thesis using opts_take_drop [of ps n] by simp
qed

lemma shutdown_ok:
  assumes "base_ok ext (h, r)"
  shows "\<exists>h' r'. renderer_shutdown (h, r) = Inr (h', r') \<and> refs_live ext h'"
proof -
  let ?gone = "[rd_inputView r, rd_lastInputTexture r] @ take (rd_bufferCount r) (rd_outputViews r)
         @ [rd_videoProcessor r, rd_videoEnumerator r, rd_videoContext r, rd_videoDevice r]
         @ take (rd_bufferCount r) (rd_backBufferViews r) @ [rd_swapChain r, rd_context r, rd_device r]"
  have "opts (take (rd_bufferCount r) (rd_outputViews r)) = opts (rd_outputViews r)"
    "opts (take (rd_bufferCount r) (rd_backBufferViews r)) = opts (rd_backBufferViews r)"
    using assms by (auto simp: base_ok_def arrays_ok_def intro!: opts_take_all)
  then have "opts ?gone = objects_held r" by (simp add: objects_held_def ac_simps)
  then have "refs_live (opts ?gone + ext) (h\<lparr>cm_imgui := False\<rparr>)" using assms by (simp add: base_ok_def refs_live_def)
  from com_release_all_live [OF this] obtain h' where "com_release_all ?gone (h\<lparr>cm_imgui := False\<rparr>) = Inr h'" "refs_live ext h'" by blast
  then show ?thesis using assms unfolding renderer_shutdown_def by (simp add: base_ok_def)
qed

text \<open>From a successful initialisation to its shutdown the renderer calls no object whose reference it gave up, no null
  pointer and no array out of its bounds, whatever Direct3D answers and whatever the order of frames and redraws, while
  the textures it is given are alive and the back buffers all have one size and format; the initialisation itself never faults.\<close>

lemma renderer_first_life_safe:
  assumes "refs_live ext h" and "env_ok desc dst ext xs"
  shows "case d3d_initialize env (h, renderer_new) of Inl _ \<Rightarrow> False
    | Inr (ok, s) \<Rightarrow> ok \<longrightarrow> (\<exists>s' s''. renderer_run desc xs s = Inr s' \<and> renderer_shutdown s' = Inr s'')"
proof -
  from renderer_initialize_ok [OF assms(1)] obtain ok h' r' where i: "d3d_initialize env (h, renderer_new) = Inr (ok, h', r')"
    "ok \<longrightarrow> render_ready desc dst ext (h', r')" by blast
  have "\<exists>s' s''. renderer_run desc xs (h', r') = Inr s' \<and> renderer_shutdown s' = Inr s''" if ok
  proof -
    obtain s' ext' where "renderer_run desc xs (h', r') = Inr s'" "render_ready desc dst ext' s'"
      using render_run_ok [OF _ assms(2)] i(2) \<open>ok\<close> by blast
    then show ?thesis using shutdown_ok [of ext' "fst s'" "snd s'"] by (auto simp: render_ready_def)
  qed
  then show ?thesis by (simp add: i(1))
qed

subsection \<open>A renderer that is initialised again\<close>

text \<open>Shutdown keeps the pointer to the video device whose reference it gave up. If the object went with it, the next
  Shutdown, after another successful initialisation, releases it once more.\<close>

lemma shutdown_keeps_video_device:
  "renderer_shutdown (h, r) = Inr (h', r') \<Longrightarrow> rd_videoDevice r' = rd_videoDevice r
     \<and> rd_videoContext r' = rd_videoContext r \<and> rd_videoProcessor r' = rd_videoProcessor r
     \<and> rd_videoEnumerator r' = rd_videoEnumerator r"
  by (auto simp: renderer_shutdown_def fbind_Inr_iff split: if_splits)

lemma shutdown_without_context:
  "\<not> cm_imgui h \<Longrightarrow> renderer_shutdown (h, r) = Inl NullDeref"
  by (simp add: renderer_shutdown_def)

lemma failed_initialize_crashes:
  assumes "d3d_initialize env (h, r) = Inr (False, h', r')" and "\<not> cm_imgui h"
  shows "renderer_shutdown (h', r') = Inl NullDeref"
proof -
  have views: "make_views b is (g, q) = Inr (ok, g', q') \<Longrightarrow> cm_imgui g' = cm_imgui g" for b "is" g q ok g' q'
    by (induction "is" arbitrary: g q)
      (auto simp: com_call_def com_create_def array_set_def split: if_splits option.splits prod.splits)
  have "\<not> cm_imgui h'"
    using assms by (auto simp: d3d_initialize_def com_create_def Let_def fbind_Inr_iff split: if_splits option.splits dest!: views)
  then show ?thesis by (rule shutdown_without_context)
qed

definition good_start :: init_env where
  "good_start = \<lparr>ie_hwnd = True, ie_clientRect = Some (1280, 720), ie_fallbacks = [True], ie_actualCount = Some 2,
     ie_buffers = (\<lambda>_. (True, True))\<rparr>"

definition good_draw :: render_env where
  "good_draw = \<lparr>rv_removed = False, rv_backBuffer = Some 100, rv_videoDevice = True, rv_videoContext = True, rv_enumerator = True,
     rv_processor = True, rv_inputView = True, rv_outputView = True, rv_blt = True\<rparr>"

definition no_objects :: com where
  "no_objects = \<lparr>cm_refs = {#99#}, cm_next = 0, cm_content = (\<lambda>_. ((0, 0), (0, 0))), cm_imgui = False\<rparr>"

definition one_life :: "com \<times> renderer \<Rightarrow> fault + (com \<times> renderer)" where
  "one_life s = fbind (d3d_initialize good_start s) (\<lambda>(ok, s).
     fbind (renderer_run (\<lambda>t. \<lparr>td_size = (1280, 720), td_format = (if t = 99 then NV12 else 28), td_arraySize = 1\<rparr>)
       [NewFrame False (Some 0), Render good_draw (Some (99, 0)), EndFrame False True] s) renderer_shutdown)"

text \<open>One life ends well; the second one, after a lost device, does not.\<close>

lemma renderer_first_life_safe_witness:
  "case d3d_initialize good_start (no_objects, renderer_new) of Inl _ \<Rightarrow> False
    | Inr (ok, s) \<Rightarrow> ok \<longrightarrow> (\<exists>s' s''. renderer_run (\<lambda>t. \<lparr>td_size = (1280, 720), td_format = (if t = 99 then NV12 else 28), td_arraySize = 1\<rparr>)
        [NewFrame False (Some 0), Render good_draw (Some (99, 0)), EndFrame False True] s = Inr s' \<and> renderer_shutdown s' = Inr s'')"
  by (rule renderer_first_life_safe [of "{#99#}" _ _ "\<lparr>td_size = (1280, 720), td_format = 28, td_arraySize = 1\<rparr>"])
    (simp_all add: refs_live_def no_objects_def good_draw_def)

lemma one_life_fine: "case one_life (no_objects, renderer_new) of Inl f \<Rightarrow> False | Inr (h, r) \<Rightarrow> cm_refs h = {#99#}"
  by code_simp

lemma second_life_faults:
  "case fbind (one_life (no_objects, renderer_new)) one_life of Inl f \<Rightarrow> f = UseAfterFree | Inr s \<Rightarrow> False"
  by code_simp

text \<open>A processor that cannot be created leaves its enumerator, which the next try overwrites: a reference is lost each time.\<close>

lemma failed_processor_leaks:
  assumes "com_call (rd_videoDevice r) h = Inr h" and "rv_enumerator env" and "\<not> rv_processor env"
  shows "\<exists>h' r'. make_processor env sizes (h, r) = Inr (False, h', r') \<and> cm_refs h' = add_mset (cm_next h) (cm_refs h)
    \<and> rd_videoProcessor r' = None \<and> rd_videoEnumerator r' = Some (cm_next h)"
  using assms by (simp add: make_processor_def com_create_def Let_def)

end
