(* ===== verification/ScreenCapture.thy ===== *)
theory ScreenCapture
  imports Com
begin

text \<open>
  \<open>Host::CaptureDXGI\<close> (\<open>cpp/host/capture_dxgi.cpp\<close>): the references it takes and gives up, and what its
  callers are left with. What DXGI answers is an argument.
\<close>

record capture =
  ca_device :: "nat option"
  ca_context :: "nat option"
  ca_dupl :: "nat option"

definition screen_new :: capture where
  "screen_new = \<lparr>ca_device = None, ca_context = None, ca_dupl = None\<rparr>"

section \<open>Operations\<close>

definition capture_cleanup :: "com \<times> capture \<Rightarrow> fault + (com \<times> capture)" where
  "capture_cleanup = (\<lambda>(h, c).
     fbind (com_release_all [ca_dupl c, ca_context c, ca_device c] h) (\<lambda>h. Inr (h, screen_new)))"

text \<open>What the calls of \<open>Initialize\<close> answer.\<close>

record dxgi_env =
  dx_removed :: bool
  dx_factory :: bool
  dx_adapter :: bool
  dx_device :: bool
  dx_output :: bool
  dx_output1 :: bool
  dx_duplicate :: bool

definition capture_device :: "bool \<Rightarrow> com \<times> capture \<Rightarrow> bool \<times> com \<times> capture" where
  "capture_device ok = (\<lambda>(h, c).
     if ca_device c \<noteq> None then (True, h, c)
     else if \<not> ok then (False, h, c)
     else let (d, h) = com_create h; (x, h) = com_create h in (True, h, c\<lparr>ca_device := Some d, ca_context := Some x\<rparr>))"

definition duplicate_output :: "dxgi_env \<Rightarrow> nat \<Rightarrow> com \<times> capture \<Rightarrow> fault + (bool \<times> com \<times> capture)" where
  "duplicate_output env adapter = (\<lambda>(h, c).
     fbind (com_call (Some adapter) h) (\<lambda>h.
     let (out, h) = (if dx_output env then map_prod Some id (com_create h) else (None, h)) in
     fbind (com_release (Some adapter) h) (\<lambda>h.
     if \<not> dx_output env then Inr (False, h, c)
     else fbind (com_call out h) (\<lambda>h.
       let (out1, h) = (if dx_output1 env then map_prod Some id (com_create h) else (None, h)) in
       fbind (com_release out h) (\<lambda>h.
       if \<not> dx_output1 env then Inr (False, h, c)
       else fbind (com_call out1 h) (\<lambda>h. fbind (com_call (ca_device c) h) (\<lambda>h.
         let (dupl, h) = (if dx_duplicate env then map_prod Some id (com_create h) else (None, h)) in
         fbind (com_release out1 h) (\<lambda>h. Inr (dx_duplicate env, h, c\<lparr>ca_dupl := dupl\<rparr>)))))))))"

definition screen_initialize :: "dxgi_env \<Rightarrow> com \<times> capture \<Rightarrow> fault + (bool \<times> com \<times> capture)" where
  "screen_initialize env = (\<lambda>(h, c).
     fbind (com_release (ca_dupl c) h) (\<lambda>h.
     let c = c\<lparr>ca_dupl := None\<rparr> in
     fbind (if ca_device c = None then Inr (h, c)
       else fbind (com_call (ca_device c) h) (\<lambda>h. if dx_removed env then capture_cleanup (h, c) else Inr (h, c))) (\<lambda>(h, c).
     if \<not> dx_factory env then Inr (False, h, c)
     else let (factory, h) = com_create h in
       fbind (com_call (Some factory) h) (\<lambda>h.
       let (adapter, h) = (if dx_adapter env then map_prod Some id (com_create h) else (None, h)) in
       fbind (com_release (Some factory) h) (\<lambda>h.
       case adapter of None \<Rightarrow> Inr (False, h, c)
       | Some a \<Rightarrow>
           (let (ok, h, c) = capture_device (dx_device env) (h, c) in
            if \<not> ok then fbind (com_release (Some a) h) (\<lambda>h. Inr (False, h, c))
            else duplicate_output env a (h, c)))))))"

text \<open>\<open>AcquireNextFrame\<close> and the query for the texture; \<open>AccessLost\<close> stands for the three results that mean it.\<close>

datatype acquire_result = Acquired bool | TimedOut | AccessLost

definition capture_acquire :: "bool \<Rightarrow> acquire_result \<Rightarrow> com \<times> capture \<Rightarrow> fault + (nat option \<times> com \<times> capture)" where
  "capture_acquire removed result = (\<lambda>(h, c).
     if ca_dupl c = None then Inr (None, h, c)
     else fbind (if ca_device c = None then Inr h else com_call (ca_device c) h) (\<lambda>h.
       if ca_device c \<noteq> None \<and> removed then fbind (capture_cleanup (h, c)) (\<lambda>s. Inr (None, s))
       else fbind (com_call (ca_dupl c) h) (\<lambda>h.
         case result of
           AccessLost \<Rightarrow> fbind (capture_cleanup (h, c)) (\<lambda>s. Inr (None, s))
         | TimedOut \<Rightarrow> Inr (None, h, c)
         | Acquired texture \<Rightarrow>
             (let (desktop, h) = com_create h in
              fbind (com_call (Some desktop) h) (\<lambda>h.
              let (tex, h) = (if texture then map_prod Some id (com_create h) else (None, h)) in
              fbind (com_release (Some desktop) h) (\<lambda>h. Inr (tex, h, c)))))))"

definition capture_release_frame :: "com \<times> capture \<Rightarrow> fault + (com \<times> capture)" where
  "capture_release_frame = (\<lambda>(h, c). if ca_dupl c = None then Inr (h, c) else fbind (com_call (ca_dupl c) h) (\<lambda>h. Inr (h, c)))"

section \<open>References\<close>

definition capture_objects :: "capture \<Rightarrow> nat multiset" where
  "capture_objects c = opt (ca_dupl c) + opt (ca_context c) + opt (ca_device c)"

text \<open>There are no references but the capture's and \<open>ext\<close>.\<close>

definition capture_ok :: "nat multiset \<Rightarrow> com \<times> capture \<Rightarrow> bool" where
  "capture_ok ext = (\<lambda>(h, c). cm_refs h = capture_objects c + ext \<and> (ca_dupl c \<noteq> None \<longrightarrow> ca_device c \<noteq> None) \<and> (ca_device c = None \<longrightarrow> ca_context c = None))"

lemma release_exact: "cm_refs h = opt p + m \<Longrightarrow> com_release p h = Inr (h\<lparr>cm_refs := m\<rparr>)"
  by (cases p) (auto simp: com_release_def com_call_def)

lemma release_all_exact: "cm_refs h = opts ps + m \<Longrightarrow> com_release_all ps h = Inr (h\<lparr>cm_refs := m\<rparr>)"
proof (induction ps arbitrary: h)
  case (Cons p ps)
  then have "com_release p h = Inr (h\<lparr>cm_refs := opts ps + m\<rparr>)" by (intro release_exact) (simp add: ac_simps)
  then show ?case using Cons.IH [of "h\<lparr>cm_refs := opts ps + m\<rparr>"] by simp
qed simp

lemma call_exact: "p \<noteq> None \<Longrightarrow> cm_refs h = opt p + m \<Longrightarrow> com_call p h = Inr h"
  by (auto simp: com_call_def)

lemma create_exact: "cm_refs h = m \<Longrightarrow> com_create h = (i, h') \<Longrightarrow> cm_refs h' = add_mset i m"
  by (auto simp: com_create_def)

lemma cleanup_ok:
  assumes "capture_ok ext (h, c)"
  shows "capture_cleanup (h, c) = Inr (h\<lparr>cm_refs := ext\<rparr>, screen_new)"
proof -
  have "cm_refs h = opts [ca_dupl c, ca_context c, ca_device c] + ext"
    using assms by (simp add: capture_ok_def capture_objects_def ac_simps)
  then show ?thesis by (simp only: capture_cleanup_def prod.case release_all_exact fbind_simps)
qed

lemma release_frame_ok: "capture_ok ext (h, c) \<Longrightarrow> capture_release_frame (h, c) = Inr (h, c)"
  by (auto simp: capture_release_frame_def capture_ok_def capture_objects_def com_call_def)

lemma screen_new_ok: "cm_refs h = ext \<Longrightarrow> capture_ok ext (h, screen_new)"
  by (simp add: capture_ok_def capture_objects_def screen_new_def)

text \<open>A frame that is acquired leaves its caller with a reference to its texture.\<close>

lemma acquire_ok:
  assumes "capture_ok ext (h, c)"
  shows "\<exists>tex h' c'. capture_acquire removed result (h, c) = Inr (tex, h', c') \<and> capture_ok (opt tex + ext) (h', c')"
proof (cases "ca_dupl c = None")
  case True
  then show ?thesis using assms by (simp add: capture_acquire_def)
next
  case False
  then have dev: "ca_device c \<noteq> None" using assms by (simp add: capture_ok_def)
  have calls: "com_call (ca_device c) h = Inr h" "com_call (ca_dupl c) h = Inr h"
    using assms False dev by (auto simp: com_call_def capture_ok_def capture_objects_def)
  note clean = cleanup_ok [OF assms]
  have new: "capture_ok ext (h\<lparr>cm_refs := ext\<rparr>, screen_new)" by (simp add: screen_new_ok)
  show ?thesis
  proof (cases "removed \<or> result = AccessLost")
    case True
    then show ?thesis using False dev calls clean new by (auto simp: capture_acquire_def)
  next
    case neither: False
    show ?thesis
    proof (cases result)
      case (Acquired texture)
      then show ?thesis using False dev calls neither assms
        by (auto simp: capture_acquire_def com_create_def com_call_def com_release_def Let_def capture_ok_def)
    qed (use False dev calls neither assms in \<open>auto simp: capture_acquire_def\<close>)
  qed
qed

lemma capture_device_ok:
  assumes "capture_ok ext (h, c)" and "capture_device ok (h, c) = (b, h', c')"
  shows "capture_ok ext (h', c')" "b \<Longrightarrow> ca_device c' \<noteq> None" "ca_dupl c' = ca_dupl c"
  using assms by (auto simp: capture_device_def capture_ok_def capture_objects_def com_create_def Let_def split: if_splits)

lemma duplicate_output_ok:
  assumes "capture_ok (add_mset a ext) (h, c)" and "ca_device c \<noteq> None" and "ca_dupl c = None"
  shows "\<exists>ok h' c'. duplicate_output env a (h, c) = Inr (ok, h', c') \<and> capture_ok ext (h', c') \<and> (ok \<longrightarrow> ca_dupl c' \<noteq> None)"
proof -
  let ?m = "capture_objects c + ext"
  have m: "cm_refs h = add_mset a ?m" using assms(1) by (simp add: capture_ok_def)
  have dev: "com_call (ca_device c) h' = Inr h'" if "capture_objects c \<subseteq># cm_refs h'" for h'
    using that assms(2) by (auto simp: com_call_def capture_objects_def dest: mset_subset_eqD)
  have kept: "capture_ok ext (h'\<lparr>cm_refs := ?m\<rparr>, c)" for h' using assms(1) by (simp add: capture_ok_def)
  have gone: "com_release (Some i) h' = Inr (h'\<lparr>cm_refs := m'\<rparr>)" "com_call (Some i) h' = Inr h'" if "cm_refs h' = add_mset i m'" for i h' m'
    using that release_exact [of h' "Some i" m'] by (simp_all add: com_call_def)
  obtain o1 h1 where o1: "com_create h = (o1, h1)" by (cases "com_create h")
  have m1: "cm_refs h1 = add_mset o1 (add_mset a ?m)" using o1 m by (auto simp: com_create_def)
  let ?h1 = "h1\<lparr>cm_refs := add_mset o1 ?m\<rparr>"
  obtain o2 h2 where o2: "com_create ?h1 = (o2, h2)" by (cases "com_create ?h1")
  have m2: "cm_refs h2 = add_mset o2 (add_mset o1 ?m)" using o2 by (auto simp: com_create_def)
  let ?h2 = "h2\<lparr>cm_refs := add_mset o2 ?m\<rparr>"
  obtain o3 h3 where o3: "com_create ?h2 = (o3, h3)" by (cases "com_create ?h2")
  have m3: "cm_refs h3 = add_mset o3 (add_mset o2 ?m)" using o3 by (auto simp: com_create_def)
  have r: "com_call (Some a) h = Inr h" "com_release (Some a) h = Inr (h\<lparr>cm_refs := ?m\<rparr>)"
    "com_release (Some a) h1 = Inr ?h1" "com_call (Some o1) ?h1 = Inr ?h1" "com_release (Some o1) ?h1 = Inr (h1\<lparr>cm_refs := ?m\<rparr>)"
    "com_release (Some o1) h2 = Inr ?h2" "com_call (Some o2) ?h2 = Inr ?h2" "com_release (Some o2) ?h2 = Inr (h2\<lparr>cm_refs := ?m\<rparr>)"
    "com_release (Some o2) h3 = Inr (h3\<lparr>cm_refs := add_mset o3 ?m\<rparr>)"
    using m m1 m2 m3 gone(1) [of _ _ ?m] gone(1) [of _ _ "add_mset _ ?m"] gone(2) by (simp_all add: add_mset_commute)
  have d: "com_call (ca_device c) ?h2 = Inr ?h2" by (rule dev) simp
  have last: "capture_ok ext (h3\<lparr>cm_refs := add_mset o3 ?m\<rparr>, c\<lparr>ca_dupl := Some o3\<rparr>)"
    using assms by (auto simp: capture_ok_def capture_objects_def)
  have same: "c\<lparr>ca_dupl := None\<rparr> = c" using assms(3) by simp
  show ?thesis
    using kept last assms(3)
    by (cases "dx_output env"; cases "dx_output1 env"; cases "dx_duplicate env")
      (auto simp: duplicate_output_def Let_def r d o1 o2 o3 same)
qed

lemma screen_initialize_ok:
  assumes "capture_ok ext (h, c)"
  shows "\<exists>ok h' c'. screen_initialize env (h, c) = Inr (ok, h', c') \<and> capture_ok ext (h', c') \<and> (ok \<longrightarrow> ca_dupl c' \<noteq> None)"
proof -
  let ?c1 = "c\<lparr>ca_dupl := None\<rparr>" and ?m = "opt (ca_context c) + opt (ca_device c) + ext"
  have "cm_refs h = opt (ca_dupl c) + ?m" using assms by (simp add: capture_ok_def capture_objects_def ac_simps)
  note r1 = release_exact [OF this]
  let ?h1 = "h\<lparr>cm_refs := ?m\<rparr>"
  have ok1: "capture_ok ext (?h1, ?c1)" using assms by (simp add: capture_ok_def capture_objects_def)
  have "\<exists>h2 c2. (if ca_device ?c1 = None then Inr (?h1, ?c1)
      else fbind (com_call (ca_device ?c1) ?h1) (\<lambda>h. if dx_removed env then capture_cleanup (h, ?c1) else Inr (h, ?c1))) = Inr (h2, c2)
    \<and> capture_ok ext (h2, c2) \<and> ca_dupl c2 = None"
    using ok1 cleanup_ok [OF ok1] screen_new_ok
    by (auto simp: com_call_def capture_ok_def capture_objects_def screen_new_def)
  then obtain h2 c2 where r2: "(if ca_device ?c1 = None then Inr (?h1, ?c1)
      else fbind (com_call (ca_device ?c1) ?h1) (\<lambda>h. if dx_removed env then capture_cleanup (h, ?c1) else Inr (h, ?c1))) = Inr (h2, c2)"
    and ok2: "capture_ok ext (h2, c2)" "ca_dupl c2 = None" by blast
  note start = screen_initialize_def prod.case r1 fbind_simps Let_def r2
  show ?thesis
  proof (cases "dx_factory env \<and> dx_adapter env")
    case False
    then show ?thesis unfolding start using ok2
      by (auto simp: com_create_def com_call_def com_release_def capture_ok_def)
  next
    case True
    obtain f h3 where f: "com_create h2 = (f, h3)" by (cases "com_create h2")
    obtain a h4 where a: "com_create h3 = (a, h4)" by (cases "com_create h3")
    have refs: "cm_refs h3 = add_mset f (cm_refs h2)" "cm_refs h4 = add_mset a (cm_refs h3)"
      using f a by (auto simp: com_create_def)
    let ?h5 = "h4\<lparr>cm_refs := add_mset a (cm_refs h2)\<rparr>"
    have rel: "com_call (Some f) h3 = Inr h3" "com_release (Some f) h4 = Inr ?h5"
      using refs by (auto simp: com_call_def com_release_def add_mset_commute)
    have ok5: "capture_ok (add_mset a ext) (?h5, c2)" using ok2 by (simp add: capture_ok_def)
    obtain b h6 c6 where d: "capture_device (dx_device env) (?h5, c2) = (b, h6, c6)" by (cases "capture_device (dx_device env) (?h5, c2)")
    note ok6 = capture_device_ok [OF ok5 d]
    have init: "screen_initialize env (h, c) = (if \<not> b then fbind (com_release (Some a) h6) (\<lambda>h. Inr (False, h, c6))
        else duplicate_output env a (h6, c6))"
      unfolding start using True by (simp add: f a rel d)
    show ?thesis
    proof (cases b)
      case False
      have "com_release (Some a) h6 = Inr (h6\<lparr>cm_refs := capture_objects c6 + ext\<rparr>)"
        using ok6(1) by (intro release_exact) (simp add: capture_ok_def)
      then show ?thesis using False init ok6(1) by (auto simp: capture_ok_def)
    next
      case True
      then show ?thesis using init duplicate_output_ok [OF ok6(1)] ok6(2,3) ok2(2) by simp
    qed
  qed
qed

section \<open>The host's use of it\<close>

datatype capture_op = CaptureInit dxgi_env | CaptureAcquire bool acquire_result | CaptureRelease

text \<open>The textures that the operations hand out, and the state they leave.\<close>

fun screen_step :: "capture_op \<Rightarrow> com \<times> capture \<Rightarrow> fault + (nat option \<times> com \<times> capture)" where
  "screen_step (CaptureInit env) s = fbind (screen_initialize env s) (\<lambda>(ok, s). Inr (None, s))"
| "screen_step (CaptureAcquire removed result) s = capture_acquire removed result s"
| "screen_step CaptureRelease s = fbind (capture_release_frame s) (\<lambda>s. Inr (None, s))"

fun screen_run :: "capture_op list \<Rightarrow> com \<times> capture \<Rightarrow> fault + (nat option list \<times> com \<times> capture)" where
  "screen_run [] s = Inr ([], s)"
| "screen_run (x # xs) s = fbind (screen_step x s) (\<lambda>(tex, s). fbind (screen_run xs s) (\<lambda>(ts, s). Inr (tex # ts, s)))"

lemma screen_step_ok:
  assumes "capture_ok ext (h, c)"
  shows "\<exists>tex h' c'. screen_step x (h, c) = Inr (tex, h', c') \<and> capture_ok (opt tex + ext) (h', c')"
proof (cases x)
  case (CaptureInit env)
  then show ?thesis using screen_initialize_ok [OF assms, of env] by auto
next
  case (CaptureAcquire removed result)
  then show ?thesis using acquire_ok [OF assms] by simp
next
  case CaptureRelease
  then show ?thesis using release_frame_ok [OF assms] assms by auto
qed

lemma screen_run_ok:
  assumes "capture_ok ext s"
  shows "\<exists>ts s'. screen_run xs s = Inr (ts, s') \<and> capture_ok (opts ts + ext) s'"
  using assms
proof (induction xs arbitrary: ext s)
  case (Cons x xs)
  obtain tex h c where x: "screen_step x s = Inr (tex, h, c)" "capture_ok (opt tex + ext) (h, c)"
    using screen_step_ok [of ext "fst s" "snd s" x] Cons.prems by auto
  from Cons.IH [OF x(2)] obtain ts s' where "screen_run xs (h, c) = Inr (ts, s')" "capture_ok (opts ts + (opt tex + ext)) s'" by blast
  then show ?case using x(1) by (simp add: ac_simps)
qed simp

text \<open>C34: whatever DXGI answers, the screen capture calls no released object and, once destroyed, has given up every
  reference it took. What is left are the textures of the acquired frames: as the host never releases one, there is
  one reference more for each frame it captured.\<close>

theorem captured_textures_leak:
  assumes "cm_refs h = {#}"
  shows "\<exists>ts s h'. screen_run xs (h, screen_new) = Inr (ts, s) \<and> capture_cleanup s = Inr (h', screen_new)
    \<and> size (cm_refs h') = length (filter (\<lambda>t. t \<noteq> None) ts)"
proof -
  have "capture_ok {#} (h, screen_new)" using assms by (rule screen_new_ok)
  from screen_run_ok [OF this, of xs] obtain ts h1 c1 where r: "screen_run xs (h, screen_new) = Inr (ts, h1, c1)" "capture_ok (opts ts) (h1, c1)"
    by auto
  have "size (opts ts) = length (filter (\<lambda>t. t \<noteq> None) ts)" by (induction ts) auto
  then show ?thesis using r cleanup_ok [OF r(2)] by simp
qed

definition no_references :: com where
  "no_references = \<lparr>cm_refs = {#}, cm_next = 0, cm_content = (\<lambda>_. ((0, 0), (0, 0))), cm_imgui = False\<rparr>"

definition one_second :: "nat \<Rightarrow> capture_op list" where
  "one_second n = CaptureInit \<lparr>dx_removed = False, dx_factory = True, dx_adapter = True, dx_device = True, dx_output = True,
     dx_output1 = True, dx_duplicate = True\<rparr> # concat (replicate n [CaptureAcquire False (Acquired True), CaptureRelease])"

lemma captured_textures_leak_witness:
  "\<exists>ts s h'. screen_run (one_second 60) (no_references, screen_new) = Inr (ts, s) \<and> capture_cleanup s = Inr (h', screen_new)
    \<and> size (cm_refs h') = length (filter (\<lambda>t. t \<noteq> None) ts)"
  by (rule captured_textures_leak) (simp add: no_references_def)

lemma one_second_leaks:
  "case fbind (screen_run (one_second 60) (no_references, screen_new)) (\<lambda>(ts, s). capture_cleanup s) of
     Inl f \<Rightarrow> False | Inr (h, c) \<Rightarrow> size (cm_refs h) = 60"
  by code_simp

end
