(* ===== verification/ClientDisplay.thy ===== *)
theory ClientDisplay
  imports Decoder Renderer
begin

text \<open>
  The part of the client's loop that shows a frame (\<open>SessionManager::runClient\<close>,
  \<open>cpp/common/session_manager.cpp\<close>): decoder and renderer together, and their second initialisation when the
  renderer reports a lost device. \<open>ClientLoop.present_step\<close> is the same part as the receiver sees it.
\<close>

record display =
  dp_decoder :: "objects \<times> decoder_hw"
  dp_screen :: "com \<times> renderer"

text \<open>\<open>de_initRender\<close>, \<open>de_initEnd\<close>: what the initialisations answer that follow a failed \<open>Render\<close> and a failed
  \<open>EndFrame\<close>; \<open>de_software\<close>: the texture the decoder draws software pictures to.\<close>

record display_env =
  de_removed :: bool
  de_index :: "int option"
  de_decode :: decode_env
  de_software :: nat
  de_render :: render_env
  de_endRemoved :: bool
  de_presented :: bool
  de_initRender :: "init_env \<times> decode_lib"
  de_initEnd :: "init_env \<times> decode_lib"

definition shown_texture :: "display_env \<Rightarrow> texture \<Rightarrow> nat \<times> int" where
  "shown_texture env t = (case t of HardwareTexture tex index \<Rightarrow> (tex, index) | SoftwareTexture \<Rightarrow> (de_software env, 0))"

definition reinit_display :: "bool \<Rightarrow> init_env \<times> decode_lib \<Rightarrow> display \<Rightarrow> fault + display" where
  "reinit_display useHardware = (\<lambda>(ie, lib) d.
     fbind (renderer_shutdown (dp_screen d)) (\<lambda>s.
     fbind (decoder_shutdown (dp_decoder d)) (\<lambda>dec.
     fbind (d3d_initialize ie s) (\<lambda>(ok, s).
       if ok then fbind (decoder_initialize lib (rd_device (snd s) \<noteq> None) useHardware dec) (\<lambda>(b, dec).
         Inr (d\<lparr>dp_decoder := dec, dp_screen := s\<rparr>))
       else Inr (d\<lparr>dp_decoder := dec, dp_screen := s\<rparr>)))))"

definition show_picture ::
  "(nat \<Rightarrow> tex_desc) \<Rightarrow> bool \<Rightarrow> display_env \<Rightarrow> (nat \<times> int) option \<Rightarrow> display \<Rightarrow> fault + display" where
  "show_picture desc useHardware env picture d =
     fbind (render desc (de_render env) picture (dp_screen d)) (\<lambda>(ok, s).
       if ok then Inr (d\<lparr>dp_screen := s\<rparr>) else reinit_display useHardware (de_initRender env) (d\<lparr>dp_screen := s\<rparr>))"

text \<open>The decoder holds a reference to the texture it hands out while it is shown.\<close>

definition show_decoded :: "(nat \<Rightarrow> tex_desc) \<Rightarrow> bool \<Rightarrow> display_env \<Rightarrow> texture \<Rightarrow> display \<Rightarrow> fault + display" where
  "show_decoded desc useHardware env t d =
     (let (tex, index) = shown_texture env t; (h, r) = dp_screen d in
      fbind (show_picture desc useHardware env (Some (tex, index)) (d\<lparr>dp_screen := (h\<lparr>cm_refs := add_mset tex (cm_refs h)\<rparr>, r)\<rparr>)) (\<lambda>d.
      fbind (com_release (Some tex) (fst (dp_screen d))) (\<lambda>h. Inr (d\<lparr>dp_screen := (h, snd (dp_screen d))\<rparr>))))"

text \<open>\<open>frame\<close> is what the jitter buffer lets go, its data and whether it is HEVC. The result says whether a keyframe is
  asked for.\<close>

definition show_frame ::
  "(nat \<Rightarrow> tex_desc) \<Rightarrow> bool \<Rightarrow> bool \<Rightarrow> display_env \<Rightarrow> (bytes \<times> bool) option \<Rightarrow> display \<Rightarrow> fault + (bool \<times> display)" where
  "show_frame desc useRenderer useHardware env frame d = (case frame of
     Some (data, hevc) \<Rightarrow>
       fbind (decode_frame (de_decode env) data hevc (dp_decoder d)) (\<lambda>(picture, dec).
         let d = d\<lparr>dp_decoder := dec\<rparr> in
         case picture of
           Some t \<Rightarrow> fbind (if useRenderer then show_decoded desc useHardware env t d else Inr d) (\<lambda>d. Inr (False, d))
         | None \<Rightarrow> fbind (if useRenderer then show_picture desc useHardware env None d else Inr d) (\<lambda>d. Inr (True, d)))
   | None \<Rightarrow> fbind (if useRenderer then show_picture desc useHardware env None d else Inr d) (\<lambda>d. Inr (False, d)))"

definition present_frame :: "bool \<Rightarrow> display_env \<Rightarrow> display \<Rightarrow> fault + display" where
  "present_frame useHardware env d =
     fbind (end_frame (de_endRemoved env) (de_presented env) (dp_screen d)) (\<lambda>(ok, s).
       if ok then Inr (d\<lparr>dp_screen := s\<rparr>) else reinit_display useHardware (de_initEnd env) (d\<lparr>dp_screen := s\<rparr>))"

definition display_round ::
  "(nat \<Rightarrow> tex_desc) \<Rightarrow> bool \<Rightarrow> bool \<Rightarrow> display_env \<Rightarrow> (bytes \<times> bool) option \<Rightarrow> display \<Rightarrow> fault + (bool \<times> display)" where
  "display_round desc useRenderer useHardware env frame d =
     fbind (if useRenderer then new_frame (de_removed env) (de_index env) (dp_screen d) else Inr (dp_screen d)) (\<lambda>s.
     fbind (show_frame desc useRenderer useHardware env frame (d\<lparr>dp_screen := s\<rparr>)) (\<lambda>(key, d).
     fbind (if useRenderer then present_frame useHardware env d else Inr d) (\<lambda>d. Inr (key, d))))"

fun display_run :: "(nat \<Rightarrow> tex_desc) \<Rightarrow> bool \<Rightarrow> bool \<Rightarrow> (display_env \<times> (bytes \<times> bool) option) list \<Rightarrow> display \<Rightarrow> fault + (bool list \<times> display)" where
  "display_run desc useRenderer useHardware [] d = Inr ([], d)"
| "display_run desc useRenderer useHardware ((env, frame) # xs) d =
     fbind (display_round desc useRenderer useHardware env frame d) (\<lambda>(key, d).
     fbind (display_run desc useRenderer useHardware xs d) (\<lambda>(keys, d). Inr (key # keys, d)))"

section \<open>While the device is not lost\<close>

definition display_ok :: "(nat \<Rightarrow> tex_desc) \<Rightarrow> tex_desc \<Rightarrow> display \<Rightarrow> bool" where
  "display_ok desc dst d \<longleftrightarrow> decoder_ok (dp_decoder d) \<and> render_ready desc dst {#} (dp_screen d)"

text \<open>The device is there, the swap chain hands out its buffers, all of one description, and presents them.\<close>

definition device_there :: "(nat \<Rightarrow> tex_desc) \<Rightarrow> tex_desc \<Rightarrow> display_env \<Rightarrow> bool" where
  "device_there desc dst env \<longleftrightarrow> \<not> rv_removed (de_render env) \<and> \<not> de_endRemoved env \<and> de_presented env
     \<and> (case rv_backBuffer (de_render env) of None \<Rightarrow> False | Some t \<Rightarrow> desc t = dst)"

lemma render_true:
  assumes "render_ready desc dst ext s" and "\<not> rv_removed env" and "rv_backBuffer env \<noteq> None"
    and "render desc env texture s = Inr (ok, s')"
  shows ok
proof -
  obtain h r where s: "s = (h, r)" by (cases s)
  show ?thesis using assms
    by (auto simp: s render_def render_ready_def base_ok_def fbind_Inr_iff Let_def split: option.splits)
qed

lemma show_picture_ok:
  assumes "render_ready desc dst ext (dp_screen d)" and "device_there desc dst env"
    and "\<And>t i. picture = Some (t, i) \<Longrightarrow> t \<in># ext"
  shows "\<exists>s. show_picture desc useHardware env picture d = Inr (d\<lparr>dp_screen := s\<rparr>) \<and> render_ready desc dst ext s"
proof -
  obtain t where t: "rv_backBuffer (de_render env) = Some t" "desc t = dst" and there: "\<not> rv_removed (de_render env)"
    using assms(2) by (auto simp: device_there_def split: option.splits)
  obtain ok h r where r: "render desc (de_render env) picture (dp_screen d) = Inr (ok, h, r)" "render_ready desc dst ext (h, r)"
    using render_ok [of desc dst ext "fst (dp_screen d)" "snd (dp_screen d)" "de_render env" picture] assms(1,3) t by auto
  have ok using render_true [OF assms(1) there _ r(1)] t(1) by simp
  then show ?thesis using r by (auto simp: show_picture_def)
qed

lemma show_decoded_ok:
  assumes "render_ready desc dst {#} (dp_screen d)" and "device_there desc dst env"
  shows "\<exists>s. show_decoded desc useHardware env t d = Inr (d\<lparr>dp_screen := s\<rparr>) \<and> render_ready desc dst {#} s"
proof -
  obtain tex index where x: "shown_texture env t = (tex, index)" by fastforce
  obtain h r where s: "dp_screen d = (h, r)" by fastforce
  let ?d = "d\<lparr>dp_screen := (h\<lparr>cm_refs := add_mset tex (cm_refs h)\<rparr>, r)\<rparr>"
  have "render_ready desc dst {#tex#} (dp_screen ?d)" using take_ok [of desc dst "{#}" h r tex] assms(1) s by simp
  from show_picture_ok [OF this assms(2), of "Some (tex, index)" useHardware]
  obtain h1 r1 where p: "show_picture desc useHardware env (Some (tex, index)) ?d = Inr (d\<lparr>dp_screen := (h1, r1)\<rparr>)"
    "render_ready desc dst {#tex#} (h1, r1)" by auto
  obtain h2 where "com_release (Some tex) h1 = Inr h2" "render_ready desc dst {#} (h2, r1)"
    using give_ok [OF p(2), of tex] by auto
  then show ?thesis using p(1) by (auto simp: show_decoded_def x s Let_def)
qed

lemma show_frame_ok:
  assumes "display_ok desc dst d" and "device_there desc dst env"
  shows "\<exists>key d'. show_frame desc True useHardware env frame d = Inr (key, d') \<and> display_ok desc dst d'"
proof -
  have dec: "decoder_ok (dp_decoder d)" and ready: "render_ready desc dst {#} (dp_screen d)"
    using assms(1) by (simp_all add: display_ok_def)
  show ?thesis
  proof (cases frame)
    case None
    then show ?thesis using show_picture_ok [OF ready assms(2), of None useHardware] dec
      by (auto simp: show_frame_def display_ok_def)
  next
    case (Some f)
    obtain data hevc where f: "f = (data, hevc)" by fastforce
    obtain x h' d' where x: "decode_frame (de_decode env) data hevc (dp_decoder d) = Inr (x, h', d')" "decoder_ok (h', d')"
      using decode_frame_ok [of "fst (dp_decoder d)" "snd (dp_decoder d)" "de_decode env" data hevc] dec by auto
    let ?e = "d\<lparr>dp_decoder := (h', d')\<rparr>"
    have "render_ready desc dst {#} (dp_screen ?e)" using ready by simp
    note pic = show_picture_ok [OF this assms(2), of None useHardware] and dcd = show_decoded_ok [OF this assms(2), of useHardware]
    show ?thesis
    proof (cases x)
      case None
      then show ?thesis using pic x Some by (auto simp: show_frame_def f display_ok_def)
    next
      case (Some t)
      then show ?thesis using dcd [of t] x \<open>frame = Some f\<close> by (auto simp: show_frame_def f display_ok_def)
    qed
  qed
qed

lemma present_frame_ok:
  assumes "display_ok desc dst d" and "device_there desc dst env"
  shows "\<exists>d'. present_frame useHardware env d = Inr d' \<and> display_ok desc dst d'"
proof -
  have ready: "render_ready desc dst {#} (dp_screen d)" using assms(1) by (simp add: display_ok_def)
  obtain ok h r where ef: "end_frame (de_endRemoved env) (de_presented env) (dp_screen d) = Inr (ok, h, r)" "render_ready desc dst {#} (h, r)"
    using end_frame_ok [of desc dst "{#}" "fst (dp_screen d)" "snd (dp_screen d)" "de_endRemoved env" "de_presented env"] ready by auto
  have ok using ef(1) assms(2) ready
    by (cases "dp_screen d") (auto simp: end_frame_def device_there_def render_ready_def base_ok_def fbind_Inr_iff Let_def split: if_splits)
  then show ?thesis using ef assms(1) by (simp add: present_frame_def display_ok_def)
qed

lemma display_round_ok:
  assumes "display_ok desc dst d" and "device_there desc dst env"
  shows "\<exists>key d'. display_round desc True useHardware env frame d = Inr (key, d') \<and> display_ok desc dst d'"
proof -
  obtain s1 where s1: "new_frame (de_removed env) (de_index env) (dp_screen d) = Inr s1" "render_ready desc dst {#} s1"
    using new_frame_ok [of desc dst "{#}" "fst (dp_screen d)" "snd (dp_screen d)" "de_removed env" "de_index env"] assms(1)
    by (auto simp: display_ok_def)
  have "display_ok desc dst (d\<lparr>dp_screen := s1\<rparr>)" using assms(1) s1(2) by (simp add: display_ok_def)
  from show_frame_ok [OF this assms(2)] obtain key e
    where e: "show_frame desc True useHardware env frame (d\<lparr>dp_screen := s1\<rparr>) = Inr (key, e)" "display_ok desc dst e" by blast
  from present_frame_ok [OF e(2) assms(2)] obtain d' where "present_frame useHardware env e = Inr d'" "display_ok desc dst d'" by blast
  then show ?thesis using s1(1) e(1) by (simp add: display_round_def)
qed

lemma display_run_ok:
  assumes "display_ok desc dst d" and "\<forall>(env, frame) \<in> set xs. device_there desc dst env"
  shows "\<exists>keys d'. display_run desc True useHardware xs d = Inr (keys, d') \<and> display_ok desc dst d' \<and> length keys = length xs"
  using assms
proof (induction xs arbitrary: d)
  case (Cons x xs)
  obtain env frame where x: "x = (env, frame)" by (cases x)
  obtain key d1 where d1: "display_round desc True useHardware env frame d = Inr (key, d1)" "display_ok desc dst d1"
    using display_round_ok [OF Cons.prems(1), of env useHardware frame] Cons.prems(2) x by auto
  then show ?case using Cons.IH [OF d1(2)] Cons.prems(2) x by auto
qed simp

lemma display_ends:
  assumes "display_ok desc dst d"
  shows "\<exists>s dec. renderer_shutdown (dp_screen d) = Inr s \<and> decoder_shutdown (dp_decoder d) = Inr ({#}, dec)"
proof -
  have "base_ok {#} (fst (dp_screen d), snd (dp_screen d))" using assms by (simp add: display_ok_def render_ready_def)
  from shutdown_ok [OF this] shutdown_releases_all [of "fst (dp_decoder d)" "snd (dp_decoder d)"] show ?thesis
    using assms by (auto simp: display_ok_def)
qed

text \<open>C19: while the device is not lost, no round of the client's display faults, nor does the destruction of decoder and
  renderer after them, whatever arrives from the network and whatever FFmpeg and Direct3D answer otherwise: no
  released object, null pointer or missing array element is used, and the decoder leaks nothing.\<close>

theorem display_runs_while_device_there:
  assumes "display_ok desc dst d" and "\<forall>(env, frame) \<in> set xs. device_there desc dst env"
  shows "\<exists>keys d' s dec. display_run desc True useHardware xs d = Inr (keys, d') \<and> length keys = length xs
    \<and> renderer_shutdown (dp_screen d') = Inr s \<and> decoder_shutdown (dp_decoder d') = Inr ({#}, dec)"
proof -
  obtain keys d' where r: "display_run desc True useHardware xs d = Inr (keys, d')" "display_ok desc dst d'" "length keys = length xs"
    using display_run_ok [OF assms] by blast
  from display_ends [OF r(2)] show ?thesis using r by blast
qed

definition first_display :: display where
  "first_display = \<lparr>dp_decoder = ({#}, decoder_new), dp_screen = snd (projr (d3d_initialize good_start (no_objects, renderer_new)))\<rparr>"

definition all_there :: display_env where
  "all_there = \<lparr>de_removed = False, de_index = Some 0,
     de_decode = \<lparr>dv_lib = \<lparr>dl_find = (\<lambda>_. True), dl_alloc = True, dl_hwAlloc = True, dl_hwCtx = True, dl_hwInit = True, dl_hwRef = True,
       dl_open = True, dl_packet = True, dl_frame = True, dl_tempFrame = True, dl_context = True\<rparr>, dv_send = Decoder.Sent, dv_resend = Decoder.Sent,
       dv_receive = [Picture \<lparr>pi_width = 1280, pi_height = 720, pi_d3d11 = True, pi_texture = Some 7, pi_index = 2\<rparr>],
       dv_swsAlloc = True, dv_rgbaAlloc = True, dv_rgbaBuffer = True, dv_createTexture = True, dv_scaled = True\<rparr>,
     de_software = 8, de_render = good_draw, de_endRemoved = False, de_presented = True,
     de_initRender = (good_start, \<lparr>dl_find = (\<lambda>_. True), dl_alloc = True, dl_hwAlloc = True, dl_hwCtx = True, dl_hwInit = True, dl_hwRef = True,
       dl_open = True, dl_packet = True, dl_frame = True, dl_tempFrame = True, dl_context = True\<rparr>),
     de_initEnd = (good_start, \<lparr>dl_find = (\<lambda>_. True), dl_alloc = True, dl_hwAlloc = True, dl_hwCtx = True, dl_hwInit = True, dl_hwRef = True,
       dl_open = True, dl_packet = True, dl_frame = True, dl_tempFrame = True, dl_context = True\<rparr>)\<rparr>"

definition full_hd :: "nat \<Rightarrow> tex_desc" where
  "full_hd t = \<lparr>td_size = (1280, 720), td_format = (if t = 7 then NV12 else 28), td_arraySize = 4\<rparr>"

lemma first_display_ok: "display_ok full_hd (full_hd 100) first_display"
proof -
  have "refs_live {#} no_objects" by (simp add: refs_live_def)
  from renderer_initialize_ok [OF this] obtain ok h r where i: "d3d_initialize good_start (no_objects, renderer_new) = Inr (ok, h, r)"
    "ok \<longrightarrow> render_ready full_hd (full_hd 100) {#} (h, r)" by blast
  have "fst (projr (d3d_initialize good_start (no_objects, renderer_new)))" by code_simp
  then show ?thesis using i
    by (simp add: display_ok_def first_display_def decoder_ok_def decoder_new_def objects_of_def surface_objects_def codec_objects_def
        frame_objects_def when_some_def)
qed

lemma display_runs_while_device_there_witness:
  "\<exists>keys d' s dec. display_run full_hd True True [(all_there, Some ([0, 0, 1, 0x65], False)), (all_there, None)] first_display = Inr (keys, d')
     \<and> length keys = length [(all_there, Some ([0, 0, 1 :: u8, 0x65], False)), (all_there, None)]
     \<and> renderer_shutdown (dp_screen d') = Inr s \<and> decoder_shutdown (dp_decoder d') = Inr ({#}, dec)"
  by (rule display_runs_while_device_there [OF first_display_ok])
    (simp add: device_there_def all_there_def good_draw_def)

section \<open>When the device is lost\<close>

lemma no_swap_chain:
  "first_option (ie_fallbacks ie) swap_chain_options = None \<Longrightarrow> d3d_initialize ie (h, r) = Inr (False, h, r)"
  by (simp add: d3d_initialize_def)

lemma shutdown_leaves:
  assumes "renderer_shutdown (h, r) = Inr (h', r')"
  shows "\<not> cm_imgui h'" "rd_device r' = None"
proof -
  have one: "com_release p g = Inr g' \<Longrightarrow> cm_imgui g' = cm_imgui g" for p g g'
    by (auto simp: fbind_Inr_iff com_release_def com_call_def split: option.splits if_splits)
  have refs: "com_release_all ps g = Inr g' \<Longrightarrow> cm_imgui g' = cm_imgui g" for ps g g'
    by (induction ps arbitrary: g) (auto simp: fbind_Inr_iff dest: one)
  show "\<not> cm_imgui h'" "rd_device r' = None"
    using assms by (auto simp: renderer_shutdown_def fbind_Inr_iff simp del: com_release_all.simps append.simps split: if_splits dest: refs)
qed

text \<open>A device that is lost while a picture is drawn, and of which no new one can be made, ends the process in the same
  round: \<open>EndFrame\<close> reports the missing device, and the second \<open>Shutdown\<close> finds no ImGui context.\<close>

lemma lost_device_crashes:
  assumes "display_ok desc dst d" and "rv_removed (de_render env)"
    and "first_option (ie_fallbacks (fst (de_initRender env))) swap_chain_options = None"
  shows "display_round desc True useHardware env None d = Inl NullDeref"
proof -
  obtain h r where s1: "new_frame (de_removed env) (de_index env) (dp_screen d) = Inr (h, r)" "render_ready desc dst {#} (h, r)"
    using new_frame_ok [of desc dst "{#}" "fst (dp_screen d)" "snd (dp_screen d)" "de_removed env" "de_index env"] assms(1)
    by (auto simp: display_ok_def)
  have base: "base_ok {#} (h, r)" using s1(2) by (simp add: render_ready_def)
  have lost: "render desc (de_render env) None (h, r) = Inr (False, h, r)"
    using base call_held(1) [OF base] assms(2) by (simp add: render_def base_ok_def)
  obtain h1 r1 where sd: "renderer_shutdown (h, r) = Inr (h1, r1)" using shutdown_ok [OF base] by auto
  obtain dec where dec: "decoder_shutdown (dp_decoder d) = Inr dec"
    using shutdown_releases_all [of "fst (dp_decoder d)" "snd (dp_decoder d)"] assms(1) by (auto simp: display_ok_def)
  obtain ie lib where ie: "de_initRender env = (ie, lib)" by fastforce
  let ?d = "d\<lparr>dp_decoder := dec, dp_screen := (h1, r1)\<rparr>"
  have "show_frame desc True useHardware env None (d\<lparr>dp_screen := (h, r)\<rparr>) = Inr (False, ?d)"
    using lost sd dec no_swap_chain [of ie h1 r1] assms(3)
    by (simp add: show_frame_def show_picture_def reinit_display_def ie)
  moreover have "present_frame useHardware env ?d = Inl NullDeref"
    using shutdown_leaves [OF sd] shutdown_without_context [of h1 r1]
    by (cases "de_initEnd env") (simp add: present_frame_def end_frame_def reinit_display_def)
  ultimately show ?thesis using s1(1) by (simp add: display_round_def)
qed

text \<open>A client without a window only decodes; its renderer, never initialised, ends the process when \<open>runClient\<close> leaves.\<close>

lemma headless_client_crashes:
  assumes "\<not> cm_imgui (fst (dp_screen d))" and "display_run desc False useHardware xs d = Inr (keys, d')"
  shows "renderer_shutdown (dp_screen d') = Inl NullDeref"
proof -
  have "dp_screen d' = dp_screen d" using assms(2)
    by (induction xs arbitrary: d keys)
      (auto simp: display_round_def show_frame_def fbind_Inr_iff Let_def split: option.splits)
  then show ?thesis using assms(1) by (cases "dp_screen d") (simp add: renderer_shutdown_def)
qed

end
