(* ===== verification/Startup.thy ===== *)
theory Startup
  imports ClientLoop SessionManager CloudOptimizer
begin

text \<open>
  How the two sessions of \<open>cpp/common/session_manager.cpp\<close> begin and end: binding and candidates, the host's wait
  for its capture thread, and the ways out of \<open>runClient\<close>. The wait is a step relation over the main thread and
  the capture thread; \<open>stopSession\<close> clears \<open>m_running\<close> at any time, without a notification.
\<close>

section \<open>Candidates\<close>

text \<open>The local address and, when a STUN server answers, the public one.\<close>

definition gather_candidates :: "string \<Rightarrow> u16 \<Rightarrow> (string \<times> u16) option \<Rightarrow> candidate list" where
  "gather_candidates selectedIp port public =
     \<lparr>cd_ip = selectedIp, cd_port = port, cd_priority = 0\<rparr> #
     (case public of Some (ip, p) \<Rightarrow> [\<lparr>cd_ip = ip, cd_port = p, cd_priority = 1\<rparr>] | None \<Rightarrow> [])"

section \<open>The host waits for its capture thread\<close>

text \<open>\<open>Deciding\<close>: about to evaluate the predicate under the mutex; \<open>Blocked\<close>: in \<open>initCv.wait\<close>; \<open>Joining\<close>: past the wait.\<close>

datatype main_pc = Deciding | Blocked | Joining | Returned
datatype capture_pc = Begins | Initializing | Notifying | Capturing | CaptureEnded

record startup =
  su_running :: bool
  su_initDone :: bool
  su_initFailed :: bool
  su_main :: main_pc
  su_capture :: capture_pc
  su_errors :: "parsec_error list"

definition startup_new :: startup where
  "startup_new = \<lparr>su_running = True, su_initDone = False, su_initFailed = False, su_main = Deciding, su_capture = Begins, su_errors = []\<rparr>"

definition wake :: "startup \<Rightarrow> startup" where
  "wake s = (if su_main s = Blocked then s\<lparr>su_main := Deciding\<rparr> else s)"

definition init_ready :: "startup \<Rightarrow> bool" where
  "init_ready s \<longleftrightarrow> su_initDone s \<or> su_initFailed s \<or> \<not> su_running s"

text \<open>The main thread past its predicate.\<close>

definition leave_wait :: "startup \<Rightarrow> startup" where
  "leave_wait s = (if su_initFailed s \<or> \<not> su_running s
     then s\<lparr>su_main := Joining, su_running := False, su_errors := su_errors s @ (if su_initFailed s then [HARDWARE_INIT_FAILED] else [])\<rparr>
     else s\<lparr>su_main := Joining\<rparr>)"

inductive startup_step :: "startup \<Rightarrow> startup \<Rightarrow> bool" where
  proceeds: "su_main s = Deciding \<Longrightarrow> init_ready s \<Longrightarrow> startup_step s (leave_wait s)"
| blocks: "su_main s = Deciding \<Longrightarrow> \<not> init_ready s \<Longrightarrow> startup_step s (s\<lparr>su_main := Blocked\<rparr>)"
| refuses: "su_capture s = Begins \<Longrightarrow> \<not> su_running s \<Longrightarrow> startup_step s (s\<lparr>su_capture := CaptureEnded\<rparr>)"
| begins: "su_capture s = Begins \<Longrightarrow> su_running s \<Longrightarrow> startup_step s (s\<lparr>su_capture := Initializing\<rparr>)"
| fails: "su_capture s = Initializing \<Longrightarrow> startup_step s (wake (s\<lparr>su_initFailed := True, su_capture := CaptureEnded\<rparr>))"
| succeeds: "su_capture s = Initializing \<Longrightarrow> startup_step s (s\<lparr>su_initDone := True, su_capture := Notifying\<rparr>)"
| notifies: "su_capture s = Notifying \<Longrightarrow> startup_step s (wake (s\<lparr>su_capture := Capturing\<rparr>))"
| ends: "su_capture s = Capturing \<Longrightarrow> \<not> su_running s \<Longrightarrow> startup_step s (s\<lparr>su_capture := CaptureEnded\<rparr>)"
| returns: "su_main s = Joining \<Longrightarrow> su_capture s = CaptureEnded \<Longrightarrow> startup_step s (s\<lparr>su_main := Returned\<rparr>)"
| stops: "su_running s \<Longrightarrow> startup_step s (s\<lparr>su_running := False\<rparr>)"

abbreviation reached :: "startup \<Rightarrow> bool" where
  "reached s \<equiv> startup_step\<^sup>*\<^sup>* startup_new s"

text \<open>Between the end of the initialisation and its notification, and after a refusal, nobody tells the main thread.\<close>

definition startup_inv :: "startup \<Rightarrow> bool" where
  "startup_inv s \<longleftrightarrow> (case su_capture s of
       Notifying \<Rightarrow> su_initDone s \<and> \<not> su_initFailed s
     | Capturing \<Rightarrow> su_initDone s \<and> \<not> su_initFailed s \<and> su_main s \<noteq> Blocked
     | CaptureEnded \<Rightarrow> (su_running s \<longrightarrow> su_initFailed s)
         \<and> (su_main s = Blocked \<longrightarrow> \<not> su_initDone s \<and> \<not> su_initFailed s \<and> \<not> su_running s)
     | _ \<Rightarrow> \<not> su_initDone s \<and> \<not> su_initFailed s)"

lemma startup_step_inv: "startup_step s s' \<Longrightarrow> startup_inv s \<Longrightarrow> startup_inv s'"
proof (induction rule: startup_step.induct)
  case (proceeds s)
  then show ?case by (cases "su_capture s") (auto simp: startup_inv_def leave_wait_def)
next
  case (blocks s)
  then show ?case by (cases "su_capture s") (simp_all add: startup_inv_def init_ready_def)
next
  case (stops s)
  then show ?case by (cases "su_capture s") (simp_all add: startup_inv_def)
qed (simp_all add: startup_inv_def wake_def)

lemma startup_invariant: "reached s \<Longrightarrow> startup_inv s"
proof (induction rule: rtranclp_induct)
  case base
  show ?case by (simp add: startup_inv_def startup_new_def)
qed (rule startup_step_inv)

definition hung :: "startup \<Rightarrow> bool" where
  "hung s \<longleftrightarrow> su_main s = Blocked \<and> su_capture s = CaptureEnded \<and> \<not> su_running s"

text \<open>Every run ends: the steps that are left.\<close>

definition main_left :: "main_pc \<Rightarrow> nat" where
  "main_left p = (case p of Deciding \<Rightarrow> 3 | Blocked \<Rightarrow> 2 | Joining \<Rightarrow> 1 | Returned \<Rightarrow> 0)"

definition capture_left :: "capture_pc \<Rightarrow> nat" where
  "capture_left p = (case p of Begins \<Rightarrow> 4 | Initializing \<Rightarrow> 3 | Notifying \<Rightarrow> 2 | Capturing \<Rightarrow> 1 | CaptureEnded \<Rightarrow> 0)"

definition steps_left :: "startup \<Rightarrow> nat" where
  "steps_left s = main_left (su_main s) + 2 * capture_left (su_capture s) + (if su_running s then 1 else 0)"

lemma startup_step_decreases: "startup_step s s' \<Longrightarrow> steps_left s' < steps_left s"
  by (induction rule: startup_step.induct)
    (auto simp: steps_left_def main_left_def capture_left_def wake_def leave_wait_def)

lemma startup_run_bounded:
  assumes "(startup_step ^^ n) startup_new s"
  shows "n \<le> 12"
proof -
  have "steps_left s + n \<le> steps_left s0" if "(startup_step ^^ n) s0 s" for s0 n
    using that
  proof (induction n arbitrary: s)
    case (Suc n)
    then obtain m where m: "(startup_step ^^ n) s0 m" "startup_step m s" by auto
    from Suc.IH [OF m(1)] startup_step_decreases [OF m(2)] show ?case by simp
  qed simp
  from this [OF assms] show ?thesis by (simp add: steps_left_def startup_new_def main_left_def capture_left_def)
qed

lemma stuck_cases:
  assumes "startup_inv s" and "\<And>s'. \<not> startup_step s s'"
  shows "su_main s = Returned \<and> su_capture s = CaptureEnded \<or> hung s"
proof -
  have running: "\<not> su_running s" using assms(2) stops by blast
  have "su_capture s = CaptureEnded"
    using assms(2) refuses fails notifies ends running by (metis capture_pc.exhaust)
  moreover have "su_main s \<noteq> Deciding" using assms(2) proceeds blocks by blast
  moreover have "su_main s \<noteq> Joining" using assms(2) returns calculation(1) by blast
  ultimately show ?thesis using running by (cases "su_main s") (auto simp: hung_def)
qed

lemma hung_is_stuck: "hung s \<Longrightarrow> \<not> startup_step s s'"
  by (auto simp: hung_def elim: startup_step.cases)

text \<open>A stop before the capture thread has looked at \<open>m_running\<close>, when the main thread waits already.\<close>

definition stopped_early :: startup where
  "stopped_early = startup_new\<lparr>su_main := Blocked, su_running := False, su_capture := CaptureEnded\<rparr>"

lemma stopped_early_reached: "reached stopped_early" "hung stopped_early"
proof -
  let ?a = "startup_new\<lparr>su_main := Blocked\<rparr>" and ?b = "startup_new\<lparr>su_main := Blocked, su_running := False\<rparr>"
  have "startup_step startup_new ?a" by (rule blocks) (simp_all add: startup_new_def init_ready_def)
  moreover have "startup_step ?a ?b"
    using stops [of ?a] by (simp add: startup_new_def)
  moreover have "startup_step ?b stopped_early"
    using refuses [of ?b] by (simp add: startup_new_def stopped_early_def)
  ultimately show "reached stopped_early" by (meson r_into_rtranclp rtranclp.rtrancl_into_rtrancl)
  show "hung stopped_early" by (simp add: hung_def stopped_early_def)
qed

definition capture_begun :: "startup \<Rightarrow> bool" where
  "capture_begun s \<longleftrightarrow> su_initDone s \<or> su_initFailed s \<or> su_capture s = Initializing"

lemma begun_stays:
  assumes "startup_step\<^sup>*\<^sup>* s s'" and "capture_begun s"
  shows "capture_begun s'"
  using assms
proof (induction rule: rtranclp_induct)
  case (step a b)
  from step(2) step.IH [OF step.prems] show ?case
    by (induction rule: startup_step.induct) (auto simp: capture_begun_def wake_def leave_wait_def)
qed



section \<open>The ways out of runClient\<close>

text \<open>What \<open>runClient\<close> reports and what it leaves of \<open>m_activeInputCapture\<close>. \<open>outcome\<close>: approved, rejected or
  not answered; an approved client runs its loop until \<open>m_running\<close> is cleared.\<close>

datatype handshake_end = HandshakeApproved | HandshakeRejected | NoHandshake

definition run_client :: "bool \<Rightarrow> bool \<Rightarrow> bool \<Rightarrow> bool \<Rightarrow> handshake_end \<Rightarrow> capture_pointer \<Rightarrow> parsec_error list \<times> capture_pointer" where
  "run_client bound window renderer decoder outcome p =
     (if \<not> bound then ([NETWORK_BIND_FAILED], p)
      else case client_init window renderer decoder p of
        (p, Some e) \<Rightarrow> ([e], p)
      | (p, None) \<Rightarrow>
          (case outcome of HandshakeApproved \<Rightarrow> ([], NoCapture)
           | HandshakeRejected \<Rightarrow> ([HANDSHAKE_REJECTED], NoCapture)
           | NoHandshake \<Rightarrow> ([HANDSHAKE_TIMEOUT], NoCapture)))"

lemma run_client_capture:
  "snd (run_client bound window renderer decoder outcome NoCapture) =
     (if bound \<and> window \<and> \<not> (renderer \<and> decoder) then DestroyedCapture else NoCapture)"
  by (auto simp: run_client_def client_init_def split: handshake_end.split)

lemma run_client_reports_once: "length (fst (run_client bound window renderer decoder outcome p)) \<le> 1"
  by (auto simp: run_client_def client_init_def Let_def split: handshake_end.split option.split prod.split)

section \<open>The host's load report\<close>

text \<open>Once a second the capture thread reports one node with constant loads.\<close>

definition local_node :: "nat \<Rightarrow> node_stats" where
  "local_node clients = \<lparr>ns_nodeId = ''local-host'', ns_gpuUsage = Fin (1 / 2), ns_vramUsage = fc (3 / 10),
     ns_activeSessions = int clients, ns_maxSessions = 32, ns_regionId = 1\<rparr>"

definition report_load :: "nat \<Rightarrow> regional_history \<Rightarrow> fault + (regional_history \<times> scaling_signal)" where
  "report_load clients h = analyze_regional_load h 1 [local_node clients]"

text \<open>The load is a constant below the threshold, so the host never recommends to scale up.\<close>

lemma report_never_scales_up:
  "\<exists>h'. report_load clients h = Inr (h', \<lparr>sg_scaleUp = False, sg_recommendedNodes = 0, sg_reason = ''Load stable''\<rparr>)"
proof -
  have "\<not> flt_lt SCALE_UP_THRESHOLD (fdiv f32 (fadd f32 (Fin 0) (Fin (1 / 2))) (flt_of_int f32 1))" by code_simp
  then show ?thesis by (simp add: report_load_def analyze_regional_load_def average_gpu_def local_node_def Let_def)
qed

end
