(* ===== verification/Dashboard.thy ===== *)
theory Dashboard
  imports SessionManager Config
begin

text \<open>
  The backend of the Qt user interface, \<open>SystemService\<close>, \<open>LogModel\<close> and \<open>ThemeService\<close>
  (\<open>NexusDash/src/services\<close>): the session buttons, the staged connection, errors, statistics, history and
  settings, on top of \<open>SessionManager\<close> and \<open>Config\<close>. Signals, windows and the text of log lines are not
  modelled; the log of the user interface is. Strings are ASCII. \<open>tr\<close> is the identity.
\<close>

section \<open>Text\<close>

text \<open>\<open>QString::trimmed\<close>, \<open>toLower\<close>, \<open>split\<close> without empty parts, and \<open>join\<close>.\<close>

definition trimmed :: "string \<Rightarrow> string" where
  "trimmed s = rev (dropWhile is_space (rev (dropWhile is_space s)))"

fun split_at :: "char \<Rightarrow> string \<Rightarrow> string \<Rightarrow> string list" where
  "split_at sep acc [] = (if acc = [] then [] else [acc])"
| "split_at sep acc (c # cs) =
     (if c = sep then (if acc = [] then split_at sep [] cs else acc # split_at sep [] cs) else split_at sep (acc @ [c]) cs)"

definition split_parts :: "char \<Rightarrow> string \<Rightarrow> string list" where
  "split_parts sep s = split_at sep [] s"

fun join_parts :: "char \<Rightarrow> string list \<Rightarrow> string" where
  "join_parts sep [] = []"
| "join_parts sep [x] = x"
| "join_parts sep (x # xs) = x @ sep # join_parts sep xs"

text \<open>The first match of the expression for an address in brackets. A run of digits can only be followed by
  the dot or bracket when it is taken as a whole.\<close>

definition octet :: "string \<Rightarrow> (string \<times> string) option" where
  "octet s = (let d = takeWhile is_digit s in if 1 \<le> length d \<and> length d \<le> 3 then Some (d, drop (length d) s) else None)"

definition expect :: "char \<Rightarrow> string \<Rightarrow> string option" where
  "expect c s = (case s of [] \<Rightarrow> None | x # xs \<Rightarrow> if x = c then Some xs else None)"

definition dotted_quad :: "string \<Rightarrow> (string \<times> string) option" where
  "dotted_quad s =
     Option.bind (octet s) (\<lambda>(a, s). Option.bind (expect CHR ''.'' s) (\<lambda>s.
     Option.bind (octet s) (\<lambda>(b, s). Option.bind (expect CHR ''.'' s) (\<lambda>s.
     Option.bind (octet s) (\<lambda>(c, s). Option.bind (expect CHR ''.'' s) (\<lambda>s.
     Option.bind (octet s) (\<lambda>(d, s). Some (a @ ''.'' @ b @ ''.'' @ c @ ''.'' @ d, s))))))))"

definition bracketed :: "string \<Rightarrow> string option" where
  "bracketed s =
     Option.bind (expect CHR ''['' s) (\<lambda>s. Option.bind (dotted_quad s) (\<lambda>(ip, s).
       Option.bind (expect CHR '']'' s) (\<lambda>_. Some ip)))"

fun find_ip :: "string \<Rightarrow> string option" where
  "find_ip [] = None"
| "find_ip (c # cs) = (case bracketed (c # cs) of Some ip \<Rightarrow> Some ip | None \<Rightarrow> find_ip cs)"

definition get_ip_from_interface :: "string \<Rightarrow> string" where
  "get_ip_from_interface info = (case find_ip info of Some ip \<Rightarrow> ip | None \<Rightarrow> ''0.0.0.0'')"

definition interface_entry :: "string \<Rightarrow> string \<Rightarrow> string" where
  "interface_entry ip name = ''['' @ ip @ ''] '' @ name"

section \<open>The log of the user interface\<close>

record log_entry =
  lg_level :: string
  lg_event :: string
  lg_desc :: string

definition add_log :: "log_entry \<Rightarrow> log_entry list \<Rightarrow> log_entry list" where
  "add_log e logs = (let logs = e # logs in if 100 < length logs then butlast logs else logs)"

definition log_data :: "log_entry list \<Rightarrow> nat \<Rightarrow> log_entry option" where
  "log_data logs row = (if length logs \<le> row then None else Some (logs ! row))"

section \<open>State\<close>

datatype app_status = AppIdle | Hosting | Connected | AppError | Reconnecting
datatype connection_step = StepNone | StepResolving | StepHandshake | StepEncrypting | StepConnected

text \<open>\<open>ParsecConfig\<close> as far as the user interface fills it; the strings are those in the arrays.\<close>

record parsec_config =
  pc_selectedIp :: string
  pc_hostIp :: string
  pc_username :: string
  pc_bitrate :: int
  pc_fps :: int
  pc_resolutionScale :: flt
  pc_isHost :: bool
  pc_useHardwareEncoding :: bool
  pc_autoApprove :: bool
  pc_encoderPreset :: int

text \<open>The single-shot timers of a connection under way; all wait for 500 ms, so they fire in the order they
  were started.\<close>

datatype timer = ToHandshake parsec_config | ToEncrypting parsec_config | ToStart parsec_config

record service =
  sv_isSessionActive :: bool
  sv_appStatus :: app_status
  sv_connectionStep :: connection_step
  sv_username :: string
  sv_useHardwareEncoding :: bool
  sv_encoderPreset :: int
  sv_resolutionScale :: flt
  sv_clientWindow :: bool
  sv_recentHosts :: "string list"
  sv_stats :: telemetry
  sv_startTime :: int
  sv_sessionStartTime :: int
  sv_logModel :: "log_entry list"
  sv_qualityTier :: string
  sv_cpuHistory :: "flt list"
  sv_memoryHistory :: "flt list"
  sv_fpsHistory :: "flt list"
  sv_latencyHistory :: "flt list"
  sv_timers :: "timer list"
  sv_manager :: manager
  sv_config :: config
  sv_files :: "string \<Rightarrow> string option"

definition no_telemetry :: telemetry where
  "no_telemetry = \<lparr>tm_e2eLatency = Fin 0, tm_captureTime = Fin 0, tm_encodeTime = Fin 0, tm_networkTime = Fin 0,
     tm_decodeTime = Fin 0, tm_fps = Fin 0, tm_lossRate = Fin 0, tm_rtt = Fin 0, tm_bitrateMbps = Fin 0\<rparr>"

definition session_cfg :: "parsec_config \<Rightarrow> session_config" where
  "session_cfg p = \<lparr>sc_isHost = pc_isHost p, sc_runBoth = False\<rparr>"

text \<open>\<open>strncpy\<close> into a zeroed array of \<open>n\<close> characters, one fewer than its size copied.\<close>

definition c_field :: "nat \<Rightarrow> string \<Rightarrow> string" where
  "c_field n s = take (n - 1) s"

definition add_log_line :: "string \<Rightarrow> string \<Rightarrow> string \<Rightarrow> service \<Rightarrow> service" where
  "add_log_line l e d s = s\<lparr>sv_logModel := add_log \<lparr>lg_level = l, lg_event = e, lg_desc = d\<rparr> (sv_logModel s)\<rparr>"

section \<open>Sessions\<close>

definition set_app_status :: "app_status \<Rightarrow> service \<Rightarrow> service" where
  "set_app_status st s = (if sv_appStatus s \<noteq> st then s\<lparr>sv_appStatus := st\<rparr> else s)"

definition set_connection_step :: "connection_step \<Rightarrow> service \<Rightarrow> service" where
  "set_connection_step st s = (if sv_connectionStep s \<noteq> st then s\<lparr>sv_connectionStep := st\<rparr> else s)"

definition stop_service :: "service \<Rightarrow> service" where
  "stop_service s =
     set_connection_step StepNone (set_app_status AppIdle
       (s\<lparr>sv_manager := stop_session (sv_manager s), sv_clientWindow := False,
         sv_isSessionActive := False, sv_sessionStartTime := 0\<rparr>))"

text \<open>The error callback on the thread of the user interface, and on a thread of the session, where stopping
  ends the process (\<open>None\<close>).\<close>

definition on_error :: "service \<Rightarrow> service" where
  "on_error s = stop_service (set_app_status AppError s)"

definition on_session_error :: "session_thread \<Rightarrow> service \<Rightarrow> service option" where
  "on_session_error thread s =
     (let s = set_app_status AppError s in
      map_option (\<lambda>m. stop_service (s\<lparr>sv_manager := m\<rparr>)) (stop_session_on thread (sv_manager s)))"

text \<open>\<open>None\<close>: the process ends in \<open>Parsec_StartSession\<close>. An error it reports calls back before it returns.\<close>

definition parsec_start :: "bool \<Rightarrow> parsec_config \<Rightarrow> service \<Rightarrow> service option" where
  "parsec_start crypto p s =
     map_option (\<lambda>(es, m). fold (\<lambda>_. on_error) es (s\<lparr>sv_manager := m\<rparr>))
       (start_session crypto (session_cfg p) (sv_manager s))"

definition start_host_session :: "bool \<Rightarrow> int \<Rightarrow> string \<Rightarrow> int \<Rightarrow> int \<Rightarrow> service \<Rightarrow> service option" where
  "start_host_session crypto now interfaceInfo bitrate fps s =
     (let interfaceIp = get_ip_from_interface interfaceInfo;
          p = \<lparr>pc_selectedIp = c_field 64 interfaceIp, pc_hostIp = [], pc_username = c_field 32 (sv_username s),
               pc_bitrate = bitrate, pc_fps = fps, pc_resolutionScale = to_f32 (sv_resolutionScale s), pc_isHost = True,
               pc_useHardwareEncoding = sv_useHardwareEncoding s, pc_autoApprove = True,
               pc_encoderPreset = sv_encoderPreset s\<rparr>
      in map_option (\<lambda>s.
           add_log_line ''INFO'' ''Host'' (''Hosting started on '' @ interfaceIp)
             (set_app_status Hosting (s\<lparr>sv_isSessionActive := True, sv_sessionStartTime := now\<rparr>)))
         (parsec_start crypto p s))"

text \<open>\<open>Config::save\<close> to \<open>config.ini\<close>, which may not be possible to open.\<close>

definition store_setting :: "bool \<Rightarrow> (config \<Rightarrow> config) \<Rightarrow> service \<Rightarrow> service" where
  "store_setting opens f s =
     (let c = f (sv_config s) in s\<lparr>sv_config := c, sv_files := snd (save (\<lambda>_. opens) ''config.ini'' (sv_files s) c)\<rparr>)"

definition add_to_history :: "bool \<Rightarrow> string \<Rightarrow> service \<Rightarrow> service" where
  "add_to_history opens host s =
     (if host = [] then s
      else let hosts = host # removeAll host (sv_recentHosts s);
               hosts = (if 5 < length hosts then butlast hosts else hosts)
           in store_setting opens (set_string ''recentHosts'' (join_parts CHR '','' hosts)) (s\<lparr>sv_recentHosts := hosts\<rparr>))"

definition resolved_host :: "string \<Rightarrow> string" where
  "resolved_host hostIp = (let h = trimmed hostIp in if map lower h = ''localhost'' then ''127.0.0.1'' else h)"

definition start_client_session :: "bool \<Rightarrow> bool \<Rightarrow> string \<Rightarrow> string \<Rightarrow> int \<Rightarrow> int \<Rightarrow> service \<Rightarrow> service" where
  "start_client_session opens window interfaceInfo hostIp bitrate fps s =
     (let interfaceIp = get_ip_from_interface interfaceInfo; s = add_to_history opens hostIp s;
          p = \<lparr>pc_selectedIp = c_field 64 interfaceIp, pc_hostIp = c_field 64 (resolved_host hostIp),
               pc_username = c_field 32 (sv_username s), pc_bitrate = bitrate, pc_fps = fps,
               pc_resolutionScale = to_f32 (sv_resolutionScale s), pc_isHost = False,
               pc_useHardwareEncoding = sv_useHardwareEncoding s, pc_autoApprove = False,
               pc_encoderPreset = sv_encoderPreset s\<rparr>
      in add_log_line ''INFO'' ''Client'' (''Initiating connection to '' @ hostIp)
           ((set_connection_step StepResolving (set_app_status Reconnecting (s\<lparr>sv_clientWindow := window\<rparr>)))
             \<lparr>sv_timers := sv_timers s @ [ToHandshake p]\<rparr>))"

text \<open>The oldest timer fires.\<close>

definition fire_timer :: "bool \<Rightarrow> int \<Rightarrow> service \<Rightarrow> service option" where
  "fire_timer crypto now s =
     (case sv_timers s of [] \<Rightarrow> Some s
      | ToHandshake p # ts \<Rightarrow> Some ((set_connection_step StepHandshake s)\<lparr>sv_timers := ts @ [ToEncrypting p]\<rparr>)
      | ToEncrypting p # ts \<Rightarrow> Some ((set_connection_step StepEncrypting s)\<lparr>sv_timers := ts @ [ToStart p]\<rparr>)
      | ToStart p # ts \<Rightarrow>
          map_option (\<lambda>s.
            add_log_line ''INFO'' ''Client'' ''Connection established to host''
              (set_connection_step StepConnected (set_app_status Connected
                (s\<lparr>sv_isSessionActive := True, sv_sessionStartTime := now\<rparr>))))
          (parsec_start crypto p (s\<lparr>sv_timers := ts\<rparr>)))"

section \<open>Statistics\<close>

definition maxHistory :: nat where
  "maxHistory = 60"

definition update_history :: "flt \<Rightarrow> flt list \<Rightarrow> flt list" where
  "update_history v vs = (let vs = vs @ [v] in if maxHistory < length vs then tl vs else vs)"

definition shown_tier :: "bool \<Rightarrow> flt \<Rightarrow> string" where
  "shown_tier active bitrate =
     (if active then
        if flt_lt bitrate (Fin 2) then ''Recovery Mode''
        else if flt_lt bitrate (Fin 5) then ''Low-End''
        else if flt_lt bitrate (Fin 10) then ''Balanced''
        else ''High Performance''
      else ''High Performance'')"

text \<open>One tick of the timer of a second: whether the window sent \<open>WM_QUIT\<close>, the telemetry, and the load of the
  machine.\<close>

definition update_stats :: "bool \<Rightarrow> telemetry \<Rightarrow> flt \<Rightarrow> flt \<Rightarrow> service \<Rightarrow> service" where
  "update_stats quit tm cpu memory s =
     (let s = (if quit then stop_service s else s);
          s = s\<lparr>sv_stats := (if sv_isSessionActive s then tm else no_telemetry)\<rparr>;
          newTier = shown_tier (sv_isSessionActive s) (tm_bitrateMbps (sv_stats s));
          s = (if sv_qualityTier s \<noteq> newTier then
                 (let s = s\<lparr>sv_qualityTier := newTier\<rparr> in
                  if sv_isSessionActive s then add_log_line ''INFO'' ''AI Engine'' (''Quality adjusted to: '' @ newTier) s else s)
               else s)
      in s\<lparr>sv_cpuHistory := update_history cpu (sv_cpuHistory s),
           sv_memoryHistory := update_history memory (sv_memoryHistory s),
           sv_fpsHistory := update_history (tm_fps (sv_stats s)) (sv_fpsHistory s),
           sv_latencyHistory := update_history (tm_e2eLatency (sv_stats s)) (sv_latencyHistory s)\<rparr>)"

text \<open>Division in C++ rounds towards zero.\<close>

definition uptime_text :: "int \<Rightarrow> string" where
  "uptime_text diff =
     (let q = (\<lambda>a b. if a < 0 then - (- a div b) else a div b); r = (\<lambda>a b. a - b * q a b)
      in dec_int (q diff 3600) @ ''h '' @ dec_int (q (r diff 3600) 60) @ ''m '' @ dec_int (r diff 60) @ ''s'')"

definition uptime :: "int \<Rightarrow> service \<Rightarrow> string" where
  "uptime now s = uptime_text (now - sv_startTime s)"

definition session_uptime :: "int \<Rightarrow> service \<Rightarrow> string" where
  "session_uptime now s = (if sv_sessionStartTime s = 0 then ''0h 0m 0s'' else uptime_text (now - sv_sessionStartTime s))"

section \<open>Settings\<close>

definition set_username :: "bool \<Rightarrow> string \<Rightarrow> service \<Rightarrow> service" where
  "set_username opens v s =
     (if sv_username s \<noteq> v then store_setting opens (set_string ''username'' v) (s\<lparr>sv_username := v\<rparr>) else s)"

definition set_use_hardware_encoding :: "bool \<Rightarrow> bool \<Rightarrow> service \<Rightarrow> service" where
  "set_use_hardware_encoding opens v s =
     (if sv_useHardwareEncoding s \<noteq> v
      then store_setting opens (set_bool ''useHardwareEncoding'' v) (s\<lparr>sv_useHardwareEncoding := v\<rparr>) else s)"

definition set_encoder_preset :: "bool \<Rightarrow> int \<Rightarrow> service \<Rightarrow> service" where
  "set_encoder_preset opens v s =
     (if sv_encoderPreset s \<noteq> v then store_setting opens (set_int ''encoderPreset'' v) (s\<lparr>sv_encoderPreset := v\<rparr>) else s)"

definition set_resolution_scale :: "bool \<Rightarrow> flt \<Rightarrow> service \<Rightarrow> service" where
  "set_resolution_scale opens v s =
     (if flt_lt (rnd f64 (1 / 1000)) (flt_abs (fsub f64 (sv_resolutionScale s) v))
      then store_setting opens (set_float ''resolutionScale'' v) (s\<lparr>sv_resolutionScale := v\<rparr>) else s)"

text \<open>\<open>ThemeService\<close>.\<close>

definition set_dark_mode :: "bool \<Rightarrow> bool \<times> config \<Rightarrow> bool \<times> config" where
  "set_dark_mode dark = (\<lambda>(m_darkMode, c).
     if m_darkMode \<noteq> dark then (dark, set_bool ''ui.darkMode'' dark c) else (m_darkMode, c))"

section \<open>Errors\<close>

definition translated_message :: "string \<Rightarrow> string" where
  "translated_message technicalMsg =
     (let msgLower = map lower technicalMsg in
      if contains ''0x887a0005'' msgLower then ''GPU Device Lost. Please update drivers.''
      else if contains ''10049'' msgLower then ''The selected IP address is unavailable.''
      else technicalMsg)"

definition final_suffix :: "string \<Rightarrow> string" where
  "final_suffix technicalMsg =
     (let translated = translated_message technicalMsg in
      if translated \<noteq> technicalMsg then '' ('' @ translated @ '')'' else [])"

definition friendly_error :: "parsec_error \<Rightarrow> string \<Rightarrow> string" where
  "friendly_error err technicalMsg = (case err of
     NETWORK_BIND_FAILED \<Rightarrow> ''Network connection failed.''
   | HARDWARE_INIT_FAILED \<Rightarrow> ''Hardware initialization error.''
   | HANDSHAKE_TIMEOUT \<Rightarrow> ''Connection timed out.''
   | HANDSHAKE_REJECTED \<Rightarrow> ''The host rejected your request.''
   | CONNECTION_LOST \<Rightarrow> ''Network connection lost.''
   | DECODER_INIT_FAILED \<Rightarrow> ''Decoder initialization failed.'' @ final_suffix technicalMsg
   | ENCODER_INIT_FAILED \<Rightarrow> ''Encoder initialization failed.'' @ final_suffix technicalMsg
   | RENDERER_INIT_FAILED \<Rightarrow> ''Renderer initialization failed.'' @ final_suffix technicalMsg
   | _ \<Rightarrow> ''An unexpected error occurred: '' @ translated_message technicalMsg)"

definition action_suggestion :: "parsec_error \<Rightarrow> string" where
  "action_suggestion err = (case err of
     NETWORK_BIND_FAILED \<Rightarrow> ''Try changing the network interface in settings.''
   | HANDSHAKE_TIMEOUT \<Rightarrow> ''Verify the Host IP and ensure you'' @ [CHR 0x27] @ ''re on the same network.''
   | DECODER_INIT_FAILED \<Rightarrow> ''Try disabling '' @ [CHR 0x27] @ ''Hardware Acceleration'' @ [CHR 0x27] @ '' in settings.''
   | ENCODER_INIT_FAILED \<Rightarrow> ''Lower the '' @ [CHR 0x27] @ ''Resolution Scale'' @ [CHR 0x27] @ '' in settings.''
   | _ \<Rightarrow> [])"

section \<open>The service as it starts\<close>

definition interface_list :: "(string \<times> string) list \<Rightarrow> string list" where
  "interface_list ifs = [''[0.0.0.0] All Interfaces'', ''[127.0.0.1] Local Loopback''] @ map (\<lambda>(ip, name). interface_entry ip name) ifs"

definition service_new :: "int \<Rightarrow> (rat \<Rightarrow> bool) \<Rightarrow> (string \<Rightarrow> string option) \<Rightarrow> config \<Rightarrow> service" where
  "service_new now tiny files c =
     (let zeros = replicate maxHistory (Fin 0) in
      add_log_line ''INFO'' ''System'' ''NexusDash Services Initialized''
       (update_stats False no_telemetry (Fin 5) (Fin 20)
        \<lparr>sv_isSessionActive = False, sv_appStatus = AppIdle, sv_connectionStep = StepNone,
         sv_username = get_string ''username'' ''User'' c,
         sv_useHardwareEncoding = get_bool ''useHardwareEncoding'' True c,
         sv_encoderPreset = get_int ''encoderPreset'' 0 c, sv_resolutionScale = get_double tiny ''resolutionScale'' (Fin 1) c, sv_clientWindow = False,
         sv_recentHosts = split_parts CHR '','' (get_string ''recentHosts'' [] c), sv_stats = no_telemetry,
         sv_startTime = now, sv_sessionStartTime = 0, sv_logModel = [], sv_qualityTier = ''High Performance'',
         sv_cpuHistory = zeros, sv_memoryHistory = zeros, sv_fpsHistory = zeros, sv_latencyHistory = zeros,
         sv_timers = [], sv_manager = manager_new, sv_config = c, sv_files = files\<rparr>))"

section \<open>What every operation keeps\<close>

inductive thread_ends :: "manager \<Rightarrow> manager \<Rightarrow> bool" where
  host_fails: "sm_hostThread m = ActiveThread \<Longrightarrow> thread_ends m (m\<lparr>sm_hostThread := EndedThread, sm_running := False\<rparr>)"
| client_fails: "sm_clientThread m = ActiveThread \<Longrightarrow> thread_ends m (m\<lparr>sm_clientThread := EndedThread, sm_running := False\<rparr>)"

inductive service_step :: "service \<Rightarrow> service \<Rightarrow> bool" where
  host: "start_host_session crypto now info bitrate fps s = Some s' \<Longrightarrow> 0 < now \<Longrightarrow> service_step s s'"
| client: "service_step s (start_client_session opens window info hostIp bitrate fps s)"
| timer: "fire_timer crypto now s = Some s' \<Longrightarrow> 0 < now \<Longrightarrow> service_step s s'"
| stop: "service_step s (stop_service s)"
| tick: "service_step s (update_stats quit tm cpu memory s)"
| failure: "on_session_error thread s = Some s' \<Longrightarrow> service_step s s'"
| thread: "thread_ends (sv_manager s) m \<Longrightarrow> service_step s (s\<lparr>sv_manager := m\<rparr>)"
| username: "service_step s (set_username opens v s)"
| hardware: "service_step s (set_use_hardware_encoding opens b s)"
| preset: "service_step s (set_encoder_preset opens k s)"
| scale: "service_step s (set_resolution_scale opens x s)"

definition histories_ok :: "service \<Rightarrow> bool" where
  "histories_ok s \<longleftrightarrow> length (sv_cpuHistory s) = maxHistory \<and> length (sv_memoryHistory s) = maxHistory
     \<and> length (sv_fpsHistory s) = maxHistory \<and> length (sv_latencyHistory s) = maxHistory \<and> length (sv_logModel s) \<le> 100"

definition status_ok :: "service \<Rightarrow> bool" where
  "status_ok s \<longleftrightarrow> sv_appStatus s \<noteq> AppError \<and> (sv_appStatus s \<in> {Hosting, Connected} \<longrightarrow> sv_isSessionActive s)
     \<and> (sv_isSessionActive s \<longleftrightarrow> sv_sessionStartTime s \<noteq> 0)"

lemma add_log_bounded [simp]: "length logs \<le> 100 \<Longrightarrow> length (add_log e logs) \<le> 100"
  by (simp add: add_log_def Let_def)

lemma update_history_length [simp]: "length vs = maxHistory \<Longrightarrow> length (update_history v vs) = maxHistory"
  by (simp add: update_history_def Let_def)

lemma set_status_update:
  "set_app_status st s = s\<lparr>sv_appStatus := st\<rparr>"
  "set_connection_step cs s = s\<lparr>sv_connectionStep := cs\<rparr>"
  by (simp_all add: set_app_status_def set_connection_step_def)

lemmas service_ops = stop_service_def set_status_update add_log_line_def store_setting_def
  add_to_history_def on_error_def Let_def

lemma on_error_ok: "histories_ok s \<Longrightarrow> histories_ok (on_error s)"
  by (simp add: histories_ok_def service_ops)

lemma on_errors_ok: "histories_ok s \<Longrightarrow> histories_ok (fold (\<lambda>_. on_error) es s)"
  by (induction es arbitrary: s) (simp_all add: on_error_ok)

lemma parsec_start_ok: "parsec_start crypto p s = Some s' \<Longrightarrow> histories_ok s \<Longrightarrow> histories_ok s'"
  by (auto simp: parsec_start_def histories_ok_def intro!: on_errors_ok [unfolded histories_ok_def])

lemma step_histories: "service_step s s' \<Longrightarrow> histories_ok s \<Longrightarrow> histories_ok s'"
proof (induction rule: service_step.induct)
  case (host crypto now info bitrate fps s s')
  then show ?case using parsec_start_ok by (fastforce simp: start_host_session_def histories_ok_def service_ops)
next
  case (timer crypto now s s')
  show ?case
  proof (cases "\<exists>p ts. sv_timers s = ToStart p # ts")
    case True
    then obtain p ts where ts: "sv_timers s = ToStart p # ts" by blast
    obtain s1 where s1: "parsec_start crypto p (s\<lparr>sv_timers := ts\<rparr>) = Some s1" using timer by (auto simp: fire_timer_def ts)
    then have "histories_ok s1" using timer parsec_start_ok [OF s1] by (simp add: histories_ok_def)
    then show ?thesis using timer s1 by (auto simp: fire_timer_def ts histories_ok_def service_ops)
  next
    case False
    then show ?thesis using timer
      by (auto simp: fire_timer_def histories_ok_def service_ops split: list.splits timer.splits)
  qed
next
  case (failure thread s s')
  then show ?case by (auto simp: on_session_error_def histories_ok_def service_ops)
qed (auto simp: histories_ok_def service_ops start_client_session_def update_stats_def set_username_def
    set_use_hardware_encoding_def set_encoder_preset_def set_resolution_scale_def)

lemma step_status: "service_step s s' \<Longrightarrow> status_ok s \<Longrightarrow> status_ok s'"
proof (induction rule: service_step.induct)
  case (host crypto now info bitrate fps s s')
  then show ?case by (auto simp: start_host_session_def status_ok_def service_ops)
next
  case (timer crypto now s s')
  then show ?case
    by (auto simp: fire_timer_def status_ok_def service_ops split: list.splits timer.splits)
next
  case (failure thread s s')
  then show ?case by (auto simp: on_session_error_def status_ok_def service_ops)
qed (auto simp: status_ok_def service_ops start_client_session_def update_stats_def set_username_def
    set_use_hardware_encoding_def set_encoder_preset_def set_resolution_scale_def)

lemma service_new_ok: "histories_ok (service_new now tiny files c)" "status_ok (service_new now tiny files c)"
  by (simp_all add: service_new_def histories_ok_def status_ok_def update_stats_def add_log_line_def shown_tier_def Let_def
      add_log_def)

text \<open>C29: whatever the user does and however sessions end, the user interface never rests in its error state,
  shows a session only while it takes one to be active, has a start time exactly then, and keeps sixty values of
  each history and at most a hundred lines of log.\<close>
theorem service_stays_consistent:
  assumes "service_step\<^sup>*\<^sup>* (service_new now tiny files c) s"
  shows "sv_appStatus s \<noteq> AppError
    \<and> (sv_appStatus s \<in> {Hosting, Connected} \<longrightarrow> sv_isSessionActive s)
    \<and> (sv_isSessionActive s \<longleftrightarrow> sv_sessionStartTime s \<noteq> 0)
    \<and> length (sv_cpuHistory s) = 60 \<and> length (sv_fpsHistory s) = 60 \<and> length (sv_logModel s) \<le> 100"
proof -
  have "histories_ok s \<and> status_ok s"
    using assms by (induction rule: rtranclp_induct) (auto simp: service_new_ok intro: step_histories step_status)
  then show ?thesis by (auto simp: histories_ok_def status_ok_def maxHistory_def)
qed

theorem service_stays_consistent_witness:
  "let s = start_client_session True True ''[10.0.0.1] lan'' ''10.0.0.2'' 5000 60 (service_new 1 (\<lambda>_. False) Map.empty config_new)
   in sv_appStatus s = Reconnecting \<and> length (sv_logModel s) \<le> 100"
proof -
  let ?n = "service_new 1 (\<lambda>_. False) Map.empty config_new"
  have "service_step\<^sup>*\<^sup>* ?n (start_client_session True True ''[10.0.0.1] lan'' ''10.0.0.2'' 5000 60 ?n)"
    by (intro r_into_rtranclp client)
  from service_stays_consistent [OF this] show ?thesis by (simp add: start_client_session_def service_ops)
qed

section \<open>A stop does not stop\<close>

text \<open>C24: stopping while a connection is being set up only closes its window: the timers go on, start the session
  and report it as connected. A session that cannot start because cryptography fails is reported as hosting.\<close>
theorem stop_does_not_cancel_connection:
  assumes "sv_timers s = []"
  shows "(\<exists>s'. Option.bind (Option.bind (fire_timer True 1 (stop_service (start_client_session opens window info hostIp bitrate fps s)))
        (fire_timer True 2)) (fire_timer True 3) = Some s'
      \<and> sv_appStatus s' = Connected \<and> sv_isSessionActive s' \<and> sm_clientThread (sv_manager s') = ActiveThread
      \<and> \<not> sv_clientWindow s')
    \<and> (\<exists>s'. start_host_session False 1 info bitrate fps s = Some s'
      \<and> sv_appStatus s' = Hosting \<and> sv_isSessionActive s' \<and> \<not> sm_running (sv_manager s'))"
  using assms
  by (simp add: start_client_session_def fire_timer_def service_ops parsec_start_def start_session_def session_cfg_def
      stop_session_def SessionManager.start_client_def start_host_session_def)

theorem stop_does_not_cancel_connection_witness:
  "\<exists>s'. start_host_session False 1 ''[10.0.0.1] lan'' 5000 60 (service_new 1 (\<lambda>_. False) Map.empty config_new) = Some s'
     \<and> sv_appStatus s' = Hosting \<and> \<not> sm_running (sv_manager s')"
proof -
  have "sv_timers (service_new 1 (\<lambda>_. False) Map.empty config_new) = []"
    by (simp add: service_new_def update_stats_def shown_tier_def add_log_line_def Let_def)
  from stop_does_not_cancel_connection [OF this, where info = "''[10.0.0.1] lan''" and bitrate = 5000 and fps = 60]
  show ?thesis by blast
qed

section \<open>Interfaces\<close>

definition is_octet :: "string \<Rightarrow> bool" where
  "is_octet d \<longleftrightarrow> list_all is_digit d \<and> 1 \<le> length d \<and> length d \<le> 3"

definition is_ip :: "string \<Rightarrow> bool" where
  "is_ip ip \<longleftrightarrow> (\<exists>a b c d. is_octet a \<and> is_octet b \<and> is_octet c \<and> is_octet d
     \<and> ip = a @ ''.'' @ b @ ''.'' @ c @ ''.'' @ d)"

lemma octet_append:
  assumes "is_octet d" and "s = [] \<or> \<not> is_digit (hd s)"
  shows "octet (d @ s) = Some (d, s)"
proof -
  have "takeWhile is_digit (d @ s) = d"
    using assms by (cases s) (simp_all add: is_octet_def list_all_iff takeWhile_eq_all_conv takeWhile_append2)
  then show ?thesis using assms(1) by (simp add: octet_def is_octet_def)
qed

lemma punctuation: "\<not> is_digit (CHR ''.'')" "\<not> is_digit (CHR '']'')"
  by (simp_all add: is_digit_def)

lemma dotted_quad_append:
  assumes "is_ip ip"
  shows "dotted_quad (ip @ CHR '']'' # s) = Some (ip, CHR '']'' # s)"
  using assms by (auto simp: is_ip_def dotted_quad_def expect_def octet_append punctuation)

lemma interface_entry_ip: "is_ip ip \<Longrightarrow> get_ip_from_interface (interface_entry ip name) = ip"
  using dotted_quad_append [of ip "'' '' @ name"]
  by (simp add: get_ip_from_interface_def interface_entry_def bracketed_def expect_def)

text \<open>Of every line of the list of interfaces the user can choose, the address is read back that the system
  gave for it.\<close>
theorem interface_round_trip:
  assumes "\<forall>(ip, name) \<in> set ifs. is_ip ip"
  shows "map get_ip_from_interface (interface_list ifs) = [''0.0.0.0'', ''127.0.0.1''] @ map fst ifs"
proof -
  have "get_ip_from_interface ''[0.0.0.0] All Interfaces'' = ''0.0.0.0''"
    "get_ip_from_interface ''[127.0.0.1] Local Loopback'' = ''127.0.0.1''" by code_simp+
  moreover have "map get_ip_from_interface (map (\<lambda>(ip, name). interface_entry ip name) ifs) = map fst ifs"
    using assms by (auto simp: interface_entry_ip dest!: bspec)
  ultimately show ?thesis by (simp add: interface_list_def)
qed

theorem interface_round_trip_witness:
  "map get_ip_from_interface (interface_list [(''192.168.0.17'', ''eth0 [10.0.0.1]'')])
    = [''0.0.0.0'', ''127.0.0.1'', ''192.168.0.17'']"
proof -
  have "is_ip ''192.168.0.17''"
    unfolding is_ip_def
    by (intro exI [of _ "''192''"] exI [of _ "''168''"] exI [of _ "''0''"] exI [of _ "''17''"])
       (simp add: is_octet_def is_digit_def)
  then show ?thesis using interface_round_trip [of "[(''192.168.0.17'', ''eth0 [10.0.0.1]'')]"] by simp
qed

section \<open>Recent hosts\<close>

lemma recent_hosts_bounded:
  assumes "distinct (sv_recentHosts s)" and "length (sv_recentHosts s) \<le> 5" and "host \<noteq> []"
  shows "length (sv_recentHosts (add_to_history opens host s)) \<le> 5 \<and> distinct (sv_recentHosts (add_to_history opens host s))
    \<and> hd (sv_recentHosts (add_to_history opens host s)) = host"
proof -
  let ?all = "host # removeAll host (sv_recentHosts s)"
  have kept: "sv_recentHosts (add_to_history opens host s) = (if 5 < length ?all then butlast ?all else ?all)"
    using assms(3) by (simp add: add_to_history_def store_setting_def Let_def)
  have d: "distinct ?all" using assms(1) by (simp add: distinct_removeAll)
  have "length (removeAll host (sv_recentHosts s)) \<le> 5"
    using order_trans [OF length_removeAll_less_eq assms(2)] .
  then show ?thesis unfolding kept using d distinct_butlast [OF d] by (cases "removeAll host (sv_recentHosts s) = []") auto
qed

text \<open>A host that can be listed: without the separator and whatever the file of settings cannot hold.\<close>

definition listable :: "string \<Rightarrow> bool" where
  "listable h \<longleftrightarrow> h \<noteq> [] \<and> CHR '','' \<notin> set h \<and> clean_text h"

lemma split_at_part: "c \<notin> set x \<Longrightarrow> split_at c acc (x @ c # ys) = (if acc @ x = [] then split_at c [] ys else (acc @ x) # split_at c [] ys)"
  by (induction x arbitrary: acc) auto

lemma split_at_last: "c \<notin> set x \<Longrightarrow> split_at c acc x = (if acc @ x = [] then [] else [acc @ x])"
  by (induction x arbitrary: acc) auto

lemma split_join: "\<forall>x \<in> set xs. x \<noteq> [] \<and> c \<notin> set x \<Longrightarrow> split_parts c (join_parts c xs) = xs"
  unfolding split_parts_def
  by (induction c xs rule: join_parts.induct) (simp_all add: split_at_part split_at_last)

lemma last_dropWhile: "dropWhile P xs \<noteq> [] \<Longrightarrow> last (dropWhile P xs) = last xs"
  by (induction xs) auto

lemma trim_ends: "trim s \<noteq> [] \<Longrightarrow> \<not> is_blank (hd (trim s)) \<and> \<not> is_blank (last (trim s))"
proof -
  let ?u = "dropWhile is_blank s"
  let ?v = "dropWhile is_blank (rev ?u)"
  assume "trim s \<noteq> []"
  then have v: "?v \<noteq> []" by (simp add: trim_def)
  have u: "?u \<noteq> []" using v by (cases ?u) simp_all
  have "hd (trim s) = hd ?u" unfolding trim_def using v last_dropWhile [OF v] u by (simp add: hd_rev last_rev)
  moreover have "last (trim s) = hd ?v" unfolding trim_def using v by (simp add: last_rev)
  ultimately show ?thesis using hd_dropWhile [OF u] hd_dropWhile [OF v] by simp
qed

lemma dropWhile_none: "xs = [] \<or> \<not> P (hd xs) \<Longrightarrow> dropWhile P xs = xs"
  by (cases xs) auto

lemma trim_none: "s = [] \<or> \<not> is_blank (hd s) \<and> \<not> is_blank (last s) \<Longrightarrow> trim s = s"
  unfolding trim_def using dropWhile_none [of s is_blank] dropWhile_none [of "rev s" is_blank] by (auto simp: hd_rev)

lemma join_ends:
  "xs \<noteq> [] \<Longrightarrow> \<forall>x \<in> set xs. x \<noteq> [] \<Longrightarrow> join_parts c xs \<noteq> [] \<and> hd (join_parts c xs) = hd (hd xs)
    \<and> last (join_parts c xs) = last (last xs)"
  by (induction c xs rule: join_parts.induct) auto

lemma join_set: "set (join_parts c xs) \<subseteq> insert c (\<Union>(set ` set xs))"
  by (induction c xs rule: join_parts.induct) auto

lemma join_clean:
  assumes "\<forall>x \<in> set xs. listable x"
  shows "clean_text (join_parts CHR '','' xs)"
proof (cases "xs = []")
  case False
  have ends: "\<not> is_blank (hd x) \<and> \<not> is_blank (last x)" if "x \<in> set xs" for x
    using assms trim_ends [of x] that by (auto simp: listable_def clean_text_def)
  have "trim (join_parts CHR '','' xs) = join_parts CHR '','' xs"
    using join_ends [OF False, of "CHR '',''"] ends False assms by (intro trim_none) (simp add: listable_def)
  moreover have "CHR 0x0A \<notin> set (join_parts CHR '','' xs)" "CHR ''#'' \<notin> set (join_parts CHR '','' xs)"
    using join_set [of "CHR '',''" xs] assms by (auto simp: listable_def clean_text_def)
  ultimately show ?thesis by (simp add: clean_text_def)
qed (simp add: clean_text_def trim_def)

lemma set_entry_clean: "clean_entry (k, v) \<Longrightarrow> list_all clean_entry es \<Longrightarrow> list_all clean_entry (set_entry k v es)"
  by (induction k v es rule: set_entry.induct) auto

text \<open>The recent hosts a user connected to are those the next start of the program lists, in the same
  order, whatever other settings there are.\<close>
theorem recent_hosts_survive_restart:
  assumes "is_map (cf_settings (sv_config s))" and "list_all clean_entry (cf_settings (sv_config s))"
    and "listable host" and "\<forall>h \<in> set (sv_recentHosts s). listable h"
    and "load (sv_files (add_to_history True host s)) t ''config.ini'' config_new = (ok, c)"
  shows "sv_recentHosts (service_new now tiny files c) = sv_recentHosts (add_to_history True host s)"
proof -
  let ?s = "add_to_history True host s" and ?hosts = "sv_recentHosts (add_to_history True host s)"
  have host: "host \<noteq> []" using assms(3) by (simp add: listable_def)
  have listed: "\<forall>h \<in> set ?hosts. listable h" using assms(3,4) host
    by (auto simp: add_to_history_def store_setting_def Let_def dest: in_set_butlastD)
  let ?es = "set_entry ''recentHosts'' (join_parts CHR '','' ?hosts) (cf_settings (sv_config s))"
  have cs: "cf_settings (sv_config ?s) = ?es" "sv_files ?s = (sv_files s)(''config.ini'' \<mapsto> saved_text ?es)"
    using host by (simp_all add: add_to_history_def store_setting_def set_string_def save_def Let_def)
  have "clean_entry (''recentHosts'', join_parts CHR '','' ?hosts)"
    using join_clean [OF listed] by (simp add: clean_entry_def) code_simp
  then have clean: "list_all clean_entry ?es" using assms(2) by (rule set_entry_clean)
  have "cf_settings c = ?es"
    using assms(5) load_saved [OF clean, of "[]"] fold_set_entry [OF set_entry_is_map [OF assms(1)]]
    by (auto simp: cs(2) load_def config_new_def Let_def)
  then have "get_string ''recentHosts'' [] c = join_parts CHR '','' ?hosts"
    using assms(1) by (simp add: get_string_def map_of_set_entry)
  moreover have "split_parts CHR '','' (join_parts CHR '','' ?hosts) = ?hosts"
    using listed by (intro split_join) (simp add: listable_def)
  ultimately show ?thesis
    by (simp add: service_new_def update_stats_def shown_tier_def add_log_line_def Let_def)
qed

theorem recent_hosts_survive_restart_witness:
  "\<exists>ok c. load (sv_files (add_to_history True ''10.0.0.2'' (service_new 1 (\<lambda>_. False) Map.empty config_new))) 5 ''config.ini'' config_new = (ok, c)
    \<and> sv_recentHosts (service_new 7 (\<lambda>_. False) Map.empty c) = [''10.0.0.2'']"
proof -
  let ?s = "service_new 1 (\<lambda>_. False) Map.empty config_new"
  obtain ok c where l: "load (sv_files (add_to_history True ''10.0.0.2'' ?s)) 5 ''config.ini'' config_new = (ok, c)"
    by (cases "load (sv_files (add_to_history True ''10.0.0.2'' ?s)) 5 ''config.ini'' config_new")
  have s: "cf_settings (sv_config ?s) = []" "sv_recentHosts ?s = []"
    by (simp_all add: service_new_def update_stats_def shown_tier_def add_log_line_def Let_def config_new_def get_string_def split_parts_def)
  have host: "listable ''10.0.0.2''" by (simp add: listable_def clean_text_def trim_def is_blank_def)
  have m: "is_map (cf_settings (sv_config ?s))" unfolding s by (simp add: is_map_def)
  have "sv_recentHosts (service_new 7 (\<lambda>_. False) Map.empty c) = sv_recentHosts (add_to_history True ''10.0.0.2'' ?s)"
    by (rule recent_hosts_survive_restart [OF m _ host _ l]) (simp_all add: s)
  also have "\<dots> = [''10.0.0.2'']" by (simp add: add_to_history_def store_setting_def s Let_def)
  finally show ?thesis using l by blast
qed

text \<open>A comma in the name of a host makes two of it.\<close>

lemma comma_splits_host: "split_parts CHR '','' (join_parts CHR '','' [''a,b'', ''c'']) = [''a'', ''b'', ''c'']"
  by code_simp

section \<open>Display\<close>

text \<open>The parts of an uptime make up its seconds.\<close>

lemma uptime_parts:
  assumes "0 \<le> diff"
  shows "uptime_text diff = dec_int (diff div 3600) @ ''h '' @ dec_int (diff mod 3600 div 60) @ ''m '' @ dec_int (diff mod 60) @ ''s''"
  using assms by (simp add: uptime_text_def Let_def minus_mult_div_eq_mod)

text \<open>The rate a host encodes at is only known to that host: a client, which never records it, shows the lowest
  tier for every stream.\<close>

lemma client_tier: "shown_tier True (Fin 0) = ''Recovery Mode''"
  by (simp add: shown_tier_def)

text \<open>The callback of an error on a thread of the session ends the process before the user sees anything.\<close>

lemma session_error_ends_process:
  "sm_clientThread (sv_manager s) = ActiveThread \<Longrightarrow> on_session_error ClientSide s = None"
  "sm_hostThread (sv_manager s) = ActiveThread \<Longrightarrow> on_session_error HostSide s = None"
  by (simp_all add: on_session_error_def stop_session_on_def set_app_status_def Let_def)

end
