(* ===== verification/Frontend.thy ===== *)
theory Frontend
  imports Dashboard Support Startup
begin

text \<open>
  The ways into the program: the command line (\<open>cpp/main.cpp\<close>) with the calls it makes of the interface
  (\<open>cpp/common/parsec_lite_api.cpp\<close>), and the launcher's window (\<open>cpp/client/launcher.cpp\<close>), whose widgets are
  an argument: what Dear ImGui reports of each in one frame. Drawing is not modelled.
\<close>

section \<open>The command line\<close>

datatype cli_command = RunLauncher | ListInterfaces | ShowUsage | StartSession parsec_config bool

text \<open>\<open>config = {}\<close>, then the defaults of \<open>main\<close>; the local address is never asked for.\<close>

definition cli_config :: "bool \<Rightarrow> string \<Rightarrow> parsec_config" where
  "cli_config isHost hostIp = \<lparr>pc_selectedIp = c_field 64 ''127.0.0.1'', pc_hostIp = c_field 64 hostIp, pc_username = [],
     pc_bitrate = 5000, pc_fps = 60, pc_resolutionScale = Fin 0, pc_isHost = isHost, pc_useHardwareEncoding = True,
     pc_autoApprove = False, pc_encoderPreset = 0\<rparr>"

text \<open>\<open>args[0]\<close> is the program; the \<open>bool\<close> of \<open>StartSession\<close> is \<open>runBoth\<close>.\<close>

definition cli_action :: "string list \<Rightarrow> fault + cli_command" where
  "cli_action args =
     (if length args = 1 then Inr RunLauncher
      else if args = [] then Inl OutOfBounds
      else if args ! 1 = ''--list'' then Inr ListInterfaces
      else if args ! 1 = ''--host'' then Inr (StartSession (cli_config True []) False)
      else if args ! 1 = ''--standalone'' then Inr (StartSession (cli_config True ''127.0.0.1'') True)
      else if 2 < length args \<and> args ! 1 = ''--client'' then Inr (StartSession (cli_config False (args ! 2)) False)
      else Inr ShowUsage)"

text \<open>The calls of \<open>Parsec_StartSession\<close>, then, at the end of the message loop or on Enter, \<open>Parsec_StopSession\<close> and
  \<open>Parsec_Shutdown\<close>. \<open>others\<close>: what the threads did to the manager in between; \<open>None\<close>: \<open>std::terminate\<close>.\<close>

definition cli_main :: "bool \<Rightarrow> (manager \<Rightarrow> manager) \<Rightarrow> string list \<Rightarrow> fault + manager option" where
  "cli_main crypto others args = fbind (cli_action args) (\<lambda>a. case a of
     StartSession cfg both \<Rightarrow>
       Inr (map_option (\<lambda>(es, m). stop_session (stop_session (others m)))
         (start_session crypto \<lparr>sc_isHost = pc_isHost cfg, sc_runBoth = both\<rparr> manager_new))
   | _ \<Rightarrow> Inr (Some manager_new))"

lemma cli_sessions_are_local:
  "cli_action args = Inr (StartSession cfg both) \<Longrightarrow> pc_selectedIp cfg = ''127.0.0.1''"
  by (auto simp: cli_action_def cli_config_def c_field_def split: if_splits)

text \<open>The interface that is bound is the loopback one, although a host elsewhere is named.\<close>

lemma cli_client_binds_loopback:
  "length host < 64 \<Longrightarrow> \<exists>cfg. cli_action [prog, ''--client'', host] = Inr (StartSession cfg False)
     \<and> pc_hostIp cfg = host \<and> pc_selectedIp cfg = ''127.0.0.1''"
  by (simp add: cli_action_def cli_config_def c_field_def)

lemma cli_main_returns:
  assumes "args \<noteq> []"
  shows "\<exists>m. cli_main crypto others args = Inr (Some m) \<and> sm_hostThread m = NoThread \<and> sm_clientThread m = NoThread"
proof -
  have "\<exists>a. cli_action args = Inr a" using assms by (auto simp: cli_action_def)
  then obtain a where a: "cli_action args = Inr a" ..
  show ?thesis
  proof (cases a)
    case (StartSession cfg both)
    have "start_session crypto \<lparr>sc_isHost = pc_isHost cfg, sc_runBoth = both\<rparr> manager_new \<noteq> None"
      by (simp add: start_session_terminates_iff manager_new_def)
    then show ?thesis by (auto simp: cli_main_def a StartSession stop_session_def)
  qed (auto simp: cli_main_def a manager_new_def)
qed

section \<open>The launcher's window\<close>

record launcher = launcher_config +
  la_useHardwareEncoding :: bool
  la_startRequested :: bool

definition launcher_new :: launcher where
  "launcher_new = \<lparr>lc_selectedIp = ''127.0.0.1'', lc_hostIp = ''127.0.0.1'', lc_bitrate = 8000, lc_fps = 60, lc_isHost = True,
     la_useHardwareEncoding = True, la_startRequested = False\<rparr>"

text \<open>\<open>wi_open\<close>: the window is drawn; \<open>wi_text\<close>, \<open>wi_bitrate\<close>, \<open>wi_fps\<close>: what was typed or dragged to.\<close>

record widgets =
  wi_open :: bool
  wi_host :: bool
  wi_client :: bool
  wi_interface :: "interface_info option"
  wi_text :: "string option"
  wi_lowLatency :: bool
  wi_balanced :: bool
  wi_quality :: bool
  wi_bitrate :: "int option"
  wi_fps :: "int option"
  wi_hardware :: bool
  wi_start :: bool

definition preset :: "bool \<Rightarrow> int \<Rightarrow> int \<Rightarrow> launcher \<Rightarrow> launcher" where
  "preset pressed bitrate fps c = (if pressed then c\<lparr>lc_bitrate := bitrate, lc_fps := fps\<rparr> else c)"

definition slider :: "int \<Rightarrow> int \<Rightarrow> int option \<Rightarrow> int \<Rightarrow> int" where
  "slider lo hi moved v = (case moved of None \<Rightarrow> v | Some x \<Rightarrow> max lo (min hi x))"

text \<open>The text field holds 127 characters. Without interfaces there is nothing to select. A disabled button is not
  pressed; the validation is that of the settings before this frame's edits.\<close>

definition launcher_render :: "interface_info list \<Rightarrow> widgets \<Rightarrow> launcher \<Rightarrow> launcher" where
  "launcher_render interfaces w c =
     (if \<not> wi_open w then c
      else let hasErrors = has_blocking_errors (validate_launcher_config (launcher_config.truncate c) interfaces);
        c = (if wi_host w then c\<lparr>lc_isHost := True\<rparr> else c);
        c = (if wi_client w then c\<lparr>lc_isHost := False\<rparr> else c);
        c = (case wi_interface w of Some i \<Rightarrow> if i \<in> set interfaces then c\<lparr>lc_selectedIp := ii_ip i\<rparr> else c | None \<Rightarrow> c);
        c = (if lc_isHost c then c else case wi_text w of Some s \<Rightarrow> c\<lparr>lc_hostIp := take 127 s\<rparr> | None \<Rightarrow> c);
        c = preset (wi_lowLatency w) 5000 60 c;
        c = preset (wi_balanced w) 8000 60 c;
        c = preset (wi_quality w) 12000 90 c;
        c = c\<lparr>lc_bitrate := slider 1000 20000 (wi_bitrate w) (lc_bitrate c), lc_fps := slider 30 144 (wi_fps w) (lc_fps c)\<rparr>;
        c = (if wi_hardware w then c\<lparr>la_useHardwareEncoding := \<not> la_useHardwareEncoding c\<rparr> else c)
      in if wi_start w \<and> \<not> hasErrors then c\<lparr>la_startRequested := True\<rparr> else c)"

definition in_ranges :: "launcher \<Rightarrow> bool" where
  "in_ranges c \<longleftrightarrow> lc_bitrate c \<in> {1000..20000} \<and> lc_fps c \<in> {30..144}"

lemma launcher_keeps_ranges: "in_ranges c \<Longrightarrow> in_ranges (launcher_render interfaces w c)"
  by (auto simp: launcher_render_def in_ranges_def preset_def slider_def Let_def split: option.split)

text \<open>What is started has been valid one frame before; with a quality the launcher offers and an interface of this
  machine.\<close>

lemma launcher_starts_valid:
  assumes "la_startRequested (launcher_render interfaces w c)" and "\<not> la_startRequested c"
  shows "\<exists>i \<in> set interfaces. ii_ip i = lc_selectedIp c" "lc_isHost c \<or> lc_hostIp c \<noteq> []" "in_ranges c"
proof -
  have "\<not> has_blocking_errors (validate_launcher_config (launcher_config.truncate c) interfaces)"
    using assms by (auto simp: launcher_render_def preset_def Let_def split: option.splits if_splits)
  then show "\<exists>i \<in> set interfaces. ii_ip i = lc_selectedIp c" "lc_isHost c \<or> lc_hostIp c \<noteq> []" "in_ranges c"
    by (simp_all add: launcher_starts_iff launcher_config.truncate_def in_ranges_def)
qed

lemma launcher_run_in_ranges: "in_ranges (fold (launcher_render interfaces) ws launcher_new)"
proof -
  have "in_ranges c \<Longrightarrow> in_ranges (fold (launcher_render interfaces) ws c)" for c
    by (induction ws arbitrary: c) (simp_all add: launcher_keeps_ranges)
  then show ?thesis by (simp add: in_ranges_def launcher_new_def)
qed

text \<open>Only on the machine itself is the preset interface one of its own: the launcher starts with a setup it refuses
  elsewhere.\<close>

lemma launcher_default_needs_loopback:
  "has_blocking_errors (validate_launcher_config (launcher_config.truncate launcher_new) interfaces)
     \<longleftrightarrow> (\<forall>i \<in> set interfaces. ii_ip i \<noteq> ''127.0.0.1'')"
  using launcher_starts_iff [of "launcher_config.truncate launcher_new" interfaces]
  by (auto simp: launcher_config.truncate_def launcher_new_def)

end
