(* ===== verification/CrashReports.thy ===== *)
theory CrashReports
  imports Prelude
begin

text \<open>
  \<open>CrashDiagnostics::CrashHandler\<close> (\<open>cpp/common/crash_handler.cpp\<close>): which exceptions and signals lead to a
  report, and the guard that lets one report through. The text of a report is in the theory CrashContents.
\<close>

section \<open>Reasons\<close>

definition EXCEPTION_ACCESS_VIOLATION :: u32 where "EXCEPTION_ACCESS_VIOLATION = 0xC0000005"
definition EXCEPTION_ARRAY_BOUNDS_EXCEEDED :: u32 where "EXCEPTION_ARRAY_BOUNDS_EXCEEDED = 0xC000008C"
definition EXCEPTION_BREAKPOINT :: u32 where "EXCEPTION_BREAKPOINT = 0x80000003"
definition EXCEPTION_DATATYPE_MISALIGNMENT :: u32 where "EXCEPTION_DATATYPE_MISALIGNMENT = 0x80000002"
definition EXCEPTION_FLT_DIVIDE_BY_ZERO :: u32 where "EXCEPTION_FLT_DIVIDE_BY_ZERO = 0xC000008E"
definition EXCEPTION_ILLEGAL_INSTRUCTION :: u32 where "EXCEPTION_ILLEGAL_INSTRUCTION = 0xC000001D"
definition EXCEPTION_STACK_OVERFLOW :: u32 where "EXCEPTION_STACK_OVERFLOW = 0xC00000FD"

definition exception_name :: "u32 \<Rightarrow> string" where
  "exception_name code =
     (if code = EXCEPTION_ACCESS_VIOLATION then ''Access Violation (0xC0000005)''
      else if code = EXCEPTION_ARRAY_BOUNDS_EXCEEDED then ''Array Bounds Exceeded''
      else if code = EXCEPTION_BREAKPOINT then ''Breakpoint''
      else if code = EXCEPTION_DATATYPE_MISALIGNMENT then ''Datatype Misalignment''
      else if code = EXCEPTION_FLT_DIVIDE_BY_ZERO then ''Floating-point Divide by Zero''
      else if code = EXCEPTION_ILLEGAL_INSTRUCTION then ''Illegal Instruction''
      else if code = EXCEPTION_STACK_OVERFLOW then ''Stack Overflow''
      else ''Unknown Exception'')"

definition signal_name :: "nat \<Rightarrow> string" where
  "signal_name sig =
     (if sig = 11 then ''Segmentation Fault (SIGSEGV)''
      else if sig = 8 then ''Floating-point Exception (SIGFPE)''
      else if sig = 4 then ''Illegal Instruction (SIGILL)''
      else if sig = 6 then ''Aborted (SIGABRT)''
      else if sig = 7 then ''Bus Error (SIGBUS)''
      else ''Unknown POSIX Signal'')"

text \<open>\<open>std::hex\<close>: lower case, no leading zeros.\<close>

definition hex_char :: "nat \<Rightarrow> char" where
  "hex_char d = ''0123456789abcdef'' ! (d mod 16)"

fun hex_nat :: "nat \<Rightarrow> string" where
  "hex_nat n = (if n < 16 then [hex_char n] else hex_nat (n div 16) @ [hex_char n])"

declare hex_nat.simps [simp del]

definition exception_reason :: "u32 \<Rightarrow> string" where
  "exception_reason code = ''Fatal Windows Exception 0x'' @ hex_nat (unat code) @ '' ('' @ exception_name code @ '')''"

definition signal_reason :: "nat \<Rightarrow> string" where
  "signal_reason sig = ''Fatal POSIX Signal '' @ dec_nat sig @ '' ('' @ signal_name sig @ '')''"

section \<open>Handlers\<close>

text \<open>\<open>cr_reports\<close>: the reasons of the reports written; \<open>cr_compressed\<close>: those handed to the archiver.\<close>

record crash_handler =
  cr_generated :: bool
  cr_reports :: "string list"
  cr_compressed :: "string list"

definition crash_handler_new :: crash_handler where
  "crash_handler_new = \<lparr>cr_generated = False, cr_reports = [], cr_compressed = []\<rparr>"

text \<open>\<open>opened\<close>: the report file can be opened.\<close>

definition generate_crash_report :: "bool \<Rightarrow> string \<Rightarrow> bool \<Rightarrow> crash_handler \<Rightarrow> crash_handler" where
  "generate_crash_report opened reason isSignalContext c =
     (if cr_generated c then c
      else let c = c\<lparr>cr_generated := True\<rparr> in
        if \<not> opened then c
        else let c = c\<lparr>cr_reports := cr_reports c @ [reason]\<rparr> in
          if isSignalContext then c else c\<lparr>cr_compressed := cr_compressed c @ [reason]\<rparr>)"

datatype verdict = ContinueSearch | ExecuteHandler | Reraised

text \<open>Every exception of these codes passes the vectored handler first, also those that the program or a library
  handles afterwards.\<close>

definition vectored_handler :: "bool \<Rightarrow> u32 \<Rightarrow> crash_handler \<Rightarrow> verdict \<times> crash_handler" where
  "vectored_handler opened code c =
     (ContinueSearch,
      if code \<in> {EXCEPTION_ACCESS_VIOLATION, EXCEPTION_ARRAY_BOUNDS_EXCEEDED, EXCEPTION_STACK_OVERFLOW, EXCEPTION_ILLEGAL_INSTRUCTION}
      then generate_crash_report opened (exception_reason code) False c else c)"

definition unhandled_filter :: "bool \<Rightarrow> u32 \<Rightarrow> crash_handler \<Rightarrow> verdict \<times> crash_handler" where
  "unhandled_filter opened code c = (ExecuteHandler, generate_crash_report opened (exception_reason code) False c)"

definition posix_signal_handler :: "bool \<Rightarrow> nat \<Rightarrow> crash_handler \<Rightarrow> verdict \<times> crash_handler" where
  "posix_signal_handler opened sig c = (Reraised, generate_crash_report opened (signal_reason sig) True c)"

text \<open>An exception is handled by somebody, or ends in the filter.\<close>

datatype crash_event = Exception u32 bool | Signal nat

definition crash_step :: "bool \<times> crash_event \<Rightarrow> crash_handler \<Rightarrow> crash_handler" where
  "crash_step = (\<lambda>(opened, e) c. case e of
       Exception code handled \<Rightarrow>
         (let c = snd (vectored_handler opened code c) in if handled then c else snd (unhandled_filter opened code c))
     | Signal sig \<Rightarrow> snd (posix_signal_handler opened sig c))"

section \<open>One report\<close>

lemma generated_stays: "cr_generated c \<Longrightarrow> crash_step e c = c"
  by (auto simp: crash_step_def vectored_handler_def unhandled_filter_def posix_signal_handler_def generate_crash_report_def Let_def
      split: prod.split crash_event.split)

lemma generated_run: "cr_generated c \<Longrightarrow> fold crash_step es c = c"
  by (induction es) (simp_all add: generated_stays)

lemma crash_step_once:
  assumes "\<not> cr_generated c" and "cr_reports c = []"
  shows "crash_step e c = c \<or> cr_generated (crash_step e c) \<and> length (cr_reports (crash_step e c)) \<le> 1"
  using assms
  by (auto simp: crash_step_def vectored_handler_def unhandled_filter_def posix_signal_handler_def generate_crash_report_def Let_def
      split: prod.split crash_event.split)

lemma at_most_one_report: "length (cr_reports (fold crash_step es crash_handler_new)) \<le> 1"
proof -
  have "\<not> cr_generated c \<Longrightarrow> cr_reports c = [] \<Longrightarrow> length (cr_reports (fold crash_step es c)) \<le> 1" for c
  proof (induction es arbitrary: c)
    case (Cons e es)
    from crash_step_once [OF Cons.prems, of e] show ?case using Cons generated_run [of "crash_step e c" es] by auto
  qed simp
  then show ?thesis by (simp add: crash_handler_new_def)
qed

text \<open>An access violation that somebody handles uses the report up: the crash that follows leaves none.\<close>

lemma handled_exception_hides_crash:
  "cr_reports (fold crash_step ((True, Exception EXCEPTION_ACCESS_VIOLATION True) # es) crash_handler_new)
     = [exception_reason EXCEPTION_ACCESS_VIOLATION]"
proof -
  let ?c = "crash_step (True, Exception EXCEPTION_ACCESS_VIOLATION True) crash_handler_new"
  have "cr_generated ?c" "cr_reports ?c = [exception_reason EXCEPTION_ACCESS_VIOLATION]"
    by (simp_all add: crash_step_def vectored_handler_def generate_crash_report_def crash_handler_new_def Let_def)
  then show ?thesis using generated_run [of ?c es] by simp
qed

text \<open>A report that cannot be opened counts as written.\<close>

lemma unopened_report_is_last: "cr_reports (fold crash_step ((False, Signal sig) # es) crash_handler_new) = []"
proof -
  let ?c = "crash_step (False, Signal sig) crash_handler_new"
  have "cr_generated ?c" "cr_reports ?c = []"
    by (simp_all add: crash_step_def posix_signal_handler_def generate_crash_report_def crash_handler_new_def Let_def)
  then show ?thesis using generated_run [of ?c es] by simp
qed

text \<open>A division by zero is reported by the filter only, and with its name only if it is one of floating point.\<close>

lemma integer_division_unnamed: "exception_name 0xC0000094 = ''Unknown Exception''"
  by (simp add: exception_name_def EXCEPTION_ACCESS_VIOLATION_def EXCEPTION_ARRAY_BOUNDS_EXCEEDED_def EXCEPTION_BREAKPOINT_def
      EXCEPTION_DATATYPE_MISALIGNMENT_def EXCEPTION_FLT_DIVIDE_BY_ZERO_def EXCEPTION_ILLEGAL_INSTRUCTION_def EXCEPTION_STACK_OVERFLOW_def)

lemma access_violation_text: "exception_reason EXCEPTION_ACCESS_VIOLATION
    = ''Fatal Windows Exception 0xc0000005 (Access Violation (0xC0000005))''"
  by (simp add: exception_reason_def exception_name_def EXCEPTION_ACCESS_VIOLATION_def hex_nat.simps hex_char_def)

end
