(* ===== verification/AudioPath.thy ===== *)
theory AudioPath
  imports Prelude "HOL-Library.Multiset"
begin

text \<open>
  Sound: \<open>Host::AudioCapture\<close>, \<open>Host::AudioEncoder\<close>, \<open>Client::AudioDecoder\<close> and \<open>Client::AudioRenderer\<close>
  (\<open>cpp/host/audio_*.cpp\<close>, \<open>cpp/client/audio_*.cpp\<close>). The program moves samples and never computes with
  them, so their type is a variable. Opus (through FFmpeg) and the WASAPI devices are a parameter: what
  their calls return is an argument.
\<close>

section \<open>Loops over arrays\<close>

definition list_get :: "'a list \<Rightarrow> nat \<Rightarrow> fault + 'a" where
  "list_get xs i = (if i < length xs then Inr (xs ! i) else Inl OutOfBounds)"

definition list_set :: "'a list \<Rightarrow> nat \<Rightarrow> 'a \<Rightarrow> fault + 'a list" where
  "list_set xs i x = (if i < length xs then Inr (xs[i := x]) else Inl OutOfBounds)"

fun for_each :: "('a \<Rightarrow> 's \<Rightarrow> fault + 's) \<Rightarrow> 'a list \<Rightarrow> 's \<Rightarrow> fault + 's" where
  "for_each f [] s = Inr s"
| "for_each f (x # xs) s = fbind (f x s) (for_each f xs)"

text \<open>The pairs of a nested loop over samples and channels.\<close>

definition sample_pairs :: "nat \<Rightarrow> nat \<Rightarrow> (nat \<times> nat) list" where
  "sample_pairs n channels = List.product [0..<n] [0..<channels]"

section \<open>The encoder\<close>

text \<open>\<open>ae_codec\<close>: channels and frame size of the codec context; \<open>ae_planes\<close>: one array per channel, as long
  as \<open>av_frame_get_buffer\<close> made it.\<close>

record 'a audio_encoder =
  ae_codec :: "(nat \<times> nat) option"
  ae_planes :: "'a list list"

definition store_sample :: "nat \<Rightarrow> 'a list \<Rightarrow> nat \<times> nat \<Rightarrow> 'a list list \<Rightarrow> fault + 'a list list" where
  "store_sample channels pcm = (\<lambda>(i, ch) planes.
     fbind (list_get pcm (i * channels + ch)) (\<lambda>x.
     fbind (list_get planes ch) (\<lambda>plane.
     fbind (list_set plane i x) (list_set planes ch))))"

definition to_planes :: "nat \<Rightarrow> 'a list \<Rightarrow> 'a list list \<Rightarrow> fault + 'a list list" where
  "to_planes channels pcm planes =
     for_each (store_sample channels pcm) (sample_pairs (length pcm div channels) channels) planes"

text \<open>The packets are what \<open>avcodec_receive_packet\<close> returns until it returns none. The frame always goes out
  with the frame size of the codec, however many samples were stored.\<close>

definition audio_encode ::
  "bool \<Rightarrow> bytes list \<Rightarrow> 'a list \<Rightarrow> bytes \<Rightarrow> 'a audio_encoder \<Rightarrow> fault + (bool \<times> bytes \<times> 'a audio_encoder)" where
  "audio_encode sendOk packets pcm out e =
     (case ae_codec e of None \<Rightarrow> Inr (False, out, e)
      | Some (channels, frame_size) \<Rightarrow>
          fbind (to_planes channels pcm (ae_planes e)) (\<lambda>planes.
          let e = e\<lparr>ae_planes := planes\<rparr> in
          if \<not> sendOk then Inr (False, out, e)
          else let out = out @ concat packets in Inr (out \<noteq> [], out, e)))"

section \<open>The decoder\<close>

text \<open>A decoded frame: its number of samples and its planes.\<close>

definition fetch_sample :: "nat \<Rightarrow> nat \<Rightarrow> 'a list list \<Rightarrow> nat \<times> nat \<Rightarrow> 'a list \<Rightarrow> fault + 'a list" where
  "fetch_sample offset channels planes = (\<lambda>(i, ch) out.
     fbind (list_get planes ch) (\<lambda>plane.
     fbind (list_get plane i) (list_set out (offset + i * channels + ch))))"

definition from_planes :: "'a \<Rightarrow> nat \<times> 'a list list \<Rightarrow> 'a list \<Rightarrow> fault + 'a list" where
  "from_planes zero = (\<lambda>(n, planes) out.
     let channels = length planes in
     for_each (fetch_sample (length out) channels planes) (sample_pairs n channels) (out @ replicate (n * channels) zero))"

definition audio_decode :: "bool \<Rightarrow> bool \<Rightarrow> 'a \<Rightarrow> (nat \<times> 'a list list) list \<Rightarrow> 'a list \<Rightarrow> fault + (bool \<times> 'a list)" where
  "audio_decode codec sendOk zero frames out =
     (if \<not> codec then Inr (False, out)
      else if \<not> sendOk then Inr (False, out)
      else fbind (for_each (from_planes zero) frames out) (\<lambda>out. Inr (out \<noteq> [], out)))"

section \<open>The renderer\<close>

text \<open>\<open>ar_played\<close> is what was released to the device: the samples handed over, without the silence. It is
  no member of the class.\<close>

record 'a audio_renderer =
  ar_buffer :: "'a list"
  ar_channels :: nat
  ar_played :: "'a list"

definition push_samples :: "'a list \<Rightarrow> 'a audio_renderer \<Rightarrow> 'a audio_renderer" where
  "push_samples xs r = r\<lparr>ar_buffer := ar_buffer r @ xs\<rparr>"

text \<open>One round of \<open>RenderThread\<close>: the copy, and the number of frames given to \<open>ReleaseBuffer\<close>.\<close>

definition render_round :: "u32 \<Rightarrow> u32 \<Rightarrow> 'a audio_renderer \<Rightarrow> 'a audio_renderer" where
  "render_round bufferSize padding r =
     (let available = unat (bufferSize - padding) in
      if 0 < available then
        (let toCopy = min (available * ar_channels r) (length (ar_buffer r)) in
         if 0 < toCopy then
           r\<lparr>ar_buffer := drop toCopy (ar_buffer r),
             ar_played := ar_played r @ take (toCopy div ar_channels r * ar_channels r) (take toCopy (ar_buffer r))\<rparr>
         else r)
      else r)"

section \<open>The capture thread\<close>

text \<open>What the device answers in one round of the inner loop: whether \<open>GetBuffer\<close> succeeds, with the samples
  and the silence flag. The list ends where \<open>GetNextPacketSize\<close> fails or returns 0.\<close>

datatype 'a capture_answer = Packet bool "'a list" | BufferFailed

definition capture_packet :: "'a capture_answer \<Rightarrow> 'a list list" where
  "capture_packet a = (case a of BufferFailed \<Rightarrow> [] | Packet silent xs \<Rightarrow> if silent then [] else [xs])"

text \<open>The calls of the callback in one wake-up.\<close>

definition capture_round :: "bool \<Rightarrow> 'a capture_answer list \<Rightarrow> 'a list list" where
  "capture_round running answers = (if running then concat (map capture_packet answers) else [])"


text \<open>The objects of the capture that are alive, kept beside it.\<close>

datatype audio_object = Enumerator | Audio_Device | Audio_Client | Mix_Format | Event_Handle | Capture_Client | Render_Client

record audio_capture =
  ap_running :: bool
  ap_enumerator :: bool
  ap_device :: bool
  ap_client :: bool
  ap_format :: bool
  ap_event :: bool
  ap_captureClient :: bool

definition audio_capture_new :: audio_capture where
  "audio_capture_new = \<lparr>ap_running = False, ap_enumerator = False, ap_device = False, ap_client = False,
     ap_format = False, ap_event = False, ap_captureClient = False\<rparr>"

record wasapi =
  wa_coInit :: bool
  wa_instance :: bool
  wa_endpoint :: bool
  wa_activate :: bool
  wa_format :: bool
  wa_client :: bool
  wa_event :: bool
  wa_setEvent :: bool
  wa_service :: bool

definition when_made :: "bool \<Rightarrow> audio_object \<Rightarrow> audio_object multiset" where
  "when_made b r = (if b then {#r#} else {#})"

definition capture_initialize ::
  "wasapi \<Rightarrow> audio_object multiset \<times> audio_capture \<Rightarrow> bool \<times> audio_object multiset \<times> audio_capture" where
  "capture_initialize w = (\<lambda>(h, c).
     if \<not> wa_coInit w then (False, h, c)
     else if \<not> wa_instance w then (False, h, c\<lparr>ap_enumerator := False\<rparr>)
     else let h = add_mset Enumerator h; c = c\<lparr>ap_enumerator := True\<rparr> in
       if \<not> wa_endpoint w then (False, h, c\<lparr>ap_device := False\<rparr>)
       else let h = add_mset Audio_Device h; c = c\<lparr>ap_device := True\<rparr> in
         if \<not> wa_activate w then (False, h, c\<lparr>ap_client := False\<rparr>)
         else let h = add_mset Audio_Client h; c = c\<lparr>ap_client := True\<rparr> in
           if \<not> wa_format w then (False, h, c\<lparr>ap_format := False\<rparr>)
           else let h = add_mset Mix_Format h; c = c\<lparr>ap_format := True\<rparr> in
             if \<not> wa_client w then (False, h, c)
             else let h = h + when_made (wa_event w) Event_Handle; c = c\<lparr>ap_event := wa_event w\<rparr> in
               if \<not> wa_setEvent w then (False, h, c)
               else if \<not> wa_service w then (False, h, c\<lparr>ap_captureClient := False\<rparr>)
               else (True, add_mset Capture_Client h, c\<lparr>ap_captureClient := True\<rparr>))"

text \<open>\<open>None\<close>: a null pointer is called.\<close>

definition capture_start :: "audio_capture \<Rightarrow> audio_capture option" where
  "capture_start c = (if ap_running c then Some c else if ap_client c then Some (c\<lparr>ap_running := True\<rparr>) else None)"

definition capture_stop :: "audio_object multiset \<times> audio_capture \<Rightarrow> audio_object multiset \<times> audio_capture" where
  "capture_stop = (\<lambda>(h, c).
     (h - when_made (ap_captureClient c) Capture_Client - when_made (ap_client c) Audio_Client - when_made (ap_device c) Audio_Device
        - when_made (ap_enumerator c) Enumerator - when_made (ap_format c) Mix_Format,
      c\<lparr>ap_running := False, ap_captureClient := False, ap_client := False, ap_device := False, ap_enumerator := False,
        ap_format := False\<rparr>))"

section \<open>The renderer's device\<close>

text \<open>The enumerator and the device are locals of \<open>Initialize\<close>, released where it succeeds; nothing releases the
  members.\<close>

definition renderer_initialize :: "wasapi \<Rightarrow> audio_object multiset \<Rightarrow> bool \<times> audio_object multiset" where
  "renderer_initialize w h =
     (if \<not> wa_coInit w then (False, h)
      else if \<not> wa_instance w then (False, h)
      else if \<not> wa_endpoint w then (False, add_mset Enumerator h)
      else if \<not> wa_activate w then (False, {#Enumerator, Audio_Device#} + h)
      else if \<not> wa_client w then (False, {#Enumerator, Audio_Device, Audio_Client#} + h)
      else let h = h + when_made (wa_event w) Event_Handle in
        if \<not> wa_service w then (False, {#Enumerator, Audio_Device, Audio_Client#} + h)
        else (True, {#Audio_Client, Render_Client#} + h))"

section \<open>Interleaved and planar samples\<close>

lemma set_sample_pairs: "(i, ch) \<in> set (sample_pairs n channels) \<longleftrightarrow> i < n \<and> ch < channels"
  by (auto simp: sample_pairs_def)

lemma pair_index:
  fixes i ch n c :: nat
  assumes "i < n" and "ch < c"
  shows "i * c + ch < n * c"
proof -
  have "i * c + ch < Suc i * c" using assms(2) by simp
  also have "\<dots> \<le> n * c" using assms(1) by (intro mult_le_mono1) simp
  finally show ?thesis .
qed

definition shape :: "'a list list \<Rightarrow> nat list" where
  "shape planes = map length planes"

lemma store_sample_result:
  assumes "ch < length planes" and "i < length (planes ! ch)" and "i * channels + ch < length pcm"
  shows "store_sample channels pcm (i, ch) planes = Inr (planes[ch := (planes ! ch)[i := pcm ! (i * channels + ch)]])"
  using assms by (simp add: store_sample_def list_get_def list_set_def)

lemma for_each_store:
  assumes "\<forall>(i, ch) \<in> set ps. ch < length planes \<and> i < length (planes ! ch) \<and> i * channels + ch < length pcm"
  shows "\<exists>planes'. for_each (store_sample channels pcm) ps planes = Inr planes' \<and> shape planes' = shape planes
    \<and> (\<forall>ch < length planes. \<forall>i < length (planes ! ch).
        planes' ! ch ! i = (if (i, ch) \<in> set ps then pcm ! (i * channels + ch) else planes ! ch ! i))"
  using assms
proof (induction ps arbitrary: planes)
  case (Cons p ps)
  obtain i ch where p: "p = (i, ch)" by (cases p)
  let ?planes = "planes[ch := (planes ! ch)[i := pcm ! (i * channels + ch)]]"
  have s: "store_sample channels pcm p planes = Inr ?planes"
    using Cons.prems unfolding p by (intro store_sample_result) auto
  have sh: "length (?planes ! c) = length (planes ! c)" for c by (cases "c = ch"; cases "ch < length planes") (auto simp: list_update_beyond)
  obtain planes' where planes': "for_each (store_sample channels pcm) ps ?planes = Inr planes'" "shape planes' = shape ?planes"
    "\<forall>c < length ?planes. \<forall>k < length (?planes ! c).
        planes' ! c ! k = (if (k, c) \<in> set ps then pcm ! (k * channels + c) else ?planes ! c ! k)"
    using Cons.IH [of ?planes] Cons.prems sh by auto
  have "shape ?planes = shape planes" by (rule nth_equalityI) (simp_all add: shape_def sh)
  moreover have "planes' ! c ! k = (if (k, c) \<in> set (p # ps) then pcm ! (k * channels + c) else planes ! c ! k)"
    if "c < length planes" "k < length (planes ! c)" for c k
    using planes'(3) that sh Cons.prems by (auto simp: p nth_list_update)
  ultimately show ?case using planes'(1,2) s by (intro exI [of _ planes']) simp
qed simp

text \<open>The planes hold the samples, and are written out of range exactly when there are more than they hold.\<close>

lemma to_planes_result:
  assumes "length planes = channels" and "\<forall>plane \<in> set planes. length plane = n" and "length pcm div channels \<le> n"
  shows "\<exists>planes'. to_planes channels pcm planes = Inr planes' \<and> length planes' = channels
    \<and> (\<forall>ch < channels. length (planes' ! ch) = n \<and> (\<forall>i < n. planes' ! ch ! i =
        (if i < length pcm div channels then pcm ! (i * channels + ch) else planes ! ch ! i)))"
proof -
  have in_pcm: "i * channels + ch < length pcm" if "i < length pcm div channels" "ch < channels" for i ch
    using pair_index [OF that] div_times_less_eq_dividend [of "length pcm" channels] by linarith
  have "\<forall>(i, ch) \<in> set (sample_pairs (length pcm div channels) channels).
      ch < length planes \<and> i < length (planes ! ch) \<and> i * channels + ch < length pcm"
    using assms in_pcm by (force simp: set_sample_pairs)
  then obtain planes' where p: "to_planes channels pcm planes = Inr planes'" "shape planes' = shape planes"
    "\<forall>ch < length planes. \<forall>i < length (planes ! ch).
       planes' ! ch ! i = (if (i, ch) \<in> set (sample_pairs (length pcm div channels) channels)
         then pcm ! (i * channels + ch) else planes ! ch ! i)"
    using for_each_store unfolding to_planes_def by blast
  have l: "length planes' = channels" using p(2) assms(1) by (metis length_map shape_def)
  have "length (planes' ! ch) = n" if "ch < channels" for ch
  proof -
    have "map length planes' ! ch = map length planes ! ch" using p(2) by (simp add: shape_def)
    then show ?thesis using that l assms(1,2) by simp
  qed
  then show ?thesis using p(1,3) l assms(1,2) by (auto simp: set_sample_pairs)
qed

lemma for_each_fetch:
  assumes "\<forall>(i, ch) \<in> set ps. ch < length planes \<and> i < length (planes ! ch) \<and> off + i * channels + ch < length out"
    and "\<forall>(i, ch) \<in> set ps. ch < channels"
  shows "\<exists>out'. for_each (fetch_sample off channels planes) ps out = Inr out' \<and> length out' = length out
    \<and> (\<forall>k < length out. (\<forall>(i, ch) \<in> set ps. off + i * channels + ch \<noteq> k) \<longrightarrow> out' ! k = out ! k)
    \<and> (\<forall>(i, ch) \<in> set ps. out' ! (off + i * channels + ch) = planes ! ch ! i)"
  using assms
proof (induction ps arbitrary: out)
  case (Cons p ps)
  obtain i ch where p: "p = (i, ch)" by (cases p)
  let ?k = "off + i * channels + ch" and ?x = "planes ! ch ! i"
  have k: "ch < length planes" "i < length (planes ! ch)" "?k < length out" "ch < channels" using Cons.prems by (auto simp: p)
  have s: "fetch_sample off channels planes p out = Inr (out[?k := ?x])"
    using k by (simp add: p fetch_sample_def list_get_def list_set_def)
  obtain out' where out': "for_each (fetch_sample off channels planes) ps (out[?k := ?x]) = Inr out'"
    "length out' = length out"
    "\<forall>m < length out. (\<forall>(j, c) \<in> set ps. off + j * channels + c \<noteq> m) \<longrightarrow> out' ! m = out[?k := ?x] ! m"
    "\<forall>(j, c) \<in> set ps. out' ! (off + j * channels + c) = planes ! c ! j"
    using Cons.IH [of "out[?k := ?x]"] Cons.prems by auto
  have "out' ! ?k = ?x"
  proof (cases "\<forall>(j, c) \<in> set ps. off + j * channels + c \<noteq> ?k")
    case True
    then show ?thesis using out'(3) k(3) by simp
  next
    case False
    then obtain j c where j: "(j, c) \<in> set ps" "j * channels + c = i * channels + ch" by auto
    then have "c < channels" using Cons.prems(2) by auto
    then have "(j * channels + c) div channels = j" "(j * channels + c) mod channels = c" by simp_all
    moreover have "(i * channels + ch) div channels = i" "(i * channels + ch) mod channels = ch" using k(4) by simp_all
    ultimately have "j = i" "c = ch" using j(2) by simp_all
    then show ?thesis using out'(4) j(1) by auto
  qed
  moreover have "out' ! m = out ! m" if "m < length out" "\<forall>(j, c) \<in> set (p # ps). off + j * channels + c \<noteq> m" for m
    using out'(3) that by (auto simp: p)
  ultimately show ?case using out'(1,2,4) s by (intro exI [of _ out']) (auto simp: p)
qed simp

lemma from_planes_result:
  assumes "planes \<noteq> []" and "\<forall>plane \<in> set planes. n \<le> length plane"
  shows "from_planes zero (n, planes) out =
    Inr (out @ map (\<lambda>k. planes ! (k mod length planes) ! (k div length planes)) [0..<n * length planes])"
proof -
  let ?c = "length planes" and ?out = "out @ replicate (n * length planes) zero"
  have c: "0 < ?c" using assms(1) by simp
  have pairs: "case p of (i, ch) \<Rightarrow> ch < ?c \<and> i < length (planes ! ch) \<and> length out + i * ?c + ch < length ?out"
    if "p \<in> set (sample_pairs n ?c)" for p
  proof -
    obtain i ch where p: "p = (i, ch)" by (cases p)
    then have "i < n" "ch < ?c" using that by (simp_all add: set_sample_pairs)
    moreover from this have "n \<le> length (planes ! ch)" using assms(2) nth_mem by blast
    ultimately show ?thesis using pair_index [of i n ch ?c] p by simp
  qed
  then have "\<forall>(i, ch) \<in> set (sample_pairs n ?c). ch < ?c \<and> i < length (planes ! ch) \<and> length out + i * ?c + ch < length ?out"
    by blast
  moreover have "\<forall>(i, ch) \<in> set (sample_pairs n ?c). ch < ?c" by (auto simp: set_sample_pairs)
  ultimately obtain out' where out': "for_each (fetch_sample (length out) ?c planes) (sample_pairs n ?c) ?out = Inr out'"
    "length out' = length ?out"
    "\<forall>k < length ?out. (\<forall>(i, ch) \<in> set (sample_pairs n ?c). length out + i * ?c + ch \<noteq> k) \<longrightarrow> out' ! k = ?out ! k"
    "\<forall>(i, ch) \<in> set (sample_pairs n ?c). out' ! (length out + i * ?c + ch) = planes ! ch ! i"
    using for_each_fetch by blast
  have other: "\<forall>(i, ch) \<in> set (sample_pairs n ?c). length out + i * ?c + ch \<noteq> k" if "k < length out" for k
    using that by auto
  have "out' = out @ map (\<lambda>k. planes ! (k mod ?c) ! (k div ?c)) [0..<n * ?c]"
  proof (rule nth_equalityI)
    show "length out' = length (out @ map (\<lambda>k. planes ! (k mod ?c) ! (k div ?c)) [0..<n * ?c])" using out'(2) by simp
    fix k assume k: "k < length out'"
    show "out' ! k = (out @ map (\<lambda>k. planes ! (k mod ?c) ! (k div ?c)) [0..<n * ?c]) ! k"
    proof (cases "k < length out")
      case True
      then have "out' ! k = ?out ! k" using out'(3) [rule_format, of k] k other [OF True] unfolding out'(2) by blast
      then show ?thesis using True by (simp add: nth_append)
    next
      case False
      let ?m = "k - length out"
      have m: "?m < n * ?c" using k out'(2) False by simp
      then have "?m div ?c < n" "?m mod ?c < ?c" using c by (simp_all add: less_mult_imp_div_less)
      moreover have "length out + ?m div ?c * ?c + ?m mod ?c = k" using False by (simp add: add.assoc)
      moreover from calculation(1,2) have "out' ! (length out + ?m div ?c * ?c + ?m mod ?c) = planes ! (?m mod ?c) ! (?m div ?c)"
        using bspec [OF out'(4), of "(?m div ?c, ?m mod ?c)"] by (simp add: set_sample_pairs)
      ultimately have "out' ! k = planes ! (?m mod ?c) ! (?m div ?c)" by simp
      then show ?thesis using False m by (simp add: nth_append)
    qed
  qed
  then show ?thesis using out'(1) by (simp add: from_planes_def Let_def)
qed

text \<open>More samples than the planes hold are written out of range.\<close>

lemma for_each_store_in_range:
  "for_each (store_sample channels pcm) ps planes = Inr planes' \<Longrightarrow>
    \<forall>(i, ch) \<in> set ps. ch < length planes \<and> i < length (planes ! ch)"
proof (induction ps arbitrary: planes)
  case (Cons p ps)
  obtain i ch where p: "p = (i, ch)" by (cases p)
  obtain planes1 where one: "store_sample channels pcm p planes = Inr planes1"
    "for_each (store_sample channels pcm) ps planes1 = Inr planes'" using Cons.prems by (auto elim: fbind_InrE)
  have here: "ch < length planes" "i < length (planes ! ch)" "planes1 = planes[ch := (planes ! ch)[i := pcm ! (i * channels + ch)]]"
    using one(1) by (auto simp: p store_sample_def list_get_def list_set_def elim!: fbind_InrE split: if_split_asm)
  have "length (planes1 ! c) = length (planes ! c)" for c by (cases "c = ch") (use here in auto)
  moreover have "length planes1 = length planes" using here(3) by simp
  ultimately show ?case using Cons.IH [OF one(2)] here(1,2) by (auto simp: p)
qed simp

lemma too_many_samples_out_of_range:
  assumes "length planes = channels" and "\<forall>plane \<in> set planes. length plane = n" and "0 < channels" and "n < length pcm div channels"
  shows "\<exists>e. to_planes channels pcm planes = Inl e"
proof (cases "to_planes channels pcm planes")
  case (Inr planes')
  have "(n, 0) \<in> set (sample_pairs (length pcm div channels) channels)" using assms(3,4) by (simp add: set_sample_pairs)
  with for_each_store_in_range [OF Inr [unfolded to_planes_def]] have "n < length (planes ! 0)" by auto
  moreover have "length (planes ! 0) = n" using assms(1-3) by simp
  ultimately show ?thesis by simp
qed simp

text \<open>The planes the encoder fills are turned back by the decoder's conversion into the samples that were
  captured.\<close>
theorem samples_round_trip:
  assumes "0 < channels" and "length planes = channels" and "\<forall>plane \<in> set planes. length plane = n"
    and "length pcm = m * channels" and "m \<le> n"
  shows "\<exists>planes'. to_planes channels pcm planes = Inr planes' \<and> from_planes zero (m, planes') out = Inr (out @ pcm)"
proof -
  have m: "length pcm div channels = m" using assms(1,4) by simp
  then have "length pcm div channels \<le> n" using assms(5) by simp
  from to_planes_result [OF assms(2,3) this] m
  obtain planes' where p: "to_planes channels pcm planes = Inr planes'" "length planes' = channels"
    "\<forall>ch < channels. length (planes' ! ch) = n \<and> (\<forall>i < n. planes' ! ch ! i =
       (if i < m then pcm ! (i * channels + ch) else planes ! ch ! i))" by auto
  have "planes' \<noteq> []" "\<forall>plane \<in> set planes'. m \<le> length plane"
    using p assms(1,5) by (auto simp: in_set_conv_nth)
  from from_planes_result [OF this, of zero out] p(2)
  have "from_planes zero (m, planes') out = Inr (out @ map (\<lambda>k. planes' ! (k mod channels) ! (k div channels)) [0..<m * channels])"
    by simp
  moreover have "map (\<lambda>k. planes' ! (k mod channels) ! (k div channels)) [0..<m * channels] = pcm"
  proof (rule nth_equalityI)
    fix k assume "k < length (map (\<lambda>k. planes' ! (k mod channels) ! (k div channels)) [0..<m * channels])"
    then have k: "k < m * channels" by simp
    then have "k mod channels < channels" "k div channels < m" using assms(1) by (simp_all add: less_mult_imp_div_less)
    then show "map (\<lambda>k. planes' ! (k mod channels) ! (k div channels)) [0..<m * channels] ! k = pcm ! k"
      using p(3) assms(5) k by (simp add: mult.commute)
  qed (simp add: assms(4))
  ultimately show ?thesis using p(1) by auto
qed

theorem samples_round_trip_witness:
  "\<exists>planes. to_planes 2 [1, 2, 3, 4 :: nat] [[0, 0, 0], [0, 0, 0]] = Inr planes \<and> from_planes 0 (2, planes) [] = Inr [1, 2, 3, 4]"
  using samples_round_trip [of 2 "[[0, 0, 0], [0, 0, 0]]" 3 "[1, 2, 3, 4 :: nat]" 2 0 "[]"] by simp

section \<open>Playing in order\<close>

datatype 'a render_op = Push "'a list" | Round u32 u32

fun render_run :: "'a render_op list \<Rightarrow> 'a audio_renderer \<Rightarrow> 'a audio_renderer" where
  "render_run [] r = r"
| "render_run (Push xs # ops) r = render_run ops (push_samples xs r)"
| "render_run (Round n padding # ops) r = render_run ops (render_round n padding r)"

fun pushed_samples :: "'a render_op list \<Rightarrow> 'a list" where
  "pushed_samples [] = []"
| "pushed_samples (Push xs # ops) = xs @ pushed_samples ops"
| "pushed_samples (Round n padding # ops) = pushed_samples ops"

definition whole_frames :: "'a audio_renderer \<Rightarrow> bool" where
  "whole_frames r \<longleftrightarrow> length (ar_buffer r) mod ar_channels r = 0"

lemma render_round_keeps:
  assumes "whole_frames r"
  shows "ar_played (render_round n padding r) @ ar_buffer (render_round n padding r) = ar_played r @ ar_buffer r"
    and "whole_frames (render_round n padding r)" and "ar_channels (render_round n padding r) = ar_channels r"
proof -
  let ?k = "min (unat (n - padding) * ar_channels r) (length (ar_buffer r))"
  have k: "?k mod ar_channels r = 0" using assms by (cases "unat (n - padding) * ar_channels r \<le> length (ar_buffer r)")
      (simp_all add: whole_frames_def min_def)
  then have whole: "?k div ar_channels r * ar_channels r = ?k" by (simp add: mod_0_imp_dvd)
  have "(length (ar_buffer r) - ?k) mod ar_channels r = 0"
    using assms k unfolding whole_frames_def by (metis dvd_diff_nat mod_0_imp_dvd dvd_imp_mod_0)
  then show "whole_frames (render_round n padding r)"
    using assms by (simp add: render_round_def Let_def whole_frames_def)
  show "ar_played (render_round n padding r) @ ar_buffer (render_round n padding r) = ar_played r @ ar_buffer r"
    by (simp add: render_round_def Let_def whole)
qed (simp add: render_round_def Let_def)

lemma render_run_keeps:
  "whole_frames r \<Longrightarrow> \<forall>xs. Push xs \<in> set ops \<longrightarrow> length xs mod ar_channels r = 0 \<Longrightarrow>
    ar_played (render_run ops r) @ ar_buffer (render_run ops r) = ar_played r @ ar_buffer r @ pushed_samples ops"
proof (induction ops arbitrary: r rule: pushed_samples.induct)
  case (2 xs ops)
  have "whole_frames (push_samples xs r)"
    using 2(2,3) by (auto simp: whole_frames_def push_samples_def mod_0_imp_dvd dvd_add dvd_imp_mod_0)
  from 2(1) [OF this] 2(3) show ?case by (simp add: push_samples_def)
next
  case (3 n padding ops)
  from 3(1) [OF render_round_keeps(2) [OF 3(2)]] 3(3) show ?case
    using render_round_keeps(1,3) [OF 3(2), of n padding] by (simp flip: append_assoc)
qed simp

text \<open>When whole frames are pushed, the samples released to the device followed by those still in the buffer
  are the samples pushed, in order, however the device asks for them.\<close>
theorem renderer_plays_in_order:
  assumes "\<forall>xs. Push xs \<in> set ops \<longrightarrow> length xs mod channels = 0"
  shows "ar_played (render_run ops \<lparr>ar_buffer = [], ar_channels = channels, ar_played = []\<rparr>)
    @ ar_buffer (render_run ops \<lparr>ar_buffer = [], ar_channels = channels, ar_played = []\<rparr>) = pushed_samples ops"
  using render_run_keeps [of "\<lparr>ar_buffer = [], ar_channels = channels, ar_played = []\<rparr>" ops] assms by (simp add: whole_frames_def)

theorem renderer_plays_in_order_witness:
  "ar_played (render_run [Push [1, 2, 3, 4 :: nat], Round 480 479] \<lparr>ar_buffer = [], ar_channels = 2, ar_played = []\<rparr>)
    @ ar_buffer (render_run [Push [1, 2, 3, 4], Round 480 479] \<lparr>ar_buffer = [], ar_channels = 2, ar_played = []\<rparr>) = [1, 2, 3, 4]"
  using renderer_plays_in_order [of "[Push [1, 2, 3, 4 :: nat], Round 480 479]" 2] by simp

text \<open>Half a frame is taken from the buffer but not released: it is lost, and the channels change places.\<close>

lemma half_frame_is_lost:
  "render_round 480 0 \<lparr>ar_buffer = [1, 2, 3 :: nat], ar_channels = 2, ar_played = []\<rparr>
    = \<lparr>ar_buffer = [], ar_channels = 2, ar_played = [1, 2]\<rparr>"
  by (simp add: render_round_def Let_def)

section \<open>Objects of the devices\<close>

text \<open>What the capture makes it releases when it stops, except for the event.\<close>

lemma capture_stop_leaves_event:
  "case capture_initialize w ({#}, audio_capture_new) of (ok, h, c) \<Rightarrow>
     fst (capture_stop (h, c)) = when_made (ap_event c) Event_Handle"
  by (simp add: capture_initialize_def capture_stop_def audio_capture_new_def when_made_def Let_def)

text \<open>A capture that was stopped has no client: it cannot be started again.\<close>

lemma capture_restart_crashes: "capture_start (snd (capture_stop (h, c))) = None"
  by (simp add: capture_start_def capture_stop_def split: prod.split)

text \<open>The renderer keeps its client for ever, and an attempt that fails on the way leaves more behind.\<close>

lemma renderer_leaks_client:
  "renderer_initialize w {#} = (True, h) \<Longrightarrow> Audio_Client \<in># h \<and> Render_Client \<in># h"
  "wa_coInit w \<Longrightarrow> wa_instance w \<Longrightarrow> \<not> wa_endpoint w \<Longrightarrow> renderer_initialize w {#} = (False, {#Enumerator#})"
  by (auto simp: renderer_initialize_def Let_def when_made_def split: if_split_asm)

text \<open>A session never initialises its decoder of sound, which then refuses every packet.\<close>

lemma uninitialised_decoder_is_silent: "audio_decode False sendOk zero frames out = Inr (False, out)"
  by (simp add: audio_decode_def)

end
