(* ===== verification/Telemetry.thy ===== *)
theory Telemetry
  imports ClientLoop SessionManager Config
begin

text \<open>
  Where measurements come from and who reads them: the recordings of the program
  (\<open>cpp/common/session_manager.cpp\<close>, \<open>safe_queue.hpp\<close>, \<open>packet_pool.hpp\<close>, \<open>receiver.cpp\<close>), the client's
  feedback and what the host makes of it, the performance line of the log, the overlay
  (\<open>cpp/client/overlay.cpp\<close>) and the texts of the support package (\<open>cpp/common/parsec_lite_api.cpp\<close>).
\<close>

section \<open>What is recorded\<close>

text \<open>One constructor per call of the profiler outside the feedback of a client.\<close>

datatype measurement =
    FrameRate u32 int
  | HostBitrate int
  | CaptureTime u64 | EncodeTime u64 | DecodeTime u64 | EndToEndLatency u64
  | QueueSize string u64 | QueueWait string int
  | ProcessPacketTime int int | ProcessFecTime int int | TryRecoverTime int int
  | PacketAcquired | PacketPoolExhausted | PacketReleased

definition record_frame_rate :: "u32 \<Rightarrow> int \<Rightarrow> profiler \<Rightarrow> profiler" where
  "record_frame_rate frameCount elapsed p =
     record_value ''FPS'' (fdiv f64 (fmul f64 (flt_of_int f64 (uint frameCount)) (Fin 1000)) (flt_of_int f64 elapsed)) p"

definition record_host_bitrate :: "int \<Rightarrow> profiler \<Rightarrow> profiler" where
  "record_host_bitrate kbps p = record_value ''Host_Bitrate'' (fdiv f64 (flt_of_int f64 kbps) (Fin 1000)) p"

fun record_measurement :: "measurement \<Rightarrow> profiler \<Rightarrow> profiler" where
  "record_measurement (FrameRate frameCount elapsed) p = record_frame_rate frameCount elapsed p"
| "record_measurement (HostBitrate kbps) p = record_host_bitrate kbps p"
| "record_measurement (CaptureTime us) p = record_time ''Capture_Time'' (flt_of_int f64 (uint us)) p"
| "record_measurement (EncodeTime us) p = record_time ''Encode_Time'' (flt_of_int f64 (uint us)) p"
| "record_measurement (DecodeTime us) p = record_time ''Decode_Time'' (flt_of_int f64 (uint us)) p"
| "record_measurement (EndToEndLatency us) p = record_time ''EndToEnd_Latency'' (flt_of_int f64 (uint us)) p"
| "record_measurement (QueueSize queue n) p = record_value (''QueueSize_'' @ queue) (flt_of_int f64 (uint n)) p"
| "record_measurement (QueueWait queue us) p = record_time (''QueueWait_'' @ queue) (flt_of_int f64 us) p"
| "record_measurement (ProcessPacketTime start now) p = scope_timer ''Receiver_ProcessPacket'' start now p"
| "record_measurement (ProcessFecTime start now) p = scope_timer ''Receiver_ProcessFEC'' start now p"
| "record_measurement (TryRecoverTime start now) p = scope_timer ''Receiver_TryRecover'' start now p"
| "record_measurement PacketAcquired p = record_counter ''PacketAcquire'' 1 p"
| "record_measurement PacketPoolExhausted p = record_counter ''PacketPoolExhausted'' 1 p"
| "record_measurement PacketReleased p = record_counter ''PacketRelease'' 1 p"

text \<open>Once a second the capture thread reports its frame rate and the bitrate of the first client's encoder.\<close>

definition host_report :: "u32 \<Rightarrow> int \<Rightarrow> encoder_manager list \<Rightarrow> profiler \<Rightarrow> profiler" where
  "host_report frameCount elapsed encoders p =
     (if 1000 \<le> elapsed then
        let p = record_frame_rate frameCount elapsed p in
        case encoders of [] \<Rightarrow> p | e # _ \<Rightarrow> record_host_bitrate (current_bitrate e) p
      else p)"

text \<open>The host records what a client's feedback says.\<close>

definition record_feedback :: "FeedbackHeader \<Rightarrow> profiler \<Rightarrow> profiler" where
  "record_feedback fb p = record_value ''Network_RTT'' (flt_of_int f64 (uint (fb_rttMs fb)))
     (record_value ''Network_LossRate'' (f32_of_bits (fb_lossRate fb)) p)"

text \<open>The client takes what it feeds back, and the measure of its present route, from the profiler.\<close>

definition read_metrics :: "profiler \<Rightarrow> tick_env \<Rightarrow> fault + tick_env" where
  "read_metrics p env =
     fbind (get_stats ''Network_LossRate'' p) (\<lambda>loss.
     fbind (get_stats ''Network_RTT'' p) (\<lambda>rtt.
     fbind (get_stats ''Decode_Time'' p) (\<lambda>decode.
       Inr (env\<lparr>te_loss := st_latest loss, te_rtt := st_latest rtt, te_decodeTime := st_avg decode\<rparr>))))"

section \<open>What is shown\<close>

text \<open>The performance line of the log, every five seconds; \<open>memory\<close> are the free and all bytes of memory, when
  they are known. The load of the processor is a constant.\<close>

definition memory_used :: "(u64 \<times> u64) option \<Rightarrow> flt" where
  "memory_used memory = (case memory of None \<Rightarrow> Fin 20
     | Some (free, all) \<Rightarrow> fsub f64 (Fin 100)
         (fdiv f64 (fmul f64 (Fin 100) (flt_of_int f64 (uint free))) (flt_of_int f64 (uint all))))"

definition latest :: "string \<Rightarrow> profiler \<Rightarrow> fault + flt" where
  "latest name p = fbind (get_stats name p) (\<lambda>s. Inr (st_latest s))"

definition average_ms :: "string \<Rightarrow> profiler \<Rightarrow> fault + flt" where
  "average_ms name p = fbind (get_stats name p) (\<lambda>s. Inr (fdiv f64 (st_avg s) (Fin 1000)))"

definition performance_line :: "(u64 \<times> u64) option \<Rightarrow> profiler \<Rightarrow> fault + string" where
  "performance_line memory p =
     fbind (latest ''FPS'' p) (\<lambda>fps. fbind (latest ''Network_RTT'' p) (\<lambda>rtt.
     fbind (latest ''Network_LossRate'' p) (\<lambda>loss. fbind (latest ''Host_Bitrate'' p) (\<lambda>bitrate.
     fbind (average_ms ''Capture_Time'' p) (\<lambda>capture. fbind (average_ms ''Encode_Time'' p) (\<lambda>encode.
     fbind (average_ms ''Decode_Time'' p) (\<lambda>decode. fbind (latest ''Jitter'' p) (\<lambda>jitter.
     fbind (latest ''DroppedFrames'' p) (\<lambda>dropped. fbind (latest ''FEC_RecoveryCount'' p) (\<lambda>fec.
     fbind (latest ''NACK_Count'' p) (\<lambda>nacks.
       Inr (''FPS: '' @ fixed6 fps @ '', RTT: '' @ fixed6 rtt @ ''ms, PacketLoss: '' @ fixed6 loss @
         ''%, Bitrate: '' @ fixed6 bitrate @ '' Mbps, CaptureTime: '' @ fixed6 capture @
         ''ms, EncodeLatency: '' @ fixed6 encode @ ''ms, DecodeLatency: '' @ fixed6 decode @
         ''ms, CPU: '' @ fixed6 (Fin 5) @ ''%, Memory: '' @ fixed6 (memory_used memory) @
         ''%, Jitter: '' @ fixed6 jitter @ ''ms, DroppedFrames: '' @ fixed6 dropped @
         '', FECRecovery: '' @ fixed6 fec @ '', NACKCount: '' @ fixed6 nacks))))))))))))"

definition performance_step ::
  "bool \<Rightarrow> int \<Rightarrow> (u64 \<times> u64) option \<Rightarrow> profiler \<Rightarrow> int \<Rightarrow> fault + (string option \<times> int)" where
  "performance_step enabled now memory p lastTime =
     (if enabled \<and> 5 \<le> seconds (now - lastTime)
      then fbind (performance_line memory p) (\<lambda>line. Inr (Some line, now))
      else Inr (None, lastTime))"

text \<open>A \<open>double\<close> put into a stream: six significant digits, ties to even, without trailing zeros.\<close>

definition decimal_exponent :: "rat \<Rightarrow> int" where
  "decimal_exponent x = (if 1 \<le> x then int (length (dec_nat (nat \<lfloor>x\<rfloor>))) - 1
     else - int (hd (filter (\<lambda>k. 1 \<le> x * 10 ^ k) [1..<400])))"

definition without_zeros :: "string \<Rightarrow> string" where
  "without_zeros s = rev (dropWhile (\<lambda>c. c = CHR ''0'') (rev s))"

definition with_fraction :: "string \<Rightarrow> string \<Rightarrow> string" where
  "with_fraction whole decimals = (let ds = without_zeros decimals in if ds = [] then whole else whole @ ''.'' @ ds)"

definition six_digits :: "rat \<Rightarrow> string \<times> int" where
  "six_digits x =
     (let e = decimal_exponent x;
          n = nat (round_even (if e \<le> 5 then x * 10 ^ nat (5 - e) else x / 10 ^ nat (e - 5)))
      in if n = 1000000 then (''100000'', e + 1) else (dec_nat n, e))"

definition show_pos :: "rat \<Rightarrow> string" where
  "show_pos x =
     (let (ds, e) = six_digits x in
      if e < - 4 \<or> 6 \<le> e then
        let k = dec_nat (nat \<bar>e\<bar>) in
        with_fraction (take 1 ds) (drop 1 ds) @ (if e < 0 then ''e-'' else ''e+'') @ (if length k < 2 then ''0'' @ k else k)
      else if e < 0 then with_fraction ''0'' (replicate (nat (- e) - 1) (CHR ''0'') @ ds)
      else with_fraction (take (nat e + 1) ds) (drop (nat e + 1) ds))"

definition show_double :: "flt \<Rightarrow> string" where
  "show_double v = (case v of Fin x \<Rightarrow> if x = 0 then ''0'' else if x < 0 then ''-'' @ show_pos (- x) else show_pos x
     | PInf \<Rightarrow> ''inf'' | NInf \<Rightarrow> ''-inf'' | NaN \<Rightarrow> ''nan'')"

definition line_of :: "string \<Rightarrow> string" where
  "line_of s = s @ [CHR 0x0A]"

text \<open>The telemetry and system information of a support package.\<close>

definition telemetry_dump :: "profiler \<Rightarrow> fault + string" where
  "telemetry_dump p =
     fbind (get_stats ''FPS'' p) (\<lambda>fps. fbind (latest ''Network_RTT'' p) (\<lambda>rtt.
     fbind (latest ''Network_LossRate'' p) (\<lambda>loss. fbind (latest ''Host_Bitrate'' p) (\<lambda>bitrate.
     fbind (get_stats ''EndToEnd_Latency'' p) (\<lambda>e2e. fbind (get_stats ''Capture_Time'' p) (\<lambda>capture.
     fbind (get_stats ''Encode_Time'' p) (\<lambda>encode. fbind (get_stats ''Decode_Time'' p) (\<lambda>decode.
       Inr (concat (map line_of
         [''=== Profiler Telemetry Dump ==='',
          ''FPS:                 '' @ show_double (st_latest fps) @ '' (p99: '' @ show_double (st_p99 fps) @ '')'',
          ''RTT:                 '' @ show_double rtt @ '' ms'',
          ''Packet Loss Rate:    '' @ show_double loss @ '' %'',
          ''Host Bitrate:        '' @ show_double bitrate @ '' Mbps'',
          ''EndToEnd Latency:    '' @ show_double (st_avg e2e) @ '' us'',
          ''Capture Time:        '' @ show_double (st_avg capture) @ '' us'',
          ''Encode Time:         '' @ show_double (st_avg encode) @ '' us'',
          ''Decode Time:         '' @ show_double (st_avg decode) @ '' us'']))))))))))"

definition megabytes :: "u64 \<Rightarrow> string" where
  "megabytes n = dec_nat (unat n div 1024 div 1024) @ '' MB''"

text \<open>\<open>unit\<close> is 1 on Windows; the product wraps around.\<close>

definition system_info :: "bool \<Rightarrow> (u64 \<times> u64 \<times> u64) option \<Rightarrow> string" where
  "system_info windows memory = concat (map line_of
     ([replicate 50 (CHR ''=''), ''           SUPPORT DIAGNOSTICS SYSTEM INFO        '', replicate 50 (CHR ''=''),
       ''OS:                  '' @ (if windows then ''Windows'' else ''Linux / POSIX'')] @
      (case memory of None \<Rightarrow> []
       | Some (all, free, unit) \<Rightarrow> [''Total Memory:        '' @ megabytes (all * unit),
           ''Available Memory:    '' @ megabytes (free * unit)]) @
      [replicate 50 (CHR ''='')]))"

section \<open>The overlay\<close>

text \<open>\<open>printf\<close>'s \<open>%.kf\<close>.\<close>

definition fixed_point :: "nat \<Rightarrow> flt \<Rightarrow> string" where
  "fixed_point k v = (case v of
     Fin x \<Rightarrow> let n = nat (round_even (\<bar>x\<bar> * 10 ^ k)); ds = dec_nat (n mod 10 ^ k)
              in (if x < 0 then ''-'' else '''') @ dec_nat (n div 10 ^ k)
                 @ (if k = 0 then '''' else ''.'' @ replicate (k - length ds) (CHR ''0'') @ ds)
   | PInf \<Rightarrow> ''inf'' | NInf \<Rightarrow> ''-inf'' | NaN \<Rightarrow> ''nan'')"

text \<open>The static variables of \<open>Render\<close> and of the class.\<close>

record overlay =
  ov_visible :: bool
  ov_lastTime :: flt
  ov_frames :: int
  ov_fps :: flt

definition overlay_new :: overlay where
  "overlay_new = \<lparr>ov_visible = True, ov_lastTime = Fin 0, ov_frames = 0, ov_fps = Fin 0\<rparr>"

definition overlay_toggle :: "overlay \<Rightarrow> overlay" where
  "overlay_toggle v = v\<lparr>ov_visible := \<not> ov_visible v\<rparr>"

text \<open>What Dear ImGui answers: whether the window is open, whether its close button was pressed, the time since
  its start, and whether the button was pressed.\<close>

record overlay_env =
  oe_open :: bool
  oe_closed :: bool
  oe_time :: flt
  oe_hide :: bool

definition count_frame :: "flt \<Rightarrow> overlay \<Rightarrow> fault + overlay" where
  "count_frame currentTime v =
     (if 2 ^ 31 - 1 \<le> ov_frames v then Inl SignedOverflow
      else let v = v\<lparr>ov_frames := ov_frames v + 1\<rparr>; elapsed = fsub f32 currentTime (ov_lastTime v) in
        Inr (if fle (Fin 1) elapsed
             then v\<lparr>ov_fps := fdiv f32 (flt_of_int f32 (ov_frames v)) elapsed, ov_frames := 0, ov_lastTime := currentTime\<rparr>
             else v))"

text \<open>The texts of the window and, for the latency, whether it is shown as good.\<close>

definition overlay_texts :: "profiler \<Rightarrow> flt \<Rightarrow> fault + (bool \<times> string list)" where
  "overlay_texts p fps =
     fbind (get_stats ''EndToEnd_Latency'' p) (\<lambda>e2e. fbind (average_ms ''Capture_Time'' p) (\<lambda>capture.
     fbind (average_ms ''Encode_Time'' p) (\<lambda>encode. fbind (average_ms ''Network_Latency'' p) (\<lambda>network.
     fbind (average_ms ''Decode_Time'' p) (\<lambda>decode. fbind (average_ms ''Present_Time'' p) (\<lambda>present.
     fbind (latest ''Network_LossRate'' p) (\<lambda>loss. fbind (latest ''Network_RTT'' p) (\<lambda>rtt.
     fbind (latest ''Host_Bitrate'' p) (\<lambda>bitrate.
       let avg = fdiv f64 (st_avg e2e) (Fin 1000) in
       Inr (fle avg (Fin 20),
         [''Session health'', ''End-to-end latency'', fixed_point 2 avg @ '' ms'',
          ''P99 '' @ fixed_point 2 (fdiv f64 (st_p99 e2e) (Fin 1000)) @ '' ms'',
          ''Pipeline'',
          ''Capture  '' @ fixed_point 2 capture @ '' ms'', ''Encode   '' @ fixed_point 2 encode @ '' ms'',
          ''Network  '' @ fixed_point 2 network @ '' ms'', ''Decode   '' @ fixed_point 2 decode @ '' ms'',
          ''Present  '' @ fixed_point 2 present @ '' ms'',
          ''Network'', ''FPS '' @ fixed_point 1 fps,
          ''Packet loss '' @ fixed_point 2 (fmul f64 loss (Fin 100)) @ ''%'',
          ''RTT '' @ fixed_point 0 rtt @ '' ms'',
          ''Bitrate '' @ fixed_point 2 (fdiv f64 bitrate (Fin 1000)) @ '' Mbps'']))))))))))"

definition overlay_render ::
  "overlay_env \<Rightarrow> profiler \<Rightarrow> overlay \<Rightarrow> fault + ((bool \<times> string list) option \<times> overlay)" where
  "overlay_render env p v =
     (if \<not> ov_visible v then Inr (None, v)
      else let v = (if oe_closed env then v\<lparr>ov_visible := False\<rparr> else v) in
        if \<not> oe_open env then Inr (None, v)
        else fbind (count_frame (to_f32 (oe_time env)) v) (\<lambda>v.
          fbind (overlay_texts p (ov_fps v)) (\<lambda>texts.
            Inr (Some texts, if oe_hide env then v\<lparr>ov_visible := False\<rparr> else v))))"

section \<open>The loop of measurements\<close>

text \<open>Processes of this program, each with its profiler and, as a host, its forecast, which a new session starts
  anew; the feedback messages they have sent, which arrive at any time, any number of times and at any of them.\<close>

record telemetry_system =
  ts_profiler :: "nat \<Rightarrow> profiler"
  ts_predictor :: "nat \<Rightarrow> latency_predictor"
  ts_sent :: "bytes list"

definition telemetry_start :: telemetry_system where
  "telemetry_start = \<lparr>ts_profiler = (\<lambda>_. profiler_new), ts_predictor = (\<lambda>_. lp_new 100), ts_sent = []\<rparr>"

inductive telemetry_step :: "telemetry_system \<Rightarrow> telemetry_system \<Rightarrow> bool" where
  measures: "telemetry_step s (s\<lparr>ts_profiler := (ts_profiler s)(i := record_measurement e (ts_profiler s i))\<rparr>)"
| restarts: "telemetry_step s (s\<lparr>ts_predictor := (ts_predictor s)(i := lp_new 100)\<rparr>)"
| reports: "read_metrics (ts_profiler s i) env = Inr env' \<Longrightarrow> feedback_header env' c = Inr fb \<Longrightarrow>
    telemetry_step s (s\<lparr>ts_sent := enc_FeedbackHeader fb # ts_sent s\<rparr>)"
| hears: "m \<in> set (ts_sent s) \<Longrightarrow> fb = dec_FeedbackHeader (into_buffer m stale) \<Longrightarrow>
    on_feedback ff env fb c (ts_predictor s i) = Inr (c', p) \<Longrightarrow>
    telemetry_step s (s\<lparr>ts_profiler := (ts_profiler s)(i := record_feedback fb (ts_profiler s i)),
      ts_predictor := (ts_predictor s)(i := p)\<rparr>)"

text \<open>What is never measured: the network's figures stay at zero in every buffer, and nothing records the others.\<close>

definition zero_buffer :: "sample_buffer \<Rightarrow> bool" where
  "zero_buffer b \<longleftrightarrow> sb_samples b = replicate MAX_SAMPLES (Fin 0)"

definition unmeasured :: "string list" where
  "unmeasured = [''Network_Latency'', ''Present_Time'', ''Jitter'', ''DroppedFrames'', ''FEC_RecoveryCount'', ''NACK_Count'']"

definition blind_profiler :: "profiler \<Rightarrow> bool" where
  "blind_profiler p \<longleftrightarrow>
     (\<forall>name \<in> set unmeasured. pr_time p name = None \<and> pr_value p name = None)
     \<and> (\<forall>name \<in> {''Network_RTT'', ''Network_LossRate''}. pr_time p name = None
          \<and> (\<forall>b. pr_value p name = Some b \<longrightarrow> zero_buffer b))
     \<and> (\<forall>name b. pr_time p name = Some b \<or> pr_value p name = Some b \<longrightarrow> length (sb_samples b) = MAX_SAMPLES)"

definition blind_predictor :: "latency_predictor \<Rightarrow> bool" where
  "blind_predictor p \<longleftrightarrow> (\<forall>xs \<in> {lp_rttHistory p, lp_jitterHistory p, lp_lossHistory p}. set xs \<subseteq> {Fin 0})
     \<and> lp_rttEwma p = Fin 0 \<and> lp_jitterEwma p = Fin 0 \<and> lp_lossEwma p = Fin 0"

definition blind_feedback :: "FeedbackHeader \<Rightarrow> bool" where
  "blind_feedback fb \<longleftrightarrow> fb_rttMs fb = 0 \<and> fb_lossRate fb = 0"

definition blind :: "telemetry_system \<Rightarrow> bool" where
  "blind s \<longleftrightarrow> (\<forall>i. blind_profiler (ts_profiler s i) \<and> blind_predictor (ts_predictor s i))
     \<and> (\<forall>m \<in> set (ts_sent s). \<exists>fb. m = enc_FeedbackHeader fb \<and> blind_feedback fb)"

lemma record_sample_length [simp]: "length (sb_samples (record_sample v b)) = length (sb_samples b)"
  by (simp add: record_sample_slot)

lemma zero_buffer_new: "zero_buffer sample_buffer_new"
  by (simp add: zero_buffer_def sample_buffer_new_def)

lemma zero_buffer_record: "zero_buffer b \<Longrightarrow> zero_buffer (record_sample (Fin 0) b)"
  by (simp add: zero_buffer_def record_sample_slot list_update_same_conv MAX_SAMPLES_def)

lemma get_buffer_length:
  "\<forall>b. m name = Some b \<longrightarrow> length (sb_samples b) = MAX_SAMPLES \<Longrightarrow> length (sb_samples (get_buffer m name)) = MAX_SAMPLES"
  by (simp add: get_buffer_def sample_buffer_new_def split: option.split)

lemma blind_profiler_new: "blind_profiler profiler_new"
  by (simp add: blind_profiler_def profiler_new_def)

lemma calculate_stats_total:
  assumes "length (sb_samples b) = MAX_SAMPLES"
  shows "\<exists>s. calculate_stats b = Inr s \<and> (zero_buffer b \<longrightarrow> st_latest s = Fin 0)"
proof (cases "min (unat (sb_count b)) MAX_SAMPLES = 0")
  case True
  then show ?thesis by (simp add: calculate_stats_def no_stats_def)
next
  case False
  let ?n = "min (unat (sb_count b)) MAX_SAMPLES"
  obtain k where k: "p99_index ?n = Inr k" "k < ?n" using False p99_index_inside [of ?n] by auto
  have "unat (sb_count b - 1) mod MAX_SAMPLES < MAX_SAMPLES" by (simp add: MAX_SAMPLES_def)
  then have "zero_buffer b \<longrightarrow> sb_samples b ! (unat (sb_count b - 1) mod MAX_SAMPLES) = Fin 0" by (simp add: zero_buffer_def)
  then show ?thesis using k False assms by (simp add: calculate_stats_def Let_def no_stats_def)
qed

lemma blind_get_stats:
  assumes "blind_profiler p"
  obtains s where "get_stats name p = Inr s"
    "name \<in> set unmeasured \<Longrightarrow> s = no_stats" "name \<in> {''Network_RTT'', ''Network_LossRate''} \<Longrightarrow> st_latest s = Fin 0"
proof (cases "pr_time p name")
  case (Some b)
  then have l: "length (sb_samples b) = MAX_SAMPLES" using assms unfolding blind_profiler_def by blast
  have "name \<notin> set unmeasured" "name \<notin> {''Network_RTT'', ''Network_LossRate''}"
    using Some assms unfolding blind_profiler_def by auto
  moreover obtain s where "calculate_stats b = Inr s" using l calculate_stats_total by blast
  ultimately show thesis using Some by (intro that [of s]) (simp_all add: get_stats_def)
next
  case None
  show thesis
  proof (cases "pr_value p name")
    case Empty: None
    then show thesis using None by (intro that [of no_stats]) (simp_all add: get_stats_def no_stats_def)
  next
    case (Some b)
    then have "length (sb_samples b) = MAX_SAMPLES" using assms unfolding blind_profiler_def by blast
    then obtain s where s: "calculate_stats b = Inr s" "zero_buffer b \<longrightarrow> st_latest s = Fin 0"
      using calculate_stats_total by blast
    have "name \<notin> set unmeasured" "name \<in> {''Network_RTT'', ''Network_LossRate''} \<Longrightarrow> zero_buffer b"
      using Some assms unfolding blind_profiler_def by auto
    then show thesis using s None Some by (intro that [of s]) (auto simp: get_stats_def)
  qed
qed

lemma blind_record:
  assumes "blind_profiler p" and "name \<notin> set unmeasured" and "name \<notin> {''Network_RTT'', ''Network_LossRate''}"
  shows "blind_profiler (record_time name v p)" "blind_profiler (record_value name v p)"
proof -
  have "length (sb_samples (get_buffer (pr_time p) name)) = MAX_SAMPLES"
    "length (sb_samples (get_buffer (pr_value p) name)) = MAX_SAMPLES"
    using assms(1) by (auto simp: blind_profiler_def intro: get_buffer_length)
  then show "blind_profiler (record_time name v p)" "blind_profiler (record_value name v p)"
    using assms by (auto simp: blind_profiler_def record_time_def record_value_def)
qed

lemma blind_record_zero:
  assumes "blind_profiler p" and "name \<in> {''Network_RTT'', ''Network_LossRate''}"
  shows "blind_profiler (record_value name (Fin 0) p)"
proof -
  have "zero_buffer (get_buffer (pr_value p) name)"
    using assms zero_buffer_new by (auto simp: blind_profiler_def get_buffer_def split: option.split)
  then have "zero_buffer (record_sample (Fin 0) (get_buffer (pr_value p) name))" by (rule zero_buffer_record)
  moreover have "length (sb_samples (get_buffer (pr_value p) name)) = MAX_SAMPLES"
    using assms(1) by (auto simp: blind_profiler_def intro: get_buffer_length)
  moreover have "name \<notin> set unmeasured" using assms(2) by (auto simp: unmeasured_def)
  ultimately show ?thesis using assms unfolding blind_profiler_def record_value_def by auto
qed

lemma blind_measurement: "blind_profiler p \<Longrightarrow> blind_profiler (record_measurement e p)"
  by (cases e) (simp_all add: record_frame_rate_def record_host_bitrate_def scope_timer_def blind_record unmeasured_def
      record_counter_def, simp_all add: blind_profiler_def)

lemma blind_feedback_recorded: "blind_profiler p \<Longrightarrow> blind_feedback fb \<Longrightarrow> blind_profiler (record_feedback fb p)"
proof -
  have z: "f32_of_bits 0 = Fin 0" "flt_of_int f64 0 = Fin 0" by (code_simp, simp add: flt_of_int_def rnd_zero)
  assume "blind_profiler p" "blind_feedback fb"
  then show ?thesis by (simp add: record_feedback_def blind_feedback_def z blind_record_zero)
qed

lemma blind_read_metrics:
  assumes "blind_profiler p" and "read_metrics p env = Inr env'"
  shows "te_rtt env' = Fin 0" and "te_loss env' = Fin 0"
proof -
  obtain l r where "get_stats ''Network_LossRate'' p = Inr l" "st_latest l = Fin 0"
    "get_stats ''Network_RTT'' p = Inr r" "st_latest r = Fin 0"
    using blind_get_stats [OF assms(1)] by (metis insertI1 insertI2)
  then show "te_rtt env' = Fin 0" "te_loss env' = Fin 0" using assms(2) by (auto simp: read_metrics_def elim!: fbind_InrE)
qed

lemma blind_feedback_header:
  assumes "te_rtt env = Fin 0" and "te_loss env = Fin 0" and "feedback_header env c = Inr fb"
  shows "blind_feedback fb"
proof -
  have "to_f32 (Fin 0) = Fin 0" by code_simp
  then show ?thesis using assms by (auto simp: feedback_header_def to_uint32_def blind_feedback_def rat_trunc_def)
qed

text \<open>The forecast of zeros is zero.\<close>

lemma blind_record_metrics:
  assumes "blind_predictor p" and "nm_rttMs m = Fin 0" and "nm_jitterMs m = Fin 0" and "nm_packetLossRate m = Fin 0"
  shows "blind_predictor (record_metrics p m)"
proof -
  have e: "ewma ALPHA_FAST (Fin 0) (Fin 0) = Fin 0" "ewma ALPHA_SLOW (Fin 0) (Fin 0) = Fin 0" by code_simp+
  have tl: "set xs \<subseteq> A \<Longrightarrow> set (tl xs) \<subseteq> A" for xs and A :: "flt set" by (cases xs) auto
  show ?thesis using assms by (simp add: blind_predictor_def record_metrics_def Let_def e tl)
qed

lemma zero_trend: "set xs \<subseteq> {Fin 0} \<Longrightarrow> calculate_trend xs = Fin 0"
proof -
  assume "set xs \<subseteq> {Fin 0}"
  then have xs: "xs = replicate (length xs) (Fin 0)" by (metis replicate_length_same singletonD subsetD)
  have z: "foldl trend_step (Fin 0, Fin 0, Fin 0, Fin 0) (zip [0..<5] (replicate 5 (Fin 0))) = (Fin 10, Fin 0, Fin 0, Fin 30)"
  proof -
    have "zip [0..<5] (replicate 5 (Fin 0)) = [(0, Fin 0), (1, Fin 0), (2, Fin 0), (3, Fin 0), (4, Fin 0)]" by code_simp
    then show ?thesis by (simp add: trend_step_def flt_of_int_def rnd_zero Let_def)
  qed
  have "fdiv f32 (fsub f32 (fmul f32 (flt_of_int f32 5) (Fin 0)) (fmul f32 (Fin 10) (Fin 0)))
      (fsub f32 (fmul f32 (flt_of_int f32 5) (Fin 30)) (fmul f32 (Fin 10) (Fin 10))) = Fin 0" by code_simp
  moreover have "drop (length xs - 5) xs = replicate 5 (Fin 0)" if "5 \<le> length xs"
    using that by (subst xs) simp
  ultimately show ?thesis by (simp add: calculate_trend_def z)
qed

lemma blind_forecast:
  assumes "blind_predictor p"
  shows "pr_predictedRttMs (lp_predict p 200) = Fin 0" "pr_predictedLossRate (lp_predict p 200) = Fin 0"
proof -
  have "fmax (Fin 0) (extrapolate (Fin 0) (Fin 0) 200) = Fin 0" "fclamp (extrapolate (Fin 0) (Fin 0) 200) (Fin 0) (Fin 1) = Fin 0"
    by code_simp+
  then show "pr_predictedRttMs (lp_predict p 200) = Fin 0" "pr_predictedLossRate (lp_predict p 200) = Fin 0"
    using assms by (simp_all add: lp_predict_def blind_predictor_def zero_trend)
qed

lemma blind_decision:
  assumes "pr_predictedRttMs p = Fin 0" and "pr_predictedLossRate p = Fin 0"
    and "analyze e now (ai_state m loss) p = Inr (e', d)"
  shows "ad_action d \<notin> {EmergencyThrottle, DecreaseBitrate}"
proof -
  have "\<not> flt_lt (fc (15 / 100)) (Fin 0)" "\<not> flt_lt (Fin 250) (Fin 0)" "\<not> flt_lt (fc (2 / 100)) (Fin 0)"
    "\<not> flt_lt (fmul f32 (Fin 0) (fc (12 / 10))) (Fin 0)" by code_simp+
  then have "\<not> critical p" "\<not> congested (ai_state m loss) p"
    using assms(1,2) by (simp_all add: critical_def congested_def ai_state_def Let_def)
  then show ?thesis using assms(3)
    by (auto simp: analyze_def adjust_bitrate_def scale_resolution_def maintain_def Let_def elim!: fbind_InrE split: if_split_asm)
qed

lemma best_route_member: "cs \<noteq> [] \<Longrightarrow> select_best_route cs \<in> set cs"
  by (auto simp: select_best_route_def Let_def find_Some_iff split: option.split)

text \<open>Against a route measured with zeros none of the others, all measured with constants, wins by the margin.\<close>

lemma blind_route:
  assumes "te_rtt env = Fin 0" and "te_loss env = Fin 0"
  shows "reroute env cands c = c"
proof -
  let ?cur = "\<lparr>rc_id = ''current'', rc_ip = cl_hostIp c, rc_port = cl_hostPort c, rc_measuredLatencyMs = Fin 0,
      rc_packetLoss = Fin 0, rc_regionalLoad = 0, rc_stabilityTrend = Fin 0\<rparr>"
  define other where "other = (\<lambda>k :: candidate. \<lparr>rc_id = cd_ip k, rc_ip = cd_ip k, rc_port = cd_port k, rc_measuredLatencyMs = Fin 100,
      rc_packetLoss = fc (1 / 100), rc_regionalLoad = 0, rc_stabilityTrend = Fin 0\<rparr>)"
  have f: "to_f32 (Fin 0) = Fin 0" by code_simp
  let ?score = "\<lambda>lat loss. fadd f32 (fadd f32 (fadd f32
      (fmul f32 (fmax (Fin 0) (fsub f32 (Fin 1) (fdiv f32 lat (Fin 250)))) LATENCY_WEIGHT)
      (fmul f32 (fmax (Fin 0) (fsub f32 (Fin 1) (fdiv f32 loss (fc (15 / 100))))) LOSS_WEIGHT))
      (fmul f32 (fsub f32 (Fin 1) (fdiv f32 (flt_of_int f32 0) (Fin 100))) STABILITY_WEIGHT))
      (fmul f32 (fclamp (fadd f32 (fc (1 / 2)) (fmul f32 (Fin 0) (fc (1 / 2)))) (Fin 0) (Fin 1)) TREND_WEIGHT)"
  have lose: "\<not> flt_lt (fadd f32 (?score (Fin 0) (Fin 0)) (fc (2 / 10))) (?score (Fin 100) (fc (1 / 100)))"
    unfolding LATENCY_WEIGHT_def LOSS_WEIGHT_def STABILITY_WEIGHT_def TREND_WEIGHT_def by code_simp
  have no_switch: "\<not> should_switch_route ?cur (other k) (fc (2 / 10))" for k
    using lose by (simp add: other_def should_switch_route_def calculate_score_def lat_score_def loss_score_def stability_score_def trend_score_def)
  have "select_best_route (?cur # map other ks) \<in> insert ?cur (range other)" for ks
    using best_route_member [of "?cur # map other ks"] by auto
  moreover have "\<not> (rc_id b \<noteq> ''current'' \<and> should_switch_route ?cur b (fc (2 / 10)))" if "b \<in> insert ?cur (range other)" for b
    using that no_switch by auto
  ultimately have final: "\<not> (rc_id (select_best_route (?cur # map other ks)) \<noteq> ''current''
      \<and> should_switch_route ?cur (select_best_route (?cur # map other ks)) (fc (2 / 10)))" for ks by blast
  show ?thesis using final [of "filter (\<lambda>k. cd_ip k \<noteq> cl_hostIp c) cands"]
    unfolding reroute_def Let_def assms f other_def by (rule if_not_P)
qed

lemma on_feedback_predictor:
  "on_feedback ff env fb c p = Inr (c', p') \<Longrightarrow>
     p' = record_metrics p \<lparr>nm_rttMs = flt_of_int f32 (uint (fb_rttMs fb)), nm_jitterMs = Fin 0,
       nm_packetLossRate = f32_of_bits (fb_lossRate fb), nm_timestamp = re_metricsTime env\<rparr>"
  by (auto simp: on_feedback_def Let_def elim!: fbind_InrE)

lemma blind_step: "telemetry_step s s' \<Longrightarrow> blind s \<Longrightarrow> blind s'"
proof (induction rule: telemetry_step.induct)
  case (measures s i e)
  then show ?case by (simp add: blind_def blind_measurement)
next
  case (restarts s i)
  then show ?case by (simp add: blind_def blind_predictor_def lp_new_def)
next
  case (reports s i env env' c fb)
  have "blind_profiler (ts_profiler s i)" using reports.prems by (simp add: blind_def)
  note env' = blind_read_metrics [OF this reports.hyps(1)]
  have "blind_feedback fb" by (rule blind_feedback_header [OF env' reports.hyps(2)])
  then show ?case using reports.prems by (auto simp: blind_def)
next
  case (hears m s fb stale ff env c i c' p)
  obtain sent where "m = enc_FeedbackHeader sent" "blind_feedback sent" using hears.hyps(1) hears.prems by (auto simp: blind_def)
  then have fb: "blind_feedback fb" using hears.hyps(2) by (simp add: into_buffer_def fb_fmt.dec_enc_append)
  have z: "f32_of_bits 0 = Fin 0" "flt_of_int f32 0 = Fin 0" by code_simp+
  have "blind_predictor p"
    unfolding on_feedback_predictor [OF hears.hyps(3)] using fb hears.prems
    by (intro blind_record_metrics) (simp_all add: blind_def blind_feedback_def z)
  then show ?case using hears.prems fb by (simp add: blind_def blind_feedback_recorded)
qed

lemma blind_start: "blind telemetry_start"
  by (simp add: blind_def telemetry_start_def blind_profiler_new blind_predictor_def lp_new_def)

lemma blind_reachable: "telemetry_step\<^sup>*\<^sup>* telemetry_start s \<Longrightarrow> blind s"
  by (induction rule: rtranclp_induct) (auto intro: blind_start blind_step)

text \<open>C7: the adaptation never sees the network. Round trip time and loss are recorded only from the feedback of
  clients, and clients take what they feed back from these very records: in every history of any processes they stay
  zero, every feedback message carries zeros, no client ever changes its route, and the host's engine, whose
  forecast is zero, never throttles a stream or lowers its bitrate.\<close>
theorem adaptation_is_blind:
  assumes "telemetry_step\<^sup>*\<^sup>* telemetry_start s"
  shows "(\<exists>loss rtt. get_stats ''Network_LossRate'' (ts_profiler s i) = Inr loss \<and> st_latest loss = Fin 0
      \<and> get_stats ''Network_RTT'' (ts_profiler s i) = Inr rtt \<and> st_latest rtt = Fin 0)
    \<and> (\<forall>m \<in> set (ts_sent s). fb_rttMs (dec_FeedbackHeader m) = 0 \<and> f32_of_bits (fb_lossRate (dec_FeedbackHeader m)) = Fin 0)
    \<and> (\<forall>env env' cands c. read_metrics (ts_profiler s i) env = Inr env' \<longrightarrow> reroute env' cands c = c)
    \<and> (\<forall>e now m loss e' d. analyze e now (ai_state m loss) (lp_predict (ts_predictor s i) 200) = Inr (e', d)
        \<longrightarrow> ad_action d \<notin> {EmergencyThrottle, DecreaseBitrate})"
proof -
  have b: "blind_profiler (ts_profiler s i)" "blind_predictor (ts_predictor s i)"
    using blind_reachable [OF assms] by (simp_all add: blind_def)
  have "f32_of_bits 0 = Fin 0" by code_simp
  then have "\<forall>m \<in> set (ts_sent s). fb_rttMs (dec_FeedbackHeader m) = 0 \<and> f32_of_bits (fb_lossRate (dec_FeedbackHeader m)) = Fin 0"
    using blind_reachable [OF assms] by (fastforce simp: blind_def blind_feedback_def fb_fmt.dec_enc)
  moreover have "\<exists>loss rtt. get_stats ''Network_LossRate'' (ts_profiler s i) = Inr loss \<and> st_latest loss = Fin 0
      \<and> get_stats ''Network_RTT'' (ts_profiler s i) = Inr rtt \<and> st_latest rtt = Fin 0"
    using blind_get_stats [OF b(1)] by (metis insertI1 insertI2)
  moreover have "reroute env' cands c = c" if "read_metrics (ts_profiler s i) env = Inr env'" for env env' cands c
    using blind_route [OF blind_read_metrics [OF b(1) that]] .
  moreover note blind_decision [OF blind_forecast [OF b(2)]]
  ultimately show ?thesis by blast
qed

theorem adaptation_is_blind_witness:
  "\<exists>s m. telemetry_step\<^sup>*\<^sup>* telemetry_start s \<and> ts_sent s = [m] \<and> fb_rttMs (dec_FeedbackHeader m) = 0
     \<and> f32_of_bits (fb_lossRate (dec_FeedbackHeader m)) = Fin 0"
proof -
  obtain env :: tick_env and c :: client where True by blast
  have "read_metrics (ts_profiler telemetry_start 0) env = Inr (env\<lparr>te_loss := Fin 0, te_rtt := Fin 0, te_decodeTime := Fin 0\<rparr>)"
    by (simp add: read_metrics_def telemetry_start_def profiler_new_def get_stats_def no_stats_def)
  moreover obtain fb where "feedback_header (env\<lparr>te_loss := Fin 0, te_rtt := Fin 0, te_decodeTime := Fin 0\<rparr>) c = Inr fb"
    by (simp add: feedback_header_def to_uint32_def)
  ultimately have "telemetry_step telemetry_start (telemetry_start\<lparr>ts_sent := [enc_FeedbackHeader fb]\<rparr>)"
    using reports [of telemetry_start 0 env _ c fb] by (simp add: telemetry_start_def)
  then have s: "telemetry_step\<^sup>*\<^sup>* telemetry_start (telemetry_start\<lparr>ts_sent := [enc_FeedbackHeader fb]\<rparr>)" by (rule r_into_rtranclp)
  show ?thesis using s adaptation_is_blind [OF s] by (intro exI [of _ "telemetry_start\<lparr>ts_sent := [enc_FeedbackHeader fb]\<rparr>"]) simp
qed

section \<open>What the figures show\<close>

text \<open>Six of the figures shown are never recorded: they are zero for ever.\<close>

lemma never_measured:
  assumes "telemetry_step\<^sup>*\<^sup>* telemetry_start s" and "name \<in> set unmeasured"
  shows "latest name (ts_profiler s i) = Inr (Fin 0)" "average_ms name (ts_profiler s i) = Inr (Fin 0)"
proof -
  have "blind_profiler (ts_profiler s i)" using blind_reachable [OF assms(1)] by (simp add: blind_def)
  then obtain st where "get_stats name (ts_profiler s i) = Inr st" "st = no_stats" using assms(2) blind_get_stats by blast
  moreover have "fdiv f64 (Fin 0) (Fin 1000) = Fin 0" by (simp add: rnd_zero)
  ultimately show "latest name (ts_profiler s i) = Inr (Fin 0)" "average_ms name (ts_profiler s i) = Inr (Fin 0)"
    by (simp_all add: latest_def average_ms_def no_stats_def)
qed

text \<open>The bitrate is recorded in megabits per second, and the overlay divides it by a thousand again: eight
  megabits are shown as 0.01.\<close>

lemma first_value: "latest name (record_value name v profiler_new) = Inr v"
proof -
  let ?b = "record_sample v sample_buffer_new"
  have b: "sb_count ?b = 1" "sb_samples ?b = (replicate MAX_SAMPLES (Fin 0))[0 := v]"
    by (simp_all add: record_sample_slot sample_buffer_new_def)
  obtain k where "p99_index (Suc 0) = Inr k" "k < Suc 0" using p99_index_inside [of "Suc 0"] by (auto simp: MAX_SAMPLES_def)
  moreover have "0 < MAX_SAMPLES" "min (Suc 0) MAX_SAMPLES = Suc 0" by (simp_all add: MAX_SAMPLES_def)
  ultimately obtain s where "calculate_stats ?b = Inr s" "st_latest s = v" unfolding calculate_stats_def Let_def b by simp
  then show ?thesis by (simp add: latest_def get_stats_def record_value_def get_buffer_def profiler_new_def)
qed

lemma overlay_bitrate:
  assumes "overlay_texts (record_host_bitrate 8000 profiler_new) fps = Inr (good, texts)"
  shows "last texts = ''Bitrate 0.01 Mbps''"
proof -
  have v: "fdiv f64 (flt_of_int f64 8000) (Fin 1000) = Fin 8"
    using rnd_f64_dyadic [of 8000 0] rnd_f64_dyadic [of 8 0] by (simp add: flt_of_int_def)
  have "rnd f64 (1 / 128) = Fin (1 / 128)" "rnd f64 (9 / 1024) = Fin (9 / 1024)"
    using rnd_f64_dyadic [of 1 7] rnd_f64_dyadic [of 9 10] by simp_all
  then have "fbetween (1 / 128) (9 / 1024) (rnd f64 (1 / 125))" by (intro rnd_fbetween) simp_all
  then obtain x where x: "rnd f64 (1 / 125) = Fin x" "1 / 128 \<le> x" "x \<le> 9 / 1024" by (auto elim!: fbetweenE)
  then have "\<lfloor>x * 100\<rfloor> = 0" by (simp add: floor_eq_iff)
  then have "round_even (x * 100) = 1" using x(2) by (simp add: round_even_def Let_def)
  moreover have "dec_nat 0 = ''0''" "dec_nat 1 = ''1''" by code_simp+
  ultimately have b: "fixed_point 2 (rnd f64 (1 / 125)) = ''0.01''" using x by (simp add: fixed_point_def)
  have "latest ''Host_Bitrate'' (record_host_bitrate 8000 profiler_new) = Inr (Fin 8)"
    unfolding record_host_bitrate_def v by (rule first_value)
  then show ?thesis using assms unfolding overlay_texts_def Let_def
    by (elim fbind_InrE) (clarsimp simp: b)
qed

text \<open>Nothing in the window brings it back once it is hidden.\<close>

lemma hidden_overlay_stays: "\<not> ov_visible v \<Longrightarrow> overlay_render env p v = Inr (None, v)"
  by (simp add: overlay_render_def)

text \<open>The frame rate shown is that of the last whole second, and the count starts again.\<close>

lemma frame_counted:
  assumes "0 \<le> ov_frames v" and "ov_frames v < 2 ^ 31 - 1"
  shows "\<exists>v'. count_frame t v = Inr v' \<and> (ov_frames v' = ov_frames v + 1 \<and> ov_fps v' = ov_fps v
     \<or> ov_frames v' = 0 \<and> ov_lastTime v' = t \<and> fle (Fin 1) (fsub f32 t (ov_lastTime v)))"
  using assms by (simp add: count_frame_def Let_def)

end
