(* ===== verification/CrashContents.thy ===== *)
theory CrashContents
  imports CrashReports Telemetry Logging Network
begin

text \<open>
  The text of a crash report (\<open>CrashHandler::GenerateCrashReport\<close>, \<open>cpp/common/crash_handler.cpp\<close>), as the
  sequence of outputs to a stream whose base, width and fill persist the way \<open>std::ostream\<close> keeps them. What the
  operating system tells is an argument.
\<close>

section \<open>The stream\<close>

datatype stream_output = Text string | Unsigned nat | Signed int | Hex | Dec | SetW nat | SetFill char

record ostream =
  os_text :: string
  os_hex :: bool
  os_width :: nat
  os_fill :: char

definition ostream_new :: ostream where
  "ostream_new = \<lparr>os_text = [], os_hex = False, os_width = 0, os_fill = CHR '' ''\<rparr>"

text \<open>Every output uses the width up.\<close>

definition put_text :: "string \<Rightarrow> ostream \<Rightarrow> ostream" where
  "put_text s f = f\<lparr>os_text := os_text f @ replicate (os_width f - length s) (os_fill f) @ s, os_width := 0\<rparr>"

fun emit :: "stream_output \<Rightarrow> ostream \<Rightarrow> ostream" where
  "emit (Text s) f = put_text s f"
| "emit (Unsigned n) f = put_text (if os_hex f then hex_nat n else dec_nat n) f"
| "emit (Signed k) f = put_text (if os_hex f then hex_nat (nat (k mod 2 ^ 32)) else dec_int k) f"
| "emit Hex f = f\<lparr>os_hex := True\<rparr>"
| "emit Dec f = f\<lparr>os_hex := False\<rparr>"
| "emit (SetW n) f = f\<lparr>os_width := n\<rparr>"
| "emit (SetFill c) f = f\<lparr>os_fill := c\<rparr>"

definition emit_all :: "stream_output list \<Rightarrow> ostream \<Rightarrow> ostream" where
  "emit_all os f = fold emit os f"

definition newline :: stream_output where
  "newline = Text [CHR 0x0A]"

definition text_line :: "string \<Rightarrow> stream_output list" where
  "text_line s = [Text (line_of s)]"

section \<open>What the system tells\<close>

datatype registers = Registers64 u64 u64 u64 u64 u64 u64 u64 u64 | Registers32 u32 u32 u32 u32

record exception_info =
  ei_code :: u32
  ei_address :: u64
  ei_information :: "u64 list"
  ei_registers :: registers

text \<open>\<open>cs_modulePath\<close>: the path of the module an address is in. \<open>cs_modules\<close>: all modules of the process with their
  paths. \<open>cs_threads\<close>: process, thread and priority of all threads of the system. \<open>cs_tasks\<close>: the entries of
  \<open>/proc/self/task\<close> until an error, and whether there was one.\<close>

record crash_system =
  cs_windows :: bool
  cs_sessionText :: string
  cs_modulePath :: "u64 \<Rightarrow> string option"
  cs_stack :: "u64 list"
  cs_symbols :: "string list option"
  cs_modules :: "(u64 \<times> string option) list option"
  cs_maps :: "string list option"
  cs_processId :: u32
  cs_threads :: "(u32 \<times> u32 \<times> int) list option"
  cs_tasks :: "string list \<times> bool"
  cs_running :: bool
  cs_ffmpegVersion :: "string option"
  cs_interfaces :: "interface_info list option"
  cs_memory :: "(u64 \<times> u64 \<times> u64 \<times> u64) option"

text \<open>\<open>GetModuleNameFromAddress\<close>: what follows the last slash of either kind.\<close>

definition module_of :: "crash_system \<Rightarrow> u64 \<Rightarrow> string" where
  "module_of s address = (case cs_modulePath s address of None \<Rightarrow> ''Unknown Module''
     | Some path \<Rightarrow> rev (takeWhile (\<lambda>c. c \<noteq> CHR 0x5C \<and> c \<noteq> CHR ''/'') (rev path)))"

section \<open>The sections\<close>

definition banner :: string where "banner = replicate 80 (CHR ''='')"
definition rule_line :: string where "rule_line = replicate 80 (CHR ''-'')"

definition report_header :: "crash_system \<Rightarrow> string \<Rightarrow> string \<Rightarrow> stream_output list" where
  "report_header s reason time =
     text_line banner @ text_line ''                           FATAL CRASH DIAGNOSTICS REPORT'' @ text_line banner @
     text_line (''Reason:               '' @ reason) @
     text_line (''Timestamp:            '' @ time) @
     text_line (''Thread ID:            '' @ cs_sessionText s) @
     text_line (''Process ID:           '' @ level_to_string LL_FATAL)"

definition heading :: "string \<Rightarrow> stream_output list" where
  "heading title = text_line [] @ text_line rule_line @ text_line title @ text_line rule_line"

definition register :: "nat \<Rightarrow> string \<Rightarrow> nat \<Rightarrow> stream_output list" where
  "register width name v = [Text (name @ '': 0x''), SetW width, Unsigned v]"

fun registers_text :: "registers \<Rightarrow> stream_output list" where
  "registers_text (Registers64 rax rbx rcx rdx rsi rdi rbp rsp) =
     [Text ''RAX: 0x'', SetW 16, SetFill (CHR ''0''), Unsigned (unat rax)] @ register 16 '' RBX'' (unat rbx) @ [newline] @
     register 16 ''RCX'' (unat rcx) @ register 16 '' RDX'' (unat rdx) @ [newline] @
     register 16 ''RSI'' (unat rsi) @ register 16 '' RDI'' (unat rdi) @ [newline] @
     register 16 ''RBP'' (unat rbp) @ register 16 '' RSP'' (unat rsp) @ [newline]"
| "registers_text (Registers32 eax ebx ecx edx) =
     [Text ''EAX: 0x'', SetW 8, SetFill (CHR ''0''), Unsigned (unat eax)] @ register 8 '' EBX'' (unat ebx) @ [newline] @
     register 8 ''ECX'' (unat ecx) @ register 8 '' EDX'' (unat edx) @ [newline]"

definition access_type :: "u64 \<Rightarrow> string" where
  "access_type v = (if v = 0 then ''READ'' else if v = 1 then ''WRITE'' else ''EXECUTE'')"

definition exception_section :: "crash_system \<Rightarrow> exception_info option \<Rightarrow> stream_output list" where
  "exception_section s e =
     heading ''1. EXCEPTION DETAILS & CPU REGISTERS'' @
     (if cs_windows s then
        (case e of None \<Rightarrow> text_line ''Registers not available (no exception pointers provided).''
         | Some e \<Rightarrow>
             [Text ''Exception Code:    0x'', Hex, Unsigned (unat (ei_code e)), newline,
              Text ''Fault Address:     0x'', Hex, Unsigned (unat (ei_address e)), newline,
              Text ''Fault Module:      '', Text (module_of s (ei_address e)), newline] @
             (if ei_code e = EXCEPTION_ACCESS_VIOLATION \<and> 2 \<le> length (ei_information e) then
                [Text ''Access Type:       '', Text (access_type (ei_information e ! 0)), newline,
                 Text ''Access Address:    0x'', Hex, Unsigned (unat (ei_information e ! 1)), newline]
              else []) @
             text_line [] @ text_line ''Registers:'' @ registers_text (ei_registers e))
      else text_line ''Registers are platform-dependent and not captured on POSIX fallback.'')"

definition frame_line :: "crash_system \<Rightarrow> nat \<times> u64 \<Rightarrow> stream_output list" where
  "frame_line s = (\<lambda>(i, address). [Text ''  ['', Unsigned i, Text ''] 0x'', Hex, Unsigned (unat address), Text '' in '',
     Text (module_of s address), newline])"

definition symbol_line :: "nat \<times> string \<Rightarrow> stream_output list" where
  "symbol_line = (\<lambda>(i, symbol). [Text ''  ['', Unsigned i, Text ''] '', Text symbol, newline])"

definition stack_section :: "crash_system \<Rightarrow> stream_output list" where
  "stack_section s =
     heading ''2. STACK TRACE / BACKTRACE'' @
     (if cs_windows s then concat (map (frame_line s) (enumerate 0 (take 32 (cs_stack s))))
      else (case cs_symbols s of None \<Rightarrow> text_line ''  No symbols captured in backtrace.''
        | Some symbols \<Rightarrow> concat (map symbol_line (enumerate 0 (take 32 symbols)))))"

text \<open>\<open>hMods\<close> has 1024 entries; the loop runs to the number of modules.\<close>

definition module_line :: "u64 \<times> string option \<Rightarrow> stream_output list" where
  "module_line = (\<lambda>(handle, path). case path of None \<Rightarrow> []
     | Some path \<Rightarrow> [Text ''  0x'', Hex, Unsigned (unat handle), Text '' - '', Text path, newline])"

definition modules_section :: "crash_system \<Rightarrow> fault + stream_output list" where
  "modules_section s =
     fbind
       (if cs_windows s then
          (case cs_modules s of None \<Rightarrow> Inr []
           | Some ms \<Rightarrow> if 1024 < length ms then Inl OutOfBounds else Inr (concat (map module_line ms)))
        else (case cs_maps s of None \<Rightarrow> Inr (text_line ''  Unable to read memory maps on Linux.'')
          | Some lines \<Rightarrow> Inr (concat (map (\<lambda>l. text_line (''  '' @ l)) lines))))
       (\<lambda>os. Inr (heading ''3. LOADED MODULES'' @ os))"

definition thread_line :: "u32 \<Rightarrow> u32 \<times> u32 \<times> int \<Rightarrow> stream_output list" where
  "thread_line me = (\<lambda>(process, thread, priority).
     if process = me
     then [Text ''  Thread ID: '', Dec, Unsigned (unat thread), Text '', Priority: '', Signed priority, newline] else [])"

definition threads_section :: "crash_system \<Rightarrow> stream_output list" where
  "threads_section s =
     heading ''4. ACTIVE THREADS LIST'' @
     (if cs_windows s then
        (case cs_threads s of None \<Rightarrow> [] | Some ts \<Rightarrow> concat (map (thread_line (cs_processId s)) ts))
      else let (tasks, failed) = cs_tasks s in
        concat (map (\<lambda>t. text_line (''  Thread (LWP): '' @ t)) tasks) @
        (if failed then text_line ''  Unable to query active thread list.'' else []))"

definition session_section :: "crash_system \<Rightarrow> stream_output list" where
  "session_section s =
     heading ''5. ACTIVE SESSIONS'' @
     text_line (''  Active Session running: '' @ (if cs_running s then ''Yes'' else ''No'')) @
     text_line (''  Session ID:             '' @ cs_sessionText s)"

definition graphics_section :: "crash_system \<Rightarrow> stream_output list" where
  "graphics_section s =
     heading ''6. GPU DETAILS'' @
     text_line (if cs_windows s then ''  GPU: DirectX 11 DXGI Adapter'' else ''  GPU details available in hardware diagnostics.'')"

definition ffmpeg_section :: "crash_system \<Rightarrow> stream_output list" where
  "ffmpeg_section s =
     heading ''7. FFMPEG STATE'' @
     text_line (case cs_ffmpegVersion s of Some v \<Rightarrow> ''  FFmpeg Version: '' @ v
       | None \<Rightarrow> ''  FFmpeg is disabled / mocked in this build.'')"

definition network_section :: "crash_system \<Rightarrow> stream_output list" where
  "network_section s =
     heading ''8. NETWORK STATE'' @
     (case cs_interfaces s of None \<Rightarrow> text_line ''  Failed to query network interfaces.''
      | Some is \<Rightarrow> concat (map (\<lambda>i. text_line (''  Interface: '' @ ii_name i @ '' ('' @ ii_ip i @ '')'')) is))"

definition codec_section :: "(rat \<Rightarrow> bool) \<Rightarrow> config \<Rightarrow> stream_output list" where
  "codec_section tiny c =
     heading ''9. ENCODER / DECODER STATE'' @
     text_line (''  Use Hardware Encoding: '' @ (if get_bool ''useHardwareEncoding'' True c then ''Yes'' else ''No'')) @
     [Text ''  Encoder Preset:        '', Signed (get_int ''encoderPreset'' 0 c), newline] @
     text_line (''  Resolution Scale:      '' @ show_double (get_double tiny ''resolutionScale'' (Fin 1) c))"

definition memory_line :: "string \<Rightarrow> u64 \<Rightarrow> stream_output list" where
  "memory_line label v = [Text label, Unsigned (unat v div 1024 div 1024), Text '' MB'', newline]"

text \<open>The four numbers are working set and page file on Windows; total, free and shared memory and their unit
  elsewhere.\<close>

definition memory_section :: "crash_system \<Rightarrow> stream_output list" where
  "memory_section s =
     heading ''10. SYSTEM MEMORY USAGE'' @
     (case cs_memory s of None \<Rightarrow> []
      | Some (a, b, shared, unit) \<Rightarrow>
          if cs_windows s then Dec # memory_line ''  Working Set Size:  '' a @ memory_line ''  Pagefile Usage:    '' b
          else Dec # memory_line ''  Total Memory:      '' (a * unit) @ memory_line ''  Free Memory:       '' (b * unit) @
            memory_line ''  Shared Memory:     '' (shared * unit))"

definition crash_report_text ::
  "(rat \<Rightarrow> bool) \<Rightarrow> config \<Rightarrow> crash_system \<Rightarrow> string \<Rightarrow> string \<Rightarrow> exception_info option \<Rightarrow> fault + string" where
  "crash_report_text tiny c s reason time e =
     fbind (modules_section s) (\<lambda>modules.
       Inr (os_text (emit_all
         (report_header s reason time @ exception_section s e @ stack_section s @ modules @ threads_section s @
          session_section s @ graphics_section s @ ffmpeg_section s @ network_section s @ codec_section tiny c @
          memory_section s @ text_line banner) ostream_new)))"

text \<open>Where the report goes, and the command that packs it unless a signal is being handled.\<close>

definition report_file :: "string \<Rightarrow> string" where
  "report_file time = ''CrashReports/crash_'' @ time @ ''.txt''"

definition pack_command :: "bool \<Rightarrow> string \<Rightarrow> string" where
  "pack_command windows time =
     (let archiveFile = ''CrashReports/crash_'' @ time in
      if windows then ''powershell -NoProfile -Command '' @ [CHR 0x22] @ ''Compress-Archive -Path '' @ [CHR 0x27] @
        report_file time @ [CHR 0x27] @ '' -DestinationPath '' @ [CHR 0x27] @ archiveFile @ ''.zip'' @ [CHR 0x27] @ '' -Force'' @ [CHR 0x22]
      else ''tar -czf '' @ archiveFile @ ''.tar.gz '' @ report_file time)"

section \<open>What a reader sees\<close>

lemma emit_all_append [simp]: "emit_all (xs @ ys) f = emit_all ys (emit_all xs f)"
  by (simp add: emit_all_def)

lemma emit_all_Cons [simp]: "emit_all [] f = f" "emit_all (x # xs) f = emit_all xs (emit x f)"
  by (simp_all add: emit_all_def)

text \<open>Outputs only add to the text.\<close>

lemma emit_extends: "\<exists>t. os_text (emit x f) = os_text f @ t"
  by (cases x) (simp_all add: put_text_def)

lemma emit_all_extends: "\<exists>t. os_text (emit_all xs f) = os_text f @ t"
proof (induction xs arbitrary: f)
  case (Cons x xs)
  obtain t where "os_text (emit x f) = os_text f @ t" using emit_extends by blast
  moreover obtain t' where "os_text (emit_all xs (emit x f)) = os_text (emit x f) @ t'" using Cons.IH by blast
  ultimately show ?case by simp
qed simp

text \<open>A report is made unless the process has more than 1024 modules; then the loop over them reads behind its array.\<close>

lemma crash_report_made_iff:
  "(\<exists>t. crash_report_text tiny c s reason time e = Inr t)
     \<longleftrightarrow> \<not> (cs_windows s \<and> (\<exists>ms. cs_modules s = Some ms \<and> 1024 < length ms))"
  by (auto simp: crash_report_text_def modules_section_def split: option.split)

lemma many_modules_out_of_range:
  "cs_windows s \<Longrightarrow> cs_modules s = Some ms \<Longrightarrow> 1024 < length ms
     \<Longrightarrow> crash_report_text tiny c s reason time e = Inl OutOfBounds"
  by (simp add: crash_report_text_def modules_section_def)

text \<open>The line of the process id names a log level in every report.\<close>

lemma process_id_line:
  assumes "crash_report_text tiny c s reason time e = Inr t"
  shows "\<exists>a b. t = a @ ''Process ID:           FATAL'' @ b"
proof -
  have "\<exists>front. report_header s reason time = front @ text_line (''Process ID:           '' @ level_to_string LL_FATAL)"
    unfolding report_header_def append_assoc [symmetric] by blast
  then obtain front where front: "report_header s reason time = front @ text_line ''Process ID:           FATAL''" by auto
  let ?f = "emit_all front ostream_new" and ?l = "''Process ID:           FATAL''"
  have "os_text (emit_all (report_header s reason time) ostream_new)
      = (os_text ?f @ replicate (os_width ?f - length (line_of ?l)) (os_fill ?f)) @ ?l @ [CHR 0x0A]"
    unfolding front by (simp add: text_line_def line_of_def put_text_def)
  then obtain a b where h: "os_text (emit_all (report_header s reason time) ostream_new) = a @ ?l @ b" by blast
  obtain more where "t = os_text (emit_all more (emit_all (report_header s reason time) ostream_new))"
    using assms by (auto simp: crash_report_text_def elim!: fbind_InrE simp flip: emit_all_append)
  then obtain u where "t = (a @ ''Process ID:           FATAL'' @ b) @ u"
    using emit_all_extends [of more "emit_all (report_header s reason time) ostream_new"] h by auto
  then show ?thesis by (metis append.assoc)
qed

text \<open>The base stays hexadecimal after the first address: on Windows the eleventh frame is numbered \<open>a\<close> and the
  seventeenth \<open>10\<close>.\<close>

lemma frames_in_hexadecimal:
  assumes "os_hex f" and "os_width f = 0"
  shows "\<exists>t. os_text (emit_all (frame_line s (10, address)) f) = os_text f @ ''  [a] 0x'' @ t"
    and "\<exists>t. os_text (emit_all (frame_line s (16, address)) f) = os_text f @ ''  [10] 0x'' @ t"
proof -
  have "hex_nat 10 = ''a''" "hex_nat 16 = ''10''" by code_simp+
  then show "\<exists>t. os_text (emit_all (frame_line s (10, address)) f) = os_text f @ ''  [a] 0x'' @ t"
    "\<exists>t. os_text (emit_all (frame_line s (16, address)) f) = os_text f @ ''  [10] 0x'' @ t"
    using assms by (simp_all add: frame_line_def put_text_def newline_def)
qed

lemma frames_keep_base:
  "frames \<noteq> [] \<Longrightarrow> os_hex (emit_all (concat (map (frame_line s) frames)) f)
     \<and> os_width (emit_all (concat (map (frame_line s) frames)) f) = 0"
proof (induction frames arbitrary: f)
  case (Cons x frames)
  obtain i address where x: "x = (i, address)" by (cases x)
  have one: "os_hex (emit_all (frame_line s x) f) \<and> os_width (emit_all (frame_line s x) f) = 0"
    by (simp add: x frame_line_def put_text_def newline_def)
  show ?case using one Cons.IH [of "emit_all (frame_line s x) f"] by (cases "frames = []") simp_all
qed simp

end
