(* ===== verification/ParityPackets.thy ===== *)
theory ParityPackets
  imports Recovery HostSession
begin

text \<open>
  Senders of parity packets. The host's packetizer makes none; that of the repository's stress test
  (\<open>cpp/stress_test.cpp\<close>) does, for the same receiver. It is modelled here and put together with
  \<open>Receiver::ProcessFEC\<close>; then the one of the benchmark (\<open>cpp/benchmark_pipeline.cpp\<close>), which makes only their headers.
\<close>

section \<open>The fragments\<close>

definition stress_header :: "u32 \<Rightarrow> nat \<Rightarrow> u16 \<Rightarrow> u32 \<Rightarrow> encoded_packet \<Rightarrow> VideoHeader" where
  "stress_header fid i totalFrags pktSeq p =
     (video_header fid i totalFrags pktSeq p)\<lparr>vh_flags := if ep_isKeyframe p then 1 else 0\<rparr>"

text \<open>Only the header is written; the payload is what the pool's packet holds.\<close>

definition stress_fragment :: "VideoHeader \<Rightarrow> packet \<Rightarrow> fault + packet" where
  "stress_fragment vh u = fbind (vec_write (pk_data u) 0 (enc_VideoHeader vh)) (\<lambda>d.
     Inr (u\<lparr>pk_data := d, pk_size := 40 + unat (vh_dataSize vh)\<rparr>))"

text \<open>The loop over the fragment numbers. Where the pool is empty the pointer stays null.\<close>

fun stress_fragments ::
  "encoded_packet \<Rightarrow> u32 \<Rightarrow> u16 \<Rightarrow> nat list \<Rightarrow> packet_pool \<times> u32 \<Rightarrow> fault + (packet option list \<times> packet_pool \<times> u32)" where
  "stress_fragments p fid totalFrags [] st = Inr ([], st)"
| "stress_fragments p fid totalFrags (i # is) (pl, pktSeq) =
     (case pool_acquire pl of
        (None, pl) \<Rightarrow> fbind (stress_fragments p fid totalFrags is (pl, pktSeq)) (\<lambda>(ps, st). Inr (None # ps, st))
      | (Some u, pl) \<Rightarrow> fbind (stress_fragment (stress_header fid i totalFrags pktSeq p) u) (\<lambda>u.
          fbind (stress_fragments p fid totalFrags is (pl, pktSeq + 1)) (\<lambda>(ps, st). Inr (Some u # ps, st))))"

section \<open>A parity packet\<close>

definition deref :: "'a option \<Rightarrow> fault + 'a" where
  "deref p = (case p of None \<Rightarrow> Inl NullDeref | Some x \<Rightarrow> Inr x)"

definition fragment_size :: "packet \<Rightarrow> u16" where
  "fragment_size p = vh_dataSize (dec_VideoHeader (pk_data p))"

fun max_payload :: "packet option list \<Rightarrow> u16 \<Rightarrow> fault + u16" where
  "max_payload [] acc = Inr acc"
| "max_payload (p # ps) acc = fbind (deref p) (\<lambda>p. max_payload ps (max acc (fragment_size p)))"

text \<open>\<open>fecPayload[k] ^= fragData[k]\<close> for all bytes of a fragment.\<close>

definition xor_fragment :: "packet \<Rightarrow> bytes \<Rightarrow> fault + bytes" where
  "xor_fragment p d =
     (let n = unat (fragment_size p) in
      if 0 < n \<and> (length d < 15 + n \<or> length (pk_data p) < 40 + n) then Inl OutOfBounds
      else Inr (map (\<lambda>k. if 15 \<le> k \<and> k < 15 + n then d ! k XOR pk_data p ! (40 + (k - 15)) else d ! k) [0..<length d]))"

fun xor_fragments :: "packet option list \<Rightarrow> bytes \<Rightarrow> fault + bytes" where
  "xor_fragments [] d = Inr d"
| "xor_fragments (p # ps) d = fbind (deref p) (\<lambda>p. fbind (xor_fragment p d) (xor_fragments ps))"

text \<open>\<open>packetSequence\<close> keeps what the packet held.\<close>

definition parity_packet :: "u32 \<Rightarrow> nat \<Rightarrow> packet option list \<Rightarrow> packet \<Rightarrow> fault + packet" where
  "parity_packet fid groupStart grp u =
     fbind (max_payload grp 0) (\<lambda>n.
     fbind (vec_write (pk_data u) 0 (enc_FECHeader ((dec_FECHeader (pk_data u))\<lparr>fh_type := pt_code PtFEC, fh_frameId := fid,
       fh_fragmentStart := of_nat groupStart, fh_fragmentCount := of_nat (length grp), fh_dataSize := n\<rparr>))) (\<lambda>d.
     fbind (vec_write d 15 (replicate (unat n) 0)) (\<lambda>d.
     fbind (xor_fragments grp d) (\<lambda>d.
       Inr (u\<lparr>pk_data := d, pk_size := 15 + unat n\<rparr>)))))"

section \<open>Sending\<close>

definition group_due :: "nat \<Rightarrow> nat \<Rightarrow> bool" where
  "group_due totalFrags i \<longleftrightarrow> (i + 1) mod FEC_GROUP_SIZE = 0 \<or> i + 1 = totalFrags"

definition group_of :: "packet option list \<Rightarrow> nat \<Rightarrow> nat \<times> packet option list" where
  "group_of ptrs i = (let groupStart = i div FEC_GROUP_SIZE * FEC_GROUP_SIZE in
     (groupStart, take (i - groupStart + 1) (drop groupStart ptrs)))"

text \<open>A copy of the fragment, then the parity of its group, when it is the last one of it and not the only one.\<close>

definition send_fragment :: "u32 \<Rightarrow> packet option list \<Rightarrow> nat \<Rightarrow> packet_pool \<Rightarrow> fault + (packet list \<times> packet_pool)" where
  "send_fragment fid ptrs i pl =
     (case ptrs ! i of None \<Rightarrow> Inr ([], pl)
      | Some p \<Rightarrow>
          (case pool_acquire pl of (u, pl) \<Rightarrow>
           fbind (deref u) (\<lambda>u.
           fbind (vec_read (pk_data p) 0 (pk_size p)) (\<lambda>bs.
           fbind (vec_write (pk_data u) 0 bs) (\<lambda>d.
             let sent = u\<lparr>pk_data := d, pk_size := pk_size p\<rparr>; (groupStart, grp) = group_of ptrs i in
             if group_due (length ptrs) i \<and> 1 < length grp then
               (case pool_acquire pl of (f, pl) \<Rightarrow>
                fbind (deref f) (\<lambda>f. fbind (parity_packet fid groupStart grp f) (\<lambda>f. Inr ([sent, f], pl))))
             else Inr ([sent], pl))))))"

fun send_fragments :: "u32 \<Rightarrow> packet option list \<Rightarrow> nat list \<Rightarrow> packet_pool \<Rightarrow> fault + (packet list \<times> packet_pool)" where
  "send_fragments fid ptrs [] pl = Inr ([], pl)"
| "send_fragments fid ptrs (i # is) pl =
     fbind (send_fragment fid ptrs i pl) (\<lambda>(sent, pl).
     fbind (send_fragments fid ptrs is pl) (\<lambda>(more, pl). Inr (sent @ more, pl)))"

text \<open>The packets sent for a frame; then the fragments go back to the pool.\<close>

definition stress_packetize ::
  "encoded_packet \<Rightarrow> packet_pool \<Rightarrow> u32 \<Rightarrow> fault + (packet list \<times> packet_pool \<times> u32)" where
  "stress_packetize p pl pktSeq =
     (let totalFrags = frag_count (pk_size (ep_packet p)) mod 65536; fid = pk_frameId (ep_packet p) in
      fbind (stress_fragments p fid (of_nat totalFrags) [0..<totalFrags] (pl, pktSeq)) (\<lambda>(ptrs, pl, pktSeq).
      fbind (send_fragments fid ptrs [0..<totalFrags] pl) (\<lambda>(sent, pl).
        Inr (sent, fold pool_release ptrs pl, pktSeq))))"

text \<open>The network thread hands a packet that is not lost to the receiver.\<close>

definition receive_stress :: "u64 \<Rightarrow> packet \<Rightarrow> receiver \<Rightarrow> fault + receiver" where
  "receive_stress now p r =
     (let ty = pk_data p ! 0 in
      if ty = pt_code PtVideo then process_packet (dec_VideoHeader (pk_data p)) (drop 40 (pk_data p)) now r
      else if ty = pt_code PtFEC then process_fec (dec_FECHeader (pk_data p)) (drop 15 (pk_data p)) r
      else Inr r)"

section \<open>Packets are conserved\<close>

definition these_list :: "'a option list \<Rightarrow> 'a list" where
  "these_list ps = concat (map (\<lambda>p. case p of None \<Rightarrow> [] | Some x \<Rightarrow> [x]) ps)"

lemma length_pool_acquire: "pool_acquire pl = (u, pl') \<Longrightarrow> length pl' + length (these_list [u]) = length pl"
  by (auto simp: pool_acquire_def these_list_def split: if_split_asm)

lemma stress_fragments_keep:
  "stress_fragments p fid n is (pl, s) = Inr (ps, pl', s') \<Longrightarrow> length pl' + length (these_list ps) = length pl"
proof (induction "is" arbitrary: pl s ps)
  case (Cons i "is")
  obtain u pl1 where a: "pool_acquire pl = (u, pl1)" by fastforce
  show ?case
  proof (cases u)
    case None
    then show ?thesis using Cons a length_pool_acquire [OF a] by (fastforce simp: these_list_def elim!: fbind_InrE)
  next
    case (Some x)
    then show ?thesis using Cons a length_pool_acquire [OF a] by (fastforce simp: these_list_def elim!: fbind_InrE)
  qed
qed (simp add: these_list_def)

lemma send_fragment_keeps: "send_fragment fid ptrs i pl = Inr (outs, pl') \<Longrightarrow> length pl' + length outs = length pl"
  by (auto simp: send_fragment_def deref_def Let_def these_list_def elim!: fbind_InrE dest!: length_pool_acquire
      split: option.splits prod.splits if_split_asm)

lemma send_fragments_keep: "send_fragments fid ptrs is pl = Inr (outs, pl') \<Longrightarrow> length pl' + length outs = length pl"
  by (induction "is" arbitrary: pl outs) (fastforce elim!: fbind_InrE dest!: send_fragment_keeps)+

lemma length_releases: "length (fold pool_release ps pl) = length pl + length (these_list ps)"
  by (induction ps arbitrary: pl) (auto simp: pool_release_def these_list_def split: option.splits)

text \<open>What a frame took from the pool is sent, or comes back.\<close>

lemma stress_packetize_keeps:
  assumes "stress_packetize p pl s = Inr (outs, pl', s')"
  shows "length pl' + length outs = length pl"
  using assms by (auto simp: stress_packetize_def Let_def length_releases elim!: fbind_InrE
      dest!: stress_fragments_keep send_fragments_keep)

text \<open>The packet for the copy is not checked.\<close>

lemma empty_pool_crashes: "ptrs ! i = Some p \<Longrightarrow> send_fragment fid ptrs i [] = Inl NullDeref"
  by (simp add: send_fragment_def pool_acquire_def deref_def)

section \<open>The parity is that of the fragments\<close>

text \<open>A packet that holds fragment \<open>i\<close> of a frame.\<close>

definition holds_fragment :: "u32 \<Rightarrow> bytes \<Rightarrow> nat \<Rightarrow> packet \<Rightarrow> bool" where
  "holds_fragment fid data i p \<longleftrightarrow> length (pk_data p) = 1500
     \<and> is_fragment fid data i (dec_VideoHeader (pk_data p)) (drop 40 (pk_data p))"

lemma held_fragment:
  assumes "holds_fragment fid data i p"
  shows "unat (fragment_size p) = frag_size (length data) i" "fragment_size p = of_nat (frag_size (length data) i)"
    and "k < frag_size (length data) i \<Longrightarrow> pk_data p ! (40 + k) = padded data i k"
proof -
  have n: "frag_size (length data) i \<le> 1300" using frag_size_le [of "length data" i] by (simp add: MAX_UDP_PAYLOAD_def)
  show f: "fragment_size p = of_nat (frag_size (length data) i)"
    using assms by (simp add: holds_fragment_def fragment_size_def is_fragment_def)
  show "unat (fragment_size p) = frag_size (length data) i" unfolding f using n by (intro unat_of_nat_u16) simp
  assume k: "k < frag_size (length data) i"
  have "take (frag_size (length data) i) (drop 40 (pk_data p)) = fragment data i"
    using assms by (simp add: holds_fragment_def is_fragment_def)
  then have "take (frag_size (length data) i) (drop 40 (pk_data p)) ! k = fragment data i ! k" by simp
  then show "pk_data p ! (40 + k) = padded data i k" using k assms n by (simp add: holds_fragment_def padded_def)
qed

lemma frag_size_antimono: "i \<le> j \<Longrightarrow> frag_size n j \<le> frag_size n i"
  unfolding frag_size_def by (intro min.mono diff_le_mono2 mult_le_mono1) simp_all

lemma max_payload_bounded: "\<forall>p \<in> set ps. fragment_size p \<le> x \<Longrightarrow> max_payload (map Some ps) x = Inr x"
  by (induction ps) (simp_all add: deref_def max_absorb1)

lemma max_payload_result:
  assumes "list_all2 (holds_fragment fid data) (g # js) ps" and "\<forall>j \<in> set js. g \<le> j"
  shows "max_payload (map Some ps) 0 = Inr (of_nat (frag_size (length data) g))"
proof -
  obtain p qs where ps: "ps = p # qs" "holds_fragment fid data g p" "list_all2 (holds_fragment fid data) js qs"
    using assms(1) by (auto simp: list_all2_Cons1)
  have "fragment_size q \<le> fragment_size p" if q: "q \<in> set qs" for q
  proof -
    obtain i where "i < length qs" "qs ! i = q" using q by (auto simp: in_set_conv_nth)
    then obtain j where "j \<in> set js" "holds_fragment fid data j q" using ps(3) by (metis list_all2_conv_all_nth nth_mem)
    then show ?thesis using held_fragment(1) ps(2) frag_size_antimono [of g j] assms(2) by (simp add: word_le_nat_alt)
  qed
  then have "max_payload (map Some qs) (fragment_size p) = Inr (fragment_size p)" by (intro max_payload_bounded) simp
  then show ?thesis using held_fragment(2) [OF ps(2)] by (simp add: ps(1) deref_def)
qed

lemma xor_fragments_result:
  assumes "list_all2 (holds_fragment fid data) js ps" and "\<forall>j \<in> set js. frag_size (length data) j \<le> n"
    and "15 + n \<le> length d"
  shows "\<exists>d'. xor_fragments (map Some ps) d = Inr d' \<and> length d' = length d \<and> take 15 d' = take 15 d
    \<and> (\<forall>k < n. d' ! (15 + k) = d ! (15 + k) XOR xor_all (\<lambda>j. padded data j k) js)"
  using assms
proof (induction js ps arbitrary: d rule: list_all2_induct)
  case (Cons j js p ps)
  note f = held_fragment [OF Cons.hyps(1)]
  let ?n = "frag_size (length data) j"
  let ?d = "map (\<lambda>k. if 15 \<le> k \<and> k < 15 + ?n then d ! k XOR pk_data p ! (40 + (k - 15)) else d ! k) [0..<length d]"
  have "?n \<le> n" "length (pk_data p) = 1500" "?n \<le> 1300"
    using Cons.prems(1) Cons.hyps(1) frag_size_le [of "length data" j] by (simp_all add: holds_fragment_def MAX_UDP_PAYLOAD_def)
  then have one: "xor_fragment p d = Inr ?d" using f(1) Cons.prems(2) by (simp add: xor_fragment_def Let_def)
  have bytes: "?d ! (15 + k) = d ! (15 + k) XOR padded data j k" if "k < n" for k
    using that Cons.prems(2) f(3) [of k] by (simp add: padded_def)
  have "take 15 ?d = take 15 d" using Cons.prems(2) by (intro nth_equalityI) simp_all
  moreover obtain d' where "xor_fragments (map Some ps) ?d = Inr d'" "length d' = length ?d" "take 15 d' = take 15 ?d"
      "\<forall>k < n. d' ! (15 + k) = ?d ! (15 + k) XOR xor_all (\<lambda>j. padded data j k) js"
    using Cons.IH [of ?d] Cons.prems by auto
  ultimately show ?case using one bytes by (intro exI [of _ d']) (simp add: deref_def xor.assoc)
qed simp

lemma xor_all_shift: "xor_all f [g..<g + cnt] = xor_all (\<lambda>j. f (g + j)) [0..<cnt]"
proof -
  have "[g..<g + cnt] = map (\<lambda>j. j + g) [0..<cnt]" by (simp add: map_add_upt add.commute)
  then show ?thesis by (simp add: xor_all_def foldr_map comp_def add.commute)
qed

text \<open>The packet carries the header of the group and its parity.\<close>

definition carries_parity :: "u32 \<Rightarrow> bytes \<Rightarrow> nat \<Rightarrow> nat \<Rightarrow> FECHeader \<Rightarrow> bytes \<Rightarrow> bool" where
  "carries_parity fid data g cnt h payload \<longleftrightarrow> fh_frameId h = fid \<and> fh_fragmentStart h = of_nat g
     \<and> fh_fragmentCount h = of_nat cnt \<and> fh_dataSize h = of_nat (frag_size (length data) g)
     \<and> frag_size (length data) g \<le> length payload
     \<and> take (frag_size (length data) g) payload = parity data g cnt (frag_size (length data) g)"

lemma parity_packet_carries:
  assumes "list_all2 (holds_fragment fid data) [g..<g + cnt] ps" and "0 < cnt" and "length (pk_data u) = 1500"
  shows "\<exists>u'. parity_packet fid g (map Some ps) u = Inr u' \<and> pk_data u' ! 0 = pt_code PtFEC
    \<and> carries_parity fid data g cnt (dec_FECHeader (pk_data u')) (drop 15 (pk_data u'))"
proof -
  let ?n = "frag_size (length data) g"
  let ?h = "(dec_FECHeader (pk_data u))\<lparr>fh_type := pt_code PtFEC, fh_frameId := fid, fh_fragmentStart := of_nat g,
      fh_fragmentCount := of_nat cnt, fh_dataSize := of_nat ?n\<rparr>"
  have n: "?n \<le> 1300" using frag_size_le [of "length data" g] by (simp add: MAX_UDP_PAYLOAD_def)
  have u: "unat (of_nat ?n :: u16) = ?n" using n by (intro unat_of_nat_u16) simp
  have l: "length ps = cnt" using list_all2_lengthD [OF assms(1)] by simp
  have e: "length (enc_FECHeader ?h) = 15" by (simp add: fh_fmt.length_enc)
  let ?d1 = "enc_FECHeader ?h @ drop 15 (pk_data u)"
  let ?d2 = "enc_FECHeader ?h @ replicate ?n 0 @ drop (15 + ?n) (pk_data u)"
  have js: "[g..<g + cnt] = g # [Suc g..<g + cnt]" using assms(2) by (simp add: upt_conv_Cons)
  have "max_payload (map Some ps) 0 = Inr (of_nat ?n)"
    using assms(1) unfolding js by (rule max_payload_result) simp
  moreover have "vec_write (pk_data u) 0 (enc_FECHeader ?h) = Inr ?d1" "vec_write ?d1 15 (replicate ?n 0) = Inr ?d2"
    using assms(3) n e by (simp_all add: vec_write_def add.commute)
  moreover obtain d' where d': "xor_fragments (map Some ps) ?d2 = Inr d'" "length d' = 1500" "take 15 d' = take 15 ?d2"
      "\<forall>k < ?n. d' ! (15 + k) = ?d2 ! (15 + k) XOR xor_all (\<lambda>j. padded data j k) [g..<g + cnt]"
    using xor_fragments_result [OF assms(1), of ?n ?d2] frag_size_antimono e n assms(3) by auto
  ultimately have p: "parity_packet fid g (map Some ps) u = Inr (u\<lparr>pk_data := d', pk_size := 15 + ?n\<rparr>)"
    by (simp add: parity_packet_def u l)
  have h: "d' = enc_FECHeader ?h @ drop 15 d'" using d'(3) e by (metis append_take_drop_id append_eq_conv_conj)
  then have dec: "dec_FECHeader d' = ?h" by (metis fh_fmt.dec_enc_append)
  have "take ?n (drop 15 d') = parity data g cnt ?n"
  proof (intro nth_equalityI)
    fix k assume "k < length (take ?n (drop 15 d'))"
    then have k: "k < ?n" by simp
    then have "?d2 ! (15 + k) = 0" using e by (simp add: nth_append)
    then show "take ?n (drop 15 d') ! k = parity data g cnt ?n ! k"
      using d'(2,4) k n by (simp add: parity_def xor_all_shift)
  qed (use d'(2) n in \<open>simp add: parity_def\<close>)
  moreover have "d' ! 0 = pt_code PtFEC"
    by (subst h) (simp add: enc_FECHeader_def put_def pt_code_def nth_append)
  ultimately show ?thesis using p dec d'(2) n by (simp add: carries_parity_def)
qed

section \<open>A lost fragment comes back\<close>

text \<open>\<open>ProcessFEC\<close> stores the parity in the slot of its group and tries to recover.\<close>

lemma process_fec_stores:
  assumes "receiver_wf out r" and "carries_parity fid data g cnt h payload" and "rc_next r \<le> fid"
    and "\<not> g_fecReceived (frb_get (rc_fecRing r) (fec_index fid (of_nat g)))" and "rc_fecPool r \<noteq> []"
    and "\<forall>p \<in> set (rc_fecPool r) \<union> set_option (g_fecPacket (frb_get (rc_fecRing r) (fec_index fid (of_nat g)))).
      MAX_UDP_PAYLOAD \<le> length (pk_data p)"
  obtains r1 where "process_fec h payload r = try_recover fid (of_nat g) r1" "receiver_wf out r1"
    "has_parity fid data g cnt (frag_size (length data) g) r1" "rc_ring r1 = rc_ring r" "rc_storage r1 = rc_storage r"
    "rc_next r1 = rc_next r"
proof -
  let ?i = "fec_index fid (of_nat g)" and ?n = "frag_size (length data) g"
  let ?slot = "frb_get (rc_fecRing r) ?i"
  have h: "fh_frameId h = fid" "fh_fragmentStart h = of_nat g" "fh_fragmentCount h = of_nat cnt" "fh_dataSize h = of_nat ?n"
    "?n \<le> length payload" "take ?n payload = parity data g cnt ?n"
    using assms(2) by (simp_all add: carries_parity_def)
  have n: "?n \<le> MAX_UDP_PAYLOAD" by (rule frag_size_le)
  then have u: "unat (of_nat ?n :: u16) = ?n" by (intro unat_of_nat_u16) (simp add: MAX_UDP_PAYLOAD_def)
  obtain pkt rest where pkt: "pool_acquire (pool_release (g_fecPacket ?slot) (rc_fecPool r)) = (Some pkt, rest)"
    "MAX_UDP_PAYLOAD \<le> length (pk_data pkt)"
    using assms(5,6) by (cases "g_fecPacket ?slot") (auto simp: pool_acquire_def pool_release_def)
  let ?d = "take ?n payload @ drop ?n (pk_data pkt)"
  let ?grp = "\<lparr>g_fecHeader = h, g_fecReceived = True, g_fecPacket = Some (pkt\<lparr>pk_data := ?d, pk_size := ?n\<rparr>), g_frameId = fid\<rparr>"
  let ?r1 = "r\<lparr>rc_fecPool := rest, rc_fecRing := frb_insert ?i ?grp (rc_fecRing r)\<rparr>"
  have rd: "vec_read payload 0 ?n = Inr (take ?n payload)" using h(5) by (simp add: vec_read_def)
  have wr: "vec_write (pk_data pkt) 0 (take ?n payload) = Inr ?d" using h(5) n pkt(2) by (simp add: vec_write_def min_absorb2)
  have "\<not> fid < rc_next r" using assms(3) by (simp add: not_less)
  then have p: "process_fec h payload r = try_recover fid (of_nat g) ?r1"
    unfolding process_fec_def Let_def h(1,2,4) u pkt(1) using assms(4) by (simp add: rd wr)
  have len: "length (rc_fecRing r) = 1024" using assms(1) by (simp add: receiver_wf_def)
  then have "rc_fecRing r \<noteq> []" by auto
  then have get: "frb_get (rc_fecRing ?r1) ?i = ?grp" by (simp add: frb_get_insert)
  have "?n \<le> length ?d" using h(5) by simp
  moreover have "length (parity data g cnt ?n) = ?n" by (simp add: parity_def)
  then have "take ?n ?d = parity data g cnt ?n" using h(6) by simp
  ultimately have par: "has_parity fid data g cnt ?n ?r1" using get h by (simp add: has_parity_def Let_def)
  have "fec_ok ?grp" using h(4,5) u by (simp add: fec_ok_def)
  moreover have "set (frb_insert ?i ?grp (rc_fecRing r)) \<subseteq> insert ?grp (set (rc_fecRing r))"
    unfolding frb_insert_def by (rule set_update_subset_insert)
  ultimately have wf: "receiver_wf out ?r1" using assms(1) len
    by (auto simp: receiver_wf_def frb_insert_def frame_at_def)
  show thesis using that [OF p wf par] by simp
qed

text \<open>The missing fragment completes the frame.\<close>

lemma last_fragment_completes:
  assumes "holds_part data ({..<frag_count (length data)} - {m}) f" and "m < frag_count (length data)"
    and "length data \<le> frame_bytes" and "frag_size (length data) m \<le> n"
    and "\<forall>x. x < m * MAX_UDP_PAYLOAD \<or> m * MAX_UDP_PAYLOAD + n \<le> x \<longrightarrow> cells b x = cells (fd_buffer f) x"
    and "n \<le> MAX_UDP_PAYLOAD" and "\<forall>k < n. cells b (m * MAX_UDP_PAYLOAD + k) = padded data m k"
  shows "fd_fragmentsReceived (add_fragment m s b t f) = fd_totalFragments (add_fragment m s b t f)"
    and "map (cells b) [0..<length data] = data"
    and "m + 1 \<noteq> frag_count (length data) \<Longrightarrow> fd_totalSize f = length data"
proof -
  let ?total = "frag_count (length data)"
  have c: "?total \<le> 807" using assms(3) by (rule frag_count_bound)
  have t: "unat (fd_totalFragments f) = ?total" using assms(1) c by (simp add: holds_part_def unat_of_nat_u16)
  have "unat (fd_fragmentsReceived f) = card ({..<?total} - {m})" using assms(1) by (simp add: holds_part_def frame_wf_def)
  then have "unat (fd_fragmentsReceived f) + 1 = ?total" using assms(2) by simp
  then have "fd_fragmentsReceived f + 1 = of_nat ?total" by (metis of_nat_1 of_nat_add of_nat_unat ucast_id)
  then show "fd_fragmentsReceived (add_fragment m s b t f) = fd_totalFragments (add_fragment m s b t f)"
    using assms(1) by (simp add: add_fragment_def holds_part_def)
  have "cells b x = data ! x" if x: "x < length data" for x
  proof -
    let ?i = "x div MAX_UDP_PAYLOAD" and ?k = "x mod MAX_UDP_PAYLOAD"
    note i = byte_in_fragment [OF x]
    have split: "x = ?i * MAX_UDP_PAYLOAD + ?k" by simp
    show ?thesis
    proof (cases "?i = m")
      case True
      then have "padded data m ?k = data ! x" "?k < n" using i assms(4) by (auto simp: padded_def)
      then show ?thesis using assms(7) split True by metis
    next
      case False
      have "?k < MAX_UDP_PAYLOAD" by (simp add: MAX_UDP_PAYLOAD_def)
      then have "x < m * MAX_UDP_PAYLOAD \<or> m * MAX_UDP_PAYLOAD + n \<le> x"
        using slots_apart [of ?i m MAX_UDP_PAYLOAD] False assms(6) split by linarith
      then have "cells b x = cells (fd_buffer f) (?i * MAX_UDP_PAYLOAD + ?k)" using assms(5) [rule_format, of x] by simp
      also have "\<dots> = fragment data ?i ! ?k" using assms(1) i(1,2) False unfolding holds_part_def by blast
      finally show ?thesis using i(3) by simp
    qed
  qed
  then show "map (cells b) [0..<length data] = data" by (intro nth_equalityI) simp_all
  show "fd_totalSize f = length data" if "m + 1 \<noteq> ?total"
    using assms(1,2) that by (auto simp: holds_part_def)
qed

text \<open>A frame whose last fragment comes back is the next one handed out.\<close>

lemma recovered_frame_next:
  assumes "frb_get (rc_ring r) fid = Some a" and "rc_next r = fid" and "a < length (rc_storage r)"
    and "fd_fragmentsReceived f = fd_totalFragments f" and "fd_frameId f = fid"
  shows "\<exists>r2. get_next_frame (finish_frame fid a (upd_frame a (\<lambda>_. f) r)) = (Some a, r2)
    \<and> frame_at r2 a = f\<lparr>fd_isComplete := True\<rparr>"
  using assms by (simp add: get_next_frame_def finish_frame_def upd_frame_def frame_at_def)

text \<open>C10: whatever fragment of a parity group is lost, the parity packet that the sender makes from the group's
  fragments brings it back: the receiver completes the frame and hands it out with every byte in place. Only when the
  lost one is the last of the frame is the frame's size rounded up to the size of the group's longest fragment.\<close>
theorem parity_repairs_a_loss:
  assumes "receiver_wf out r" and "rc_next r = fid" and "frb_get (rc_ring r) fid = Some a" and "fd_frameId (frame_at r a) = fid"
    and "\<not> fd_isComplete (frame_at r a)" and "holds_part data ({..<frag_count (length data)} - {m}) (frame_at r a)"
    and "\<not> g_fecReceived (frb_get (rc_fecRing r) (fec_index fid (of_nat g)))" and "rc_fecPool r \<noteq> []"
    and "\<forall>p \<in> set (rc_fecPool r) \<union> set_option (g_fecPacket (frb_get (rc_fecRing r) (fec_index fid (of_nat g)))).
      MAX_UDP_PAYLOAD \<le> length (pk_data p)"
    and "length data \<le> frame_bytes" and "m * MAX_UDP_PAYLOAD + frag_size (length data) g \<le> frame_bytes"
    and "g \<le> m" and "m < g + cnt" and "g + cnt \<le> frag_count (length data)"
    and "list_all2 (holds_fragment fid data) [g..<g + cnt] ps" and "length (pk_data u) = 1500"
  shows "\<exists>p r1 r2. parity_packet fid g (map Some ps) u = Inr p \<and> receive_stress now p r = Inr r1
    \<and> get_next_frame r1 = (Some a, r2)
    \<and> map (cells (fd_buffer (frame_at r2 a))) [0..<length data] = data
    \<and> fd_totalSize (frame_at r2 a) = (if m + 1 = frag_count (length data)
        then m * MAX_UDP_PAYLOAD + frag_size (length data) g else length data)"
proof -
  let ?total = "frag_count (length data)" and ?n = "frag_size (length data) g" and ?f = "frame_at r a"
  have "0 < cnt" using assms(12,13) by simp
  from parity_packet_carries [OF assms(15) this assms(16)]
  obtain p where p: "parity_packet fid g (map Some ps) u = Inr p" "pk_data p ! 0 = pt_code PtFEC"
    "carries_parity fid data g cnt (dec_FECHeader (pk_data p)) (drop 15 (pk_data p))" by blast
  have "rc_next r \<le> fid" using assms(2) by simp
  from process_fec_stores [OF assms(1) p(3) this assms(7-9)]
  obtain r1 where r1: "process_fec (dec_FECHeader (pk_data p)) (drop 15 (pk_data p)) r = try_recover fid (of_nat g) r1"
    "receiver_wf out r1" "has_parity fid data g cnt ?n r1" "rc_ring r1 = rc_ring r" "rc_storage r1 = rc_storage r"
    "rc_next r1 = rc_next r" by metis
  have f: "frame_at r1 a = ?f" using r1(5) by (simp add: frame_at_def)
  have slot: "frb_get (rc_ring r1) fid = Some a" using assms(3) r1(4) by simp
  have hole: "m \<notin> {..<?total} - {m}" "{g..<g + cnt} - {m} \<subseteq> {..<?total} - {m}" using assms(14) by auto
  have n: "?n \<le> MAX_UDP_PAYLOAD" "\<forall>i \<in> {g..<g + cnt}. frag_size (length data) i \<le> ?n"
    using frag_size_le frag_size_antimono by auto
  obtain b' t where tr: "try_recover fid (of_nat g) r1
        = Inr (finish_frame fid a (upd_frame a (\<lambda>_. add_fragment m (of_nat ?n) b' t ?f) r1))"
      "t = (if m + 1 = ?total then m * MAX_UDP_PAYLOAD + ?n else fd_totalSize ?f)"
      "\<forall>x. x < m * MAX_UDP_PAYLOAD \<or> m * MAX_UDP_PAYLOAD + ?n \<le> x \<longrightarrow> cells b' x = cells (fd_buffer ?f) x"
      "\<forall>k < ?n. cells b' (m * MAX_UDP_PAYLOAD + k) = padded data m k"
    using recovery_result [OF r1(2) slot _ _ _ r1(3) assms(14,10,12,13) hole n(1) assms(11) n(2)] assms(4-6) unfolding f by blast
  note full = last_fragment_completes [OF assms(6) _ assms(10) _ tr(3) n(1) tr(4)]
  have m: "m < ?total" "frag_size (length data) m \<le> ?n" using assms(12-14) n(2) by auto
  have "a < length (rc_storage r1)" using ring_frame(1) [OF r1(2) slot] .
  moreover have "fd_frameId (add_fragment m (of_nat ?n) b' t ?f) = fid" using assms(4) by (simp add: add_fragment_def)
  ultimately obtain r2 where r2: "get_next_frame (finish_frame fid a (upd_frame a (\<lambda>_. add_fragment m (of_nat ?n) b' t ?f) r1))
      = (Some a, r2)" "frame_at r2 a = (add_fragment m (of_nat ?n) b' t ?f)\<lparr>fd_isComplete := True\<rparr>"
    using recovered_frame_next [OF slot _ _ full(1) [OF m]] r1(6) assms(2) by metis
  have "receive_stress now p r = try_recover fid (of_nat g) r1"
    using p(2) r1(1) by (simp add: receive_stress_def Let_def pt_code_def)
  then show ?thesis using p(1) tr(1,2) r2 full(2,3) [OF m] by (simp add: add_fragment_def)
qed

text \<open>Two fragments, the first lost.\<close>

definition lossy_data :: bytes where
  "lossy_data = map of_nat [0..<1301]"

definition lossy_header :: "nat \<Rightarrow> VideoHeader" where
  "lossy_header i = sample_header\<lparr>vh_fragmentIndex := of_nat i, vh_totalFragments := 2,
     vh_dataSize := of_nat (frag_size 1301 i)\<rparr>"

definition lossy_packet :: "nat \<Rightarrow> packet" where
  "lossy_packet i = (packet_new 1500)\<lparr>pk_data := enc_VideoHeader (lossy_header i) @ fragment lossy_data i
     @ replicate (1460 - length (fragment lossy_data i)) 0\<rparr>"

definition lossy_frame :: frame_data where
  "lossy_frame = (case store_fragment (lossy_header 1) (drop 40 (pk_data (lossy_packet 1)))
     (start_frame (lossy_header 1) 0 frame_new) of Inr f \<Rightarrow> f | Inl e \<Rightarrow> frame_new)"

definition lossy_receiver :: receiver where
  "lossy_receiver = parity_only\<lparr>rc_storage := [lossy_frame], rc_fecRing := frb_new 1024 fec_group_new,
     rc_fecPool := [packet_new 1500]\<rparr>"

lemma lossy_data_size: "length lossy_data = 1301" "frag_count 1301 = 2" "length lossy_data \<le> frame_bytes"
  by (simp_all add: lossy_data_def frag_count_def MAX_UDP_PAYLOAD_def frame_bytes_def)

lemma lossy_packet_holds:
  assumes "i < 2"
  shows "holds_fragment 9 lossy_data i (lossy_packet i)"
proof -
  have n: "length (fragment lossy_data i) = frag_size 1301 i" using length_fragment [of i lossy_data] assms by (simp add: lossy_data_size)
  have e: "length (enc_VideoHeader (lossy_header i)) = 40" by (simp add: vh_fmt.length_enc)
  have "frag_size 1301 i \<le> 1300" using frag_size_le [of 1301 i] by (simp add: MAX_UDP_PAYLOAD_def)
  then show ?thesis using n e assms
    by (simp add: holds_fragment_def lossy_packet_def is_fragment_def vh_fmt.dec_enc_append lossy_data_size)
      (simp add: lossy_header_def sample_header_def)
qed

lemma lossy_frame_holds: "holds_part lossy_data ({..<2} - {0}) lossy_frame" "fd_frameId lossy_frame = 9"
  "\<not> fd_isComplete lossy_frame"
proof -
  let ?h = "lossy_header 1"
  have start: "holds_part lossy_data {} (start_frame ?h 0 frame_new)"
    by (rule holds_part_start [OF frame_wf_new]) (simp_all add: lossy_data_size frame_bytes_def lossy_header_def sample_header_def)
  have frag: "is_fragment 9 lossy_data 1 ?h (drop 40 (pk_data (lossy_packet 1)))"
    using lossy_packet_holds [of 1] by (simp add: holds_fragment_def lossy_packet_def vh_fmt.dec_enc_append)
  have "0 < length lossy_data" by (simp add: lossy_data_size)
  from holds_part_store [OF start frag _ this lossy_data_size(3)]
  obtain f where f: "store_fragment ?h (drop 40 (pk_data (lossy_packet 1))) (start_frame ?h 0 frame_new) = Inr f"
    "holds_part lossy_data {1} f" "fd_frameId f = 9" by (auto simp: start_frame_def lossy_header_def sample_header_def)
  then have eq: "lossy_frame = f" by (simp add: lossy_frame_def)
  have "{..<2} - {0 :: nat} = {1}" by auto
  then show "holds_part lossy_data ({..<2} - {0}) lossy_frame" "fd_frameId lossy_frame = 9" using f eq by simp_all
  have "fd_fragmentsReceived f \<noteq> fd_totalFragments f"
  proof
    assume "fd_fragmentsReceived f = fd_totalFragments f"
    moreover have "unat (fd_fragmentsReceived f) = card (received f)" "received f = {1}" "fd_totalFragments f = 2"
      using f(2) by (simp_all add: holds_part_def frame_wf_def lossy_data_size)
    ultimately show False by simp
  qed
  then show "\<not> fd_isComplete lossy_frame" using f(2) eq by (auto simp: holds_part_def frame_wf_def)
qed

lemma lossy_receiver_wf: "receiver_wf {#} lossy_receiver"
proof -
  have slots: "unat (fd_frameId (frame_at lossy_receiver a)) mod 64 = i"
    if "i < 64" "rc_ring lossy_receiver ! i = Some a" for i a
  proof -
    have "i = 9 \<and> a = 0" using that
      by (cases "i = 9") (auto simp: lossy_receiver_def parity_only_def frb_insert_def frb_new_def)
    then show ?thesis using lossy_frame_holds(2) by (simp add: lossy_receiver_def frame_at_def)
  qed
  have "frame_wf lossy_frame" using lossy_frame_holds(1) by (simp add: holds_part_def)
  then show ?thesis using slots parity_only_wf unfolding receiver_wf_def
    by (simp add: lossy_receiver_def frb_new_def fec_ok_def fec_group_new_def) (simp add: parity_only_def)
qed

theorem parity_repairs_a_loss_witness:
  "\<exists>p r1 r2. parity_packet 9 0 (map Some [lossy_packet 0, lossy_packet 1]) (packet_new 1500) = Inr p
     \<and> receive_stress 5 p lossy_receiver = Inr r1 \<and> get_next_frame r1 = (Some 0, r2)
     \<and> map (cells (fd_buffer (frame_at r2 0))) [0..<1301] = lossy_data"
proof -
  have ps: "list_all2 (holds_fragment 9 lossy_data) [0..<0 + 2] [lossy_packet 0, lossy_packet 1]"
    using lossy_packet_holds [of 0] lossy_packet_holds [of 1] by (simp add: upt_rec numeral_2_eq_2)
  have r: "rc_next lossy_receiver = 9" "frb_get (rc_ring lossy_receiver) 9 = Some 0" "frame_at lossy_receiver 0 = lossy_frame"
    "frb_get (rc_fecRing lossy_receiver) i = fec_group_new" "rc_fecPool lossy_receiver = [packet_new 1500]" for i
    using parity_only_slot by (simp_all add: lossy_receiver_def frame_at_def frb_get_def frb_new_def) (simp add: parity_only_def)
  have "frag_size 1301 0 = 1300" by (simp add: frag_size_def MAX_UDP_PAYLOAD_def)
  with parity_repairs_a_loss [OF lossy_receiver_wf r(1), where a = 0 and data = lossy_data and m = 0 and g = 0 and cnt = 2
      and ps = "[lossy_packet 0, lossy_packet 1]" and u = "packet_new 1500" and now = 5] ps r lossy_frame_holds
  show ?thesis by (auto simp: lossy_data_size frame_bytes_def MAX_UDP_PAYLOAD_def packet_new_def)
qed

section \<open>The benchmark\<close>

text \<open>Its packetizer gives the frame up when the pool is empty, and gives back what it took for it.\<close>

fun bench_fragments ::
  "encoded_packet \<Rightarrow> u32 \<Rightarrow> u16 \<Rightarrow> nat list \<Rightarrow> packet list \<Rightarrow> packet_pool \<times> u32
    \<Rightarrow> fault + (packet list option \<times> packet_pool \<times> u32)" where
  "bench_fragments p fid totalFrags [] ptrs (pl, pktSeq) = Inr (Some ptrs, pl, pktSeq)"
| "bench_fragments p fid totalFrags (i # is) ptrs (pl, pktSeq) =
     (case pool_acquire pl of
        (None, pl) \<Rightarrow> Inr (None, fold pool_release (map Some ptrs) pl, pktSeq)
      | (Some u, pl) \<Rightarrow> fbind (stress_fragment (stress_header fid i totalFrags pktSeq p) u) (\<lambda>u.
          bench_fragments p fid totalFrags is (ptrs @ [u]) (pl, pktSeq + 1)))"

text \<open>The header of a parity packet; the payload stays what it was.\<close>

definition bench_parity :: "u32 \<Rightarrow> nat \<Rightarrow> packet list \<Rightarrow> packet \<Rightarrow> fault + packet" where
  "bench_parity fid groupStart grp u =
     fbind (max_payload (map Some grp) 0) (\<lambda>n.
     fbind (vec_write (pk_data u) 0 (enc_FECHeader ((dec_FECHeader (pk_data u))\<lparr>fh_type := pt_code PtFEC, fh_frameId := fid,
       fh_fragmentStart := of_nat groupStart, fh_fragmentCount := of_nat (length grp), fh_dataSize := n\<rparr>))) (\<lambda>d.
       Inr (u\<lparr>pk_data := d, pk_size := 15 + unat n\<rparr>)))"

definition bench_copy :: "packet \<Rightarrow> packet_pool \<Rightarrow> fault + (packet list \<times> packet_pool)" where
  "bench_copy p pl = (case pool_acquire pl of (None, pl) \<Rightarrow> Inr ([], pl)
     | (Some u, pl) \<Rightarrow> fbind (vec_read (pk_data p) 0 (pk_size p)) (\<lambda>bs. fbind (vec_write (pk_data u) 0 bs) (\<lambda>d.
         Inr ([u\<lparr>pk_data := d, pk_size := pk_size p\<rparr>], pl))))"

definition bench_group :: "u32 \<Rightarrow> packet list \<Rightarrow> nat \<Rightarrow> packet_pool \<Rightarrow> fault + (packet list \<times> packet_pool)" where
  "bench_group fid ptrs i pl =
     (let groupStart = i div FEC_GROUP_SIZE * FEC_GROUP_SIZE; grp = take (i - groupStart + 1) (drop groupStart ptrs) in
      if group_due (length ptrs) i \<and> 1 < length grp then
        (case pool_acquire pl of (None, pl) \<Rightarrow> Inr ([], pl)
         | (Some f, pl) \<Rightarrow> fbind (bench_parity fid groupStart grp f) (\<lambda>f. Inr ([f], pl)))
      else Inr ([], pl))"

fun bench_send :: "u32 \<Rightarrow> packet list \<Rightarrow> nat list \<Rightarrow> packet_pool \<Rightarrow> fault + (packet list \<times> packet_pool)" where
  "bench_send fid ptrs [] pl = Inr ([], pl)"
| "bench_send fid ptrs (i # is) pl =
     fbind (bench_copy (ptrs ! i) pl) (\<lambda>(copied, pl).
     fbind (bench_group fid ptrs i pl) (\<lambda>(made, pl).
     fbind (bench_send fid ptrs is pl) (\<lambda>(more, pl). Inr (copied @ made @ more, pl))))"

text \<open>The fragments are not given back.\<close>

definition bench_packetize :: "encoded_packet \<Rightarrow> packet_pool \<Rightarrow> u32 \<Rightarrow> fault + (packet list \<times> packet_pool \<times> u32)" where
  "bench_packetize p pl pktSeq =
     (let totalFrags = (let n = frag_count (pk_size (ep_packet p)) mod 65536 in if n = 0 then 1 else n);
          fid = pk_frameId (ep_packet p) in
      fbind (bench_fragments p fid (of_nat totalFrags) [0..<totalFrags] [] (pl, pktSeq)) (\<lambda>(ptrs, pl, pktSeq).
      case ptrs of None \<Rightarrow> Inr ([], pl, pktSeq)
      | Some ptrs \<Rightarrow> fbind (bench_send fid ptrs [0..<totalFrags] pl) (\<lambda>(outs, pl). Inr (outs, pl, pktSeq))))"

lemma length_these_Some: "length (these_list (map Some xs)) = length xs"
  by (induction xs) (simp_all add: these_list_def)

lemma bench_fragments_keep:
  "bench_fragments p fid n is ptrs (pl, s) = Inr (r, pl', s')
    \<Longrightarrow> length pl' + (case r of None \<Rightarrow> 0 | Some ptrs' \<Rightarrow> length ptrs') = length pl + length ptrs
      \<and> (\<forall>ptrs'. r = Some ptrs' \<longrightarrow> length ptrs' = length ptrs + length is)"
proof (induction "is" arbitrary: pl s ptrs)
  case (Cons i "is")
  obtain u pl1 where a: "pool_acquire pl = (u, pl1)" by fastforce
  show ?case
  proof (cases u)
    case None
    then show ?thesis using Cons.prems a length_pool_acquire [OF a]
      by (auto simp: length_releases length_these_Some) (simp add: these_list_def)
  next
    case (Some x)
    then obtain u' where "bench_fragments p fid n is (ptrs @ [u']) (pl1, s + 1) = Inr (r, pl', s')"
      using Cons.prems a by (auto elim!: fbind_InrE)
    from Cons.IH [OF this] show ?thesis using Some length_pool_acquire [OF a] by (auto simp: these_list_def)
  qed
qed auto

lemma bench_send_keeps: "bench_send fid ptrs is pl = Inr (outs, pl') \<Longrightarrow> length pl' + length outs = length pl"
proof (induction "is" arbitrary: pl outs)
  case (Cons i "is")
  have copy: "bench_copy p q = Inr (o1, q') \<Longrightarrow> length q' + length o1 = length q" for p q o1 q'
    by (auto simp: bench_copy_def these_list_def elim!: fbind_InrE dest!: length_pool_acquire split: prod.splits option.splits)
  have made: "bench_group fid ptrs j q = Inr (o1, q') \<Longrightarrow> length q' + length o1 = length q" for j q o1 q'
    by (auto simp: bench_group_def these_list_def Let_def elim!: fbind_InrE dest!: length_pool_acquire
        split: prod.splits option.splits if_split_asm)
  from Cons show ?case by (fastforce elim!: fbind_InrE dest!: copy made)
qed simp

text \<open>Every frame that is sent takes as many packets out of the pool for good as it has fragments.\<close>

lemma bench_leaks_fragments:
  assumes "bench_packetize p pl s = Inr (outs, pl', s')" and "outs \<noteq> []" and "0 < frag_count (pk_size (ep_packet p)) mod 65536"
  shows "length pl' + length outs + frag_count (pk_size (ep_packet p)) mod 65536 = length pl"
  using assms by (auto simp: bench_packetize_def Let_def elim!: fbind_InrE dest!: bench_fragments_keep bench_send_keeps
      split: option.splits)

lemma bench_parity_has_no_parity:
  assumes "bench_parity fid g grp u = Inr u'"
  shows "drop 15 (pk_data u') = drop 15 (pk_data u)"
  using assms by (auto simp: bench_parity_def vec_write_Inr fh_fmt.length_enc elim!: fbind_InrE)

end
