(* ===== verification/AudioCodecs.thy ===== *)
theory AudioCodecs
  imports AudioPath
begin

text \<open>
  The objects of FFmpeg that \<open>Host::AudioEncoder\<close> and \<open>Client::AudioDecoder\<close> (\<open>cpp/host/audio_encoder.cpp\<close>,
  \<open>cpp/client/audio_decoder.cpp\<close>) keep behind pointers: how \<open>Initialize\<close> makes them, what the calls do when it
  failed on the way, and what the destructor releases. \<open>AudioPath\<close> has the calls on a codec that is complete.
\<close>

section \<open>Initialisation\<close>

datatype codec_object = Codec_Context | Audio_Frame | Audio_Packet

text \<open>What FFmpeg answers: the channels become those of the layout, \<open>oa_planes\<close> is what
  \<open>av_frame_get_buffer\<close> makes of the frame (nothing, when it fails).\<close>

record 'a opus_answers =
  oa_find :: bool
  oa_context :: bool
  oa_open :: bool
  oa_frameSize :: nat
  oa_frame :: bool
  oa_planes :: "'a list list option"
  oa_packet :: bool

text \<open>The three pointers. The context has its channels and, once it is open, its frame size; a frame may be
  without buffers.\<close>

record 'a codec_internal =
  ci_codecCtx :: "(nat \<times> nat) option"
  ci_frame :: "'a list list option option"
  ci_packet :: bool

definition internal_new :: "'a codec_internal" where
  "internal_new = \<lparr>ci_codecCtx = None, ci_frame = None, ci_packet = False\<rparr>"

definition layout_channels :: "nat \<Rightarrow> nat" where
  "layout_channels channels = (if channels = 1 then 1 else 2)"

definition object_made :: "bool \<Rightarrow> codec_object \<Rightarrow> codec_object multiset" where
  "object_made b x = (if b then {#x#} else {#})"

definition audio_encoder_initialize ::
  "'a opus_answers \<Rightarrow> nat \<Rightarrow> codec_object multiset \<times> 'a codec_internal
    \<Rightarrow> fault + (bool \<times> codec_object multiset \<times> 'a codec_internal)" where
  "audio_encoder_initialize a channels = (\<lambda>(h, c).
     if \<not> oa_find a then Inr (False, h, c)
     else if \<not> oa_context a then Inl NullDeref
     else let h = add_mset Codec_Context h; c = c\<lparr>ci_codecCtx := Some (layout_channels channels, 0)\<rparr> in
       if \<not> oa_open a then Inr (False, h, c)
       else let c = c\<lparr>ci_codecCtx := Some (layout_channels channels, oa_frameSize a)\<rparr> in
         if \<not> oa_frame a then Inl NullDeref
         else Inr (True, h + {#Audio_Frame#} + object_made (oa_packet a) Audio_Packet,
           c\<lparr>ci_frame := Some (oa_planes a), ci_packet := oa_packet a\<rparr>))"

text \<open>The decoder's frame gets its buffers from FFmpeg later.\<close>

definition audio_decoder_initialize ::
  "'a opus_answers \<Rightarrow> nat \<Rightarrow> codec_object multiset \<times> 'a codec_internal
    \<Rightarrow> fault + (bool \<times> codec_object multiset \<times> 'a codec_internal)" where
  "audio_decoder_initialize a channels = (\<lambda>(h, c).
     if \<not> oa_find a then Inr (False, h, c)
     else if \<not> oa_context a then Inl NullDeref
     else let h = add_mset Codec_Context h; c = c\<lparr>ci_codecCtx := Some (layout_channels channels, 0)\<rparr> in
       if \<not> oa_open a then Inr (False, h, c)
       else Inr (True, h + object_made (oa_frame a) Audio_Frame + object_made (oa_packet a) Audio_Packet,
         c\<lparr>ci_frame := (if oa_frame a then Some None else None), ci_packet := oa_packet a\<rparr>))"

text \<open>\<open>~InternalData\<close>; \<open>Shutdown\<close> does nothing.\<close>

definition internal_delete :: "codec_object multiset \<times> 'a codec_internal \<Rightarrow> codec_object multiset" where
  "internal_delete = (\<lambda>(h, c). h - object_made (ci_codecCtx c \<noteq> None) Codec_Context - object_made (ci_frame c \<noteq> None) Audio_Frame
     - object_made (ci_packet c) Audio_Packet)"

section \<open>Calls\<close>

definition encoder_of :: "nat \<times> nat \<Rightarrow> 'a list list \<Rightarrow> 'a audio_encoder" where
  "encoder_of ctx planes = \<lparr>ae_codec = Some ctx, ae_planes = planes\<rparr>"

text \<open>\<open>Encode\<close> asks for the context only. With no sample to store the frame is not touched; FFmpeg takes a null
  frame as the end of the stream, but does not take a null packet.\<close>

definition audio_encoder_encode ::
  "bool \<Rightarrow> bytes list \<Rightarrow> 'a list \<Rightarrow> bytes \<Rightarrow> 'a codec_internal \<Rightarrow> fault + (bool \<times> bytes \<times> 'a codec_internal)" where
  "audio_encoder_encode sendOk packets pcm out c =
     (case ci_codecCtx c of None \<Rightarrow> Inr (False, out, c)
      | Some (channels, frame_size) \<Rightarrow>
          fbind (case ci_frame c of
              Some (Some planes) \<Rightarrow> fbind (to_planes channels pcm planes) (\<lambda>planes. Inr (c\<lparr>ci_frame := Some (Some planes)\<rparr>))
            | _ \<Rightarrow> if length pcm div channels = 0 then Inr c else Inl NullDeref) (\<lambda>c.
          if \<not> sendOk then Inr (False, out, c)
          else if \<not> ci_packet c then Inl NullDeref
          else let out = out @ concat packets in Inr (out \<noteq> [], out, c)))"

text \<open>\<open>Decode\<close> writes to the packet first, and FFmpeg does not take a null frame.\<close>

definition audio_decoder_decode ::
  "bool \<Rightarrow> 'a \<Rightarrow> (nat \<times> 'a list list) list \<Rightarrow> 'a list \<Rightarrow> 'a codec_internal \<Rightarrow> fault + (bool \<times> 'a list)" where
  "audio_decoder_decode sendOk zero frames out c =
     (if ci_codecCtx c = None then Inr (False, out)
      else if \<not> ci_packet c then Inl NullDeref
      else if sendOk \<and> ci_frame c = None then Inl NullDeref
      else audio_decode True sendOk zero frames out)"

section \<open>A complete codec\<close>

lemma encode_complete:
  assumes "ci_codecCtx c = Some ctx" and "ci_frame c = Some (Some planes)" and "ci_packet c"
  shows "audio_encoder_encode sendOk packets pcm out c =
    fbind (audio_encode sendOk packets pcm out (encoder_of ctx planes)) (\<lambda>(ok, out, e).
      Inr (ok, out, c\<lparr>ci_frame := Some (Some (ae_planes e))\<rparr>))"
  using assms by (cases ctx; cases "to_planes (fst ctx) pcm planes")
    (simp_all add: audio_encoder_encode_def audio_encode_def encoder_of_def Let_def)

lemma decode_complete:
  assumes "ci_codecCtx c \<noteq> None" and "ci_frame c \<noteq> None" and "ci_packet c"
  shows "audio_decoder_decode sendOk zero frames out c = audio_decode (ci_codecCtx c \<noteq> None) sendOk zero frames out"
  using assms by (auto simp: audio_decoder_decode_def)

text \<open>An encoder whose initialisation succeeded, with all its parts, takes whole frames of two channels for good.\<close>

lemma initialised_encoder_encodes:
  assumes "audio_encoder_initialize a channels (h, internal_new) = Inr (True, h', c)"
    and "oa_planes a = Some planes" and "oa_packet a" and "length planes = layout_channels channels"
    and "\<forall>plane \<in> set planes. length plane = oa_frameSize a" and "length pcm div layout_channels channels \<le> oa_frameSize a"
  shows "\<exists>c'. audio_encoder_encode True packets pcm out c = Inr (out @ concat packets \<noteq> [], out @ concat packets, c')"
proof -
  have c: "ci_codecCtx c = Some (layout_channels channels, oa_frameSize a)" "ci_frame c = Some (Some planes)" "ci_packet c"
    using assms(1-3) by (auto simp: audio_encoder_initialize_def Let_def split: if_split_asm)
  obtain planes' where "to_planes (layout_channels channels) pcm planes = Inr planes'"
    using to_planes_result [OF assms(4-6)] by blast
  then show ?thesis by (simp add: encode_complete [OF c] audio_encode_def encoder_of_def Let_def)
qed

section \<open>A codec that is not complete\<close>

text \<open>The context stays when opening the codec fails, so the next call goes on with a null frame. The host does not
  look at the result of \<open>Initialize\<close>.\<close>

theorem failed_open_crashes:
  assumes "oa_find a" and "oa_context a" and "\<not> oa_open a" and "2 \<le> length pcm"
  shows "\<exists>h' c. audio_encoder_initialize a channels (h, internal_new) = Inr (False, h', c)
    \<and> audio_encoder_encode sendOk packets pcm out c = Inl NullDeref
    \<and> audio_decoder_decode sendOk zero frames out' c = Inl NullDeref"
proof -
  have "length pcm div layout_channels channels \<noteq> 0"
    using assms(4) by (auto simp: layout_channels_def div_eq_0_iff)
  then show ?thesis using assms(1-3)
    by (simp add: audio_encoder_initialize_def internal_new_def audio_encoder_encode_def audio_decoder_decode_def Let_def)
qed

text \<open>The destructor releases what one initialisation made; a second one loses the objects of the first.\<close>

lemma delete_releases_all:
  "audio_encoder_initialize a channels ({#}, internal_new) = Inr (ok, h, c) \<Longrightarrow> internal_delete (h, c) = {#}"
  "audio_decoder_initialize a channels ({#}, internal_new) = Inr (ok, h, c) \<Longrightarrow> internal_delete (h, c) = {#}"
  by (auto simp: audio_encoder_initialize_def audio_decoder_initialize_def internal_delete_def internal_new_def object_made_def
      Let_def split: if_split_asm)

lemma second_initialise_leaks:
  assumes "audio_encoder_initialize a channels ({#}, internal_new) = Inr (True, h, c)"
    and "audio_encoder_initialize b channels (h, c) = Inr (True, h', c')"
  shows "{#Codec_Context, Audio_Frame#} \<subseteq># internal_delete (h', c')"
  using assms by (auto simp: audio_encoder_initialize_def internal_delete_def internal_new_def object_made_def Let_def split: if_split_asm)

theorem failed_open_crashes_witness:
  "\<exists>h c. audio_encoder_initialize \<lparr>oa_find = True, oa_context = True, oa_open = False, oa_frameSize = 960, oa_frame = True,
      oa_planes = None, oa_packet = True\<rparr> 2 ({#}, internal_new) = Inr (False, h, c)
    \<and> audio_encoder_encode True [] [1, 2 :: nat] [] c = Inl NullDeref"
  using failed_open_crashes [where channels = 2 and h = "{#}" and sendOk = True and packets = "[]" and pcm = "[1, 2 :: nat]" and out = "[]"
      and zero = 0 and frames = "[]" and out' = "[]" and a = "\<lparr>oa_find = True, oa_context = True, oa_open = False, oa_frameSize = 960,
      oa_frame = True, oa_planes = None, oa_packet = True\<rparr>"] by auto

end
