(* ===== verification/ProgramTests.thy ===== *)
theory ProgramTests
  imports Recovery JitterBuffer Queues Clock Crypto Replay InputPredictor IntelligentRouter StreamEngine CloudOptimizer
    Logging Support
begin

text \<open>
  The program's own tests (\<open>cpp/tests_runner.cpp\<close>, \<open>cpp/ai/tests_ai.cpp\<close>,
  \<open>cpp/common/logging_validation_test.cpp\<close>) as predicates over the model: each is
  the conjunction of the assertions of one test function, and holds. What a test leaves uninitialised is an
  argument. They compare the model with what the authors expect of their code.
\<close>

section \<open>Formats\<close>

definition test_protocol :: "VideoHeader \<Rightarrow> bool" where
  "test_protocol vh \<longleftrightarrow> length (enc_VideoHeader vh) = 40"

lemma test_protocol_passes: "test_protocol vh"
  by (simp add: test_protocol_def vh_fmt.length_enc)

definition test_gamepad_protocol :: "GamepadState \<Rightarrow> GamepadStatusEvent \<Rightarrow> bool" where
  "test_gamepad_protocol gp status \<longleftrightarrow> length (enc_GamepadState gp) = 13 \<and> length (enc_GamepadStatusEvent status) = 2"

lemma test_gamepad_protocol_passes: "test_gamepad_protocol gp status"
  by (simp add: test_gamepad_protocol_def gs_fmt.length_enc ge_fmt.length_enc)

text \<open>\<open>strcpy\<close> leaves the rest of the array as it was.\<close>

definition test_handshake_protocol ::
  "AudioHeader \<Rightarrow> TimeSyncPacket \<Rightarrow> TimeSyncResponsePacket \<Rightarrow> HandshakePacket \<Rightarrow> HandshakeResponsePacket \<Rightarrow> bool" where
  "test_handshake_protocol ah ts tr hp hrp \<longleftrightarrow>
     (let username = map (\<lambda>c. of_nat (of_char c)) ''TestUser'' @ [0];
          hp = hp\<lparr>hp_type := pt_code PtHandshake, hp_username := username @ drop 9 (hp_username hp)\<rparr>
      in length (enc_AudioHeader ah) = 15 \<and> length (enc_TimeSyncPacket ts) = 9 \<and> length (enc_TimeSyncResponsePacket tr) = 25
        \<and> length (enc_HandshakePacket hp) = 33 \<and> length (enc_HandshakeResponsePacket hrp) = 2
        \<and> takeWhile (\<lambda>b. b \<noteq> 0) (hp_username hp) = butlast username)"

lemma test_handshake_protocol_passes:
  assumes "length (hp_username hp) = 32"
  shows "test_handshake_protocol ah ts tr hp hrp"
  using assms by (simp add: test_handshake_protocol_def ah_fmt.length_enc ts_fmt.length_enc tr_fmt.length_enc hp_fmt.length_enc
      hq_fmt.length_enc Let_def)

section \<open>Storage\<close>

definition test_ring_buffer :: "int \<Rightarrow> bool" where
  "test_ring_buffer x \<longleftrightarrow> (let rb = frb_insert 0 10 (frb_new 4 x) in frb_get rb 0 = 10)"

lemma test_ring_buffer_passes: "test_ring_buffer x"
  by (simp add: test_ring_buffer_def frb_insert_def frb_get_def frb_new_def)

text \<open>The two waits that other threads end find the queue empty first, whichever thread is faster.\<close>

definition wakes :: "('a safe_queue \<Rightarrow> 'a safe_queue) \<Rightarrow> 'a safe_queue \<Rightarrow> ('a option \<times> 'a safe_queue) option" where
  "wakes other q = (case sq_wait_and_pop q of None \<Rightarrow> sq_wait_and_pop (other q) | r \<Rightarrow> r)"

definition test_safe_queue :: bool where
  "test_safe_queue \<longleftrightarrow>
     (let q = snd (sq_push 2 (snd (sq_push (1 :: int) sq_new))) in
      case sq_wait_and_pop q of None \<Rightarrow> False | Some (x, q) \<Rightarrow> x = Some 1 \<and>
        (case sq_wait_and_pop q of None \<Rightarrow> False | Some (x, q) \<Rightarrow> x = Some 2 \<and>
          (case wakes (snd \<circ> sq_push 3) q of None \<Rightarrow> False | Some (x, q) \<Rightarrow> x = Some 3 \<and>
            (case wakes sq_stop q of None \<Rightarrow> False | Some (x, q) \<Rightarrow> x = None))))"

lemma test_safe_queue_passes: "test_safe_queue"
  by (simp add: test_safe_queue_def wakes_def sq_new_def sq_push_def sq_wait_and_pop_def sq_stop_def)

definition test_packet_pool :: bool where
  "test_packet_pool \<longleftrightarrow>
     (let (p1, pool) = pool_acquire (pool_new 2 100); (p2, pool) = pool_acquire pool; (p3, pool) = pool_acquire pool;
          (p4, pool) = pool_acquire (pool_release p1 pool)
      in map_option (\<lambda>p. length (pk_data p)) p1 = Some 100 \<and> p3 = None \<and> map_option (\<lambda>p. length (pk_data p)) p4 = Some 100)"

lemma test_packet_pool_passes: "test_packet_pool"
  by (simp add: test_packet_pool_def pool_new_def pool_acquire_def pool_release_def packet_new_def numeral_2_eq_2)

section \<open>The receiver\<close>

text \<open>Three fragments, of which the second is lost; \<open>vh\<close> and \<open>fh\<close> are what the headers held before.\<close>

definition fec_video :: "nat \<Rightarrow> VideoHeader \<Rightarrow> VideoHeader" where
  "fec_video i vh = vh\<lparr>vh_type := pt_code PtVideo, vh_frameId := 100, vh_totalFragments := 3, vh_flags := 1,
     vh_fragmentIndex := of_nat i, vh_dataSize := 10\<rparr>"

definition fec_data :: "nat \<Rightarrow> bytes" where
  "fec_data i = (if i = 0 then [1, 2, 3, 4, 5, 6, 7, 8, 9, 0] else if i = 1 then [0, 9, 8, 7, 6] else replicate 10 5)"

definition fec_parity :: bytes where
  "fec_parity = map (\<lambda>i. fec_data 0 ! i XOR (if i < 5 then fec_data 1 ! i else 0) XOR fec_data 2 ! i) [0..<10]"

definition test_receiver_fec :: "VideoHeader \<Rightarrow> FECHeader \<Rightarrow> u64 \<Rightarrow> u64 \<Rightarrow> bool" where
  "test_receiver_fec vh fh t0 t1 \<longleftrightarrow>
     (case fbind (process_packet (fec_video 0 vh) (fec_data 0) t0 (receiver_new 10)) (\<lambda>r.
           fbind (process_packet (fec_video 2 vh) (fec_data 2) t1 r) (process_fec (fh\<lparr>fh_type := pt_code PtFEC, fh_frameId := 100,
             fh_fragmentStart := 0, fh_fragmentCount := 3, fh_dataSize := 10\<rparr>) fec_parity)) of
        Inl e \<Rightarrow> False
      | Inr r \<Rightarrow> (case get_next_frame r of (None, r) \<Rightarrow> False
          | (Some a, r) \<Rightarrow> fd_isComplete (frame_at r a)
              \<and> map (\<lambda>i. cells (fd_buffer (frame_at r a)) (MAX_UDP_PAYLOAD + i)) [0..<10] = fec_data 1 @ replicate 5 0))"

text \<open>\<open>frame = receiver.GetNextFrame()\<close>: the frame held before goes back to the pool.\<close>

definition next_frame :: "nat option \<times> receiver \<Rightarrow> nat option \<times> receiver" where
  "next_frame = (\<lambda>(frame, r). case get_next_frame r of (fp, r) \<Rightarrow> (fp, return_to_pool frame r))"

definition holds_frame :: "u32 \<Rightarrow> nat option \<times> receiver \<Rightarrow> bool" where
  "holds_frame fid = (\<lambda>(frame, r). case frame of None \<Rightarrow> False | Some a \<Rightarrow> fd_frameId (frame_at r a) = fid)"

definition ordering_video :: "u32 \<Rightarrow> u8 \<Rightarrow> VideoHeader \<Rightarrow> VideoHeader" where
  "ordering_video fid flags vh = vh\<lparr>vh_type := pt_code PtVideo, vh_totalFragments := 1, vh_fragmentIndex := 0,
     vh_dataSize := 10, vh_frameId := fid, vh_flags := flags\<rparr>"

definition test_receiver_ordering :: "VideoHeader \<Rightarrow> u64 \<Rightarrow> bool" where
  "test_receiver_ordering vh now \<longleftrightarrow>
     (let send = (\<lambda>fid flags. process_packet (ordering_video fid flags vh) (replicate 10 0) now) in
      case fbind (send 10 1 (receiver_new 10)) (send 12 1) of Inl e \<Rightarrow> False
      | Inr r \<Rightarrow> (let s1 = next_frame (None, r); s2 = next_frame s1; s3 = next_frame (fst s2, force_advance_to 12 (snd s2)) in
          holds_frame 10 s1 \<and> fst s2 = None \<and> holds_frame 12 s3
          \<and> (case fbind (send 15 1 (snd s3)) (\<lambda>r. fbind (send 20 1 r) (send 18 0)) of Inl e \<Rightarrow> False
             | Inr r \<Rightarrow> find_latest_keyframe r = 20)))"

lemmas receiver_steps = process_packet_def receiver_new_def frame_for_def get_from_pool_def frb_new_def frb_get_def frb_insert_def
  accept_fragment_def store_fragment_def try_recover_def finish_frame_def upd_frame_def frame_at_def start_frame_def
  frame_reset_def frame_new_def vec_read_def buf_write_def MAX_UDP_PAYLOAD_def frame_bytes_def group_start_def FEC_GROUP_SIZE_def
  fec_index_def nth_list_update get_next_frame_def poke_def Let_def

lemma receiver_ranges:
  "[0..<2] = [0, Suc 0]" "[0..<3] = [0, Suc 0, 2]" "[0..<10] = [0, Suc 0, 2, 3, 4, 5, 6, 7, 8, 9]"
  "[0..<64] = [0, Suc 0, 2, 3, 4, 5, 6, 7, 8, 9, 10, 11, 12, 13, 14, 15, 16, 17, 18, 19, 20, 21, 22, 23,
     24, 25, 26, 27, 28, 29, 30, 31, 32, 33, 34, 35, 36, 37, 38, 39, 40, 41, 42, 43, 44, 45,
     46, 47, 48, 49, 50, 51, 52, 53, 54, 55, 56, 57, 58, 59, 60, 61, 62, 63]"
  by (simp_all add: upt_rec)

lemma fresh_packet: "0 < n \<Longrightarrow> last (map (\<lambda>_. x) [0..<n]) = x"
  by (simp add: last_map)

lemma test_receiver_fec_passes: "test_receiver_fec vh fh t0 t1"
proof -
  have p: "fec_parity = [4, 14, 14, 6, 6, 3, 2, 13, 12, 5]" by code_simp
  have three: "\<not> (3 :: u16) \<le> 0" "\<not> (3 :: u16) \<le> 1" "\<not> (3 :: u16) \<le> 2" by (simp_all add: word_le_nat_alt)
  have zeros: "[0, 0, 0, 0, 0] = replicate 5 (0 :: u8)" by (simp add: numeral_eq_Suc)
  show ?thesis
    by (simp add: test_receiver_fec_def receiver_steps fec_video_def fec_data_def p process_fec_def pool_new_def pool_release_def
        pool_acquire_def packet_new_def vec_write_def xor_bytes_def recover_into_def fresh_packet three receiver_ranges(2,3)
        del: replicate_Suc) (rule zeros)
qed

lemma test_receiver_ordering_passes: "test_receiver_ordering vh now"
  by (simp add: test_receiver_ordering_def receiver_steps next_frame_def holds_frame_def ordering_video_def force_advance_to_def
      drop_frame_def return_to_pool_def find_latest_keyframe_def receiver_ranges del: replicate_Suc)

section \<open>The jitter buffer\<close>

text \<open>The steady clock at the pushes and the pops. The frames carry no capture time, and no synchronised time is
  given.\<close>

definition numbered_frame :: "nat \<Rightarrow> jframe" where
  "numbered_frame i = \<lparr>jf_addr = i, jf_frameId = of_nat i, jf_captureTimestamp = 0\<rparr>"

definition push_numbered :: "int \<Rightarrow> nat \<Rightarrow> jitter_buffer \<Rightarrow> jitter_buffer" where
  "push_numbered t i jb = fst (push_frame t t (Some (numbered_frame i)) jb)"

definition pops :: "int \<Rightarrow> nat \<Rightarrow> jitter_buffer \<Rightarrow> (jitter_buffer \<Rightarrow> bool) \<Rightarrow> bool" where
  "pops now i jb continue =
     (case pop_frame now 0 jb of Inr (Some f, jb) \<Rightarrow> jf_frameId f = of_nat i \<and> continue jb | _ \<Rightarrow> False)"

definition test_jitter_buffer :: "(nat \<Rightarrow> int) \<Rightarrow> (nat \<Rightarrow> int) \<Rightarrow> bool" where
  "test_jitter_buffer arrival departure \<longleftrightarrow>
     (let jb = push_numbered (arrival 3) 3 (push_numbered (arrival 2) 2 (push_numbered (arrival 1) 1 (jb_new 3))) in
      pops (departure 1) 1 jb (\<lambda>jb. pops (departure 2) 2 jb (\<lambda>jb. pops (departure 3) 3 jb (\<lambda>jb.
        pops (departure 4) 4 (push_numbered (arrival 4) 4 jb) (\<lambda>_. True)))))"

lemma test_jitter_buffer_passes:
  assumes "\<And>i. 20000000 \<le> departure i - arrival i"
  shows "test_jitter_buffer arrival departure"
  using assms [of 1] assms [of 2] assms [of 3] assms [of 4]
  by (simp add: test_jitter_buffer_def pops_def push_numbered_def numbered_frame_def push_frame_def jb_new_def update_jitter_def
      store_frame_def overflow_loop.simps waiting_frame_leaves take_next_def vacate_def frb_insert_def frb_get_def frb_new_def Let_def
      nth_list_update released_def)

section \<open>Clock synchronisation\<close>

definition test_clock_sync :: bool where
  "test_clock_sync \<longleftrightarrow> (case process_response 1000 2000 2100 1200 clock_new of Inl e \<Rightarrow> False
     | Inr sync \<Rightarrow> m_rtt sync = 100 \<and> get_host_time 1000 sync = Inr 1950)"

lemma test_clock_sync_passes: "test_clock_sync"
  by code_simp

section \<open>Security\<close>

definition test_key_exchange :: "build \<Rightarrow> bool" where
  "test_key_exchange b \<longleftrightarrow>
     (let clientKP = generate_key_pair b; hostKP = generate_key_pair b;
          (ok, clientRX, clientTX) = derive_session_keys b (publicKey clientKP) (privateKey clientKP) (publicKey hostKP) [] [] False;
          (ok', hostRX, hostTX) = derive_session_keys b (publicKey hostKP) (privateKey hostKP) (publicKey clientKP) [] [] True
      in crypto_initialize b \<and> ok \<and> ok' \<and> clientTX = hostRX \<and> clientRX = hostTX \<and> clientTX \<noteq> clientRX)"

lemma test_key_exchange_passes: "test_key_exchange NoSodium"
  by (simp add: test_key_exchange_def vec_resize_def)

definition flip_first :: "bytes \<Rightarrow> bytes" where
  "flip_first bs = bs[0 := bs ! 0 XOR 0xFF]"

definition test_encryption :: "build \<Rightarrow> bytes \<Rightarrow> bytes \<Rightarrow> u64 \<Rightarrow> bytes \<Rightarrow> bool" where
  "test_encryption b plaintext ad nonce key \<longleftrightarrow>
     (case crypto_encrypt b plaintext ad nonce key of None \<Rightarrow> False
      | Some (ciphertext, tag) \<Rightarrow> crypto_decrypt b ciphertext tag ad nonce key = Some plaintext
          \<and> crypto_decrypt b (flip_first ciphertext) tag ad nonce key = None
          \<and> crypto_decrypt b ciphertext (flip_first tag) ad nonce key = None)"

definition hello :: bytes where
  "hello = map (\<lambda>c. of_nat (of_char c)) ''Hello Secure World!''"

definition header_data :: bytes where
  "header_data = map (\<lambda>c. of_nat (of_char c)) ''HeaderData'' @ [0]"

lemma test_encryption_passes: "test_encryption NoSodium hello header_data 12345 (replicate 32 0xAA)"
  by code_simp

definition test_replay :: bool where
  "test_replay \<longleftrightarrow> fst (validate_all [100, 105, 102, 100, 105, 102, 101, 2000, 100] window_new)
     = [True, True, True, False, False, False, True, True, False]"

lemma test_replay_passes: "test_replay"
  by code_simp

section \<open>Forecasts and decisions\<close>

definition test_stream_engine :: "u64 \<Rightarrow> u64 \<Rightarrow> bool" where
  "test_stream_engine t0 t1 \<longleftrightarrow>
     (let state = \<lparr>ss_currentBitrateKbps = 5000, ss_currentWidth = 1920, ss_currentHeight = 1080, ss_currentFPS = 60,
            ss_packetLoss = Fin 0, ss_rttMs = Fin 30, ss_sceneComplexity = Fin 0\<rparr>;
          pred = \<lparr>pr_predictedRttMs = Fin 30, pr_predictedJitterMs = Fin 2, pr_predictedLossRate = Fin 0, pr_confidenceScore = Fin 1\<rparr>
      in case analyze (stream_engine_new t0) t0 state pred of Inl e \<Rightarrow> False
         | Inr (engine, decision) \<Rightarrow> ad_action decision = Maintain \<and>
             (case analyze engine t1 state (pred\<lparr>pr_predictedLossRate := fc (20 / 100)\<rparr>) of Inl e \<Rightarrow> False
              | Inr (engine, decision) \<Rightarrow> ad_action decision = EmergencyThrottle \<and> ad_targetBitrateKbps decision < 5000))"

lemma test_stream_engine_passes: "test_stream_engine t0 t1"
proof -
  let ?p = "\<lambda>loss. \<lparr>pr_predictedRttMs = Fin 30, pr_predictedJitterMs = Fin 2, pr_predictedLossRate = loss, pr_confidenceScore = Fin 1\<rparr>"
  have "\<not> critical (?p (Fin 0))" "critical (?p (fc (20 / 100)))" by code_simp+
  then show ?thesis using half_bitrate [of 5000]
    by (simp add: test_stream_engine_def analyze_def stream_engine_new_def ACTION_COOLDOWN_MS_def emergency_def maintain_def Let_def)
qed

definition test_input_predictor :: bool where
  "test_input_predictor \<longleftrightarrow>
     (let p = record_input (record_input (ip_new 10) 100 100 1000) 110 110 1010 in
      (case ip_predict p 1020 of Inl e \<Rightarrow> False | Inr pred \<Rightarrow> is_x pred = 120 \<and> is_y pred = 120)
      \<and> (case smooth (record_input p 100 100 1000) \<lparr>is_x = 200, is_y = 200, is_timestamp = 1030\<rparr> of Inl e \<Rightarrow> False
         | Inr (p, smoothed) \<Rightarrow> is_x smoothed < 200))"

lemma test_input_predictor_passes: "test_input_predictor"
proof -
  have exact: "rnd f64 1 = Fin 1" "rnd f64 10 = Fin 10" using rnd_int [of f64 1] rnd_int [of f64 10] by (simp_all add: f64_def)
  have h: "flt_of_int f32 100 = Fin 100" by code_simp
  have s: "smooth_axis (Fin 100) 200 = Fin 130" by code_simp
  show ?thesis
    by (simp add: test_input_predictor_def record_input_def ip_new_def ip_predict_def extrapolate_axis_def smooth_def
        flt_of_int_def [of f64] exact int32_def to_int32_def rat_trunc_def h s Let_def)
qed

definition test_cloud_nodes :: "node_stats list" where
  "test_cloud_nodes =
     [\<lparr>ns_nodeId = ''node-1'', ns_gpuUsage = fc (95 / 100), ns_vramUsage = fc (5 / 10), ns_activeSessions = 9,
        ns_maxSessions = 10, ns_regionId = 1\<rparr>,
      \<lparr>ns_nodeId = ''node-2'', ns_gpuUsage = fc (85 / 100), ns_vramUsage = fc (2 / 10), ns_activeSessions = 4,
        ns_maxSessions = 10, ns_regionId = 1\<rparr>,
      \<lparr>ns_nodeId = ''node-3'', ns_gpuUsage = fc (80 / 100), ns_vramUsage = fc (6 / 10), ns_activeSessions = 8,
        ns_maxSessions = 10, ns_regionId = 1\<rparr>]"

definition test_cloud_optimizer :: bool where
  "test_cloud_optimizer \<longleftrightarrow>
     (case analyze_regional_load (\<lambda>_. []) 1 test_cloud_nodes of Inl e \<Rightarrow> False | Inr (h, s) \<Rightarrow> sg_scaleUp s)
     \<and> select_optimal_node test_cloud_nodes 500 \<in> {''node-1'', ''node-3''}"

lemma test_cloud_optimizer_passes: "test_cloud_optimizer"
  by code_simp

section \<open>Logging\<close>

text \<open>Only a number is formatted; a text is kept as it is.\<close>

definition test_session_correlation :: bool where
  "test_session_correlation \<longleftrightarrow> thread_session_id 0x12345678 = ''12345678''"

lemma test_session_correlation_passes: "test_session_correlation"
proof -
  have n: "unat ((0x12345678 :: u64) AND 0xFFFFFFFF) = 305419896" by simp
  have digits: "[0..<8] = [0, Suc 0, 2, 3, 4, 5, 6, 7]" by (simp add: upt_rec)
  have "map char_of [49 :: nat, 50, 51, 52, 53, 54, 55, 56] = ''12345678''" by code_simp
  then show ?thesis unfolding test_session_correlation_def thread_session_id_def Let_def n digits hex_digit_def by simp
qed

definition test_support_package :: "bool \<Rightarrow> diagnostics \<Rightarrow> bool" where
  "test_support_package windows d \<longleftrightarrow>
     \<not> fst (generate_support_package windows (Some ''../unsafe_package.zip'') d)
     \<and> \<not> fst (generate_support_package windows (Some ''package;rm -rf.zip'') d)
     \<and> fst (generate_support_package windows (Some ''support_test_package.tar.gz'') d)"

lemma test_support_package_passes: "test_support_package windows d"
proof -
  have "\<not> is_safe_path ''../unsafe_package.zip''" "\<not> is_safe_path ''package;rm -rf.zip''"
    "is_safe_path ''support_test_package.tar.gz''" by code_simp+
  then show ?thesis by (simp add: test_support_package_def generate_support_package_def)
qed

end
