(* ===== verification/Spec2Isabelle.thy ===== *)
theory Spec2Isabelle
  imports Prelude Wire Queues Pools Clock Crypto Replay Receiver Reassembly Recovery
    LatencyPredictor StreamEngine IntelligentRouter CloudOptimizer InputPredictor JitterBuffer Encoder EncoderManager InputInjector
    HostSession HostReceiver HostThreads ClientSession ClientLoop Network Config Support Logging InputCapture Profiling
    SessionManager Decoder Com Renderer ScreenCapture ClientDisplay Startup Frontend CrashReports AudioPath Dashboard
    Telemetry CrashContents ParityPackets AudioCodecs ProgramTests
begin

text \<open>
  RemotePlay (Parsec-Lite) is a remote desktop in C++: a host captures its screen and sound, encodes,
  packetizes, seals and sends them over UDP and injects the input it receives; a client opens, reassembles,
  orders and decodes the frames and captures its user's input. Source paths below are relative to \<open>src/\<close>.

  \<^bold>\<open>The parts and their theories.\<close>
  \<^item> \<open>Prelude\<close>: bytes, little-endian numbers, results with a \<open>fault\<close> (an access out of range, a null
    dereference, a signed overflow), checked access to \<open>std::vector\<close> and to uninitialised buffers.
    \<open>Floats\<close>: IEEE 754 binary32 and binary64 as exact rationals with rounding, executable in the kernel.
  \<^item> \<open>Wire\<close> (\<open>cpp/common/protocol.hpp\<close>): one record, encoder and decoder per packed struct; the locale
    \<open>packed\<close> states the contract, interpreted for all 21 formats.
  \<^item> \<open>Queues\<close> (\<open>lock_free_queue.hpp\<close>, \<open>safe_queue.hpp\<close>), \<open>Pools\<close> (\<open>packet_pool.hpp\<close>,
    \<open>fixed_ring_buffer.hpp\<close>): the storage shared between threads, against the locales \<open>fifo\<close>, \<open>pool\<close>
    and \<open>ring\<close>; the lock-free queue also as an interleaving of single atomic accesses.
  \<^item> \<open>Crypto\<close> (\<open>crypto_manager.cpp\<close>), with libsodium as a parameter and its documented laws as the locale
    \<open>aead\<close>; \<open>Replay\<close> (the sequence window of \<open>receiver.cpp\<close>) with a refinement to a set.
  \<^item> \<open>Receiver\<close>, \<open>Reassembly\<close>, \<open>Recovery\<close> (\<open>cpp/client/receiver.cpp\<close>): fragments into frames, parity
    groups, retransmission requests and keyframe recovery; \<open>JitterBuffer\<close> (\<open>jitter_buffer.cpp\<close>).
  \<^item> \<open>LatencyPredictor\<close>, \<open>StreamEngine\<close>, \<open>IntelligentRouter\<close>, \<open>CloudOptimizer\<close>, \<open>InputPredictor\<close>
    (\<open>cpp/ai\<close>): forecasts and decisions.
  \<^item> \<open>Encoder\<close>, \<open>EncoderManager\<close> (\<open>cpp/host\<close>): the FFmpeg encoder, with FFmpeg as a parameter, and the
    state machine around it; \<open>InputInjector\<close>, \<open>InputCapture\<close>: input on both sides.
  \<^item> \<open>HostSession\<close>, \<open>HostReceiver\<close>, \<open>HostThreads\<close>, \<open>ClientSession\<close>, \<open>ClientLoop\<close>, \<open>SessionManager\<close>
    (\<open>session_manager.cpp\<close>): the threads of both sides as functions from their inputs and the shared state to
    effects and the new state, and their interleavings as step relations.
  \<^item> \<open>Network\<close> (\<open>network_manager.cpp\<close>), \<open>Config\<close>, \<open>Support\<close> (\<open>parsec_lite_api.cpp\<close>), \<open>Logging\<close>,
    \<open>Profiling\<close>, \<open>Clock\<close>: the services below them.
  \<^item> \<open>Decoder\<close> (\<open>cpp/client/decoder_hw.cpp\<close>), \<open>Renderer\<close> (\<open>renderer_d3d11.cpp\<close>), \<open>ClientDisplay\<close> (both as the
    client's loop drives them, with a lost device), \<open>ScreenCapture\<close> (\<open>cpp/host/capture_dxgi.cpp\<close>): which
    objects they create, use and release, over the counted references of \<open>Com\<close>; what FFmpeg, Direct3D and DXGI
    answer is an argument. \<open>AudioPath\<close>, \<open>AudioCodecs\<close> (\<open>audio_*.cpp\<close>): samples from device to device.
  \<^item> \<open>Startup\<close>, \<open>Frontend\<close>, \<open>Dashboard\<close>: how sessions begin and end, the command line and the launcher's
    window, the services behind the Qt user interface (\<open>NexusDash/src/services\<close>).
  \<^item> \<open>Telemetry\<close>: which measurements are recorded where, fed back, logged and shown by the overlay.
    \<open>CrashReports\<close>, \<open>CrashContents\<close> (\<open>cpp/common/crash_handler.cpp\<close>): when a crash is reported, and the text.
  \<^item> \<open>ParityPackets\<close> (\<open>cpp/stress_test.cpp\<close>, \<open>cpp/benchmark_pipeline.cpp\<close>): the senders of parity packets, and the receiver.
    \<open>ProgramTests\<close>: the program's unit tests (\<open>cpp/tests_runner.cpp\<close>, \<open>cpp/ai/tests_ai.cpp\<close> and others), proved on the model.

  \<^bold>\<open>What the lemmas show.\<close> Per component: a well-formedness predicate every operation preserves
  (\<open>receiver_wf\<close>, \<open>admission_inv\<close>, \<open>client_ok\<close>, \<open>jb_wf\<close>, \<open>decoder_ok\<close>), the result on every branch, and the contract of its locale by
  interpretation. The properties, numbered C1 to C40 in the theories, build on these: no datagram is acted on
  unless it is authentic and new, frames arrive whole and in order under loss, repetition and reordering,
  nothing is accessed out of range or leaked, loops end; and where the code breaks such a promise, how.

  \<^bold>\<open>How state and code correspond.\<close> A class is a record with its data members under their names (prefixed
  where records would clash); a method is a function from the arguments and the record to the result and the
  new record. Reads of clocks, sockets and devices are arguments, gathered in \<open>_env\<close> records. An access the
  code does not check is a \<open>fault\<close> value, never assumed away. A \<open>w\<close>-bit integer is a word. Uninitialised
  memory is an argument called \<open>stale\<close>.

  \<^bold>\<open>Fuel and bounds.\<close> The receive loop (\<open>HostReceiver\<close>, \<open>ClientSession\<close>) and the drain of the jitter
  buffer take fuel; \<open>receive_terminates\<close> and \<open>client_round_ends\<close> state exactly when it is enough.

  \<^bold>\<open>Not modelled.\<close> Third-party code (\<open>cpp/third_party\<close>, \<open>deps\<close>, \<open>ViGEmClient-1.16.18.0\<close>) is a parameter
  where the program relies on it. Pixels, shaders and drawing, the QML and Avalonia (C#) pages, the signals
  between Qt objects, the printed report of the profiler, and the generators and timers of the stress test and the
  benchmark are left out.
\<close>

section \<open>A frame from the packetizer to the client's receiver\<close>

text \<open>The message the packetizer seals for fragment \<open>i\<close> of a frame, written into the pool packet \<open>u\<close>.\<close>

definition fragment_message :: "u32 \<Rightarrow> u32 \<Rightarrow> encoded_packet \<Rightarrow> nat \<Rightarrow> packet \<Rightarrow> fault + bytes" where
  "fragment_message fid pktSeq p i u =
     (let vh = video_header fid i (of_nat (frag_count (pk_size (ep_packet p)))) pktSeq p in
      fbind (fill_fragment vh i (ep_packet p) u) (\<lambda>u. Inr (take (40 + unat (vh_dataSize vh)) (pk_data u))))"

text \<open>The client takes the opened messages in the order they arrive.\<close>

fun client_hears :: "(client_env \<times> bytes) list \<Rightarrow> client \<Rightarrow> fault + client" where
  "client_hears [] c = Inr c"
| "client_hears ((env, m) # ms) c = fbind (on_video env (into_buffer m (ce_staleDecrypted env)) c) (client_hears ms)"

definition as_packet :: "client_env \<times> bytes \<Rightarrow> VideoHeader \<times> bytes \<times> u64" where
  "as_packet = (\<lambda>(env, m). let d = into_buffer m (ce_staleDecrypted env) in (dec_VideoHeader d, drop 40 d, ce_receiveTime env))"

lemma client_hears_deliver:
  "deliver (map as_packet ms) (cl_receiver c) = Inr r \<Longrightarrow> \<exists>c'. client_hears ms c = Inr c' \<and> cl_receiver c' = r"
proof (induction ms arbitrary: c)
  case (Cons em ms)
  obtain env m where em: "em = (env, m)" by (cases em)
  let ?d = "into_buffer m (ce_staleDecrypted env)"
  obtain r1 where r1: "process_packet (dec_VideoHeader ?d) (drop 40 ?d) (ce_receiveTime env) (cl_receiver c) = Inr r1"
    "deliver (map as_packet ms) r1 = Inr r"
    using Cons.prems by (auto simp: em as_packet_def Let_def elim: fbind_InrE)
  let ?c = "c\<lparr>cl_receiver := r1, cl_lastFrameId := max (cl_lastFrameId c) (vh_frameId (dec_VideoHeader ?d))\<rparr>"
  have "on_video env ?d c = Inr ?c" using r1(1) by (simp add: on_video_def Let_def)
  moreover obtain c' where "client_hears ms ?c = Inr c'" "cl_receiver c' = r" using Cons.IH [of ?c] r1(2) by auto
  ultimately show ?case by (simp add: em)
qed simp

lemma message_is_fragment:
  assumes "fragment_message fid pktSeq p i u = Inr m" and "length (pk_data u) = 1500"
    and "pk_size (ep_packet p) \<le> length (pk_data (ep_packet p))" and "i < frag_count (pk_size (ep_packet p))"
  shows "is_fragment fid (take (pk_size (ep_packet p)) (pk_data (ep_packet p))) i
    (dec_VideoHeader (into_buffer m stale)) (drop 40 (into_buffer m stale))"
proof -
  let ?n = "frag_size (pk_size (ep_packet p)) i" and ?data = "take (pk_size (ep_packet p)) (pk_data (ep_packet p))"
  obtain u' where u': "fill_fragment (video_header fid i (of_nat (frag_count (pk_size (ep_packet p)))) pktSeq p) i (ep_packet p) u = Inr u'"
    "length (pk_data u') = 1500" "is_fragment fid ?data i (dec_VideoHeader (pk_data u')) (drop 40 (pk_data u'))"
    using written_fragment [OF assms(2-4)] by blast
  have n: "?n \<le> 1300" by (simp add: frag_size_def MAX_UDP_PAYLOAD_def)
  then have m: "m = take (40 + ?n) (pk_data u')"
    using assms(1) u'(1) by (simp add: fragment_message_def video_header_def unat_of_nat_u16 Let_def)
  have "dec_VideoHeader (into_buffer m stale) = dec_VideoHeader (pk_data u')"
    using u'(2) m n by (simp add: vh_fmt.dec_eq_iff into_buffer_def)
  moreover have "take ?n (drop 40 (into_buffer m stale)) = take ?n (drop 40 (pk_data u'))"
    using u'(2) m n by (simp add: into_buffer_def drop_take)
  moreover have "?n \<le> length (drop 40 (into_buffer m stale))" using u'(2) m n by (simp add: into_buffer_def)
  moreover have "length ?data = pk_size (ep_packet p)" using assms(3) by simp
  ultimately show ?thesis using u'(3) by (simp add: is_fragment_def)
qed

text \<open>C2: a frame of up to one megabyte that the packetizer cuts into messages is handed out by the
  client's receiver byte for byte, when each message has arrived at least once, in whatever order and
  however often.\<close>
theorem frame_travels:
  assumes "client_ok gone c" and "no_fec (cl_receiver c)" and "rc_first (cl_receiver c)" and "rc_next (cl_receiver c) = fid"
    and "\<forall>b. frb_get (rc_ring (cl_receiver c)) fid = Some b \<longrightarrow> fd_frameId (frame_at (cl_receiver c) b) \<noteq> fid"
    and "0 < pk_size (ep_packet p)" and "pk_size (ep_packet p) \<le> frame_bytes"
    and "pk_size (ep_packet p) \<le> length (pk_data (ep_packet p))"
    and "list_all2 (\<lambda>(env, m) (i, pktSeq, u). length (pk_data u) = 1500 \<and> i < frag_count (pk_size (ep_packet p))
        \<and> fragment_message fid pktSeq p i u = Inr m) ms frags"
    and "fst ` set frags = {..<frag_count (pk_size (ep_packet p))}"
  shows "\<exists>c' a r. client_hears ms c = Inr c' \<and> get_next_frame (cl_receiver c') = (Some a, r)
    \<and> fd_frameId (frame_at r a) = fid \<and> fd_totalSize (frame_at r a) = pk_size (ep_packet p)
    \<and> map (cells (fd_buffer (frame_at r a))) [0..<pk_size (ep_packet p)] = take (pk_size (ep_packet p)) (pk_data (ep_packet p))"
proof -
  let ?data = "take (pk_size (ep_packet p)) (pk_data (ep_packet p))"
  have len: "length ?data = pk_size (ep_packet p)" using assms(8) by simp
  have frag: "list_all2 (\<lambda>pkt f. case pkt of (h, payload, now) \<Rightarrow> is_fragment fid ?data (fst f) h payload) (map as_packet ms) frags"
    using assms(9) unfolding list_all2_map1
    by (rule list_all2_mono) (auto simp: as_packet_def Let_def intro: message_is_fragment [OF _ _ assms(8)])
  have rel: "\<forall>pkt \<in> set (map as_packet ms). relevant fid ?data pkt"
    using list_all2_left [OF frag] by (fastforce simp: relevant_def)
  have del: "delivered fid ?data (map as_packet ms) = {..<frag_count (length ?data)}"
  proof
    show "delivered fid ?data (map as_packet ms) \<subseteq> {..<frag_count (length ?data)}"
      by (auto simp: delivered_def is_fragment_def)
    show "{..<frag_count (length ?data)} \<subseteq> delivered fid ?data (map as_packet ms)"
    proof
      fix i assume "i \<in> {..<frag_count (length ?data)}"
      then have "i \<in> fst ` set frags" using assms(10) unfolding len by simp
      then obtain f where f: "f \<in> set frags" "i = fst f" by blast
      obtain pkt where "pkt \<in> set (map as_packet ms)"
        "case pkt of (h, payload, now) \<Rightarrow> is_fragment fid ?data i h payload"
        using list_all2_right [OF frag f(1)] f(2) by blast
      then show "i \<in> delivered fid ?data (map as_packet ms)" unfolding delivered_def by blast
    qed
  qed
  have wf: "receiver_wf (held (cl_jitter c) + gone) (cl_receiver c)" using assms(1) by (simp add: client_ok_def)
  have "0 < length ?data" "length ?data \<le> frame_bytes" unfolding len using assms(6,7) .
  from assembled_frame [OF wf assms(2-5) this rel del]
  obtain r1 a r2 where d: "deliver (map as_packet ms) (cl_receiver c) = Inr r1" "get_next_frame r1 = (Some a, r2)"
    "fd_frameId (frame_at r2 a) = fid" "fd_totalSize (frame_at r2 a) = length ?data"
    "map (cells (fd_buffer (frame_at r2 a))) [0..<fd_totalSize (frame_at r2 a)] = ?data" by blast
  obtain c' where "client_hears ms c = Inr c'" "cl_receiver c' = r1" using client_hears_deliver [OF d(1)] by blast
  moreover have "fd_totalSize (frame_at r2 a) = pk_size (ep_packet p)" using d(4) unfolding len .
  moreover from this have "map (cells (fd_buffer (frame_at r2 a))) [0..<pk_size (ep_packet p)] = ?data" using d(5) by simp
  ultimately show ?thesis using d(2,3) by blast
qed

text \<open>A frame of three bytes whose only message arrives twice.\<close>

definition waiting_client :: client where
  "waiting_client = (client_new NoSodium ''127.0.0.1'' 0)\<lparr>cl_receiver := started 9\<rparr>"

definition quiet_env :: client_env where
  "quiet_env = \<lparr>ce_receiveTime = 5, ce_wallTime = 5, ce_staleDecrypted = []\<rparr>"

theorem frame_travels_witness:
  "\<exists>m c' a r. fragment_message 9 0 sample_frame 0 (packet_new 1500) = Inr m
    \<and> client_hears [(quiet_env, m), (quiet_env, m)] waiting_client = Inr c'
    \<and> get_next_frame (cl_receiver c') = (Some a, r)
    \<and> map (cells (fd_buffer (frame_at r a))) [0..<3] = [0, 0, 0]"
proof -
  have ok: "client_ok {#} waiting_client"
    using receiver_wf_new [of 2] jb_new_wf [of 10]
    by (simp add: waiting_client_def client_new_def client_ok_def started_def receiver_wf_def frame_at_def)
  have r: "cl_receiver waiting_client = started 9" by (simp add: waiting_client_def)
  have nf: "no_fec (started 9)" by (simp add: no_fec_def started_def receiver_new_def frb_new_def fec_group_new_def)
  have p: "pk_size (ep_packet sample_frame) = 3" "pk_data (ep_packet sample_frame) = [0, 0, 0]"
    by (simp_all add: sample_frame_def packet_new_def numeral_3_eq_3)
  have n: "frag_count 3 = 1" by (simp add: frag_count_def MAX_UDP_PAYLOAD_def)
  obtain m where m: "fragment_message 9 0 sample_frame 0 (packet_new 1500) = Inr m"
    using written_fragment [of "packet_new 1500" sample_frame 0 9 0] p n
    by (auto simp: fragment_message_def packet_new_def)
  have "\<exists>c' a r. client_hears [(quiet_env, m), (quiet_env, m)] waiting_client = Inr c'
      \<and> get_next_frame (cl_receiver c') = (Some a, r)
      \<and> fd_frameId (frame_at r a) = 9 \<and> fd_totalSize (frame_at r a) = pk_size (ep_packet sample_frame)
      \<and> map (cells (fd_buffer (frame_at r a))) [0..<pk_size (ep_packet sample_frame)]
        = take (pk_size (ep_packet sample_frame)) (pk_data (ep_packet sample_frame))"
    by (rule frame_travels [OF ok, where frags = "[(0, 0, packet_new 1500), (0, 0, packet_new 1500)]"])
       (simp_all add: r nf p n m, simp_all add: started_def receiver_new_def frb_new_def frb_get_def frame_bytes_def packet_new_def
          lessThan_Suc)
  then show ?thesis using m unfolding p by fastforce
qed

end
